(* ===== verification/Prelude.thy ===== *)
theory Prelude
  imports Main "HOL-Library.AList" "HOL-Library.List_Lexorder" "HOL-Library.Char_ord"
begin

text \<open>
  The shared vocabulary of the development: instants, results, the error values of the Go packages,
  the outside world every service reads (clock, random identifiers, input/output faults), and the
  generic lemmas on association lists.

  A Go \<^verbatim>\<open>map\<close> is an association list with distinct keys, read by \<^const>\<open>map_of\<close>. The list order is
  the order in which a \<^verbatim>\<open>range\<close> loop of the source meets the entries; since every statement is about
  an arbitrary list, it covers each iteration order the Go runtime may pick. A mutex-protected handler
  is a function from the state to a result and the next state.
\<close>

named_theorems op_defs \<open>definitions of the operations that are unfolded together\<close>
named_theorems frame \<open>what an operation leaves alone\<close>
named_theorems inv_intro \<open>an operation keeps an invariant\<close>

subsection \<open>Instants\<close>

text \<open>A \<^verbatim>\<open>time.Time\<close> is the number of nanoseconds since Go's zero instant (\<^verbatim>\<open>IsZero\<close>).\<close>

type_synonym time = int

definition is_zero :: "time \<Rightarrow> bool" where
  "is_zero t \<longleftrightarrow> t = 0"

subsection \<open>Errors and results\<close>

text \<open>
  The sentinel errors of the packages, with the text their wrapping adds where a caller can tell two
  of them apart. \<open>ErrIO\<close> is any failure of the database driver or the filesystem that is not one
  of the named ones; \<open>ErrStarved\<close> stands for a call that has not returned: a loop that re-rolls a
  random identifier has used every candidate the run supplies.
\<close>

datatype err =
    ErrIO
  | ErrStarved
  | ErrForeignKeyViolation
  | ErrUniqueViolation
  | ErrDefaultExists
  | ErrIdentityMapped string
  | ErrNoRecord string
  | ErrNotFound
  | ErrActive string
  | ErrNoLocalDirectory string
  | ErrProjectUnknown string
  | ErrInvalidUpdate
  | ErrAppForeign
  | ErrTurnPending string
  | ErrLinkFailed err
  | ErrCompensationFailed string err err
  | ErrDirectoryInvalid string
  | ErrDirectoryTaken string
  | ErrNameInvalid
  | ErrSpaceNotFound string
  | ErrDefaultSpace
  | ErrSpaceDirectoryInvalid string
  | ErrSpaceNameInvalid
  | ErrSpaceDeleting string
  | ErrSpaceOwnsTerminals string
  | ErrNotLaunched
  | ErrStillListed string err
  | ErrUnverifiedLaunch string
  | ErrDeleting "(string \<times> err) list"
  | ErrUncertain
  | ErrLaunchModeConflict
  | ErrThreadCreateInvalid
  | ErrRecording err
  | ErrExternal string
  | ErrInboxFull
  | ErrRouteInvalid string
  | ErrNoHandler string
  | ErrForeignRoute string
  | ErrDeadline
  | ErrNotConnected
  | ErrNotConfigured
  | ErrSessionGone
  | ErrVersionNotFound
  | ErrArtifactMissing
  | ErrInvalidPublication
  | ErrPublicationTaken
  | ErrPublicationDeleted
  | ErrStaleBase int int
  | ErrPackage string

subsection \<open>Association lists\<close>

lemma map_of_update [simp]: "map_of (AList.update k v xs) = (map_of xs)(k \<mapsto> v)"
  by (rule update_conv')

lemma map_of_delete [simp]: "map_of (AList.delete k xs) = (map_of xs)(k := None)"
  by (rule delete_conv')

lemma distinct_update_keys [simp]:
  "distinct (map fst xs) \<Longrightarrow> distinct (map fst (AList.update k v xs))"
  by (rule distinct_update)

lemma distinct_delete_keys [simp]:
  "distinct (map fst xs) \<Longrightarrow> distinct (map fst (AList.delete k xs))"
  by (rule distinct_delete)

lemma distinct_filter_keys [simp]:
  "distinct (map fst xs) \<Longrightarrow> distinct (map fst (filter P xs))"
  by (induction xs) auto

lemma map_of_in_set: "map_of xs k = Some v \<Longrightarrow> (k, v) \<in> set xs"
  by (rule map_of_SomeD)

lemma in_set_map_of: "distinct (map fst xs) \<Longrightarrow> (k, v) \<in> set xs \<Longrightarrow> map_of xs k = Some v"
  by simp

lemma map_of_map_snd: "map_of (map (\<lambda>(k, v). (k, f k v)) xs) k = map_option (f k) (map_of xs k)"
  by (induction xs) auto

lemma map_of_filter_value:
  "distinct (map fst xs) \<Longrightarrow>
   map_of (filter (\<lambda>(k, v). P k v) xs) k =
     (case map_of xs k of None \<Rightarrow> None | Some v \<Rightarrow> if P k v then Some v else None)"
  by (induction xs) (auto split: option.splits simp: map_of_eq_None_iff rev_image_eqI)

lemma map_fst_map_snd [simp]: "map fst (map (\<lambda>(k, v). (k, f k v)) xs) = map fst xs"
  by (induction xs) auto

text \<open>The value a Go map read gives: the zero value (here the empty string) for a missing key.\<close>

definition read_string :: "('k \<times> string) list \<Rightarrow> 'k \<Rightarrow> string" where
  "read_string m k = (case map_of m k of None \<Rightarrow> '''' | Some v \<Rightarrow> v)"

subsection \<open>The outside world\<close>

text \<open>
  What a run of the server reads from outside: the clock (\<^verbatim>\<open>Options.Now\<close>), whether an input/output
  operation fails, and the random identifiers of package ids. Each is an arbitrary function of a
  counter, so a theorem about every world is a theorem about every behaviour of the environment.
  \<open>id_tape\<close> holds the candidates \<^verbatim>\<open>ids.New\<close> yields; \<open>long_suffix\<close> the suffixes \<^verbatim>\<open>ids.NewLong\<close> yields.
  \<open>events_log\<close> collects what is published to the hub, oldest first (theory Events refines it to the
  bounded ring).
\<close>

record change_event =
  ev_type :: string
  ev_resource :: string
  ev_id :: string

record world =
  clock :: "nat \<Rightarrow> time"
  ticks :: nat
  fault :: "nat \<Rightarrow> bool"
  io_ops :: nat
  id_tape :: "string list"
  long_suffix :: "nat \<Rightarrow> string"
  longs :: nat
  events_log :: "change_event list"

definition now :: "'a world_scheme \<Rightarrow> time \<times> 'a world_scheme" where
  "now w = (clock w (ticks w), w\<lparr>ticks := Suc (ticks w)\<rparr>)"

definition io_step :: "'a world_scheme \<Rightarrow> bool \<times> 'a world_scheme" where
  "io_step w = (fault w (io_ops w), w\<lparr>io_ops := Suc (io_ops w)\<rparr>)"

definition Publish :: "string \<Rightarrow> string \<Rightarrow> string \<Rightarrow> 'a world_scheme \<Rightarrow> 'a world_scheme" where
  "Publish ty rs i w = w\<lparr>events_log := events_log w @ [\<lparr>ev_type = ty, ev_resource = rs, ev_id = i\<rparr>]\<rparr>"

definition publish_all :: "string \<Rightarrow> string \<Rightarrow> string list \<Rightarrow> 'a world_scheme \<Rightarrow> 'a world_scheme" where
  "publish_all ty rs xs w = fold (Publish ty rs) xs w"

text \<open>\<^verbatim>\<open>at := o.At; if at.IsZero() { at = s.now() }\<close>\<close>

definition observed_at :: "time \<Rightarrow> 'a world_scheme \<Rightarrow> time \<times> 'a world_scheme" where
  "observed_at t w = (if is_zero t then now w else (t, w))"

subsection \<open>State machines\<close>

text \<open>The interface of a machine with an invariant, and what its clients get from it.\<close>

locale machine =
  fixes start :: "'s \<Rightarrow> bool" and step :: "'s \<Rightarrow> 's \<Rightarrow> bool" and invariant :: "'s \<Rightarrow> bool"
  assumes start_inv: "start s \<Longrightarrow> invariant s"
    and step_inv: "step s s' \<Longrightarrow> invariant s \<Longrightarrow> invariant s'"
begin

lemma steps_inv: "step\<^sup>*\<^sup>* s s' \<Longrightarrow> invariant s \<Longrightarrow> invariant s'"
  by (induction rule: rtranclp_induct) (auto intro: step_inv)

lemma reach_inv: "start s \<Longrightarrow> step\<^sup>*\<^sup>* s s' \<Longrightarrow> invariant s'"
  using steps_inv start_inv by blast

lemma reach_induct:
  assumes "start s" and "step\<^sup>*\<^sup>* s s'" and "\<And>s. start s \<Longrightarrow> P s"
    and "\<And>s s'. step s s' \<Longrightarrow> invariant s \<Longrightarrow> P s \<Longrightarrow> P s'"
  shows "P s'"
  using assms(2)
proof (induction rule: rtranclp_induct)
  case base
  then show ?case using assms(1,3) by blast
next
  case (step y z)
  then show ?case using assms(1,4) reach_inv by blast
qed

end

end
