(* ===== verification/Api.thy ===== *)
theory Api
  imports Prelude
begin

text \<open>
  The wire vocabulary of \<^verbatim>\<open>internal/api\<close> that the domains share: thread statuses, turn states, terminal
  statuses and the three-state field of a merge patch. A Go string type with named constants is a
  datatype with those constants, the empty string, and any other text.
\<close>

datatype thread_status =
    ThreadUnknown
  | ThreadIdle
  | ThreadWorking
  | ThreadWaitingForInput
  | ThreadWaitingForPermission
  | ThreadError
  | ThreadNone
  | ThreadOther string

datatype turn_state =
    TurnUnknown
  | TurnRunning
  | TurnCompleted
  | TurnFailed
  | TurnInterrupted
  | TurnNone
  | TurnOther string

text \<open>\<^verbatim>\<open>TurnState.Ended\<close>: completed, failed, or interrupted.\<close>

fun Ended :: "turn_state \<Rightarrow> bool" where
  "Ended TurnCompleted = True"
| "Ended TurnFailed = True"
| "Ended TurnInterrupted = True"
| "Ended _ = False"

datatype terminal_status =
    TerminalRunning
  | TerminalExited
  | TerminalUnreachable
  | TerminalMissing

text \<open>\<^verbatim>\<open>Optional[T]\<close>: a field left out of the body, an explicit null, or a value.\<close>

datatype 'a patch = Unset | Clear | Put 'a

fun Null :: "'a patch \<Rightarrow> bool" where
  "Null Clear = True"
| "Null _ = False"

fun patch_set :: "'a patch \<Rightarrow> bool" where
  "patch_set Unset = False"
| "patch_set _ = True"

text \<open>The change vocabulary of \<^verbatim>\<open>/v1/events\<close> the modelled domains publish.\<close>

definition EventTerminalCreated :: string where "EventTerminalCreated = ''terminal.created''"
definition EventTerminalUpdated :: string where "EventTerminalUpdated = ''terminal.updated''"
definition EventTerminalDeleted :: string where "EventTerminalDeleted = ''terminal.deleted''"
definition EventProjectCreated :: string where "EventProjectCreated = ''project.created''"
definition EventProjectUpdated :: string where "EventProjectUpdated = ''project.updated''"
definition EventProjectDeleted :: string where "EventProjectDeleted = ''project.deleted''"
definition EventThreadCreated :: string where "EventThreadCreated = ''thread.created''"
definition EventThreadUpdated :: string where "EventThreadUpdated = ''thread.updated''"
definition EventThreadDeleted :: string where "EventThreadDeleted = ''thread.deleted''"
definition EventSpaceCreated :: string where "EventSpaceCreated = ''space.created''"
definition EventSpaceUpdated :: string where "EventSpaceUpdated = ''space.updated''"
definition EventSpaceDeleted :: string where "EventSpaceDeleted = ''space.deleted''"

end
