(* ===== verification/Records.thy ===== *)
theory Records
  imports Api
begin

text \<open>
  The records of \<^verbatim>\<open>internal/store\<close> in domain terms and the observation structs of \<^verbatim>\<open>internal/threads\<close>.
  A pointer that marks a nullable fact is an option; a nullable string column that the code reads back
  as \<^verbatim>\<open>""\<close> is a string. Field names are the column names of the schema.
\<close>

subsection \<open>Threads\<close>

record turn_record =
  turn_id :: string
  turn_provider_id :: string
  turn_state :: turn_state
  turn_started_at :: time
  turn_completed_at :: "time option"
  turn_error :: string
  turn_response :: string

record pending_turn_record =
  pending_turn_id :: string
  pending_turn_prior :: string
  pending_turn_submitted_at :: time

record thread_record =
  thread_id :: string
  integration_id :: string
  app_id :: string
  agent_id :: string
  initial_directory :: string
  project_id :: string
  terminal_id :: "string option"
  title :: string
  title_user_set :: bool
  model :: string
  effort :: string
  cwd :: string
  permission_mode :: string
  status :: thread_status
  status_detail :: string
  last_evidence_at :: "time option"
  archived :: bool
  archived_at :: "time option"
  created_at :: time
  updated_at :: time
  turn :: "turn_record option"
  pending :: "pending_turn_record option"

text \<open>The private identity key: (integration, provider conversation id).\<close>

type_synonym identity_key = "string \<times> string"

subsection \<open>Terminals, spaces and projects\<close>

record terminal_record =
  term_id :: string
  term_space :: string
  term_name :: string
  term_directory :: string
  term_command :: string
  term_app :: string
  term_created_at :: time
  term_updated_at :: time
  term_stop_requested_at :: "time option"
  term_exited_at :: "time option"
  term_exit_code :: "int option"

record space_record =
  space_id :: string
  space_name :: string
  space_directory :: string
  space_default :: bool
  space_created_at :: time
  space_updated_at :: time

record project_record =
  proj_id :: string
  proj_name :: string
  proj_directory :: string
  proj_created_at :: time
  proj_updated_at :: time

subsection \<open>What Integrations report\<close>

record metadata =
  md_title :: string
  md_model :: string
  md_effort :: string
  md_cwd :: string
  md_permission_mode :: string

record turn_observation =
  to_provider_id :: string
  to_state :: turn_state
  to_started_at :: time
  to_completed_at :: time
  to_error :: string
  to_response :: string

record session_observation =
  so_integration :: string
  so_app :: string
  so_agent :: string
  so_provider :: string
  so_terminal :: string
  so_directory :: string
  so_at :: time
  so_status :: thread_status
  so_detail :: string
  so_turn :: "turn_observation option"
  so_metadata :: metadata

record status_observation =
  sto_integration :: string
  sto_provider :: string
  sto_at :: time
  sto_status :: thread_status
  sto_detail :: string
  sto_turn :: "turn_observation option"
  sto_metadata :: metadata

record external_observation =
  eo_integration :: string
  eo_provider :: string
  eo_directory :: string
  eo_at :: time
  eo_status :: thread_status
  eo_agent :: string
  eo_title :: string
  eo_detail :: string
  eo_turn :: "turn_observation option"
  eo_metadata :: metadata

text \<open>What \<^verbatim>\<open>Resumer.Resume\<close> is asked for (\<^verbatim>\<open>ResumeRequest\<close>).\<close>

record resume_request =
  rr_integration :: string
  rr_app :: string
  rr_provider :: string

end
