(* ===== verification/Turns.thy ===== *)
theory Turns
  imports Records
begin

text \<open>
  \<^verbatim>\<open>internal/threads/turns.go\<close>: the status ranking, the latest-turn model and the inactive coercion, as
  functions on a thread record. The Go code mutates the record it is given and reports whether
  anything changed; the model returns the record and the report. \<^verbatim>\<open>ownTurn\<close>, which copies a turn before
  writing to it, is the identity here because values are never shared.
\<close>

subsection \<open>The status ranking\<close>

fun ranks :: "thread_status \<Rightarrow> nat option" where
  "ranks ThreadError = Some 5"
| "ranks ThreadWaitingForInput = Some 4"
| "ranks ThreadWaitingForPermission = Some 3"
| "ranks ThreadWorking = Some 2"
| "ranks ThreadUnknown = Some 1"
| "ranks ThreadIdle = Some 0"
| "ranks _ = None"

definition rank_read :: "thread_status \<Rightarrow> nat" where
  "rank_read st = (case ranks st of None \<Rightarrow> 0 | Some n \<Rightarrow> n)"

definition rank_step :: "thread_status \<Rightarrow> thread_status \<Rightarrow> thread_status" where
  "rank_step st best =
     (let st = (if ranks st = None then ThreadUnknown else st)
      in if rank_read st > rank_read best then st else best)"

definition Rank :: "thread_status list \<Rightarrow> thread_status" where
  "Rank evidence = (if evidence = [] then ThreadUnknown else fold rank_step evidence ThreadIdle)"

fun isLive :: "thread_status \<Rightarrow> bool" where
  "isLive ThreadWorking = True"
| "isLive ThreadWaitingForInput = True"
| "isLive ThreadWaitingForPermission = True"
| "isLive _ = False"

subsection \<open>Turns\<close>

text \<open>
  \<^verbatim>\<open>updateTurn\<close>: reported times win, a missing start is the observation time, a turn that ends without
  a reported end ends now; the error belongs to a failed turn and the response to an ended one.
\<close>

definition updateTurn ::
  "turn_record \<Rightarrow> turn_observation \<Rightarrow> turn_state \<Rightarrow> time \<Rightarrow> turn_record \<times> bool" where
  "updateTurn before obs st at =
     (let started =
            (if \<not> is_zero (to_started_at obs) then to_started_at obs
             else if is_zero (turn_started_at before) then at
             else turn_started_at before);
          completed =
            (if st = TurnRunning \<or> st = TurnUnknown then None
             else if \<not> is_zero (to_completed_at obs) then Some (to_completed_at obs)
             else if turn_completed_at before = None \<or> turn_state before \<noteq> st then Some at
             else turn_completed_at before);
          after = before\<lparr>turn_state := st, turn_started_at := started, turn_completed_at := completed,
                         turn_error := (if st = TurnFailed then to_error obs else ''''),
                         turn_response := (if Ended st then to_response obs else '''')\<rparr>
      in (after, after \<noteq> before))"

text \<open>\<^verbatim>\<open>adoptResponse\<close>: a response reported for a turn that already ended.\<close>

definition adoptResponse :: "turn_record \<Rightarrow> turn_state \<Rightarrow> string \<Rightarrow> turn_record \<times> bool" where
  "adoptResponse t st response =
     (if \<not> Ended st \<or> response = '''' \<or> response = turn_response t then (t, False)
      else (t\<lparr>turn_response := response\<rparr>, True))"

definition new_turn :: "string \<Rightarrow> string \<Rightarrow> turn_record" where
  "new_turn i provider =
     \<lparr>turn_id = i, turn_provider_id = provider, turn_state = TurnNone, turn_started_at = 0,
      turn_completed_at = None, turn_error = '''', turn_response = ''''\<rparr>"

definition same_turn :: "turn_observation \<Rightarrow> turn_state \<Rightarrow> turn_record \<Rightarrow> bool" where
  "same_turn obs st current \<longleftrightarrow>
     (to_provider_id obs \<noteq> '''' \<and> to_provider_id obs = turn_provider_id current)
     \<or> (to_provider_id obs = '''' \<and> turn_provider_id current = ''''
         \<and> turn_state current = TurnRunning \<and> st \<noteq> TurnRunning)"

text \<open>
  \<^verbatim>\<open>applyTurn\<close>. \<open>fresh\<close> is the identifier \<^verbatim>\<open>ids.NewLong\<close> yields if a new turn has to be minted.
  \<open>apply_latest\<close> is the part after its first branch (a reported turn starts the pending submission).
\<close>

definition replace_turn ::
  "string \<Rightarrow> thread_record \<Rightarrow> turn_observation \<Rightarrow> turn_state \<Rightarrow> time \<Rightarrow> thread_record" where
  "replace_turn i r obs st at =
     r\<lparr>turn := Some (fst (updateTurn (new_turn i (to_provider_id obs)) obs st at))\<rparr>"

definition apply_same ::
  "turn_record \<Rightarrow> turn_observation \<Rightarrow> turn_state \<Rightarrow> time \<Rightarrow> turn_record \<times> bool" where
  "apply_same current obs st at =
     (if Ended (turn_state current) then adoptResponse current st (to_response obs)
      else updateTurn current obs st at)"

definition apply_latest ::
  "string \<Rightarrow> thread_record \<Rightarrow> turn_observation \<Rightarrow> turn_state \<Rightarrow> time \<Rightarrow> thread_record \<times> bool" where
  "apply_latest fresh r obs st at =
     (case turn r of
        None \<Rightarrow> (replace_turn fresh r obs st at, True)
      | Some current \<Rightarrow>
          if same_turn obs st current
          then (r\<lparr>turn := Some (fst (apply_same current obs st at))\<rparr>, snd (apply_same current obs st at))
          else (replace_turn fresh r obs st at, True))"

definition applyTurn ::
  "string \<Rightarrow> thread_record \<Rightarrow> turn_observation \<Rightarrow> time \<Rightarrow> thread_record \<times> bool" where
  "applyTurn fresh r obs at =
     (let st = (if to_state obs = TurnNone then TurnUnknown else to_state obs)
      in case pending r of
           None \<Rightarrow> apply_latest fresh r obs st at
         | Some p \<Rightarrow>
             if to_provider_id obs \<noteq> '''' \<and> to_provider_id obs \<noteq> pending_turn_prior p
             then ((replace_turn (pending_turn_id p) r obs st at)\<lparr>pending := None\<rparr>, True)
             else apply_latest fresh r obs st at)"

subsection \<open>Turn and status together\<close>

definition settle_running ::
  "thread_record \<Rightarrow> turn_observation option \<Rightarrow> time \<Rightarrow> thread_record \<times> bool" where
  "settle_running r reported at =
     (case turn r of
        None \<Rightarrow> (r, False)
      | Some t \<Rightarrow>
          if turn_state t \<noteq> TurnRunning then (r, False)
          else if status r = ThreadError
          then (r\<lparr>turn := Some (t\<lparr>turn_state := TurnFailed, turn_completed_at := Some at,
                    turn_error := (if turn_error t = '''' then status_detail r else turn_error t)\<rparr>)\<rparr>, True)
          else if (status r = ThreadIdle \<or> status r = ThreadUnknown)
               \<and> (case reported of None \<Rightarrow> True | Some obs \<Rightarrow> to_state obs \<noteq> TurnRunning)
          then (r\<lparr>turn := Some (t\<lparr>turn_state := TurnUnknown, turn_completed_at := None\<rparr>)\<rparr>, True)
          else (r, False))"

definition settle_pending :: "thread_record \<Rightarrow> time \<Rightarrow> thread_record \<times> bool" where
  "settle_pending r at =
     (case pending r of
        None \<Rightarrow> (r, False)
      | Some p \<Rightarrow>
          if status r = ThreadError
          then (r\<lparr>turn := Some \<lparr>turn_id = pending_turn_id p, turn_provider_id = '''', turn_state = TurnFailed,
                               turn_started_at = pending_turn_submitted_at p, turn_completed_at = Some at,
                               turn_error = status_detail r, turn_response = ''''\<rparr>,
                  pending := None\<rparr>, True)
          else (r, False))"

text \<open>\<^verbatim>\<open>settleTurn\<close>: a fault fails the running turn and the pending submission; rest ends a running turn unobserved.\<close>

definition settleTurn ::
  "thread_record \<Rightarrow> turn_observation option \<Rightarrow> time \<Rightarrow> thread_record \<times> bool" where
  "settleTurn r reported at =
     (let (r1, c1) = settle_running r reported at;
          (r2, c2) = settle_pending r1 at
      in (r2, c1 \<or> c2))"

text \<open>\<^verbatim>\<open>coerceRecord\<close>: the claims only a live observation can back become unknown.\<close>

definition coerceRecord :: "thread_record \<Rightarrow> thread_record \<times> bool" where
  "coerceRecord r =
     (let (r1, c1) = (if isLive (status r) then (r\<lparr>status := ThreadUnknown\<rparr>, True) else (r, False))
      in case turn r1 of
           None \<Rightarrow> (r1, c1)
         | Some t \<Rightarrow>
             if turn_state t = TurnRunning
             then (r1\<lparr>turn := Some (t\<lparr>turn_state := TurnUnknown, turn_completed_at := None\<rparr>)\<rparr>, True)
             else (r1, c1))"

definition apply_status_claim ::
  "thread_record \<Rightarrow> thread_status \<Rightarrow> string \<Rightarrow> bool \<Rightarrow> thread_record \<times> bool" where
  "apply_status_claim r st detail act =
     (if st = ThreadNone then (r, False)
      else if isLive st \<and> \<not> act then (r, False)
      else (let detail = (if st \<noteq> ThreadError then '''' else detail)
            in (r\<lparr>status := st, status_detail := detail\<rparr>,
                status r \<noteq> st \<or> status_detail r \<noteq> detail)))"

definition apply_turn_report ::
  "string \<Rightarrow> thread_record \<Rightarrow> turn_observation option \<Rightarrow> time \<Rightarrow> bool \<Rightarrow> thread_record \<times> bool" where
  "apply_turn_report fresh r tobs at act =
     (case tobs of
        None \<Rightarrow> (r, False)
      | Some obs \<Rightarrow>
          if to_state obs = TurnRunning \<and> \<not> act then (r, False)
          else applyTurn fresh r obs at)"

text \<open>
  The record part of \<^verbatim>\<open>applyStatus\<close>: the status claim, then the turn report, then the settlement. A
  live status or a running turn is accepted only while something holds the thread (\<open>act\<close>).
\<close>

definition apply_evidence ::
  "string \<Rightarrow> thread_record \<Rightarrow> thread_status \<Rightarrow> string \<Rightarrow> turn_observation option \<Rightarrow> time \<Rightarrow> bool
     \<Rightarrow> thread_record \<times> bool" where
  "apply_evidence fresh r st detail tobs at act =
     (let (r1, c1) = apply_status_claim r st detail act;
          (r2, c2) = apply_turn_report fresh r1 tobs at act;
          (r3, c3) = settleTurn r2 tobs at
      in (r3, c1 \<or> c2 \<or> c3))"

text \<open>\<^verbatim>\<open>applyMetadata\<close>: an observed title fills an untitled thread once; empty fields clear nothing.\<close>

definition meta_set :: "string \<Rightarrow> string \<Rightarrow> string" where
  "meta_set old new = (if new \<noteq> '''' then new else old)"

definition applyMetadata :: "thread_record \<Rightarrow> metadata \<Rightarrow> thread_record \<times> bool" where
  "applyMetadata r m =
     (let r' = r\<lparr>title := (if md_title m \<noteq> '''' \<and> \<not> title_user_set r \<and> title r = '''' then md_title m else title r),
                 model := meta_set (model r) (md_model m),
                 effort := meta_set (effort r) (md_effort m),
                 cwd := meta_set (cwd r) (md_cwd m),
                 permission_mode := meta_set (permission_mode r) (md_permission_mode m)\<rparr>
      in (r', r' \<noteq> r))"

subsection \<open>Reports of change are sound\<close>

text \<open>An operation that reports no change returns the record it was given.\<close>

lemma adoptResponse_unchanged: "snd (adoptResponse t st resp) \<or> fst (adoptResponse t st resp) = t"
  by (simp add: adoptResponse_def)

lemma updateTurn_unchanged: "snd (updateTurn t obs st at) \<or> fst (updateTurn t obs st at) = t"
  by (simp add: updateTurn_def Let_def del: turn_record.ext_inject)

lemma apply_same_unchanged: "snd (apply_same t obs st at) \<or> fst (apply_same t obs st at) = t"
  by (simp add: apply_same_def adoptResponse_unchanged updateTurn_unchanged)

lemma apply_latest_unchanged: "snd (apply_latest fresh r obs st at) \<or> fst (apply_latest fresh r obs st at) = r"
proof (cases "turn r")
  case None
  then show ?thesis by (simp add: apply_latest_def)
next
  case (Some t)
  show ?thesis
  proof (cases "same_turn obs st t \<and> \<not> snd (apply_same t obs st at)")
    case True
    then have "fst (apply_same t obs st at) = t"
      using apply_same_unchanged [of t obs st at] by simp
    moreover have "r\<lparr>turn := Some t\<rparr> = r" using Some by simp
    ultimately show ?thesis using True Some by (simp add: apply_latest_def)
  next
    case False
    then show ?thesis using Some by (auto simp: apply_latest_def)
  qed
qed

lemma applyTurn_unchanged: "snd (applyTurn fresh r obs at) \<or> fst (applyTurn fresh r obs at) = r"
  by (cases "pending r") (simp_all add: applyTurn_def Let_def apply_latest_unchanged)

lemma settle_running_unchanged: "snd (settle_running r tobs at) \<or> fst (settle_running r tobs at) = r"
  by (cases "turn r") (simp_all add: settle_running_def)

lemma settle_pending_unchanged: "snd (settle_pending r at) \<or> fst (settle_pending r at) = r"
  by (cases "pending r") (simp_all add: settle_pending_def)

lemma settleTurn_unchanged: "snd (settleTurn r tobs at) \<or> fst (settleTurn r tobs at) = r"
  using settle_running_unchanged [of r tobs at] settle_pending_unchanged [of "fst (settle_running r tobs at)" at]
  by (auto simp: settleTurn_def case_prod_beta Let_def)

lemma coerceRecord_unchanged: "snd (coerceRecord r) \<or> fst (coerceRecord r) = r"
  by (cases "turn r") (simp_all add: coerceRecord_def Let_def)

lemma apply_status_claim_unchanged:
  "snd (apply_status_claim r st detail act) \<or> fst (apply_status_claim r st detail act) = r"
proof (cases "status r \<noteq> st \<or> status_detail r \<noteq> (if st \<noteq> ThreadError then '''' else detail)")
  case True
  then show ?thesis by (simp add: apply_status_claim_def Let_def)
next
  case False
  then have "r\<lparr>status := st, status_detail := (if st \<noteq> ThreadError then '''' else detail)\<rparr> = r"
    by simp
  with False show ?thesis by (simp add: apply_status_claim_def Let_def)
qed

lemma apply_turn_report_unchanged:
  "snd (apply_turn_report fresh r tobs at act) \<or> fst (apply_turn_report fresh r tobs at act) = r"
  by (cases tobs) (simp_all add: apply_turn_report_def applyTurn_unchanged)

lemma apply_evidence_unchanged:
  "snd (apply_evidence fresh r st detail tobs at act) \<or> fst (apply_evidence fresh r st detail tobs at act) = r"
  using apply_status_claim_unchanged [of r st detail act]
    apply_turn_report_unchanged [of fresh "fst (apply_status_claim r st detail act)" tobs at act]
    settleTurn_unchanged [of "fst (apply_turn_report fresh (fst (apply_status_claim r st detail act)) tobs at act)" tobs at]
  by (auto simp: apply_evidence_def Let_def case_prod_beta)

lemma applyMetadata_unchanged: "snd (applyMetadata r m) \<or> fst (applyMetadata r m) = r"
  by (simp add: applyMetadata_def Let_def del: thread_record.ext_inject)

subsection \<open>Well-formed turns and records\<close>

text \<open>
  What \<^verbatim>\<open>api/thread.go\<close> promises of a turn: an error only on a failed turn, a response only on an ended
  one, a completion time exactly when the turn is over.
\<close>

definition wf_turn :: "turn_record \<Rightarrow> bool" where
  "wf_turn t \<longleftrightarrow>
     (turn_error t \<noteq> '''' \<longrightarrow> turn_state t = TurnFailed)
     \<and> (turn_response t \<noteq> '''' \<longrightarrow> Ended (turn_state t))
     \<and> (turn_completed_at t = None \<longleftrightarrow> turn_state t = TurnRunning \<or> turn_state t = TurnUnknown)
     \<and> turn_state t \<noteq> TurnNone"

text \<open>
  What the domain keeps of a record: a detail only with an error status, well-formed turns, no running
  turn and no pending submission on a faulted session, an archive time exactly when archived.
\<close>

definition turn_running :: "thread_record \<Rightarrow> bool" where
  "turn_running r \<longleftrightarrow> (case turn r of None \<Rightarrow> False | Some t \<Rightarrow> turn_state t = TurnRunning)"

definition wf_thread :: "thread_record \<Rightarrow> bool" where
  "wf_thread r \<longleftrightarrow>
     (status r \<noteq> ThreadError \<longrightarrow> status_detail r = '''')
     \<and> pred_option wf_turn (turn r)
     \<and> (status r = ThreadError \<longrightarrow> pending r = None \<and> \<not> turn_running r)
     \<and> (archived r \<longleftrightarrow> archived_at r \<noteq> None)
     \<and> status r \<noteq> ThreadNone"

text \<open>The same without the settlement clause: what holds between the status claim and the settlement.\<close>

definition wf_loose :: "thread_record \<Rightarrow> bool" where
  "wf_loose r \<longleftrightarrow>
     (status r \<noteq> ThreadError \<longrightarrow> status_detail r = '''')
     \<and> pred_option wf_turn (turn r)
     \<and> (archived r \<longleftrightarrow> archived_at r \<noteq> None)
     \<and> status r \<noteq> ThreadNone"

lemma wf_thread_loose: "wf_thread r \<Longrightarrow> wf_loose r"
  by (simp add: wf_thread_def wf_loose_def)

lemma updateTurn_wf: "st \<noteq> TurnNone \<Longrightarrow> wf_turn (fst (updateTurn t obs st at))"
  by (auto simp: wf_turn_def updateTurn_def Let_def)

lemma wf_turn_response: "wf_turn t \<Longrightarrow> Ended (turn_state t) \<Longrightarrow> wf_turn (t\<lparr>turn_response := resp\<rparr>)"
  by (simp add: wf_turn_def)

lemma apply_same_wf: "wf_turn t \<Longrightarrow> st \<noteq> TurnNone \<Longrightarrow> wf_turn (fst (apply_same t obs st at))"
  by (simp add: apply_same_def updateTurn_wf adoptResponse_def wf_turn_response)

lemma applyTurn_wf: "wf_loose r \<Longrightarrow> wf_loose (fst (applyTurn fresh r obs at))"
  by (auto simp: wf_loose_def applyTurn_def apply_latest_def replace_turn_def Let_def updateTurn_wf apply_same_wf
      split: option.splits)

lemma apply_status_claim_wf: "wf_loose r \<Longrightarrow> wf_loose (fst (apply_status_claim r st detail act))"
  by (auto simp: wf_loose_def apply_status_claim_def Let_def)

lemma apply_turn_report_wf: "wf_loose r \<Longrightarrow> wf_loose (fst (apply_turn_report fresh r tobs at act))"
  by (auto simp: apply_turn_report_def applyTurn_wf split: option.splits)

lemma settle_running_status [simp]: "status (fst (settle_running r tobs at)) = status r"
  by (cases "turn r") (simp_all add: settle_running_def)

lemma wf_turn_running: "wf_turn t \<Longrightarrow> turn_state t = TurnRunning \<Longrightarrow> turn_error t = '''' \<and> turn_response t = ''''"
  by (auto simp: wf_turn_def)

lemma wf_loose_turn: "wf_loose r \<Longrightarrow> wf_turn t \<Longrightarrow> wf_loose (r\<lparr>turn := Some t\<rparr>)"
  by (simp add: wf_loose_def)

lemma wf_loose_the_turn: "wf_loose r \<Longrightarrow> turn r = Some t \<Longrightarrow> wf_turn t"
  by (simp add: wf_loose_def)

lemma wf_turn_failed:
  assumes "wf_turn t" and "turn_state t = TurnRunning"
  shows "wf_turn (t\<lparr>turn_state := TurnFailed, turn_completed_at := Some at, turn_error := e\<rparr>)"
  using wf_turn_running [OF assms] by (simp add: wf_turn_def)

lemma wf_turn_unobserved:
  assumes "wf_turn t" and "turn_state t = TurnRunning"
  shows "wf_turn (t\<lparr>turn_state := TurnUnknown, turn_completed_at := None\<rparr>)"
  using wf_turn_running [OF assms] by (simp add: wf_turn_def)

lemma settle_running_wf:
  assumes wf: "wf_loose r"
  shows "wf_loose (fst (settle_running r tobs at))"
proof (cases "turn r")
  case (Some t)
  then have "wf_turn t" by (rule wf_loose_the_turn [OF wf])
  with Some wf show ?thesis
    by (simp add: settle_running_def wf_loose_turn wf_turn_failed wf_turn_unobserved)
qed (simp add: settle_running_def wf)

lemma settle_running_error: "status r = ThreadError \<Longrightarrow> \<not> turn_running (fst (settle_running r tobs at))"
  by (cases "turn r") (simp_all add: settle_running_def turn_running_def)

lemma settle_pending_wf:
  "wf_loose r \<Longrightarrow> status r = ThreadError \<longrightarrow> \<not> turn_running r \<Longrightarrow> wf_thread (fst (settle_pending r at))"
  by (cases "pending r"; cases "status r = ThreadError")
    (simp_all add: settle_pending_def wf_loose_def wf_thread_def wf_turn_def turn_running_def)

lemma settleTurn_wf: "wf_loose r \<Longrightarrow> wf_thread (fst (settleTurn r tobs at))"
  using settle_running_wf [of r tobs at] settle_pending_wf [of "fst (settle_running r tobs at)" at]
    settle_running_error [of r tobs at]
  by (simp add: settleTurn_def case_prod_beta Let_def)

lemma apply_evidence_wf [inv_intro]:
  "wf_loose r \<Longrightarrow> wf_thread (fst (apply_evidence fresh r st detail tobs at act))"
  using settleTurn_wf [OF apply_turn_report_wf [OF apply_status_claim_wf]]
  by (simp add: apply_evidence_def Let_def case_prod_beta)

lemma wf_thread_turn:
  "wf_thread r \<Longrightarrow> wf_turn t \<Longrightarrow> turn_state t \<noteq> TurnRunning \<Longrightarrow> wf_thread (r\<lparr>turn := Some t\<rparr>)"
  by (simp add: wf_thread_def turn_running_def)

lemma wf_thread_the_turn: "wf_thread r \<Longrightarrow> turn r = Some t \<Longrightarrow> wf_turn t"
  by (simp add: wf_thread_def)

lemma wf_thread_unknown: "wf_thread r \<Longrightarrow> isLive (status r) \<Longrightarrow> wf_thread (r\<lparr>status := ThreadUnknown\<rparr>)"
  by (cases "status r") (simp_all add: wf_thread_def)

lemma coerceRecord_wf [inv_intro]:
  assumes wf: "wf_thread r"
  shows "wf_thread (fst (coerceRecord r))"
proof -
  define r1 where "r1 = (if isLive (status r) then r\<lparr>status := ThreadUnknown\<rparr> else r)"
  have r1: "wf_thread r1" using wf wf_thread_unknown by (simp add: r1_def)
  have eq: "fst (coerceRecord r) =
      (case turn r of None \<Rightarrow> r1 | Some t \<Rightarrow> if turn_state t = TurnRunning
         then r1\<lparr>turn := Some (t\<lparr>turn_state := TurnUnknown, turn_completed_at := None\<rparr>)\<rparr> else r1)"
    by (cases "turn r") (simp_all add: coerceRecord_def Let_def r1_def)
  show ?thesis
  proof (cases "turn r")
    case None
    then show ?thesis using r1 eq by simp
  next
    case (Some t)
    then have "wf_turn t" by (rule wf_thread_the_turn [OF wf])
    with Some r1 show ?thesis
      unfolding eq by (simp add: wf_thread_turn wf_turn_unobserved)
  qed
qed

lemma applyMetadata_wf [inv_intro]: "wf_thread r \<Longrightarrow> wf_thread (fst (applyMetadata r m))"
  by (simp add: wf_thread_def applyMetadata_def Let_def turn_running_def)

end
