(* ===== verification/Store.thy ===== *)
theory Store
  imports Records "HOL-Library.Product_Lexorder"
begin

text \<open>
  \<^verbatim>\<open>internal/store\<close>: the tables the domains keep and the repository operations over them. A table is an
  association list from the primary key to the record; each operation is one SQL statement (or, for
  \<open>Threads_InsertObserved\<close>, one transaction) of \<^verbatim>\<open>queries.sql\<close> under the constraints of the migrations:
  primary keys, the one-default index on spaces, the unique project directory, and the foreign keys
  threads.project\_id and threads.terminal\_id (ON DELETE SET NULL), thread\_identities.thread\_id (ON
  DELETE CASCADE) and terminals.space\_id (no action, so the delete is refused).

  Every operation first meets the environment: \<^const>\<open>io_step\<close> says whether the driver fails, in which
  case nothing is written and the caller gets \<^const>\<open>ErrIO\<close>. Timestamp columns hold the instant itself.
\<close>

record db_world = world +
  thread_rows :: "(string \<times> thread_record) list"
  identity_rows :: "(identity_key \<times> string) list"
  terminal_rows :: "(string \<times> terminal_record) list"
  space_rows :: "(string \<times> space_record) list"
  project_rows :: "(string \<times> project_record) list"

definition has_key :: "('k \<times> 'v) list \<Rightarrow> 'k \<Rightarrow> bool" where
  "has_key xs k \<longleftrightarrow> map_of xs k \<noteq> None"

subsection \<open>Threads\<close>

definition project_fk :: "'a db_world_scheme \<Rightarrow> string \<Rightarrow> bool" where
  "project_fk s p \<longleftrightarrow> p = '''' \<or> has_key (project_rows s) p"

definition terminal_fk :: "'a db_world_scheme \<Rightarrow> string option \<Rightarrow> bool" where
  "terminal_fk s t \<longleftrightarrow> (case t of None \<Rightarrow> True | Some i \<Rightarrow> has_key (terminal_rows s) i)"

definition Threads_InsertObserved ::
  "thread_record \<Rightarrow> identity_key \<Rightarrow> 'a db_world_scheme \<Rightarrow> (err + bool) \<times> 'a db_world_scheme" where
  "Threads_InsertObserved r key s =
     (let (failed, s) = io_step s
      in if failed then (Inl ErrIO, s)
         else if has_key (thread_rows s) (thread_id r) then (Inr False, s)
         else if \<not> (project_fk s (project_id r) \<and> terminal_fk s (terminal_id r))
         then (Inl ErrForeignKeyViolation, s)
         else if has_key (identity_rows s) key then (Inl (ErrIdentityMapped (thread_id r)), s)
         else (Inr True, s\<lparr>thread_rows := AList.update (thread_id r) r (thread_rows s),
                           identity_rows := AList.update key (thread_id r) (identity_rows s)\<rparr>))"

text \<open>\<^verbatim>\<open>UPDATE threads\<close> writes every mutable column; id, integration, App, origin directory and creation time stay.\<close>

definition write_mutable :: "thread_record \<Rightarrow> thread_record \<Rightarrow> thread_record" where
  "write_mutable old r =
     r\<lparr>integration_id := integration_id old, app_id := app_id old,
       initial_directory := initial_directory old, created_at := created_at old\<rparr>"

definition Threads_Update ::
  "thread_record \<Rightarrow> 'a db_world_scheme \<Rightarrow> (err + bool) \<times> 'a db_world_scheme" where
  "Threads_Update r s =
     (let (failed, s) = io_step s
      in if failed then (Inl ErrIO, s)
         else case map_of (thread_rows s) (thread_id r) of
                None \<Rightarrow> (Inr False, s)
              | Some old \<Rightarrow>
                  if \<not> (project_fk s (project_id r) \<and> terminal_fk s (terminal_id r))
                  then (Inl ErrForeignKeyViolation, s)
                  else (Inr True, s\<lparr>thread_rows :=
                          AList.update (thread_id r) (write_mutable old r) (thread_rows s)\<rparr>))"

definition Threads_AssignProject ::
  "string \<Rightarrow> string \<Rightarrow> time \<Rightarrow> 'a db_world_scheme \<Rightarrow> (err + bool) \<times> 'a db_world_scheme" where
  "Threads_AssignProject i p at s =
     (let (failed, s) = io_step s
      in if failed then (Inl ErrIO, s)
         else case map_of (thread_rows s) i of
                None \<Rightarrow> (Inr False, s)
              | Some old \<Rightarrow>
                  if project_id old \<noteq> '''' then (Inr False, s)
                  else if \<not> project_fk s p then (Inl ErrForeignKeyViolation, s)
                  else (Inr True, s\<lparr>thread_rows :=
                          AList.update i (old\<lparr>project_id := p, updated_at := at\<rparr>) (thread_rows s)\<rparr>))"

definition Threads_List ::
  "'a db_world_scheme \<Rightarrow> (err + thread_record list) \<times> 'a db_world_scheme" where
  "Threads_List s =
     (let (failed, s) = io_step s
      in if failed then (Inl ErrIO, s)
         else (Inr (sort_key (\<lambda>r. (created_at r, thread_id r)) (map snd (thread_rows s))), s))"

definition Threads_ListIdentities ::
  "'a db_world_scheme \<Rightarrow> (err + (identity_key \<times> string) list) \<times> 'a db_world_scheme" where
  "Threads_ListIdentities s =
     (let (failed, s) = io_step s
      in if failed then (Inl ErrIO, s) else (Inr (identity_rows s), s))"

definition Threads_Delete :: "string \<Rightarrow> 'a db_world_scheme \<Rightarrow> (err + bool) \<times> 'a db_world_scheme" where
  "Threads_Delete i s =
     (let (failed, s) = io_step s
      in if failed then (Inl ErrIO, s)
         else if \<not> has_key (thread_rows s) i then (Inr False, s)
         else (Inr True, s\<lparr>thread_rows := AList.delete i (thread_rows s),
                           identity_rows := filter (\<lambda>(k, t). t \<noteq> i) (identity_rows s)\<rparr>))"

subsection \<open>Terminals\<close>

definition Terminals_Insert ::
  "terminal_record \<Rightarrow> 'a db_world_scheme \<Rightarrow> (err + bool) \<times> 'a db_world_scheme" where
  "Terminals_Insert r s =
     (let (failed, s) = io_step s
      in if failed then (Inl ErrIO, s)
         else if has_key (terminal_rows s) (term_id r) then (Inr False, s)
         else if \<not> has_key (space_rows s) (term_space r) then (Inl ErrForeignKeyViolation, s)
         else (Inr True, s\<lparr>terminal_rows := AList.update (term_id r)
                 (r\<lparr>term_stop_requested_at := None, term_exited_at := None, term_exit_code := None\<rparr>)
                 (terminal_rows s)\<rparr>))"

definition Terminals_List ::
  "'a db_world_scheme \<Rightarrow> (err + terminal_record list) \<times> 'a db_world_scheme" where
  "Terminals_List s =
     (let (failed, s) = io_step s
      in if failed then (Inl ErrIO, s)
         else (Inr (sort_key (\<lambda>r. (term_created_at r, term_id r)) (map snd (terminal_rows s))), s))"

definition Terminals_Update ::
  "string \<Rightarrow> string \<Rightarrow> string \<Rightarrow> time \<Rightarrow> 'a db_world_scheme \<Rightarrow> (err + bool) \<times> 'a db_world_scheme" where
  "Terminals_Update i name space at s =
     (let (failed, s) = io_step s
      in if failed then (Inl ErrIO, s)
         else case map_of (terminal_rows s) i of
                None \<Rightarrow> (Inr False, s)
              | Some old \<Rightarrow>
                  if \<not> has_key (space_rows s) space then (Inl ErrForeignKeyViolation, s)
                  else (Inr True, s\<lparr>terminal_rows := AList.update i
                          (old\<lparr>term_name := name, term_space := space, term_updated_at := at\<rparr>)
                          (terminal_rows s)\<rparr>))"

definition Terminals_RecordStopIntent ::
  "string \<Rightarrow> time \<Rightarrow> 'a db_world_scheme \<Rightarrow> (err + bool) \<times> 'a db_world_scheme" where
  "Terminals_RecordStopIntent i at s =
     (let (failed, s) = io_step s
      in if failed then (Inl ErrIO, s)
         else case map_of (terminal_rows s) i of
                None \<Rightarrow> (Inr False, s)
              | Some old \<Rightarrow>
                  (Inr True, s\<lparr>terminal_rows := AList.update i
                     (old\<lparr>term_stop_requested_at := Some at, term_updated_at := at\<rparr>) (terminal_rows s)\<rparr>))"

text \<open>The first observation of an exit wins: a row that carries evidence is left untouched.\<close>

definition Terminals_RecordExit ::
  "string \<Rightarrow> time \<Rightarrow> time \<Rightarrow> int option \<Rightarrow> 'a db_world_scheme \<Rightarrow> err option \<times> 'a db_world_scheme" where
  "Terminals_RecordExit i exited observed code s =
     (let (failed, s) = io_step s
      in if failed then (Some ErrIO, s)
         else case map_of (terminal_rows s) i of
                None \<Rightarrow> (None, s)
              | Some old \<Rightarrow>
                  if term_exited_at old \<noteq> None then (None, s)
                  else (None, s\<lparr>terminal_rows := AList.update i
                          (old\<lparr>term_exited_at := Some exited, term_exit_code := code,
                               term_updated_at := observed\<rparr>) (terminal_rows s)\<rparr>))"

definition clear_terminal :: "string \<Rightarrow> thread_record \<Rightarrow> thread_record" where
  "clear_terminal i r = (if terminal_id r = Some i then r\<lparr>terminal_id := None\<rparr> else r)"

definition Terminals_Delete :: "string \<Rightarrow> 'a db_world_scheme \<Rightarrow> (err + bool) \<times> 'a db_world_scheme" where
  "Terminals_Delete i s =
     (let (failed, s) = io_step s
      in if failed then (Inl ErrIO, s)
         else if \<not> has_key (terminal_rows s) i then (Inr False, s)
         else (Inr True, s\<lparr>terminal_rows := AList.delete i (terminal_rows s),
                           thread_rows := map (\<lambda>(k, r). (k, clear_terminal i r)) (thread_rows s)\<rparr>))"

subsection \<open>Spaces\<close>

definition Spaces_Insert :: "space_record \<Rightarrow> 'a db_world_scheme \<Rightarrow> (err + bool) \<times> 'a db_world_scheme" where
  "Spaces_Insert r s =
     (let (failed, s) = io_step s
      in if failed then (Inl ErrIO, s)
         else if has_key (space_rows s) (space_id r) then (Inr False, s)
         else if space_default r \<and> list_ex (\<lambda>(k, x). space_default x) (space_rows s)
         then (Inl ErrDefaultExists, s)
         else (Inr True, s\<lparr>space_rows := AList.update (space_id r) r (space_rows s)\<rparr>))"

definition Spaces_List :: "'a db_world_scheme \<Rightarrow> (err + space_record list) \<times> 'a db_world_scheme" where
  "Spaces_List s =
     (let (failed, s) = io_step s
      in if failed then (Inl ErrIO, s)
         else (Inr (sort_key (\<lambda>r. (space_created_at r, space_id r)) (map snd (space_rows s))), s))"

definition Spaces_Update ::
  "string \<Rightarrow> string \<Rightarrow> string \<Rightarrow> time \<Rightarrow> 'a db_world_scheme
     \<Rightarrow> (err + space_record option) \<times> 'a db_world_scheme" where
  "Spaces_Update i name directory at s =
     (let (failed, s) = io_step s
      in if failed then (Inl ErrIO, s)
         else case map_of (space_rows s) i of
                None \<Rightarrow> (Inr None, s)
              | Some old \<Rightarrow>
                  (let r = old\<lparr>space_name := name, space_directory := directory, space_updated_at := at\<rparr>
                   in (Inr (Some r), s\<lparr>space_rows := AList.update i r (space_rows s)\<rparr>)))"

definition Spaces_Delete :: "string \<Rightarrow> 'a db_world_scheme \<Rightarrow> (err + bool) \<times> 'a db_world_scheme" where
  "Spaces_Delete i s =
     (let (failed, s) = io_step s
      in if failed then (Inl ErrIO, s)
         else if \<not> has_key (space_rows s) i then (Inr False, s)
         else if list_ex (\<lambda>(k, t). term_space t = i) (terminal_rows s)
         then (Inl ErrForeignKeyViolation, s)
         else (Inr True, s\<lparr>space_rows := AList.delete i (space_rows s)\<rparr>))"

subsection \<open>Projects\<close>

definition directory_used :: "string \<Rightarrow> string \<Rightarrow> (string \<times> project_record) list \<Rightarrow> bool" where
  "directory_used except directory rows \<longleftrightarrow>
     list_ex (\<lambda>(k, x). k \<noteq> except \<and> proj_directory x = directory) rows"

definition Projects_Insert ::
  "project_record \<Rightarrow> 'a db_world_scheme \<Rightarrow> (err + bool) \<times> 'a db_world_scheme" where
  "Projects_Insert r s =
     (let (failed, s) = io_step s
      in if failed then (Inl ErrIO, s)
         else if has_key (project_rows s) (proj_id r) then (Inr False, s)
         else if directory_used (proj_id r) (proj_directory r) (project_rows s)
         then (Inl ErrUniqueViolation, s)
         else (Inr True, s\<lparr>project_rows := AList.update (proj_id r) r (project_rows s)\<rparr>))"

definition Projects_Get ::
  "string \<Rightarrow> 'a db_world_scheme \<Rightarrow> (err + project_record option) \<times> 'a db_world_scheme" where
  "Projects_Get i s =
     (let (failed, s) = io_step s
      in if failed then (Inl ErrIO, s) else (Inr (map_of (project_rows s) i), s))"

definition Projects_List ::
  "'a db_world_scheme \<Rightarrow> (err + project_record list) \<times> 'a db_world_scheme" where
  "Projects_List s =
     (let (failed, s) = io_step s
      in if failed then (Inl ErrIO, s)
         else (Inr (sort_key (\<lambda>r. (proj_created_at r, proj_id r)) (map snd (project_rows s))), s))"

definition Projects_Update ::
  "string \<Rightarrow> string \<Rightarrow> string \<Rightarrow> time \<Rightarrow> 'a db_world_scheme
     \<Rightarrow> (err + project_record option) \<times> 'a db_world_scheme" where
  "Projects_Update i name directory at s =
     (let (failed, s) = io_step s
      in if failed then (Inl ErrIO, s)
         else case map_of (project_rows s) i of
                None \<Rightarrow> (Inr None, s)
              | Some old \<Rightarrow>
                  if directory_used i directory (project_rows s) then (Inl ErrUniqueViolation, s)
                  else (let r = old\<lparr>proj_name := name, proj_directory := directory, proj_updated_at := at\<rparr>
                        in (Inr (Some r), s\<lparr>project_rows := AList.update i r (project_rows s)\<rparr>)))"

definition clear_project :: "string \<Rightarrow> thread_record \<Rightarrow> thread_record" where
  "clear_project p r = (if project_id r = p then r\<lparr>project_id := ''''\<rparr> else r)"

definition Projects_Delete :: "string \<Rightarrow> 'a db_world_scheme \<Rightarrow> (err + bool) \<times> 'a db_world_scheme" where
  "Projects_Delete i s =
     (let (failed, s) = io_step s
      in if failed then (Inl ErrIO, s)
         else if \<not> has_key (project_rows s) i then (Inr False, s)
         else (Inr True, s\<lparr>project_rows := AList.delete i (project_rows s),
                           thread_rows := map (\<lambda>(k, r). (k, clear_project i r)) (thread_rows s)\<rparr>))"

end
