(* ===== verification/GoStrings.thy ===== *)
theory GoStrings
  imports Prelude
begin

text \<open>
  What the modelled code uses of Go's \<^verbatim>\<open>strings\<close> and \<^verbatim>\<open>filepath\<close> packages, on UTF-8 byte strings:
  \<^verbatim>\<open>TrimSpace\<close>, \<^verbatim>\<open>Fields\<close>, \<^verbatim>\<open>HasPrefix\<close>, \<^verbatim>\<open>Cut\<close> at a slash, \<^verbatim>\<open>Base\<close> and \<^verbatim>\<open>IsAbs\<close>.
\<close>

text \<open>The UTF-8 encodings of the Unicode white space characters (\<^verbatim>\<open>unicode.IsSpace\<close>).\<close>

definition space_runes :: "string list" where
  "space_runes =
     [[CHR 0x09], [CHR 0x0A], [CHR 0x0B], [CHR 0x0C], [CHR 0x0D], [CHR 0x20],
      [CHR 0xC2, CHR 0x85], [CHR 0xC2, CHR 0xA0], [CHR 0xE1, CHR 0x9A, CHR 0x80],
      [CHR 0xE2, CHR 0x80, CHR 0x80], [CHR 0xE2, CHR 0x80, CHR 0x81], [CHR 0xE2, CHR 0x80, CHR 0x82],
      [CHR 0xE2, CHR 0x80, CHR 0x83], [CHR 0xE2, CHR 0x80, CHR 0x84], [CHR 0xE2, CHR 0x80, CHR 0x85],
      [CHR 0xE2, CHR 0x80, CHR 0x86], [CHR 0xE2, CHR 0x80, CHR 0x87], [CHR 0xE2, CHR 0x80, CHR 0x88],
      [CHR 0xE2, CHR 0x80, CHR 0x89], [CHR 0xE2, CHR 0x80, CHR 0x8A], [CHR 0xE2, CHR 0x80, CHR 0xA8],
      [CHR 0xE2, CHR 0x80, CHR 0xA9], [CHR 0xE2, CHR 0x80, CHR 0xAF], [CHR 0xE2, CHR 0x81, CHR 0x9F],
      [CHR 0xE3, CHR 0x80, CHR 0x80]]"

fun HasPrefix :: "string \<Rightarrow> string \<Rightarrow> bool" where
  "HasPrefix s [] = True"
| "HasPrefix [] (p # ps) = False"
| "HasPrefix (c # s) (p # ps) = (c = p \<and> HasPrefix s ps)"

lemma HasPrefix_iff: "HasPrefix s p \<longleftrightarrow> (\<exists>rest. s = p @ rest)"
  by (induction s p rule: HasPrefix.induct) auto

text \<open>The white space character a string starts with, among \<open>runes\<close>.\<close>

definition leading :: "string list \<Rightarrow> string \<Rightarrow> string option" where
  "leading runes s = find (\<lambda>p. p \<noteq> '''' \<and> HasPrefix s p) runes"

lemma leading_Some: "leading runes s = Some p \<Longrightarrow> p \<noteq> '''' \<and> HasPrefix s p"
  by (auto simp: leading_def find_Some_iff)

function trim_left :: "string list \<Rightarrow> string \<Rightarrow> string" where
  "trim_left runes s =
     (case leading runes s of None \<Rightarrow> s | Some p \<Rightarrow> trim_left runes (drop (length p) s))"
  by pat_completeness auto
termination
proof (relation "measure (\<lambda>(runes, s). length s)")
  fix runes s p
  assume "leading runes s = Some p"
  then have "p \<noteq> ''''" and "\<exists>rest. s = p @ rest"
    using leading_Some HasPrefix_iff by blast+
  then show "((runes, drop (length p) s), runes, s) \<in> measure (\<lambda>(runes, s). length s)"
    by auto
qed simp

declare trim_left.simps [simp del]

definition TrimSpace :: "string \<Rightarrow> string" where
  "TrimSpace s = rev (trim_left (map rev space_runes) (rev (trim_left space_runes s)))"

lemma trim_left_Nil [simp]: "trim_left runes '''' = ''''"
  by (subst trim_left.simps) (auto split: option.splits dest!: leading_Some simp: HasPrefix_iff)

lemma TrimSpace_Nil [simp]: "TrimSpace '''' = ''''"
  by (simp add: TrimSpace_def)

text \<open>\<^verbatim>\<open>strings.Fields\<close>: the maximal runs between white space.\<close>

function fields_from :: "string \<Rightarrow> string \<Rightarrow> string list" where
  "fields_from acc s =
     (case leading space_runes s of
        Some p \<Rightarrow> (if acc = '''' then [] else [acc]) @ fields_from '''' (drop (length p) s)
      | None \<Rightarrow> (case s of [] \<Rightarrow> (if acc = '''' then [] else [acc]) | c # cs \<Rightarrow> fields_from (acc @ [c]) cs))"
  by pat_completeness auto
termination
proof (relation "measure (\<lambda>(acc, s). length s)")
  fix acc s p
  assume "leading space_runes s = Some p"
  then have "p \<noteq> ''''" and "\<exists>rest. s = p @ rest"
    using leading_Some HasPrefix_iff by blast+
  then show "(('''', drop (length p) s), acc, s) \<in> measure (\<lambda>(acc, s). length s)"
    by auto
qed auto

declare fields_from.simps [simp del]

definition Fields :: "string \<Rightarrow> string list" where
  "Fields s = fields_from '''' s"

text \<open>\<^verbatim>\<open>strings.Join(xs, " ")\<close>.\<close>

definition join_blank :: "string list \<Rightarrow> string" where
  "join_blank xs = (case xs of [] \<Rightarrow> '''' | x # ys \<Rightarrow> x @ concat (map (\<lambda>y. CHR '' '' # y) ys))"

text \<open>
  \<^verbatim>\<open>strings.Contains\<close>, \<^verbatim>\<open>strings.HasSuffix\<close>, and \<^verbatim>\<open>strings.ToLower\<close> as far as a search for an ASCII pattern can tell: the
  two characters outside ASCII whose lower case is an ASCII letter are U+0130 and U+212A.
\<close>

definition Contains :: "string \<Rightarrow> string \<Rightarrow> bool" where
  "Contains s p = list_ex (\<lambda>i. HasPrefix (drop i s) p) [0..<Suc (length s)]"

definition HasSuffix :: "string \<Rightarrow> string \<Rightarrow> bool" where
  "HasSuffix s p = HasPrefix (rev s) (rev p)"

lemma HasSuffix_iff: "HasSuffix s p \<longleftrightarrow> (\<exists>rest. s = rest @ p)"
  unfolding HasSuffix_def HasPrefix_iff by (metis rev_append rev_rev_ident)

definition lower_ascii :: "char \<Rightarrow> char" where
  "lower_ascii c = (let n = of_char c :: nat in if 65 \<le> n \<and> n \<le> 90 then char_of (n + 32) else c)"

fun ToLower :: "string \<Rightarrow> string" where
  "ToLower [] = []"
| "ToLower (c # s) =
     (if HasPrefix (c # s) [CHR 0xC4, CHR 0xB0] then CHR ''i'' # ToLower (drop 1 s)
      else if HasPrefix (c # s) [CHR 0xE2, CHR 0x84, CHR 0xAA] then CHR ''k'' # ToLower (drop 2 s)
      else lower_ascii c # ToLower s)"

text \<open>The three bytes of an ellipsis, and the decimal digits of \<^verbatim>\<open>%d\<close>.\<close>

definition ellipsis :: string where "ellipsis = [CHR 0xE2, CHR 0x80, CHR 0xA6]"

fun decimal :: "nat \<Rightarrow> string" where
  "decimal n = (if n < 10 then [char_of (48 + n)] else decimal (n div 10) @ [char_of (48 + n mod 10)])"

declare decimal.simps [simp del]

text \<open>\<^verbatim>\<open>strings.Cut(s, "/")\<close>: the part before the first slash and whether there is one.\<close>

definition cut_slash :: "string \<Rightarrow> string \<times> bool" where
  "cut_slash s = (takeWhile (\<lambda>c. c \<noteq> CHR ''/'') s, CHR ''/'' \<in> set s)"

text \<open>\<^verbatim>\<open>filepath.Base\<close> on a Unix path.\<close>

definition path_base :: "string \<Rightarrow> string" where
  "path_base s =
     (if s = '''' then ''.''
      else let r = dropWhile (\<lambda>c. c = CHR ''/'') (rev s)
           in if r = '''' then ''/'' else rev (takeWhile (\<lambda>c. c \<noteq> CHR ''/'') r))"

definition IsAbs :: "string \<Rightarrow> bool" where
  "IsAbs s = HasPrefix s ''/''"

end
