(* ===== verification/Spaces.thy ===== *)
theory Spaces
  imports Store GoStrings
begin

text \<open>
  The state of the Terminals domain (\<^verbatim>\<open>internal/terminals/service.go\<close>) and its spaces
  (\<^verbatim>\<open>internal/terminals/spaces.go\<close>): containers with a default directory, whose invariants are about the
  terminals in them and sit under the same mutation lock. The service state extends the database with the
  in-memory view, the settling set, the space view and the report files the monitors leave on disk.

  The filesystem is a parameter: \<open>canon\<close> is \<^verbatim>\<open>paths.CanonicalDir\<close>, \<^const>\<open>None\<close> for a path that does
  not resolve to an existing directory.
\<close>

subsection \<open>State\<close>

record session =
  ses_name :: string
  ses_reachable :: bool

record report =
  rep_started_at :: time
  rep_exited_at :: "time option"
  rep_code :: "int option"
  rep_process :: string

text \<open>What \<^verbatim>\<open>report.Read\<close> finds: no file, one it must reject, or a report.\<close>

datatype report_file = NoReport | Unreadable | Report report

record entry =
  e_record :: terminal_record
  e_status :: terminal_status
  e_process :: string

record term_svc = db_world +
  term_view :: "(string \<times> entry) list"
  settling :: "string list"
  space_view :: "(string \<times> space_record) list"
  default_space :: string
  deleting_spaces :: "string list"
  home_dir :: string
  reports :: "string \<Rightarrow> report_file"

definition terminal_resource :: string where "terminal_resource = ''terminal''"
definition space_resource :: string where "space_resource = ''space''"
definition DefaultSpaceName :: string where "DefaultSpaceName = ''Default''"
definition terminal_prefix :: string where "terminal_prefix = ''term-''"
definition space_prefix :: string where "space_prefix = ''spce-''"

definition VerifyPasses :: nat where "VerifyPasses = 40"
definition VerifyFailureCap :: nat where "VerifyFailureCap = 20"

fun Exited :: "report option \<Rightarrow> bool" where
  "Exited None = False"
| "Exited (Some r) = (rep_exited_at r \<noteq> None)"

text \<open>\<^verbatim>\<open>report.Remove\<close>: a missing file is success; a failure (logged by the callers) leaves the file.\<close>

definition report_Remove :: "string \<Rightarrow> 'a term_svc_scheme \<Rightarrow> 'a term_svc_scheme" where
  "report_Remove i s =
     (let (failed, s) = io_step s
      in if failed then s else s\<lparr>reports := (reports s)(i := NoReport)\<rparr>)"

subsection \<open>The wire shape\<close>

record api_terminal =
  at_id :: string
  at_name :: string
  at_space :: string
  at_directory :: string
  at_command :: string
  at_app :: string
  at_process :: string
  at_status :: terminal_status
  at_exit_code :: "int option"
  at_created_at :: time
  at_updated_at :: time

definition terminal_of :: "entry \<Rightarrow> api_terminal" where
  "terminal_of e =
     (let r = e_record e
      in \<lparr>at_id = term_id r, at_name = term_name r, at_space = term_space r, at_directory = term_directory r,
          at_command = (if term_app r = '''' then term_command r else ''''),
          at_app = term_app r, at_process = e_process e, at_status = e_status e,
          at_exit_code = (if e_status e = TerminalExited then term_exit_code r else None),
          at_created_at = term_created_at r, at_updated_at = term_updated_at r\<rparr>)"

definition fallbackProcess :: "terminal_record \<Rightarrow> string" where
  "fallbackProcess r =
     (if term_app r \<noteq> ''''
      then (let (integration, ok) = cut_slash (term_app r)
            in if ok \<and> integration \<noteq> '''' then integration else term_app r)
      else case Fields (term_command r) of
             f # _ \<Rightarrow> path_base f
           | [] \<Rightarrow> ''shell'')"

subsection \<open>Spaces\<close>

text \<open>\<^verbatim>\<open>insertSpace\<close> re-rolls the identifier until the insert is accepted.\<close>

fun insertSpace_loop ::
  "string list \<Rightarrow> space_record \<Rightarrow> 'a term_svc_scheme \<Rightarrow> (err + space_record) \<times> 'a term_svc_scheme" where
  "insertSpace_loop [] r s = (Inl ErrStarved, s\<lparr>id_tape := []\<rparr>)"
| "insertSpace_loop (sfx # rest) r s =
     (let r = r\<lparr>space_id := space_prefix @ sfx\<rparr>
      in case Spaces_Insert r (s\<lparr>id_tape := rest\<rparr>) of
           (Inl e, s) \<Rightarrow> (Inl e, s)
         | (Inr inserted, s) \<Rightarrow>
             if inserted then (Inr r, s\<lparr>space_view := AList.update (space_id r) r (space_view s)\<rparr>)
             else insertSpace_loop rest r s)"

definition insertSpace ::
  "space_record \<Rightarrow> 'a term_svc_scheme \<Rightarrow> (err + space_record) \<times> 'a term_svc_scheme" where
  "insertSpace r s = insertSpace_loop (id_tape s) r s"

text \<open>
  \<^verbatim>\<open>loadSpaces\<close>: at most two attempts. \<open>other\<close> is what another process does to the database between
  reading the rows and inserting the Default space.
\<close>

definition install_spaces :: "space_record list \<Rightarrow> 'a term_svc_scheme \<Rightarrow> 'a term_svc_scheme" where
  "install_spaces rs s =
     fold (\<lambda>r s. s\<lparr>space_view := AList.update (space_id r) r (space_view s),
                   default_space := (if space_default r then space_id r else default_space s)\<rparr>)
          rs (s\<lparr>default_space := ''''\<rparr>)"

fun loadSpaces_attempts ::
  "nat \<Rightarrow> ('a term_svc_scheme \<Rightarrow> 'a term_svc_scheme) \<Rightarrow> 'a term_svc_scheme \<Rightarrow> err option \<times> 'a term_svc_scheme" where
  "loadSpaces_attempts attempts other s =
     (case Spaces_List s of
        (Inl e, s) \<Rightarrow> (Some e, s)
      | (Inr rs, s) \<Rightarrow>
          (let s = install_spaces rs s
           in if default_space s \<noteq> '''' then (None, s)
              else let (t, s) = now (other s)
                   in case insertSpace \<lparr>space_id = '''', space_name = DefaultSpaceName, space_directory = home_dir s,
                                      space_default = True, space_created_at = t, space_updated_at = t\<rparr> s of
                        (Inl e, s) \<Rightarrow>
                          if e = ErrDefaultExists
                          then (case attempts of 0 \<Rightarrow> (Some e, s) | Suc n \<Rightarrow> loadSpaces_attempts n other s)
                          else (Some e, s)
                      | (Inr r, s) \<Rightarrow> (None, s\<lparr>default_space := space_id r\<rparr>)))"

definition loadSpaces ::
  "(string \<Rightarrow> string option) \<Rightarrow> ('a term_svc_scheme \<Rightarrow> 'a term_svc_scheme) \<Rightarrow> 'a term_svc_scheme
     \<Rightarrow> err option \<times> 'a term_svc_scheme" where
  "loadSpaces canon other s =
     (case canon (home_dir s) of
        None \<Rightarrow> (Some (ErrSpaceDirectoryInvalid (home_dir s)), s)
      | Some home \<Rightarrow> loadSpaces_attempts 1 other (s\<lparr>home_dir := home\<rparr>))"

definition CreateSpace ::
  "(string \<Rightarrow> string option) \<Rightarrow> string \<Rightarrow> string \<Rightarrow> 'a term_svc_scheme
     \<Rightarrow> (err + space_record) \<times> 'a term_svc_scheme" where
  "CreateSpace canon name directory s =
     (let directory = (if directory = '''' then home_dir s else directory)
      in case canon directory of
           None \<Rightarrow> (Inl (ErrSpaceDirectoryInvalid directory), s)
         | Some canonical \<Rightarrow>
             (let name = (if TrimSpace name = '''' then path_base canonical else TrimSpace name);
                  (t, s) = now s
              in case insertSpace \<lparr>space_id = '''', space_name = name, space_directory = canonical,
                                 space_default = False, space_created_at = t, space_updated_at = t\<rparr> s of
                   (Inl e, s) \<Rightarrow> (Inl e, s)
                 | (Inr r, s) \<Rightarrow> (Inr r, Publish EventSpaceCreated space_resource (space_id r) s)))"

definition GetSpace :: "string \<Rightarrow> 'a term_svc_scheme \<Rightarrow> err + space_record" where
  "GetSpace i s = (case map_of (space_view s) i of None \<Rightarrow> Inl (ErrSpaceNotFound i) | Some r \<Rightarrow> Inr r)"

definition ListSpaces :: "'a term_svc_scheme \<Rightarrow> space_record list" where
  "ListSpaces s = sort_key (\<lambda>r. (space_created_at r, space_id r)) (map snd (space_view s))"

definition UpdateSpace ::
  "(string \<Rightarrow> string option) \<Rightarrow> string \<Rightarrow> string patch \<Rightarrow> string patch \<Rightarrow> 'a term_svc_scheme
     \<Rightarrow> (err + space_record) \<times> 'a term_svc_scheme" where
  "UpdateSpace canon i pname pdir s =
     (if Null pname \<or> Null pdir then (Inl ErrInvalidUpdate, s)
      else case map_of (space_view s) i of
             None \<Rightarrow> (Inl (ErrSpaceNotFound i), s)
           | Some current \<Rightarrow>
               if space_default current then (Inl ErrDefaultSpace, s)
               else
                 (let name = (case pname of Put v \<Rightarrow> TrimSpace v | _ \<Rightarrow> space_name current);
                      directory = (case pdir of Put v \<Rightarrow> canon v | _ \<Rightarrow> Some (space_directory current))
                  in if patch_set pname \<and> name = '''' then (Inl ErrSpaceNameInvalid, s)
                     else case directory of
                            None \<Rightarrow> (Inl (ErrSpaceDirectoryInvalid (case pdir of Put v \<Rightarrow> v | _ \<Rightarrow> [])), s)
                          | Some directory \<Rightarrow>
                              if name = space_name current \<and> directory = space_directory current
                              then (Inr current, s)
                              else
                                (let (t, s) = now s
                                 in case Spaces_Update i name directory t s of
                                      (Inl e, s) \<Rightarrow> (Inl e, s)
                                    | (Inr None, s) \<Rightarrow> (Inl (ErrSpaceNotFound i), s)
                                    | (Inr (Some r), s) \<Rightarrow>
                                        (Inr r, Publish EventSpaceUpdated space_resource i
                                                  (s\<lparr>space_view := AList.update i r (space_view s)\<rparr>)))))"

text \<open>\<^verbatim>\<open>liveSpace\<close>: a known space that is not being deleted.\<close>

definition liveSpace :: "string \<Rightarrow> 'a term_svc_scheme \<Rightarrow> err + space_record" where
  "liveSpace i s =
     (case map_of (space_view s) i of
        None \<Rightarrow> Inl (ErrSpaceNotFound i)
      | Some r \<Rightarrow> if i \<in> set (deleting_spaces s) then Inl (ErrSpaceDeleting i) else Inr r)"

text \<open>
  \<^verbatim>\<open>DeleteSpace\<close> in its three critical sections: mark and collect, delete each terminal through the
  workflow it is given, and remove the record only when every one went.
\<close>

definition DeleteSpace_mark :: "string \<Rightarrow> 'a term_svc_scheme \<Rightarrow> (err + string list) \<times> 'a term_svc_scheme" where
  "DeleteSpace_mark i s =
     (case map_of (space_view s) i of
        None \<Rightarrow> (Inl (ErrSpaceNotFound i), s)
      | Some r \<Rightarrow>
          if space_default r then (Inl ErrDefaultSpace, s)
          else (Inr (sort (map fst (filter (\<lambda>(t, e). term_space (e_record e) = i) (term_view s)))),
                s\<lparr>deleting_spaces := List.insert i (deleting_spaces s)\<rparr>))"

fun delete_each ::
  "(string \<Rightarrow> 'a term_svc_scheme \<Rightarrow> err option \<times> 'a term_svc_scheme) \<Rightarrow> string list \<Rightarrow> 'a term_svc_scheme
     \<Rightarrow> (string \<times> err) list \<times> 'a term_svc_scheme" where
  "delete_each deleteTerminal [] s = ([], s)"
| "delete_each deleteTerminal (t # ts) s =
     (let (e, s) = deleteTerminal t s;
          (failures, s) = delete_each deleteTerminal ts s
      in (case e of
            None \<Rightarrow> failures
          | Some x \<Rightarrow> if x = ErrNotFound then failures else (t, x) # failures, s))"

definition DeleteSpace_finish :: "string \<Rightarrow> 'a term_svc_scheme \<Rightarrow> err option \<times> 'a term_svc_scheme" where
  "DeleteSpace_finish i s =
     (case Spaces_Delete i s of
        (Inl e, s) \<Rightarrow> (Some (if e = ErrForeignKeyViolation then ErrSpaceOwnsTerminals i else e), s)
      | (Inr deleted, s) \<Rightarrow>
          (let s = s\<lparr>deleting_spaces := removeAll i (deleting_spaces s),
                     space_view := AList.delete i (space_view s)\<rparr>
           in if \<not> deleted then (Some (ErrSpaceNotFound i), s)
              else (None, Publish EventSpaceDeleted space_resource i s)))"

definition DeleteSpace ::
  "string \<Rightarrow> (string \<Rightarrow> 'a term_svc_scheme \<Rightarrow> err option \<times> 'a term_svc_scheme) \<Rightarrow> 'a term_svc_scheme
     \<Rightarrow> err option \<times> 'a term_svc_scheme" where
  "DeleteSpace i deleteTerminal s =
     (case DeleteSpace_mark i s of
        (Inl e, s) \<Rightarrow> (Some e, s)
      | (Inr ts, s) \<Rightarrow>
          (case delete_each deleteTerminal ts s of
             ([], s) \<Rightarrow> DeleteSpace_finish i s
           | (failures, s) \<Rightarrow> (Some (ErrDeleting failures), s)))"

end
