(* ===== verification/Terminals.thy ===== *)
theory Terminals
  imports Spaces
begin

text \<open>
  \<^verbatim>\<open>internal/terminals/service.go\<close>: boot, reconciliation, create, patch and delete. The session backend (the
  \<^verbatim>\<open>Driver\<close> interface) is outside: an operation takes what the driver answered as an argument, and a
  session to be killed is part of the result. An inventory is \<^const>\<open>None\<close> when it is unavailable, never an
  empty list. An operation that releases the mutation lock on the way is split at that point, so that the
  steps of other operations can be put between its parts.
\<close>

subsection \<open>Boot\<close>

definition boot_entry :: "terminal_record \<Rightarrow> entry" where
  "boot_entry r =
     \<lparr>e_record = r,
      e_status = (if term_exited_at r \<noteq> None then TerminalExited else TerminalUnreachable),
      e_process = fallbackProcess r\<rparr>"

definition Load_terminals ::
  "(string \<Rightarrow> string option) \<Rightarrow> ('a term_svc_scheme \<Rightarrow> 'a term_svc_scheme) \<Rightarrow> 'a term_svc_scheme
     \<Rightarrow> err option \<times> 'a term_svc_scheme" where
  "Load_terminals canon other s =
     (case loadSpaces canon other s of
        (Some e, s) \<Rightarrow> (Some e, s)
      | (None, s) \<Rightarrow>
          (case Terminals_List s of
             (Inl e, s) \<Rightarrow> (Some e, s)
           | (Inr rs, s) \<Rightarrow>
               (None, s\<lparr>term_view := fold (\<lambda>r v. AList.update (term_id r) (boot_entry r) v) rs (term_view s)\<rparr>)))"

subsection \<open>Reconciliation\<close>

record candidate =
  c_id :: string
  c_created_at :: time
  c_stop_requested :: bool
  c_absent :: bool
  c_status :: "terminal_status option"
  c_process :: string
  c_exit :: "(time \<times> int option \<times> time) option"

text \<open>\<^verbatim>\<open>present\<close>: name to reachability; a later session of the same name overwrites an earlier one.\<close>

definition present :: "session list \<Rightarrow> string \<Rightarrow> bool option" where
  "present inven = map_of (rev (map (\<lambda>x. (ses_name x, ses_reachable x)) inven))"

text \<open>Phase 1: what is decidable without reading a report.\<close>

definition decide_candidate :: "session list option \<Rightarrow> string \<Rightarrow> entry \<Rightarrow> candidate" where
  "decide_candidate inven i e =
     (let c = \<lparr>c_id = i, c_created_at = term_created_at (e_record e),
               c_stop_requested = (term_stop_requested_at (e_record e) \<noteq> None),
               c_absent = False, c_status = None, c_process = '''', c_exit = None\<rparr>
      in if term_exited_at (e_record e) \<noteq> None then c\<lparr>c_status := Some TerminalExited\<rparr>
         else case inven of
                None \<Rightarrow> c\<lparr>c_status := Some TerminalUnreachable\<rparr>
              | Some l \<Rightarrow>
                  (case present l i of
                     Some reachable \<Rightarrow>
                       c\<lparr>c_status := Some (if reachable then TerminalRunning else TerminalUnreachable)\<rparr>
                   | None \<Rightarrow> c\<lparr>c_absent := True\<rparr>))"

definition reconcile_decide :: "session list option \<Rightarrow> 'a term_svc_scheme \<Rightarrow> candidate list" where
  "reconcile_decide inven s =
     map (\<lambda>(i, e). decide_candidate inven i e) (filter (\<lambda>(i, e). i \<notin> set (settling s)) (term_view s))"

text \<open>Orphans: reachable sessions, and leftover processes, that no record claims.\<close>

definition orphan_sessions :: "bool \<Rightarrow> session list option \<Rightarrow> 'a term_svc_scheme \<Rightarrow> string list" where
  "orphan_sessions reap inven s =
     (case inven of
        None \<Rightarrow> []
      | Some l \<Rightarrow>
          if reap then map ses_name (filter (\<lambda>x. \<not> has_key (term_view s) (ses_name x) \<and> ses_reachable x) l)
          else [])"

definition orphan_leftovers ::
  "bool \<Rightarrow> session list option \<Rightarrow> string list option \<Rightarrow> 'a term_svc_scheme \<Rightarrow> string list" where
  "orphan_leftovers reap inven leftovers s =
     (if reap \<and> inven \<noteq> None
      then (case leftovers of None \<Rightarrow> [] | Some l \<Rightarrow> filter (\<lambda>x. \<not> has_key (term_view s) x) l)
      else [])"

text \<open>Phase 2: one candidate's report, and the evidence it may record.\<close>

definition reconcile_evidence :: "candidate \<Rightarrow> 'a term_svc_scheme \<Rightarrow> candidate \<times> 'a term_svc_scheme" where
  "reconcile_evidence c s =
     (case reports s (c_id c) of
        Unreadable \<Rightarrow> (if c_absent c then (c\<lparr>c_status := Some TerminalMissing\<rparr>, s) else (c, s))
      | file \<Rightarrow>
          (let rep = (case file of
                        Report r \<Rightarrow> if rep_started_at r < c_created_at c then None else Some r
                      | _ \<Rightarrow> None);
               c = (case rep of Some r \<Rightarrow> c\<lparr>c_process := rep_process r\<rparr> | None \<Rightarrow> c)
           in if \<not> c_absent c then (c, s)
              else case rep of
                     None \<Rightarrow> (c\<lparr>c_status := Some TerminalMissing\<rparr>, s)
                   | Some r \<Rightarrow>
                       (case rep_exited_at r of
                          None \<Rightarrow> (c\<lparr>c_status := Some TerminalMissing\<rparr>, s)
                        | Some exited \<Rightarrow>
                            (let code = (if c_stop_requested c then None else rep_code r);
                                 (observed, s) = now s
                             in case Terminals_RecordExit (c_id c) exited observed code s of
                                  (Some e, s) \<Rightarrow> (c\<lparr>c_status := None\<rparr>, s)
                                | (None, s) \<Rightarrow>
                                    (c\<lparr>c_exit := Some (exited, code, observed), c_status := Some TerminalExited\<rparr>, s)))))"

fun evidence_all :: "candidate list \<Rightarrow> 'a term_svc_scheme \<Rightarrow> candidate list \<times> 'a term_svc_scheme" where
  "evidence_all [] s = ([], s)"
| "evidence_all (c # cs) s =
     (let (c, s) = reconcile_evidence c s; (cs, s) = evidence_all cs s in (c # cs, s))"

text \<open>Phase 3: apply, skipping entries deleted, re-created or settling since the snapshot.\<close>

definition apply_exit :: "(time \<times> int option \<times> time) option \<Rightarrow> terminal_record \<Rightarrow> terminal_record" where
  "apply_exit x r =
     (case x of
        Some (exited, code, observed) \<Rightarrow>
          if term_exited_at r = None
          then r\<lparr>term_exited_at := Some exited, term_exit_code := code, term_updated_at := observed\<rparr> else r
      | None \<Rightarrow> r)"

definition apply_entry :: "candidate \<Rightarrow> entry \<Rightarrow> entry" where
  "apply_entry c e =
     \<lparr>e_record = apply_exit (c_exit c) (e_record e),
      e_status = (case c_status c of Some st \<Rightarrow> st | None \<Rightarrow> e_status e),
      e_process = (if c_process c \<noteq> '''' then c_process c else e_process e)\<rparr>"

definition apply_candidate ::
  "candidate \<Rightarrow> 'a term_svc_scheme \<Rightarrow> string list \<times> 'a term_svc_scheme" where
  "apply_candidate c s =
     (case map_of (term_view s) (c_id c) of
        None \<Rightarrow> ([], s)
      | Some e \<Rightarrow>
          if term_created_at (e_record e) \<noteq> c_created_at c \<or> c_id c \<in> set (settling s) then ([], s)
          else (if e_status (apply_entry c e) \<noteq> e_status e then [c_id c] else [],
                s\<lparr>term_view := AList.update (c_id c) (apply_entry c e) (term_view s)\<rparr>))"

fun apply_all :: "candidate list \<Rightarrow> 'a term_svc_scheme \<Rightarrow> string list \<times> 'a term_svc_scheme" where
  "apply_all [] s = ([], s)"
| "apply_all (c # cs) s =
     (let (x, s) = apply_candidate c s; (xs, s) = apply_all cs s in (x @ xs, s))"

definition reconcile_apply :: "candidate list \<Rightarrow> 'a term_svc_scheme \<Rightarrow> 'a term_svc_scheme" where
  "reconcile_apply cs s =
     (let (changed, s) = apply_all cs s in publish_all EventTerminalUpdated terminal_resource changed s)"

text \<open>One undisturbed pass; the result names the sessions it kills.\<close>

definition reconcile ::
  "bool \<Rightarrow> session list option \<Rightarrow> string list option \<Rightarrow> 'a term_svc_scheme \<Rightarrow> string list \<times> 'a term_svc_scheme" where
  "reconcile reap inven leftovers s =
     (let orphans = orphan_sessions reap inven s @ orphan_leftovers reap inven leftovers s;
          (cs, s) = evidence_all (reconcile_decide inven s) s
      in (orphans, reconcile_apply cs s))"

definition Reconcile :: "session list option \<Rightarrow> 'a term_svc_scheme \<Rightarrow> 'a term_svc_scheme" where
  "Reconcile inven s = snd (reconcile False inven None s)"

subsection \<open>Create\<close>

record terminal_create_params =
  tc_space :: string
  tc_directory :: string
  tc_name :: string
  tc_command :: string
  tc_app :: string
  tc_thread :: string

text \<open>\<^verbatim>\<open>AppLaunch\<close>: the App's hooks into the create are closures of an Integration; \<open>Inl\<close> is their error.\<close>

record app_launch =
  al_app :: string
  al_prepare :: "(string \<Rightarrow> err option) option"
  al_compose :: "(string \<Rightarrow> string \<Rightarrow> err + string) option"

definition plain_launch :: app_launch where
  "plain_launch = \<lparr>al_app = '''', al_prepare = None, al_compose = None\<rparr>"

text \<open>The part of \<^verbatim>\<open>create\<close> before the commit: the space, the directory, the preparation.\<close>

definition create_resolve ::
  "(string \<Rightarrow> string option) \<Rightarrow> terminal_create_params \<Rightarrow> app_launch \<Rightarrow> 'a term_svc_scheme
     \<Rightarrow> err + string \<times> string \<times> string" where
  "create_resolve canon params launch s =
     (let sid = (if tc_space params = '''' then default_space s else tc_space params)
      in case liveSpace sid s of
           Inl e \<Rightarrow> Inl e
         | Inr sp \<Rightarrow>
             (let directory = (if tc_directory params = '''' then space_directory sp else tc_directory params)
              in case canon directory of
                   None \<Rightarrow> Inl (ErrDirectoryInvalid directory)
                 | Some canonical \<Rightarrow>
                     (case (case al_prepare launch of None \<Rightarrow> None | Some f \<Rightarrow> f canonical) of
                        Some e \<Rightarrow> Inl e
                      | None \<Rightarrow> Inr (space_id sp, TrimSpace (tc_name params), canonical))))"

text \<open>The minting loop of \<^verbatim>\<open>commitCreate\<close>: skip an id in the view, compose, insert; re-roll on a collision.\<close>

fun mint_terminal ::
  "string list \<Rightarrow> app_launch \<Rightarrow> terminal_record \<Rightarrow> 'a term_svc_scheme
     \<Rightarrow> (err + terminal_record) \<times> 'a term_svc_scheme" where
  "mint_terminal [] launch r s = (Inl ErrStarved, s\<lparr>id_tape := []\<rparr>)"
| "mint_terminal (sfx # rest) launch r s =
     (let s = s\<lparr>id_tape := rest\<rparr>; r = r\<lparr>term_id := terminal_prefix @ sfx\<rparr>
      in if has_key (term_view s) (term_id r) then mint_terminal rest launch r s
         else case (case al_compose launch of None \<Rightarrow> Inr (term_command r)
                                           | Some f \<Rightarrow> f (term_id r) (term_directory r)) of
                Inl e \<Rightarrow> (Inl e, s)
              | Inr command \<Rightarrow>
                  (let r = r\<lparr>term_command := command\<rparr>
                   in case Terminals_Insert r s of
                        (Inl e, s) \<Rightarrow>
                          (Inl (if e = ErrForeignKeyViolation then ErrSpaceNotFound (term_space r) else e), s)
                      | (Inr inserted, s) \<Rightarrow>
                          if inserted then (Inr r, s) else mint_terminal rest launch r s))"

definition create_commit ::
  "terminal_create_params \<Rightarrow> app_launch \<Rightarrow> string \<times> string \<times> string \<Rightarrow> 'a term_svc_scheme
     \<Rightarrow> (err + terminal_record) \<times> 'a term_svc_scheme" where
  "create_commit params launch resolved s =
     (let (sid, name, directory) = resolved;
          (t, s) = now s;
          r = \<lparr>term_id = '''', term_space = sid, term_name = name, term_directory = directory,
               term_command = tc_command params, term_app = al_app launch,
               term_created_at = t, term_updated_at = t,
               term_stop_requested_at = None, term_exited_at = None, term_exit_code = None\<rparr>
      in case liveSpace sid s of
           Inl e \<Rightarrow> (Inl e, s)
         | Inr _ \<Rightarrow>
             (case mint_terminal (id_tape s) launch r s of
                (Inl e, s) \<Rightarrow> (Inl e, s)
              | (Inr r, s) \<Rightarrow>
                  (let s = report_Remove (term_id r) s;
                       s = s\<lparr>term_view := AList.update (term_id r)
                                \<lparr>e_record = r, e_status = TerminalUnreachable, e_process = fallbackProcess r\<rparr>
                                (term_view s),
                             settling := List.insert (term_id r) (settling s)\<rparr>
                   in (Inr r, Publish EventTerminalCreated terminal_resource (term_id r) s))))"

text \<open>\<^verbatim>\<open>removeRecord\<close>: row, view entry, report and event as one unit.\<close>

definition removeRecord :: "string \<Rightarrow> 'a term_svc_scheme \<Rightarrow> (err + bool) \<times> 'a term_svc_scheme" where
  "removeRecord i s =
     (case Terminals_Delete i s of
        (Inl e, s) \<Rightarrow> (Inl e, s)
      | (Inr deleted, s) \<Rightarrow>
          if \<not> deleted then (Inr False, s)
          else (Inr True,
                Publish EventTerminalDeleted terminal_resource i
                  (report_Remove i
                    (s\<lparr>term_view := AList.delete i (term_view s), settling := removeAll i (settling s)\<rparr>))))"

text \<open>What \<^verbatim>\<open>Driver.Create\<close> answers: started, \<^verbatim>\<open>ErrNotLaunched\<close>, or an uncertain failure.\<close>

datatype launch_outcome = Launched | NotLaunched | LaunchFailed

text \<open>The branch of \<^verbatim>\<open>commitCreate\<close> for \<^verbatim>\<open>ErrNotLaunched\<close>.\<close>

definition create_discard :: "string \<Rightarrow> 'a term_svc_scheme \<Rightarrow> err \<times> 'a term_svc_scheme" where
  "create_discard i s =
     (case removeRecord i s of
        (Inl e, s) \<Rightarrow> (ErrStillListed i e, s\<lparr>settling := removeAll i (settling s)\<rparr>)
      | (Inr _, s) \<Rightarrow> (ErrNotLaunched, s))"

text \<open>\<^verbatim>\<open>awaitSettled\<close>: what each poll of the verification window sees, and whether the caller has given up.\<close>

record poll =
  p_exited :: bool
  p_inventory :: "session list option"
  p_cancelled :: bool

function awaitSettled :: "(nat \<Rightarrow> poll) \<Rightarrow> nat \<Rightarrow> nat \<Rightarrow> nat \<Rightarrow> string \<Rightarrow> bool" where
  "awaitSettled polls n passes failures i =
     (if passes < VerifyPasses \<and> failures < VerifyFailureCap
      then if p_exited (polls n) then True
           else case p_inventory (polls n) of
                  None \<Rightarrow>
                    if p_cancelled (polls n) then False
                    else awaitSettled polls (Suc n) passes (Suc failures) i
                | Some l \<Rightarrow>
                    if list_ex (\<lambda>x. ses_name x = i \<and> ses_reachable x) l then True
                    else if p_cancelled (polls n) then False
                    else awaitSettled polls (Suc n) (Suc passes) 0 i
      else False)"
  by pat_completeness auto
termination
  by (relation "measures [\<lambda>(polls, n, passes, failures, i). VerifyPasses - passes,
                          \<lambda>(polls, n, passes, failures, i). VerifyFailureCap - failures]") auto

declare awaitSettled.simps [simp del]

text \<open>The end of \<^verbatim>\<open>commitCreate\<close>: the settling mark goes, one reconciliation pass, and the answer.\<close>

datatype create_result = Created api_terminal | Unverified api_terminal | Refused err

definition create_settle ::
  "string \<Rightarrow> bool \<Rightarrow> session list option \<Rightarrow> 'a term_svc_scheme \<Rightarrow> create_result \<times> 'a term_svc_scheme" where
  "create_settle i settled inven s =
     (let s = Reconcile inven (s\<lparr>settling := removeAll i (settling s)\<rparr>)
      in case map_of (term_view s) i of
           None \<Rightarrow> (Refused ErrNotFound, s)
         | Some e \<Rightarrow> (if settled then Created (terminal_of e) else Unverified (terminal_of e), s))"

text \<open>
  \<^verbatim>\<open>create\<close> as one undisturbed run. The flag reports whether the preparation's abort hook is called: on
  every failure after the preparation except an unverified launch.
\<close>

definition create ::
  "(string \<Rightarrow> string option) \<Rightarrow> terminal_create_params \<Rightarrow> app_launch \<Rightarrow> launch_outcome \<Rightarrow> (nat \<Rightarrow> poll)
     \<Rightarrow> session list option \<Rightarrow> 'a term_svc_scheme \<Rightarrow> create_result \<times> bool \<times> 'a term_svc_scheme" where
  "create canon params launch outcome polls inven s =
     (case create_resolve canon params launch s of
        Inl e \<Rightarrow> (Refused e, False, s)
      | Inr resolved \<Rightarrow>
          (case create_commit params launch resolved s of
             (Inl e, s) \<Rightarrow> (Refused e, True, s)
           | (Inr r, s) \<Rightarrow>
               (if outcome = NotLaunched
                then (let (e, s) = create_discard (term_id r) s in (Refused e, True, s))
                else let settled = (outcome = Launched \<or> awaitSettled polls 0 0 0 (term_id r));
                         (res, s) = create_settle (term_id r) settled inven s
                     in (res, (case res of Refused _ \<Rightarrow> True | _ \<Rightarrow> False), s))))"

subsection \<open>Reads, patch and delete\<close>

definition Get_terminal :: "string \<Rightarrow> 'a term_svc_scheme \<Rightarrow> err + api_terminal" where
  "Get_terminal i s =
     (case map_of (term_view s) i of None \<Rightarrow> Inl ErrNotFound | Some e \<Rightarrow> Inr (terminal_of e))"

definition List_terminals :: "string \<Rightarrow> 'a term_svc_scheme \<Rightarrow> api_terminal list" where
  "List_terminals sid s =
     sort_key (\<lambda>t. (at_created_at t, at_id t))
       (map (\<lambda>(i, e). terminal_of e)
          (filter (\<lambda>(i, e). sid = '''' \<or> term_space (e_record e) = sid) (term_view s)))"

definition patched_name :: "string patch \<Rightarrow> string \<Rightarrow> err + string" where
  "patched_name p current =
     (case p of
        Unset \<Rightarrow> Inr current
      | Clear \<Rightarrow> Inr ''''
      | Put v \<Rightarrow> if TrimSpace v = '''' then Inl ErrInvalidUpdate else Inr (TrimSpace v))"

definition patched_space :: "string patch \<Rightarrow> string \<Rightarrow> 'a term_svc_scheme \<Rightarrow> err + string" where
  "patched_space p current s =
     (case p of
        Put v \<Rightarrow>
          if v = current then Inr current
          else (case liveSpace current s of
                  Inl e \<Rightarrow> Inl e
                | Inr _ \<Rightarrow> (case liveSpace v s of Inl e \<Rightarrow> Inl e | Inr sp \<Rightarrow> Inr (space_id sp)))
      | _ \<Rightarrow> Inr current)"

definition Update_terminal ::
  "string \<Rightarrow> string patch \<Rightarrow> string patch \<Rightarrow> 'a term_svc_scheme \<Rightarrow> (err + api_terminal) \<times> 'a term_svc_scheme" where
  "Update_terminal i pname pspace s =
     (if Null pspace then (Inl ErrInvalidUpdate, s)
      else if \<not> patch_set pname \<and> \<not> patch_set pspace then (Get_terminal i s, s)
      else case map_of (term_view s) i of
             None \<Rightarrow> (Inl ErrNotFound, s)
           | Some e \<Rightarrow>
               (case patched_name pname (term_name (e_record e)) of
                  Inl x \<Rightarrow> (Inl x, s)
                | Inr name \<Rightarrow>
                    (case patched_space pspace (term_space (e_record e)) s of
                       Inl x \<Rightarrow> (Inl x, s)
                     | Inr sid \<Rightarrow>
                         if name = term_name (e_record e) \<and> sid = term_space (e_record e)
                         then (Get_terminal i s, s)
                         else
                           (let (t, s) = now s
                            in case Terminals_Update i name sid t s of
                                 (Inl x, s) \<Rightarrow>
                                   (Inl (if x = ErrForeignKeyViolation then ErrSpaceNotFound sid else x), s)
                               | (Inr updated, s) \<Rightarrow>
                                   if \<not> updated then (Inl ErrNotFound, s)
                                   else
                                     (let e' = e\<lparr>e_record := (e_record e)\<lparr>term_name := name, term_space := sid,
                                                                term_updated_at := t\<rparr>\<rparr>
                                      in (Inr (terminal_of e'),
                                          Publish EventTerminalUpdated terminal_resource i
                                            (s\<lparr>term_view := AList.update i e' (term_view s)\<rparr>)))))))"

text \<open>\<^verbatim>\<open>Delete\<close> up to the kill: the stop intent is persisted before the session is touched.\<close>

definition Delete_intent :: "string \<Rightarrow> 'a term_svc_scheme \<Rightarrow> err option \<times> 'a term_svc_scheme" where
  "Delete_intent i s =
     (let (t, s) = now s
      in case Terminals_RecordStopIntent i t s of
           (Inl e, s) \<Rightarrow> (Some e, s)
         | (Inr ok, s) \<Rightarrow>
             if \<not> ok then (Some ErrNotFound, s)
             else (None, case map_of (term_view s) i of
                           None \<Rightarrow> s
                         | Some e \<Rightarrow>
                             s\<lparr>term_view := AList.update i
                                 (e\<lparr>e_record := (e_record e)\<lparr>term_stop_requested_at := Some t, term_updated_at := t\<rparr>\<rparr>)
                                 (term_view s)\<rparr>))"

text \<open>\<^verbatim>\<open>Delete\<close> as one undisturbed run; the kill may or may not have ended the session (the inventory of the last pass shows).\<close>

definition Delete_terminal ::
  "session list option \<Rightarrow> string \<Rightarrow> 'a term_svc_scheme \<Rightarrow> err option \<times> 'a term_svc_scheme" where
  "Delete_terminal inven i s =
     (case Delete_intent i s of
        (Some e, s) \<Rightarrow> (Some e, s)
      | (None, s) \<Rightarrow>
          (case removeRecord i s of
             (Inl e, s) \<Rightarrow> (Some e, s)
           | (Inr deleted, s) \<Rightarrow> if \<not> deleted then (Some ErrNotFound, s) else (None, Reconcile inven s)))"

end
