(* ===== verification/Threads.thy ===== *)
theory Threads
  imports Turns Terminals
begin

text \<open>
  \<^verbatim>\<open>internal/threads/service.go\<close> and the service half of \<^verbatim>\<open>turns.go\<close>: the Threads domain. Its state extends the
  terminals' with the view, the private identity mapping and its inverse, the active projection (terminal to
  thread), the Integration holds, the prior statuses and the threads with a resume in flight.

  The \<^verbatim>\<open>ops\<close> mutex makes each handler one step. \<^verbatim>\<open>Open\<close> releases it around the launch and is split there.
  The pattern every handler inlines, write the row and then install the record in the view, is
  \<open>store_thread\<close>; where the code mutates a local copy of a record the model rebinds it.
\<close>

subsection \<open>State\<close>

record thread_svc = term_svc +
  view :: "(string \<times> thread_record) list"
  identities :: "(identity_key \<times> string) list"
  keys :: "(string \<times> identity_key) list"
  active :: "(string \<times> string) list"
  held :: "string list"
  prior_status :: "(string \<times> (thread_status \<times> string)) list"
  in_flight :: "string list"

definition thread_resource :: string where "thread_resource = ''thread''"
definition thread_prefix :: string where "thread_prefix = ''thrd-''"
definition turn_prefix :: string where "turn_prefix = ''turn-''"

definition newLong :: "string \<Rightarrow> 'a world_scheme \<Rightarrow> string \<times> 'a world_scheme" where
  "newLong prefix w = (prefix @ long_suffix w (longs w), w\<lparr>longs := Suc (longs w)\<rparr>)"

subsection \<open>Holders\<close>

definition activeHolder :: "string \<Rightarrow> 'a thread_svc_scheme \<Rightarrow> string" where
  "activeHolder tid s = (case find (\<lambda>(t, x). x = tid) (active s) of None \<Rightarrow> '''' | Some (t, _) \<Rightarrow> t)"

definition holder :: "string \<Rightarrow> 'a thread_svc_scheme \<Rightarrow> string" where
  "holder tid s =
     (if activeHolder tid s \<noteq> '''' then ''open in terminal '' @ activeHolder tid s
      else if tid \<in> set (held s)
      then (case map_of (view s) tid of
              Some r \<Rightarrow> ''still reported by '' @ integration_id r
            | None \<Rightarrow> '''')
      else '''')"

definition ActiveThreadID :: "string \<Rightarrow> 'a thread_svc_scheme \<Rightarrow> string" where
  "ActiveThreadID t s = read_string (active s) t"

subsection \<open>Persist, then install\<close>

definition put_view :: "thread_record \<Rightarrow> 'a thread_svc_scheme \<Rightarrow> 'a thread_svc_scheme" where
  "put_view r s =
     (if has_key (view s) (thread_id r) then s\<lparr>view := AList.update (thread_id r) r (view s)\<rparr> else s)"

definition store_thread :: "thread_record \<Rightarrow> 'a thread_svc_scheme \<Rightarrow> (err + bool) \<times> 'a thread_svc_scheme" where
  "store_thread r s =
     (case Threads_Update r s of
        (Inl e, s) \<Rightarrow> (Inl e, s)
      | (Inr updated, s) \<Rightarrow> (Inr updated, if updated then put_view r s else s))"

definition persist :: "thread_record \<Rightarrow> 'a thread_svc_scheme \<Rightarrow> err option \<times> 'a thread_svc_scheme" where
  "persist r s =
     (case store_thread r s of
        (Inl e, s) \<Rightarrow> (Some e, s)
      | (Inr updated, s) \<Rightarrow> (if updated then None else Some ErrNotFound, s))"

definition publish_thread :: "bool \<Rightarrow> string \<Rightarrow> 'a thread_svc_scheme \<Rightarrow> 'a thread_svc_scheme" where
  "publish_thread changed tid s = (if changed then Publish EventThreadUpdated thread_resource tid s else s)"

subsection \<open>Evidence on a record\<close>

definition forgetPrior :: "string \<Rightarrow> 'a thread_svc_scheme \<Rightarrow> 'a thread_svc_scheme" where
  "forgetPrior tid s = s\<lparr>prior_status := AList.delete tid (prior_status s)\<rparr>"

text \<open>\<^verbatim>\<open>applyStatus\<close>: the record part of \<^const>\<open>apply_evidence\<close>, the fresh turn id, and the forgotten prior status.\<close>

definition applyStatus ::
  "thread_record \<Rightarrow> thread_status \<Rightarrow> string \<Rightarrow> turn_observation option \<Rightarrow> time \<Rightarrow> bool
     \<Rightarrow> 'a thread_svc_scheme \<Rightarrow> thread_record \<times> bool \<times> 'a thread_svc_scheme" where
  "applyStatus r st detail tobs at act s =
     (let (fresh, s) = newLong turn_prefix s;
          (r, changed) = apply_evidence fresh r st detail tobs at act
      in (r, changed, if pending r = None then forgetPrior (thread_id r) s else s))"

text \<open>\<^verbatim>\<open>coerceInactive\<close>: persist first, then the view; a failed persist changes nothing.\<close>

definition coerceInactive :: "string \<Rightarrow> 'a thread_svc_scheme \<Rightarrow> bool \<times> 'a thread_svc_scheme" where
  "coerceInactive tid s =
     (case map_of (view s) tid of
        None \<Rightarrow> (False, s)
      | Some r \<Rightarrow>
          (let (r, coerced) = coerceRecord r
           in if \<not> coerced then (False, s)
              else let (t, s) = now s
                   in case store_thread (r\<lparr>updated_at := t\<rparr>) s of
                        (Inr True, s) \<Rightarrow> (True, s)
                      | (_, s) \<Rightarrow> (False, s)))"

definition unarchive :: "thread_record \<Rightarrow> thread_record" where
  "unarchive r = (if archived r then r\<lparr>archived := False, archived_at := None\<rparr> else r)"

definition set_terminal :: "string \<Rightarrow> thread_record \<Rightarrow> thread_record" where
  "set_terminal t r = (if terminal_id r \<noteq> Some t then r\<lparr>terminal_id := Some t\<rparr> else r)"

text \<open>\<^verbatim>\<open>record.LastEvidenceAt = &at; if changed { record.UpdatedAt = at }\<close>\<close>

definition stamp :: "bool \<Rightarrow> time \<Rightarrow> thread_record \<Rightarrow> thread_record" where
  "stamp changed at r =
     (if changed then r\<lparr>last_evidence_at := Some at, updated_at := at\<rparr> else r\<lparr>last_evidence_at := Some at\<rparr>)"

subsection \<open>Classification\<close>

text \<open>\<^verbatim>\<open>contains\<close>: containment of canonical paths on path-segment boundaries.\<close>

definition contains :: "string \<Rightarrow> string \<Rightarrow> bool" where
  "contains root dir =
     (if root = dir then True
      else if root = ''/'' then IsAbs dir
      else HasPrefix dir (root @ ''/''))"

definition more_specific :: "string \<Rightarrow> project_record \<Rightarrow> project_record option \<Rightarrow> project_record option" where
  "more_specific dir p best =
     (if contains (proj_directory p) dir
         \<and> (case best of None \<Rightarrow> True | Some b \<Rightarrow> length (proj_directory p) > length (proj_directory b))
      then Some p else best)"

text \<open>\<^verbatim>\<open>mostSpecific\<close>: the deepest project containing the directory, or the empty id.\<close>

definition mostSpecific :: "project_record list \<Rightarrow> string \<Rightarrow> string" where
  "mostSpecific ps dir = (case fold (more_specific dir) ps None of None \<Rightarrow> '''' | Some b \<Rightarrow> proj_id b)"

definition classify :: "string \<Rightarrow> 'a thread_svc_scheme \<Rightarrow> (err + string) \<times> 'a thread_svc_scheme" where
  "classify dir s =
     (case Projects_List s of
        (Inl e, s) \<Rightarrow> (Inl e, s)
      | (Inr ps, s) \<Rightarrow> (Inr (mostSpecific ps dir), s))"

subsection \<open>Minting\<close>

text \<open>\<^verbatim>\<open>insert\<close>: re-roll the id until the row and its identity mapping go in, then install both.\<close>

fun insert_loop ::
  "string list \<Rightarrow> thread_record \<Rightarrow> identity_key \<Rightarrow> 'a thread_svc_scheme
     \<Rightarrow> (err + thread_record) \<times> 'a thread_svc_scheme" where
  "insert_loop [] r key s = (Inl ErrStarved, s\<lparr>id_tape := []\<rparr>)"
| "insert_loop (sfx # rest) r key s =
     (let r = r\<lparr>thread_id := thread_prefix @ sfx\<rparr>
      in case Threads_InsertObserved r key (s\<lparr>id_tape := rest\<rparr>) of
           (Inl e, s) \<Rightarrow> (Inl e, s)
         | (Inr inserted, s) \<Rightarrow>
             if inserted
             then (Inr r, s\<lparr>view := AList.update (thread_id r) r (view s),
                           identities := AList.update key (thread_id r) (identities s),
                           keys := AList.update (thread_id r) key (keys s)\<rparr>)
             else insert_loop rest r key s)"

definition insert_thread ::
  "thread_record \<Rightarrow> identity_key \<Rightarrow> 'a thread_svc_scheme \<Rightarrow> (err + thread_record) \<times> 'a thread_svc_scheme" where
  "insert_thread r key s = insert_loop (id_tape s) r key s"

subsection \<open>Session observations\<close>

text \<open>
  \<^verbatim>\<open>commit\<close>: the record enters the view, any other terminal releases the thread, the previous occupant of this
  terminal is displaced and coerced, and every projection move is announced.
\<close>

definition commit ::
  "thread_record \<Rightarrow> string \<Rightarrow> string \<Rightarrow> bool \<Rightarrow> 'a thread_svc_scheme \<Rightarrow> 'a thread_svc_scheme" where
  "commit r tid term changed s =
     (let s = (if has_key (view s) tid then s\<lparr>view := AList.update tid r (view s)\<rparr> else s);
          others = map fst (filter (\<lambda>(t, x). x = tid \<and> t \<noteq> term) (active s));
          act = filter (\<lambda>(t, x). \<not> (x = tid \<and> t \<noteq> term)) (active s);
          displaced = (case map_of act term of Some p \<Rightarrow> if p \<noteq> tid then p else '''' | None \<Rightarrow> '''');
          moved = (read_string act term \<noteq> tid);
          s = s\<lparr>active := (if moved then AList.update term tid act else act)\<rparr>;
          s = (if displaced \<noteq> ''''
               then let (coerced, s) = coerceInactive displaced s in publish_thread coerced displaced s
               else s);
          s = publish_thread changed tid s
      in publish_all EventTerminalUpdated terminal_resource (others @ (if moved then [term] else [])) s)"

definition createObserved ::
  "(string \<Rightarrow> string option) \<Rightarrow> session_observation \<Rightarrow> time \<Rightarrow> 'a thread_svc_scheme
     \<Rightarrow> (err + string) \<times> 'a thread_svc_scheme" where
  "createObserved canon obs at s =
     (if so_app obs \<noteq> '''' \<and> \<not> HasPrefix (so_app obs) (so_integration obs @ ''/'') then (Inl ErrAppForeign, s)
      else
        let r = \<lparr>thread_id = '''', integration_id = so_integration obs, app_id = so_app obs,
                 agent_id = so_agent obs, initial_directory = '''', project_id = '''',
                 terminal_id = Some (so_terminal obs), title = '''', title_user_set = False,
                 model = '''', effort = '''', cwd = '''', permission_mode = '''',
                 status = ThreadUnknown, status_detail = '''', last_evidence_at = Some at,
                 archived = False, archived_at = None, created_at = at, updated_at = at,
                 turn = None, pending = None\<rparr>;
            (r, _, s) = applyStatus r (so_status obs) (so_detail obs) (so_turn obs) at True s
        in case (if so_directory obs = '''' then None else canon (so_directory obs)) of
             None \<Rightarrow> (Inl (ErrNoLocalDirectory (so_directory obs)), s)
           | Some canonical \<Rightarrow>
               (case classify canonical s of
                  (Inl e, s) \<Rightarrow> (Inl e, s)
                | (Inr p, s) \<Rightarrow>
                    (let r = fst (applyMetadata (r\<lparr>initial_directory := canonical, project_id := p\<rparr>)
                                                (so_metadata obs))
                     in case insert_thread r (so_integration obs, so_provider obs) s of
                          (Inl e, s) \<Rightarrow> (Inl e, s)
                        | (Inr r, s) \<Rightarrow>
                            (Inr (thread_id r),
                             commit r (thread_id r) (so_terminal obs) False
                               (Publish EventThreadCreated thread_resource (thread_id r) s)))))"

definition set_agent :: "string \<Rightarrow> thread_record \<Rightarrow> thread_record" where
  "set_agent a r = (if a \<noteq> '''' \<and> agent_id r \<noteq> a then r\<lparr>agent_id := a\<rparr> else r)"

definition ObserveSession ::
  "(string \<Rightarrow> string option) \<Rightarrow> session_observation \<Rightarrow> 'a thread_svc_scheme
     \<Rightarrow> (err + string) \<times> 'a thread_svc_scheme" where
  "ObserveSession canon obs s =
     (let (at, s) = observed_at (so_at obs) s
      in case map_of (identities s) (so_integration obs, so_provider obs) of
           None \<Rightarrow> createObserved canon obs at s
         | Some tid \<Rightarrow>
             (case map_of (view s) tid of
                None \<Rightarrow> (Inl (ErrNoRecord tid), s)
              | Some r0 \<Rightarrow>
                  (let r1 = unarchive (set_agent (so_agent obs) (set_terminal (so_terminal obs) r0));
                       (r2, c, s) = applyStatus r1 (so_status obs) (so_detail obs) (so_turn obs) at True s;
                       (r3, m) = applyMetadata r2 (so_metadata obs);
                       changed = (r1 \<noteq> r0 \<or> c \<or> m)
                   in case Threads_Update (stamp changed at r3) s of
                        (Inl e, s) \<Rightarrow> (Inl e, s)
                      | (Inr updated, s) \<Rightarrow>
                          if \<not> updated then (Inr '''', s)
                          else (Inr tid, commit (stamp changed at r3) tid (so_terminal obs) changed s))))"

subsection \<open>Status observations\<close>

definition ObserveStatus ::
  "status_observation \<Rightarrow> 'a thread_svc_scheme \<Rightarrow> err option \<times> 'a thread_svc_scheme" where
  "ObserveStatus obs s =
     (let (at, s) = observed_at (sto_at obs) s
      in case map_of (identities s) (sto_integration obs, sto_provider obs) of
           None \<Rightarrow> (None, s)
         | Some tid \<Rightarrow>
             (case map_of (view s) tid of
                None \<Rightarrow> (None, s)
              | Some r0 \<Rightarrow>
                  (let (r1, c, s) = applyStatus r0 (sto_status obs) (sto_detail obs) (sto_turn obs) at
                                      (holder tid s \<noteq> '''') s;
                       (r2, m) = applyMetadata r1 (sto_metadata obs);
                       changed = (c \<or> m)
                   in case store_thread (stamp changed at r2) s of
                        (Inl e, s) \<Rightarrow> (Some e, s)
                      | (Inr updated, s) \<Rightarrow>
                          (None, if updated then publish_thread changed tid s else s))))"

subsection \<open>Leaving\<close>

definition Deactivate :: "string \<Rightarrow> 'a thread_svc_scheme \<Rightarrow> 'a thread_svc_scheme" where
  "Deactivate term s =
     (case map_of (active s) term of
        None \<Rightarrow> s
      | Some tid \<Rightarrow>
          (case map_of (view s) tid of
             None \<Rightarrow> s
           | Some r \<Rightarrow>
               (let (r, coerced) = coerceRecord r
                in if coerced
                   then let (t, s) = now s
                        in case store_thread (r\<lparr>updated_at := t\<rparr>) s of
                             (Inr True, s) \<Rightarrow>
                               Publish EventTerminalUpdated terminal_resource term
                                 (Publish EventThreadUpdated thread_resource tid
                                   (s\<lparr>active := AList.delete term (active s)\<rparr>))
                           | (_, s) \<Rightarrow> s
                   else Publish EventTerminalUpdated terminal_resource term
                          (s\<lparr>active := AList.delete term (active s)\<rparr>))))"

definition unlink :: "time \<Rightarrow> thread_record \<Rightarrow> thread_record" where
  "unlink t r = (fst (coerceRecord (r\<lparr>terminal_id := None\<rparr>)))\<lparr>updated_at := t\<rparr>"

fun unlink_each ::
  "string \<Rightarrow> thread_record list \<Rightarrow> 'a thread_svc_scheme \<Rightarrow> bool \<times> 'a thread_svc_scheme" where
  "unlink_each activeThread [] s = (True, s)"
| "unlink_each activeThread (r # rs) s =
     (case store_thread r s of
        (Inr True, s) \<Rightarrow> unlink_each activeThread rs (Publish EventThreadUpdated thread_resource (thread_id r) s)
      | (_, s) \<Rightarrow>
          (let (cleared, s) = unlink_each activeThread rs s
           in (cleared \<and> thread_id r \<noteq> activeThread, s)))"

definition TerminalRemoved :: "string \<Rightarrow> 'a thread_svc_scheme \<Rightarrow> 'a thread_svc_scheme" where
  "TerminalRemoved term s =
     (let (t, s) = now s;
          affected = map (unlink t) (filter (\<lambda>r. terminal_id r = Some term) (map snd (view s)));
          (cleared, s) = unlink_each (read_string (active s) term) affected s
      in if cleared then s\<lparr>active := AList.delete term (active s)\<rparr> else s)"

text \<open>\<^verbatim>\<open>Sweep\<close> visits the terminals the active projection named when it began.\<close>

definition sweep_one :: "string \<Rightarrow> 'a thread_svc_scheme \<Rightarrow> 'a thread_svc_scheme" where
  "sweep_one term s =
     (case Get_terminal term s of
        Inl _ \<Rightarrow> TerminalRemoved term s
      | Inr t \<Rightarrow>
          if at_status t = TerminalExited \<or> at_status t = TerminalMissing then Deactivate term s else s)"

definition Sweep :: "'a thread_svc_scheme \<Rightarrow> 'a thread_svc_scheme" where
  "Sweep s = fold sweep_one (map fst (active s)) s"

subsection \<open>Conversations a program owns\<close>

definition external_record ::
  "external_observation \<Rightarrow> string \<Rightarrow> string \<Rightarrow> time \<Rightarrow> thread_record" where
  "external_record obs canonical p at =
     \<lparr>thread_id = '''', integration_id = eo_integration obs, app_id = '''', agent_id = eo_agent obs,
      initial_directory = canonical, project_id = p, terminal_id = None, title = eo_title obs,
      title_user_set = False, model = '''', effort = '''', cwd = '''', permission_mode = '''',
      status = ThreadUnknown, status_detail = '''', last_evidence_at = Some at,
      archived = False, archived_at = None, created_at = at, updated_at = at,
      turn = None, pending = None\<rparr>"

definition track_title :: "string \<Rightarrow> thread_record \<Rightarrow> thread_record" where
  "track_title t r = (if \<not> title_user_set r \<and> t \<noteq> '''' \<and> title r \<noteq> t then r\<lparr>title := t\<rparr> else r)"

definition hold :: "string \<Rightarrow> 'a thread_svc_scheme \<Rightarrow> 'a thread_svc_scheme" where
  "hold tid s = s\<lparr>held := List.insert tid (held s)\<rparr>"

definition release :: "string \<Rightarrow> 'a thread_svc_scheme \<Rightarrow> 'a thread_svc_scheme" where
  "release tid s = s\<lparr>held := removeAll tid (held s)\<rparr>"

definition createExternal ::
  "(string \<Rightarrow> string option) \<Rightarrow> external_observation \<Rightarrow> thread_status \<Rightarrow> time \<Rightarrow> 'a thread_svc_scheme
     \<Rightarrow> (err + string) \<times> 'a thread_svc_scheme" where
  "createExternal canon obs st at s =
     (case (if eo_directory obs = '''' then None else canon (eo_directory obs)) of
        None \<Rightarrow> (Inl (ErrNoLocalDirectory (eo_directory obs)), s)
      | Some canonical \<Rightarrow>
          (case classify canonical s of
             (Inl e, s) \<Rightarrow> (Inl e, s)
           | (Inr p, s) \<Rightarrow>
               (let (r, _, s) = applyStatus (external_record obs canonical p at) st (eo_detail obs) (eo_turn obs)
                                  at True s
                in case insert_thread (fst (applyMetadata r (eo_metadata obs)))
                          (eo_integration obs, eo_provider obs) s of
                     (Inl e, s) \<Rightarrow> (Inl e, s)
                   | (Inr r, s) \<Rightarrow>
                       (Inr (thread_id r),
                        Publish EventThreadCreated thread_resource (thread_id r) (hold (thread_id r) s)))))"

definition ObserveExternal ::
  "(string \<Rightarrow> string option) \<Rightarrow> external_observation \<Rightarrow> 'a thread_svc_scheme
     \<Rightarrow> (err + string) \<times> 'a thread_svc_scheme" where
  "ObserveExternal canon obs s =
     (let (at, s) = observed_at (eo_at obs) s;
          st = (if eo_status obs = ThreadNone then ThreadUnknown else eo_status obs)
      in case map_of (identities s) (eo_integration obs, eo_provider obs) of
           None \<Rightarrow> createExternal canon obs st at s
         | Some tid \<Rightarrow>
             (case map_of (view s) tid of
                None \<Rightarrow> (Inl (ErrNoRecord tid), s)
              | Some r0 \<Rightarrow>
                  (let r1 = r0\<lparr>agent_id := eo_agent obs\<rparr>;
                       (r2, c, s) = applyStatus r1 st (eo_detail obs) (eo_turn obs) at True s;
                       r3 = track_title (eo_title obs) r2;
                       (r4, m) = applyMetadata r3 (eo_metadata obs);
                       r5 = unarchive r4;
                       changed = (agent_id r0 \<noteq> eo_agent obs \<or> c \<or> r3 \<noteq> r2 \<or> m \<or> archived r4)
                   in case store_thread (stamp changed at r5) s of
                        (Inl e, s) \<Rightarrow> (Inl e, s)
                      | (Inr updated, s) \<Rightarrow>
                          if \<not> updated then (Inr '''', s)
                          else (Inr tid, publish_thread changed tid (hold tid s)))))"

definition UnarchivedProviderIDs :: "string \<Rightarrow> 'a thread_svc_scheme \<Rightarrow> string list" where
  "UnarchivedProviderIDs integration s =
     sort (List.map_filter (\<lambda>(i, r).
             if integration_id r \<noteq> integration \<or> archived r then None
             else map_option snd (map_of (keys s) i)) (view s))"

fun release_each :: "string list \<Rightarrow> 'a thread_svc_scheme \<Rightarrow> 'a thread_svc_scheme" where
  "release_each [] s = s"
| "release_each (i # is) s =
     (let (coerced, s) = coerceInactive i s
      in release_each is (publish_thread coerced i (release i s)))"

definition ReleaseIntegration :: "string \<Rightarrow> 'a thread_svc_scheme \<Rightarrow> 'a thread_svc_scheme" where
  "ReleaseIntegration integration s =
     release_each
       (sort (filter (\<lambda>i. case map_of (view s) i of
                            Some r \<Rightarrow> integration_id r = integration | None \<Rightarrow> False) (held s))) s"

definition ArchiveExternalThread ::
  "string \<Rightarrow> string \<Rightarrow> 'a thread_svc_scheme \<Rightarrow> err option \<times> 'a thread_svc_scheme" where
  "ArchiveExternalThread integration provider s =
     (case map_of (identities s) (integration, provider) of
        None \<Rightarrow> (None, s)
      | Some tid \<Rightarrow>
          (case map_of (view s) tid of
             None \<Rightarrow> (None, s)
           | Some r0 \<Rightarrow>
               (let (r1, coerced) = coerceRecord r0
                in if archived r1 \<and> \<not> coerced then (None, release tid s)
                   else
                     let (r2, s) = (if archived r1 then (r1, s)
                                    else let (t, s) = now s in (r1\<lparr>archived := True, archived_at := Some t\<rparr>, s));
                         (t, s) = now s
                     in case Threads_Update (r2\<lparr>updated_at := t\<rparr>) s of
                          (Inl e, s) \<Rightarrow> (Some e, s)
                        | (Inr updated, s) \<Rightarrow>
                            (None,
                             publish_thread updated tid
                               (release tid (if updated then put_view (r2\<lparr>updated_at := t\<rparr>) s else s))))))"

subsection \<open>Projects\<close>

definition DeleteProject ::
  "string \<Rightarrow> ('a thread_svc_scheme \<Rightarrow> err option \<times> 'a thread_svc_scheme) \<Rightarrow> 'a thread_svc_scheme
     \<Rightarrow> err option \<times> 'a thread_svc_scheme" where
  "DeleteProject p remove s =
     (case remove s of
        (Some e, s) \<Rightarrow> (Some e, s)
      | (None, s) \<Rightarrow>
          (None,
           publish_all EventThreadUpdated thread_resource
             (sort (map fst (filter (\<lambda>(i, r). project_id r = p) (view s))))
             (s\<lparr>view := map (\<lambda>(i, r). (i, clear_project p r)) (view s)\<rparr>)))"

fun backfill_each ::
  "(string \<times> string) list \<Rightarrow> time \<Rightarrow> 'a thread_svc_scheme \<Rightarrow> err option \<times> 'a thread_svc_scheme" where
  "backfill_each [] t s = (None, s)"
| "backfill_each ((i, p) # as) t s =
     (case Threads_AssignProject i p t s of
        (Inl e, s) \<Rightarrow> (Some e, s)
      | (Inr assigned, s) \<Rightarrow>
          if \<not> assigned then backfill_each as t s
          else backfill_each as t
                 (Publish EventThreadUpdated thread_resource i
                   (case map_of (view s) i of
                      Some r \<Rightarrow> if project_id r = ''''
                                then s\<lparr>view := AList.update i (r\<lparr>project_id := p, updated_at := t\<rparr>) (view s)\<rparr>
                                else s
                    | None \<Rightarrow> s)))"

definition Backfill :: "'a thread_svc_scheme \<Rightarrow> err option \<times> 'a thread_svc_scheme" where
  "Backfill s =
     (case Projects_List s of
        (Inl e, s) \<Rightarrow> (Some e, s)
      | (Inr ps, s) \<Rightarrow>
          (let as = List.map_filter (\<lambda>(i, r).
                      if project_id r \<noteq> '''' \<or> initial_directory r = '''' then None
                      else let p = mostSpecific ps (initial_directory r)
                           in if p = '''' then None else Some (i, p)) (view s);
               (t, s) = now s
           in backfill_each (sort_key fst as) t s))"

subsection \<open>Reads\<close>

definition LookupIdentity :: "string \<Rightarrow> string \<Rightarrow> 'a thread_svc_scheme \<Rightarrow> (string \<times> string) option" where
  "LookupIdentity integration provider s =
     (case map_of (identities s) (integration, provider) of
        None \<Rightarrow> None
      | Some i \<Rightarrow>
          (case map_of (view s) i of
             None \<Rightarrow> None
           | Some r \<Rightarrow> Some (i, case terminal_id r of None \<Rightarrow> '''' | Some t \<Rightarrow> t)))"

text \<open>The wire shape: neither a provider conversation id nor a provider turn id is part of it.\<close>

record api_turn =
  ath_id :: string
  ath_state :: turn_state
  ath_started_at :: time
  ath_completed_at :: "time option"
  ath_error :: string
  ath_response :: string

record api_thread =
  ah_id :: string
  ah_integration :: string
  ah_app :: string
  ah_agent :: string
  ah_directory :: string
  ah_project :: string
  ah_terminal :: string
  ah_title :: string
  ah_model :: string
  ah_effort :: string
  ah_cwd :: string
  ah_permission_mode :: string
  ah_status :: thread_status
  ah_detail :: string
  ah_turn :: "api_turn option"
  ah_pending :: "(string \<times> time) option"
  ah_last_evidence_at :: "time option"
  ah_links :: "(string \<times> string) option"
  ah_archived :: bool
  ah_archived_at :: "time option"
  ah_created_at :: time
  ah_updated_at :: time

definition threadFrom :: "thread_record \<Rightarrow> api_thread" where
  "threadFrom r =
     \<lparr>ah_id = thread_id r, ah_integration = integration_id r, ah_app = app_id r, ah_agent = agent_id r,
      ah_directory = initial_directory r, ah_project = project_id r,
      ah_terminal = (case terminal_id r of None \<Rightarrow> '''' | Some t \<Rightarrow> t),
      ah_title = title r, ah_model = model r, ah_effort = effort r, ah_cwd = cwd r,
      ah_permission_mode = permission_mode r, ah_status = status r, ah_detail = status_detail r,
      ah_turn = map_option (\<lambda>t. \<lparr>ath_id = turn_id t, ath_state = turn_state t, ath_started_at = turn_started_at t,
                                 ath_completed_at = turn_completed_at t, ath_error = turn_error t,
                                 ath_response = turn_response t\<rparr>) (turn r),
      ah_pending = map_option (\<lambda>p. (pending_turn_id p, pending_turn_submitted_at p)) (pending r),
      ah_last_evidence_at = last_evidence_at r, ah_links = None,
      ah_archived = archived r, ah_archived_at = archived_at r,
      ah_created_at = created_at r, ah_updated_at = updated_at r\<rparr>"

text \<open>\<open>linkers\<close> is the registered link derivation per Integration (\<^verbatim>\<open>SetLinker\<close>).\<close>

type_synonym linkers = "string \<Rightarrow> (string \<Rightarrow> (string \<times> string) option) option"

definition thread_wire :: "linkers \<Rightarrow> 'a thread_svc_scheme \<Rightarrow> thread_record \<Rightarrow> api_thread" where
  "thread_wire linkers s r =
     (let key = (case map_of (keys s) (thread_id r) of None \<Rightarrow> ('''', '''') | Some k \<Rightarrow> k)
      in case linkers (integration_id r) of
           None \<Rightarrow> threadFrom r
         | Some linker \<Rightarrow> (threadFrom r)\<lparr>ah_links := linker (snd key)\<rparr>)"

definition Get_thread :: "linkers \<Rightarrow> string \<Rightarrow> 'a thread_svc_scheme \<Rightarrow> err + api_thread" where
  "Get_thread linkers i s =
     (case map_of (view s) i of None \<Rightarrow> Inl ErrNotFound | Some r \<Rightarrow> Inr (thread_wire linkers s r))"

definition List_threads ::
  "linkers \<Rightarrow> string \<Rightarrow> string \<Rightarrow> bool \<Rightarrow> 'a thread_svc_scheme \<Rightarrow> api_thread list" where
  "List_threads linkers p t includeArchived s =
     sort_key (\<lambda>x. (ah_created_at x, ah_id x))
       (map (thread_wire linkers s)
          (filter (\<lambda>r. \<not> (archived r \<and> \<not> includeArchived)
                      \<and> \<not> (p \<noteq> '''' \<and> project_id r \<noteq> p)
                      \<and> \<not> (t \<noteq> '''' \<and> terminal_id r \<noteq> Some t)) (map snd (view s))))"

end
