(* ===== verification/ThreadOps.thy ===== *)
theory ThreadOps
  imports Threads
begin

text \<open>
  \<^verbatim>\<open>internal/threads\<close>, continued: boot, the user's patch and delete, the submission of a turn, the late
  response, and \<^verbatim>\<open>Open\<close>, the decision which terminal a thread opens in.
\<close>

subsection \<open>Boot\<close>

fun load_coerce ::
  "thread_record list \<Rightarrow> time \<Rightarrow> 'a thread_svc_scheme \<Rightarrow> (err + thread_record list) \<times> 'a thread_svc_scheme" where
  "load_coerce [] t s = (Inr [], s)"
| "load_coerce (r # rs) t s =
     (let (r', coerced) = coerceRecord r
      in if \<not> coerced
         then (case load_coerce rs t s of
                 (Inl e, s) \<Rightarrow> (Inl e, s) | (Inr l, s) \<Rightarrow> (Inr (r # l), s))
         else (case Threads_Update (r'\<lparr>updated_at := t\<rparr>) s of
                 (Inl e, s) \<Rightarrow> (Inl e, s)
               | (Inr _, s) \<Rightarrow>
                   (case load_coerce rs t s of
                      (Inl e, s) \<Rightarrow> (Inl e, s) | (Inr l, s) \<Rightarrow> (Inr (r'\<lparr>updated_at := t\<rparr> # l), s))))"

definition Load_threads :: "'a thread_svc_scheme \<Rightarrow> err option \<times> 'a thread_svc_scheme" where
  "Load_threads s =
     (case Threads_List s of
        (Inl e, s) \<Rightarrow> (Some e, s)
      | (Inr rs, s) \<Rightarrow>
          (case Threads_ListIdentities s of
             (Inl e, s) \<Rightarrow> (Some e, s)
           | (Inr ids, s) \<Rightarrow>
               (let (t, s) = now s
                in case load_coerce rs t s of
                     (Inl e, s) \<Rightarrow> (Some e, s)
                   | (Inr rs, s) \<Rightarrow>
                       (None, s\<lparr>view := fold (\<lambda>r v. AList.update (thread_id r) r v) rs (view s),
                                identities := fold (\<lambda>(k, i) m. AList.update k i m) ids (identities s),
                                keys := fold (\<lambda>(k, i) m. AList.update i k m) ids (keys s)\<rparr>))))"

subsection \<open>The user's patch\<close>

record thread_update_params =
  tu_title :: "string patch"
  tu_archived :: "bool patch"
  tu_project :: "string patch"

definition patch_title :: "string patch \<Rightarrow> thread_record \<Rightarrow> thread_record" where
  "patch_title p r = (case p of Put v \<Rightarrow> r\<lparr>title := v, title_user_set := True\<rparr> | _ \<Rightarrow> r)"

definition patch_project ::
  "string patch \<Rightarrow> thread_record \<Rightarrow> 'a thread_svc_scheme \<Rightarrow> (err + thread_record) \<times> 'a thread_svc_scheme" where
  "patch_project p r s =
     (case p of
        Unset \<Rightarrow> (Inr r, s)
      | Clear \<Rightarrow> (Inr (r\<lparr>project_id := ''''\<rparr>), s)
      | Put v \<Rightarrow>
          (case Projects_Get v s of
             (Inl e, s) \<Rightarrow> (Inl e, s)
           | (Inr None, s) \<Rightarrow> (Inl (ErrProjectUnknown v), s)
           | (Inr (Some _), s) \<Rightarrow> (Inr (r\<lparr>project_id := v\<rparr>), s)))"

definition patch_archived ::
  "bool patch \<Rightarrow> string \<Rightarrow> thread_record \<Rightarrow> 'a thread_svc_scheme \<Rightarrow> (err + thread_record) \<times> 'a thread_svc_scheme" where
  "patch_archived p hld r s =
     (case p of
        Put v \<Rightarrow>
          if v = archived r then (Inr r, s)
          else if v
          then (if hld \<noteq> '''' then (Inl (ErrActive hld), s)
                else let (t, s) = now s in (Inr (r\<lparr>archived := True, archived_at := Some t\<rparr>), s))
          else (Inr (r\<lparr>archived := False, archived_at := None\<rparr>), s)
      | _ \<Rightarrow> (Inr r, s))"

text \<open>\<^verbatim>\<open>changed\<close>: a visible field moved; setting the user-title flag alone persists without publishing.\<close>

definition visible_change :: "thread_record \<Rightarrow> thread_record \<Rightarrow> bool" where
  "visible_change r0 r \<longleftrightarrow> title r \<noteq> title r0 \<or> project_id r \<noteq> project_id r0 \<or> archived r \<noteq> archived r0"

definition Update_thread ::
  "linkers \<Rightarrow> string \<Rightarrow> thread_update_params \<Rightarrow> 'a thread_svc_scheme \<Rightarrow> (err + api_thread) \<times> 'a thread_svc_scheme" where
  "Update_thread linkers i params s =
     (if Null (tu_title params) \<or> Null (tu_archived params) then (Inl ErrInvalidUpdate, s)
      else case map_of (view s) i of
             None \<Rightarrow> (Inl ErrNotFound, s)
           | Some r0 \<Rightarrow>
               if i \<in> set (in_flight s) \<and> tu_archived params = Put True
               then (Inl (ErrActive ''open in progress''), s)
               else
                 (let hld = holder i s; r1 = patch_title (tu_title params) r0
                  in case patch_project (tu_project params) r1 s of
                       (Inl e, s) \<Rightarrow> (Inl e, s)
                     | (Inr r2, s) \<Rightarrow>
                         (case patch_archived (tu_archived params) hld r2 s of
                            (Inl e, s) \<Rightarrow> (Inl e, s)
                          | (Inr r3, s) \<Rightarrow>
                              if \<not> visible_change r0 r3 \<and> title_user_set r3 = title_user_set r0
                              then (Inr (thread_wire linkers s r3), s)
                              else
                                (let (t, s) = now s
                                 in case store_thread (r3\<lparr>updated_at := t\<rparr>) s of
                                      (Inl e, s) \<Rightarrow> (Inl e, s)
                                    | (Inr updated, s) \<Rightarrow>
                                        if \<not> updated then (Inl ErrNotFound, s)
                                        else (Inr (thread_wire linkers s (r3\<lparr>updated_at := t\<rparr>)),
                                              publish_thread (visible_change r0 r3) i s)))))"

subsection \<open>Deletion\<close>

definition forgetIdentity :: "string \<Rightarrow> 'a thread_svc_scheme \<Rightarrow> 'a thread_svc_scheme" where
  "forgetIdentity i s =
     release i
       (case map_of (keys s) i of
          Some k \<Rightarrow> s\<lparr>identities := AList.delete k (identities s), keys := AList.delete i (keys s)\<rparr>
        | None \<Rightarrow> s)"

definition remove_thread :: "string \<Rightarrow> 'a thread_svc_scheme \<Rightarrow> err option \<times> 'a thread_svc_scheme" where
  "remove_thread i s =
     (case Threads_Delete i s of
        (Inl e, s) \<Rightarrow> (Some e, s)
      | (Inr deleted, s) \<Rightarrow>
          if \<not> deleted then (Some ErrNotFound, s)
          else (None,
                Publish EventThreadDeleted thread_resource i
                  (forgetPrior i (forgetIdentity i (s\<lparr>view := AList.delete i (view s)\<rparr>)))))"

definition Delete_thread :: "string \<Rightarrow> 'a thread_svc_scheme \<Rightarrow> err option \<times> 'a thread_svc_scheme" where
  "Delete_thread i s =
     (if \<not> has_key (view s) i then (Some ErrNotFound, s)
      else if holder i s \<noteq> '''' then (Some (ErrActive (holder i s)), s)
      else if i \<in> set (in_flight s) then (Some (ErrActive ''open in progress''), s)
      else remove_thread i s)"

definition DiscardExternal ::
  "string \<Rightarrow> string \<Rightarrow> 'a thread_svc_scheme \<Rightarrow> err option \<times> 'a thread_svc_scheme" where
  "DiscardExternal integration provider s =
     (case map_of (identities s) (integration, provider) of
        None \<Rightarrow> (None, s)
      | Some i \<Rightarrow>
          if activeHolder i s \<noteq> ''''
          then (Some (ErrActive (''open in terminal '' @ activeHolder i s)), s)
          else if i \<in> set (in_flight s) then (Some (ErrActive ''open in progress''), s)
          else remove_thread i s)"

subsection \<open>Submitted turns and late responses\<close>

text \<open>\<^verbatim>\<open>mintPending\<close>: a pending turn with a fresh id, the thread provisionally working.\<close>

definition mintPending :: "thread_record \<Rightarrow> 'a thread_svc_scheme \<Rightarrow> thread_record \<times> 'a thread_svc_scheme" where
  "mintPending r s =
     (let (t, s) = now s;
          prior = (case turn r of None \<Rightarrow> '''' | Some x \<Rightarrow> turn_provider_id x);
          (fresh, s) = newLong turn_prefix s
      in (r\<lparr>pending := Some \<lparr>pending_turn_id = fresh, pending_turn_prior = prior, pending_turn_submitted_at = t\<rparr>,
            status := ThreadWorking, status_detail := '''', updated_at := t\<rparr>,
          s\<lparr>prior_status := AList.update (thread_id r) (status r, status_detail r) (prior_status s)\<rparr>))"

definition SubmitTurn :: "string \<Rightarrow> 'a thread_svc_scheme \<Rightarrow> (err + string) \<times> 'a thread_svc_scheme" where
  "SubmitTurn i s =
     (case map_of (view s) i of
        None \<Rightarrow> (Inl ErrNotFound, s)
      | Some r \<Rightarrow>
          (case pending r of
             Some p \<Rightarrow> (Inl (ErrTurnPending (pending_turn_id p)), s)
           | None \<Rightarrow>
               (let (r, s) = mintPending r s
                in case persist r s of
                     (Some e, s) \<Rightarrow> (Inl e, s)
                   | (None, s) \<Rightarrow>
                       (Inr (case pending r of None \<Rightarrow> '''' | Some p \<Rightarrow> pending_turn_id p),
                        Publish EventThreadUpdated thread_resource i s))))"

definition ObserveTurnResponse ::
  "string \<Rightarrow> string \<Rightarrow> string \<Rightarrow> 'a thread_svc_scheme \<Rightarrow> err option \<times> 'a thread_svc_scheme" where
  "ObserveTurnResponse i provider response s =
     (case map_of (view s) i of
        None \<Rightarrow> (None, s)
      | Some r \<Rightarrow>
          (case turn r of
             None \<Rightarrow> (None, s)
           | Some t \<Rightarrow>
               if provider = '''' \<or> turn_provider_id t \<noteq> provider then (None, s)
               else
                 (let (t, adopted) = adoptResponse t (turn_state t) response
                  in if \<not> adopted then (None, s)
                     else
                       let (at, s) = now s
                       in case persist (r\<lparr>turn := Some t, last_evidence_at := Some at, updated_at := at\<rparr>) s of
                            (Some e, s) \<Rightarrow> (if e = ErrNotFound then None else Some e, s)
                          | (None, s) \<Rightarrow> (None, Publish EventThreadUpdated thread_resource i s))))"

subsection \<open>Open\<close>

text \<open>\<^verbatim>\<open>terminalUp\<close>: anything but exited, missing or no record; unreachable counts as up.\<close>

definition terminalUp :: "string \<Rightarrow> 'a thread_svc_scheme \<Rightarrow> api_terminal option" where
  "terminalUp t s =
     (case Get_terminal t s of
        Inl _ \<Rightarrow> None
      | Inr x \<Rightarrow> if at_status x = TerminalExited \<or> at_status x = TerminalMissing then None else Some x)"

definition link :: "string \<Rightarrow> string \<Rightarrow> 'a thread_svc_scheme \<Rightarrow> err option \<times> 'a thread_svc_scheme" where
  "link i t s =
     (case map_of (view s) i of
        None \<Rightarrow> (Some ErrNotFound, s)
      | Some r0 \<Rightarrow>
          (let r = unarchive (set_terminal t r0)
           in if r = r0 then (None, s)
              else let (at, s) = now s
                   in case persist (r\<lparr>updated_at := at\<rparr>) s of
                        (Some e, s) \<Rightarrow> (Some e, s)
                      | (None, s) \<Rightarrow> (None, Publish EventThreadUpdated thread_resource i s)))"

datatype open_decision = OpenFails err | Reuse api_terminal | WaitFor | Dormant

text \<open>The terminal the reuse rules pick: the one showing the thread, else its last one if nothing else holds that.\<close>

definition reusable :: "string \<Rightarrow> thread_record \<Rightarrow> 'a thread_svc_scheme \<Rightarrow> api_terminal option" where
  "reusable i r s =
     (let hld = activeHolder i s
      in case (if hld \<noteq> '''' then terminalUp hld s else None) of
           Some t \<Rightarrow> Some t
         | None \<Rightarrow>
             (case terminal_id r of
                None \<Rightarrow> None
              | Some lt \<Rightarrow>
                  if read_string (active s) lt = '''' \<or> read_string (active s) lt = i
                  then terminalUp lt s else None))"

definition decideOpen :: "string \<Rightarrow> 'a thread_svc_scheme \<Rightarrow> open_decision \<times> 'a thread_svc_scheme" where
  "decideOpen i s =
     (case map_of (view s) i of
        None \<Rightarrow> (OpenFails ErrNotFound, s)
      | Some r \<Rightarrow>
          (case reusable i r s of
             None \<Rightarrow> (if i \<in> set (in_flight s) then WaitFor else Dormant, s)
           | Some t \<Rightarrow>
               (case link i (at_id t) s of
                  (Some e, s) \<Rightarrow> (OpenFails e, s)
                | (None, s) \<Rightarrow> (Reuse t, s))))"

text \<open>
  The three critical sections of \<^verbatim>\<open>Open\<close>: the decision, which marks a dormant thread opening and yields
  the request to launch; the link of the terminal the launch returned; and the end of the mark.
\<close>

datatype open_begun = BeginFails err | BeginReuses api_terminal | BeginWaits | BeginResumes resume_request

definition open_begin :: "string \<Rightarrow> 'a thread_svc_scheme \<Rightarrow> open_begun \<times> 'a thread_svc_scheme" where
  "open_begin i s =
     (case decideOpen i s of
        (OpenFails e, s) \<Rightarrow> (BeginFails e, s)
      | (Reuse t, s) \<Rightarrow> (BeginReuses t, s)
      | (WaitFor, s) \<Rightarrow> (BeginWaits, s)
      | (Dormant, s) \<Rightarrow>
          (case map_of (view s) i of
             None \<Rightarrow> (BeginFails (ErrNoRecord i), s)
           | Some r \<Rightarrow>
               (BeginResumes \<lparr>rr_integration = integration_id r, rr_app = app_id r,
                              rr_provider = (case map_of (keys s) i of None \<Rightarrow> '''' | Some k \<Rightarrow> snd k)\<rparr>,
                s\<lparr>in_flight := List.insert i (in_flight s)\<rparr>)))"

definition open_finish :: "string \<Rightarrow> 'a thread_svc_scheme \<Rightarrow> 'a thread_svc_scheme" where
  "open_finish i s = s\<lparr>in_flight := removeAll i (in_flight s)\<rparr>"

text \<open>
  What a resume answers: an error with no terminal, or a terminal, possibly with the error of a launch
  that could not be verified.
\<close>

datatype resume_outcome = ResumeRefused err | Resumed api_terminal "err option"

datatype open_result = Opened api_terminal bool "err option" | OpenRefused err | OpenBlocked

text \<open>
  \<^verbatim>\<open>Open\<close> as one undisturbed run over a resumer: \<open>launch\<close> and \<open>discard\<close> are its two methods.
  \<open>OpenBlocked\<close> is an open that waits for another one's launch.
\<close>

definition Open ::
  "(resume_request \<Rightarrow> 'a thread_svc_scheme \<Rightarrow> resume_outcome \<times> 'a thread_svc_scheme)
     \<Rightarrow> (string \<Rightarrow> 'a thread_svc_scheme \<Rightarrow> err option \<times> 'a thread_svc_scheme)
     \<Rightarrow> string \<Rightarrow> 'a thread_svc_scheme \<Rightarrow> open_result \<times> 'a thread_svc_scheme" where
  "Open launch discard i s =
     (case open_begin i s of
        (BeginFails e, s) \<Rightarrow> (OpenRefused e, s)
      | (BeginReuses t, s) \<Rightarrow> (Opened t False None, s)
      | (BeginWaits, s) \<Rightarrow> (OpenBlocked, s)
      | (BeginResumes req, s) \<Rightarrow>
          (case launch req s of
             (ResumeRefused e, s) \<Rightarrow> (OpenRefused e, open_finish i s)
           | (Resumed t err, s) \<Rightarrow>
               (case link i (at_id t) s of
                  (None, s) \<Rightarrow> (Opened t True err, open_finish i s)
                | (Some linkErr, s) \<Rightarrow>
                    (case discard (at_id t) s of
                       (Some e, s) \<Rightarrow> (OpenRefused (ErrCompensationFailed (at_id t) e linkErr), open_finish i s)
                     | (None, s) \<Rightarrow> (OpenRefused (ErrLinkFailed linkErr), open_finish i s)))))"

end
