(* ===== verification/ThreadsInv.thy ===== *)
theory ThreadsInv
  imports ThreadOps
begin

text \<open>
  The invariant of the Threads service and its proof for the operations of the service: the view, the private
  identity mapping and its inverse describe the same threads; the active projection, the holds and the marks of
  \<^verbatim>\<open>Open\<close> name threads that exist; a held thread is not archived; every record is well formed; and the
  database says what the view says, up to a terminal link that the deletion of the terminal already cleared.
\<close>

text \<open>The statements read a map through \<^const>\<open>map_of\<close> only, so the simplifier must not turn a read into membership.\<close>

declare map_of_eq_Some_iff [simp del] Some_eq_map_of_iff [simp del]

subsection \<open>The part of the state the invariant reads\<close>

definition core ::
  "'a thread_svc_scheme \<Rightarrow>
     (string \<times> thread_record) list \<times> (identity_key \<times> string) list \<times> (string \<times> identity_key) list
       \<times> (string \<times> string) list \<times> string list \<times> string list
       \<times> (string \<times> thread_record) list \<times> (identity_key \<times> string) list" where
  "core s = (view s, identities s, keys s, active s, held s, in_flight s, thread_rows s, identity_rows s)"

lemma core_components:
  "core s' = core s \<Longrightarrow> view s' = view s \<and> identities s' = identities s \<and> keys s' = keys s \<and> active s' = active s
     \<and> held s' = held s \<and> in_flight s' = in_flight s \<and> thread_rows s' = thread_rows s
     \<and> identity_rows s' = identity_rows s"
  by (simp add: core_def)

lemma core_now [frame, simp]: "core (snd (now s)) = core s"
  by (simp add: core_def now_def)

lemma core_io_step [frame, simp]: "core (snd (io_step s)) = core s"
  by (simp add: core_def io_step_def)

lemma core_newLong [frame, simp]: "core (snd (newLong p s)) = core s"
  by (simp add: core_def newLong_def)

lemma core_Publish [frame, simp]: "core (Publish ty rs i s) = core s"
  by (simp add: core_def Publish_def)

lemma core_publish_all [frame, simp]: "core (publish_all ty rs xs s) = core s"
  unfolding publish_all_def by (induction xs arbitrary: s) simp_all

lemma core_publish_thread [frame, simp]: "core (publish_thread c i s) = core s"
  by (simp add: publish_thread_def)

lemma core_forgetPrior [frame, simp]: "core (forgetPrior i s) = core s"
  by (simp add: core_def forgetPrior_def)

lemma core_observed_at [frame, simp]: "core (snd (observed_at t s)) = core s"
  by (simp add: observed_at_def)

lemma core_Projects_List [frame, simp]: "core (snd (Projects_List s)) = core s"
  by (simp add: Projects_List_def Let_def case_prod_beta)

lemma core_Projects_Get [frame, simp]: "core (snd (Projects_Get i s)) = core s"
  by (simp add: Projects_Get_def Let_def case_prod_beta)

lemma core_classify [frame, simp]: "core (snd (classify d s)) = core s"
  using core_Projects_List [of s] by (cases "Projects_List s"; cases "fst (Projects_List s)") (auto simp: classify_def)

lemma core_applyStatus [frame, simp]: "core (snd (snd (applyStatus r st d tobs at act s))) = core s"
  by (simp add: applyStatus_def Let_def case_prod_beta)

subsection \<open>The invariant\<close>

text \<open>Row and view record: equal, or the row has lost the terminal link to a deletion that the view has yet to learn of.\<close>

definition row_agrees :: "thread_record \<Rightarrow> thread_record \<Rightarrow> bool" where
  "row_agrees row r \<longleftrightarrow> row = r \<or> row = r\<lparr>terminal_id := None\<rparr>"

definition ids_inv :: "'a thread_svc_scheme \<Rightarrow> bool" where
  "ids_inv s \<longleftrightarrow>
     (\<forall>i r. map_of (view s) i = Some r \<longrightarrow> thread_id r = i)
     \<and> (\<forall>k i. map_of (identities s) k = Some i \<longleftrightarrow> map_of (keys s) i = Some k)
     \<and> (\<forall>i. map_of (keys s) i = None \<longleftrightarrow> map_of (view s) i = None)
     \<and> (\<forall>i r k. map_of (view s) i = Some r \<longrightarrow> map_of (keys s) i = Some k \<longrightarrow> fst k = integration_id r)
     \<and> distinct (map fst (view s))"

definition holds_inv :: "'a thread_svc_scheme \<Rightarrow> bool" where
  "holds_inv s \<longleftrightarrow>
     (\<forall>t i. map_of (active s) t = Some i \<longrightarrow> map_of (view s) i \<noteq> None)
     \<and> (\<forall>t t' i. map_of (active s) t = Some i \<longrightarrow> map_of (active s) t' = Some i \<longrightarrow> t = t')
     \<and> distinct (map fst (active s)) \<and> map_of (active s) [] = None
     \<and> (\<forall>i \<in> set (held s). \<exists>r. map_of (view s) i = Some r \<and> \<not> archived r)
     \<and> (\<forall>i \<in> set (in_flight s). map_of (view s) i \<noteq> None)"

definition rows_inv :: "'a thread_svc_scheme \<Rightarrow> bool" where
  "rows_inv s \<longleftrightarrow>
     (\<forall>i. map_of (thread_rows s) i = None \<longleftrightarrow> map_of (view s) i = None)
     \<and> (\<forall>i r row. map_of (view s) i = Some r \<longrightarrow> map_of (thread_rows s) i = Some row \<longrightarrow> row_agrees row r)
     \<and> (\<forall>k. map_of (identity_rows s) k = map_of (identities s) k)
     \<and> distinct (map fst (thread_rows s)) \<and> distinct (map fst (identity_rows s))"

definition records_inv :: "'a thread_svc_scheme \<Rightarrow> bool" where
  "records_inv s \<longleftrightarrow> (\<forall>i r. map_of (view s) i = Some r \<longrightarrow> wf_thread r)"

definition threads_inv :: "'a thread_svc_scheme \<Rightarrow> bool" where
  "threads_inv s \<longleftrightarrow> ids_inv s \<and> holds_inv s \<and> rows_inv s \<and> records_inv s"

lemmas inv_parts = threads_inv_def ids_inv_def holds_inv_def rows_inv_def records_inv_def

lemma threads_inv_core:
  assumes "core s' = core s"
  shows "threads_inv s' = threads_inv s"
proof -
  have 1: "view s' = view s" and 2: "identities s' = identities s" and 3: "keys s' = keys s"
    and 4: "active s' = active s" and 5: "held s' = held s" and 6: "in_flight s' = in_flight s"
    and 7: "thread_rows s' = thread_rows s" and 8: "identity_rows s' = identity_rows s"
    using core_components [OF assms] by simp_all
  show ?thesis unfolding inv_parts 1 2 3 4 5 6 7 8 by (rule refl)
qed

lemma threads_inv_frame [simp]:
  "threads_inv (snd (now s)) = threads_inv s"
  "threads_inv (snd (io_step s)) = threads_inv s"
  "threads_inv (Publish ty rs i s) = threads_inv s"
  "threads_inv (publish_all ty rs xs s) = threads_inv s"
  "threads_inv (publish_thread c i s) = threads_inv s"
  "threads_inv (forgetPrior i s) = threads_inv s"
  by (rule threads_inv_core, simp)+

lemma inv_view_id: "threads_inv s \<Longrightarrow> map_of (view s) i = Some r \<Longrightarrow> thread_id r = i"
  by (simp add: inv_parts del: split_paired_All)

lemma inv_view_wf: "threads_inv s \<Longrightarrow> map_of (view s) i = Some r \<Longrightarrow> wf_thread r"
  by (simp add: inv_parts del: split_paired_All)

lemma inv_keys: "threads_inv s \<Longrightarrow> map_of (identities s) k = Some i \<longleftrightarrow> map_of (keys s) i = Some k"
  by (simp add: inv_parts del: split_paired_All)

lemma inv_keys_view: "threads_inv s \<Longrightarrow> map_of (keys s) i = None \<longleftrightarrow> map_of (view s) i = None"
  by (simp add: inv_parts del: split_paired_All)

lemma inv_keys_integration:
  "threads_inv s \<Longrightarrow> map_of (view s) i = Some r \<Longrightarrow> map_of (keys s) i = Some k \<Longrightarrow> fst k = integration_id r"
  by (simp add: inv_parts del: split_paired_All)

lemma inv_rows_dom: "threads_inv s \<Longrightarrow> map_of (thread_rows s) i = None \<longleftrightarrow> map_of (view s) i = None"
  by (simp add: inv_parts del: split_paired_All)

lemma inv_rows:
  "threads_inv s \<Longrightarrow> map_of (view s) i = Some r \<Longrightarrow> \<exists>row. map_of (thread_rows s) i = Some row \<and> row_agrees row r"
  using inv_rows_dom [of s i] by (cases "map_of (thread_rows s) i") (auto simp: threads_inv_def rows_inv_def)

lemma inv_identity_rows: "threads_inv s \<Longrightarrow> map_of (identity_rows s) k = map_of (identities s) k"
  by (simp add: inv_parts del: split_paired_All)

lemma inv_held: "threads_inv s \<Longrightarrow> i \<in> set (held s) \<Longrightarrow> \<exists>r. map_of (view s) i = Some r \<and> \<not> archived r"
  by (simp add: inv_parts del: split_paired_All)

lemma inv_in_flight: "threads_inv s \<Longrightarrow> i \<in> set (in_flight s) \<Longrightarrow> map_of (view s) i \<noteq> None"
  by (simp add: inv_parts del: split_paired_All)

lemma inv_active: "threads_inv s \<Longrightarrow> map_of (active s) t = Some i \<Longrightarrow> map_of (view s) i \<noteq> None"
  by (simp add: inv_parts del: split_paired_All)

lemma inv_active_named: "threads_inv s \<Longrightarrow> map_of (active s) [] = None"
  by (simp add: inv_parts del: split_paired_All)

lemma inv_active_inj:
  "threads_inv s \<Longrightarrow> map_of (active s) t = Some i \<Longrightarrow> map_of (active s) t' = Some i \<Longrightarrow> t = t'"
  by (simp add: inv_parts del: split_paired_All)

lemma inv_identity_view:
  "threads_inv s \<Longrightarrow> map_of (identities s) k = Some i \<Longrightarrow> \<exists>r. map_of (view s) i = Some r \<and> fst k = integration_id r"
  using inv_keys [of s k i] inv_keys_view [of s i] inv_keys_integration [of s i _ k]
  by (cases "map_of (view s) i") auto

subsection \<open>Writing a record through\<close>

text \<open>What no operation on an existing thread touches.\<close>

definition same_origin :: "thread_record \<Rightarrow> thread_record \<Rightarrow> bool" where
  "same_origin r0 r \<longleftrightarrow>
     thread_id r = thread_id r0 \<and> integration_id r = integration_id r0 \<and> app_id r = app_id r0
     \<and> initial_directory r = initial_directory r0 \<and> created_at r = created_at r0"

lemma same_origin_refl [simp]: "same_origin r r"
  by (simp add: same_origin_def)

lemma write_mutable_same: "same_origin old r \<Longrightarrow> write_mutable old r = r"
  by (simp add: write_mutable_def same_origin_def)

text \<open>A record that may replace the thread's current one: same origin, well formed, archived only when nothing holds it.\<close>

definition may_replace :: "'a thread_svc_scheme \<Rightarrow> string \<Rightarrow> thread_record \<Rightarrow> bool" where
  "may_replace s i r \<longleftrightarrow>
     (\<exists>r0. map_of (view s) i = Some r0 \<and> same_origin r0 r) \<and> wf_thread r \<and> (archived r \<longrightarrow> i \<notin> set (held s))"

text \<open>The state after the row and the view record of a thread were both replaced.\<close>

definition put_both :: "string \<Rightarrow> thread_record \<Rightarrow> 'a thread_svc_scheme \<Rightarrow> 'a thread_svc_scheme" where
  "put_both i r s = s\<lparr>thread_rows := AList.update i r (thread_rows s), view := AList.update i r (view s)\<rparr>"

lemma put_both_inv:
  assumes inv: "threads_inv s" and may: "may_replace s i r"
  shows "threads_inv (put_both i r s)"
proof -
  obtain r0 where r0: "map_of (view s) i = Some r0" and same: "same_origin r0 r"
    and wf: "wf_thread r" and ar: "archived r \<longrightarrow> i \<notin> set (held s)"
    using may by (auto simp: may_replace_def)
  have id: "thread_id r = i" and integ: "integration_id r = integration_id r0"
    using same inv_view_id [OF inv r0] by (simp_all add: same_origin_def)
  have "ids_inv (put_both i r s)"
    using inv r0 id integ unfolding threads_inv_def ids_inv_def
    by (auto simp: put_both_def simp del: split_paired_All)
  moreover have "holds_inv (put_both i r s)"
    using inv r0 ar by (auto simp: threads_inv_def holds_inv_def put_both_def)
  moreover have "rows_inv (put_both i r s)"
    using inv r0 unfolding threads_inv_def rows_inv_def
    by (auto simp: put_both_def row_agrees_def simp del: split_paired_All)
  moreover have "records_inv (put_both i r s)"
    using inv wf by (auto simp: threads_inv_def records_inv_def put_both_def)
  ultimately show ?thesis by (simp add: threads_inv_def)
qed

text \<open>What \<^const>\<open>store_thread\<close> does to a record that may replace the current one: all, or nothing.\<close>

lemma put_both_core:
  "map_of (view s) i \<noteq> None \<Longrightarrow> thread_id r = i \<Longrightarrow>
   core (put_view r (s\<lparr>thread_rows := AList.update i r (thread_rows s)\<rparr>)) = core (put_both i r s)"
  by (simp add: put_view_def put_both_def core_def has_key_def)

lemma Threads_Update_cases:
  assumes inv: "threads_inv s" and may: "may_replace s i r"
  shows "core (snd (Threads_Update r s)) = core s \<and> fst (Threads_Update r s) \<noteq> Inr True
       \<or> core (snd (Threads_Update r s)) = core (s\<lparr>thread_rows := AList.update i r (thread_rows s)\<rparr>)
         \<and> fst (Threads_Update r s) = Inr True"
proof -
  obtain r0 where r0: "map_of (view s) i = Some r0" and same: "same_origin r0 r"
    using may by (auto simp: may_replace_def)
  obtain row where row: "map_of (thread_rows s) i = Some row" and agree: "row_agrees row r0"
    using inv_rows [OF inv r0] by auto
  have id: "thread_id r = i" using same inv_view_id [OF inv r0] by (simp add: same_origin_def)
  have old: "write_mutable row r = r"
    using agree same by (intro write_mutable_same) (auto simp: row_agrees_def same_origin_def)
  obtain failed s1 where io: "io_step s = (failed, s1)" by (cases "io_step s")
  have s1: "s1 = s\<lparr>io_ops := Suc (io_ops s)\<rparr>" using io by (simp add: io_step_def)
  show ?thesis
    using row id old
    by (cases failed) (simp_all add: Threads_Update_def io Let_def s1 core_def)
qed

lemma store_thread_cases:
  assumes inv: "threads_inv s" and may: "may_replace s i r"
  shows "core (snd (store_thread r s)) = core s \<and> fst (store_thread r s) \<noteq> Inr True
       \<or> core (snd (store_thread r s)) = core (put_both i r s) \<and> fst (store_thread r s) = Inr True"
proof -
  obtain r0 where r0: "map_of (view s) i = Some r0" and same: "same_origin r0 r"
    using may by (auto simp: may_replace_def)
  have id: "thread_id r = i" using same inv_view_id [OF inv r0] by (simp add: same_origin_def)
  obtain res s1 where up: "Threads_Update r s = (res, s1)" by (cases "Threads_Update r s")
  from Threads_Update_cases [OF inv may, unfolded up fst_conv snd_conv] show ?thesis
  proof
    assume "core s1 = core s \<and> res \<noteq> Inr True"
    then show ?thesis by (cases res) (auto simp: store_thread_def up)
  next
    assume *: "core s1 = core (s\<lparr>thread_rows := AList.update i r (thread_rows s)\<rparr>) \<and> res = Inr True"
    then have "core (put_view r s1) = core (put_both i r s)"
      using r0 id by (auto simp: put_view_def put_both_def core_def has_key_def)
    then show ?thesis using * by (simp add: store_thread_def up)
  qed
qed

lemma store_thread_inv [inv_intro]:
  assumes "threads_inv s" and "may_replace s i r"
  shows "threads_inv (snd (store_thread r s))"
  using store_thread_cases [OF assms] put_both_inv [OF assms] by (auto dest!: threads_inv_core simp: assms(1))

subsection \<open>What the record operations leave alone\<close>

text \<open>Evidence touches the status, its detail, the turn and the pending submission, nothing else.\<close>

definition evidence_only :: "thread_record \<Rightarrow> thread_record \<Rightarrow> bool" where
  "evidence_only r r' \<longleftrightarrow>
     r' = r\<lparr>status := status r', status_detail := status_detail r', turn := turn r', pending := pending r'\<rparr>"

lemma evidence_onlyI:
  "evidence_only r r"
  "evidence_only r (r\<lparr>status := st\<rparr>)"
  "evidence_only r (r\<lparr>status := st, status_detail := d\<rparr>)"
  "evidence_only r (r\<lparr>turn := t\<rparr>)"
  "evidence_only r (r\<lparr>turn := t, pending := p\<rparr>)"
  by (simp_all add: evidence_only_def)

lemma evidence_only_trans: "evidence_only a b \<Longrightarrow> evidence_only b c \<Longrightarrow> evidence_only a c"
  unfolding evidence_only_def by (cases a; cases b; cases c) simp

lemma evidence_only_keeps:
  assumes "evidence_only r r'"
  shows "same_origin r r'" and "archived r' = archived r" and "archived_at r' = archived_at r"
    and "terminal_id r' = terminal_id r" and "project_id r' = project_id r" and "thread_id r' = thread_id r"
    and "integration_id r' = integration_id r" and "title r' = title r"
proof -
  have "\<exists>a b c d. r' = r\<lparr>status := a, status_detail := b, turn := c, pending := d\<rparr>"
    using assms unfolding evidence_only_def by blast
  then obtain a b c d where r': "r' = r\<lparr>status := a, status_detail := b, turn := c, pending := d\<rparr>" by blast
  show "same_origin r r'" "archived r' = archived r" "archived_at r' = archived_at r"
    "terminal_id r' = terminal_id r" "project_id r' = project_id r" "thread_id r' = thread_id r"
    "integration_id r' = integration_id r" "title r' = title r"
    by (simp_all add: r' same_origin_def)
qed

lemma apply_status_claim_only: "evidence_only r (fst (apply_status_claim r st d act))"
  by (simp add: apply_status_claim_def Let_def evidence_onlyI)

lemma replace_turn_only:
  "evidence_only r (replace_turn i r obs st at)" "evidence_only r ((replace_turn i r obs st at)\<lparr>pending := p\<rparr>)"
  by (simp_all add: replace_turn_def evidence_onlyI)

lemma applyTurn_only: "evidence_only r (fst (applyTurn fresh r obs at))"
  by (cases "pending r"; cases "turn r")
    (simp_all add: applyTurn_def apply_latest_def Let_def replace_turn_only evidence_onlyI)

lemma apply_turn_report_only: "evidence_only r (fst (apply_turn_report fresh r tobs at act))"
  by (cases tobs) (simp_all add: apply_turn_report_def applyTurn_only evidence_onlyI)

lemma settle_running_only: "evidence_only r (fst (settle_running r tobs at))"
  by (cases "turn r") (simp_all add: settle_running_def evidence_onlyI)

lemma settle_pending_only: "evidence_only r (fst (settle_pending r at))"
  by (cases "pending r") (simp_all add: settle_pending_def evidence_onlyI)

lemma settleTurn_only: "evidence_only r (fst (settleTurn r tobs at))"
  using evidence_only_trans [OF settle_running_only settle_pending_only]
  by (simp add: settleTurn_def Let_def case_prod_beta)

lemma apply_evidence_only: "evidence_only r (fst (apply_evidence fresh r st d tobs at act))"
  using evidence_only_trans [OF evidence_only_trans [OF apply_status_claim_only apply_turn_report_only] settleTurn_only]
  by (simp add: apply_evidence_def Let_def case_prod_beta)

lemma coerceRecord_only: "evidence_only r (fst (coerceRecord r))"
proof (cases "turn r")
  case None
  then show ?thesis by (simp add: coerceRecord_def Let_def evidence_onlyI)
next
  case (Some t)
  have "evidence_only r (r\<lparr>status := st, turn := x\<rparr>)" for st x by (simp add: evidence_only_def)
  with Some show ?thesis by (simp add: coerceRecord_def Let_def evidence_onlyI)
qed

lemmas apply_evidence_keeps [simp] = evidence_only_keeps [OF apply_evidence_only]
lemmas coerceRecord_keeps [simp] = evidence_only_keeps [OF coerceRecord_only]

lemma applyMetadata_keeps [simp]:
  "same_origin r (fst (applyMetadata r m))" "archived (fst (applyMetadata r m)) = archived r"
  "thread_id (fst (applyMetadata r m)) = thread_id r" "terminal_id (fst (applyMetadata r m)) = terminal_id r"
  "integration_id (fst (applyMetadata r m)) = integration_id r"
  by (simp_all add: applyMetadata_def Let_def same_origin_def)

lemma same_origin_trans: "same_origin a b \<Longrightarrow> same_origin b c \<Longrightarrow> same_origin a c"
  by (simp add: same_origin_def)

lemma wf_thread_irrelevant [simp]:
  "wf_thread (r\<lparr>updated_at := t\<rparr>) = wf_thread r" "wf_thread (r\<lparr>last_evidence_at := e\<rparr>) = wf_thread r"
  "wf_thread (r\<lparr>terminal_id := x\<rparr>) = wf_thread r" "wf_thread (r\<lparr>agent_id := a\<rparr>) = wf_thread r"
  "wf_thread (r\<lparr>title := a\<rparr>) = wf_thread r" "wf_thread (r\<lparr>project_id := a\<rparr>) = wf_thread r"
  "wf_thread (r\<lparr>title_user_set := b\<rparr>) = wf_thread r" "wf_thread (r\<lparr>thread_id := a\<rparr>) = wf_thread r"
  "wf_thread (r\<lparr>initial_directory := a\<rparr>) = wf_thread r"
  by (simp_all add: wf_thread_def turn_running_def)

lemma wf_thread_archive [simp]:
  "wf_thread r \<Longrightarrow> wf_thread (r\<lparr>archived := True, archived_at := Some t\<rparr>)"
  "wf_thread r \<Longrightarrow> wf_thread (r\<lparr>archived := False, archived_at := None\<rparr>)"
  by (simp_all add: wf_thread_def turn_running_def)

lemma record_steps_keep [simp]:
  "same_origin r (stamp c at r)" "same_origin r (unarchive r)" "same_origin r (set_terminal t r)"
  "same_origin r (set_agent a r)" "same_origin r (track_title x r)"
  "archived (stamp c at r) = archived r" "\<not> archived (unarchive r)" "archived (set_terminal t r) = archived r"
  "archived (set_agent a r) = archived r" "archived (track_title x r) = archived r"
  by (simp_all add: stamp_def unarchive_def set_terminal_def set_agent_def track_title_def same_origin_def)

lemma record_steps_wf [inv_intro]:
  "wf_thread r \<Longrightarrow> wf_thread (stamp c at r)" "wf_thread r \<Longrightarrow> wf_thread (unarchive r)"
  "wf_thread r \<Longrightarrow> wf_thread (set_terminal t r)" "wf_thread r \<Longrightarrow> wf_thread (set_agent a r)"
  "wf_thread r \<Longrightarrow> wf_thread (track_title x r)"
  by (simp_all add: stamp_def unarchive_def set_terminal_def set_agent_def track_title_def)

lemma same_origin_update [simp]:
  "same_origin r0 (r\<lparr>updated_at := t\<rparr>) = same_origin r0 r" "same_origin r0 (r\<lparr>last_evidence_at := e\<rparr>) = same_origin r0 r"
  "same_origin r0 (r\<lparr>terminal_id := x\<rparr>) = same_origin r0 r" "same_origin r0 (r\<lparr>turn := u\<rparr>) = same_origin r0 r"
  "same_origin r0 (r\<lparr>agent_id := a\<rparr>) = same_origin r0 r" "same_origin r0 (r\<lparr>archived := b\<rparr>) = same_origin r0 r"
  "same_origin r0 (r\<lparr>archived_at := e\<rparr>) = same_origin r0 r" "same_origin r0 (r\<lparr>project_id := p\<rparr>) = same_origin r0 r"
  "same_origin r0 (r\<lparr>title := p\<rparr>) = same_origin r0 r" "same_origin r0 (r\<lparr>title_user_set := b\<rparr>) = same_origin r0 r"
  "same_origin r0 (r\<lparr>status := st\<rparr>) = same_origin r0 r" "same_origin r0 (r\<lparr>status_detail := p\<rparr>) = same_origin r0 r"
  "same_origin r0 (r\<lparr>pending := q\<rparr>) = same_origin r0 r"
  by (simp_all add: same_origin_def)

subsection \<open>Handlers that write one record\<close>

text \<open>What a write-through leaves alone besides the record: the maps and sets around the view.\<close>

definition around ::
  "'a thread_svc_scheme \<Rightarrow> (identity_key \<times> string) list \<times> (string \<times> identity_key) list \<times> (string \<times> string) list
     \<times> string list \<times> string list \<times> (identity_key \<times> string) list" where
  "around s = (identities s, keys s, active s, held s, in_flight s, identity_rows s)"

lemma around_core: "core s' = core s \<Longrightarrow> around s' = around s"
  by (drule core_components) (simp add: around_def)

lemma around_put_both [simp]: "around (put_both i r s) = around s"
  by (simp add: around_def put_both_def)

lemma may_replace_core: "core s' = core s \<Longrightarrow> may_replace s' i r \<longleftrightarrow> may_replace s i r"
  by (drule core_components) (simp add: may_replace_def)

lemma store_thread_around [frame]:
  assumes "threads_inv s" and "may_replace s i r"
  shows "around (snd (store_thread r s)) = around s"
  using store_thread_cases [OF assms] by (auto dest: around_core)

lemma persist_inv [inv_intro]:
  assumes "threads_inv s" and "may_replace s i r"
  shows "threads_inv (snd (persist r s))"
proof -
  have "snd (persist r s) = snd (store_thread r s)"
    by (simp add: persist_def split: prod.split sum.split)
  then show ?thesis using store_thread_inv [OF assms] by simp
qed

lemma persist_around [frame]:
  assumes "threads_inv s" and "may_replace s i r"
  shows "around (snd (persist r s)) = around s"
proof -
  have "snd (persist r s) = snd (store_thread r s)"
    by (simp add: persist_def split: prod.split sum.split)
  then show ?thesis using store_thread_around [OF assms] by simp
qed

lemma may_replace_coerced:
  assumes inv: "threads_inv s" and r: "map_of (view s) i = Some r" and s': "core s' = core s"
  shows "may_replace s' i ((fst (coerceRecord r))\<lparr>updated_at := t\<rparr>)"
proof -
  have "archived r \<longrightarrow> i \<notin> set (held s)" using inv_held [OF inv, of i] r by auto
  then show ?thesis
    using r inv_view_wf [OF inv r] unfolding may_replace_core [OF s']
    by (auto simp: may_replace_def coerceRecord_wf)
qed

lemma coerceInactive_outcome:
  assumes inv: "threads_inv s"
  shows "threads_inv (snd (coerceInactive i s)) \<and> around (snd (coerceInactive i s)) = around s"
proof (cases "map_of (view s) i")
  case None
  then show ?thesis by (simp add: coerceInactive_def inv)
next
  case (Some r)
  obtain r' c where cr: "coerceRecord r = (r', c)" by (cases "coerceRecord r")
  obtain t s1 where n: "now s = (t, s1)" by (cases "now s")
  have s1: "core s1 = core s" using core_now [of s] by (simp add: n)
  have inv1: "threads_inv s1" using inv threads_inv_core [OF s1] by simp
  have may: "may_replace s1 i (r'\<lparr>updated_at := t\<rparr>)"
    using may_replace_coerced [OF inv Some s1] by (simp add: cr)
  have "snd (coerceInactive i s) = (if c then snd (store_thread (r'\<lparr>updated_at := t\<rparr>) s1) else s)"
    by (simp add: coerceInactive_def Some cr n split: prod.split sum.split bool.split)
  then show ?thesis
    using inv store_thread_inv [OF inv1 may] store_thread_around [OF inv1 may] around_core [OF s1] by simp
qed

lemmas coerceInactive_inv [inv_intro] = coerceInactive_outcome [THEN conjunct1]
lemmas coerceInactive_around [frame] = coerceInactive_outcome [THEN conjunct2]

lemma around_publish [frame, simp]:
  "around (Publish ty rs i s) = around s" "around (publish_thread c i s) = around s"
  "around (publish_all ty rs xs s) = around s" "around (snd (now s)) = around s" "around (forgetPrior i s) = around s"
  by (rule around_core, simp)+

lemma around_components:
  "around s' = around s \<Longrightarrow> identities s' = identities s \<and> keys s' = keys s \<and> active s' = active s
     \<and> held s' = held s \<and> in_flight s' = in_flight s \<and> identity_rows s' = identity_rows s"
  by (simp add: around_def)

subsection \<open>Changes of the active projection\<close>

lemma inv_drop_active [inv_intro]:
  assumes "threads_inv s"
  shows "threads_inv (s\<lparr>active := AList.delete t (active s)\<rparr>)"
  using assms unfolding threads_inv_def
  by (auto simp: ids_inv_def holds_inv_def rows_inv_def records_inv_def simp del: split_paired_All)

lemma map_of_filter_other:
  "distinct (map fst xs) \<Longrightarrow>
   map_of (filter (\<lambda>(t, x). \<not> (x = i \<and> t \<noteq> term)) xs) k =
     (case map_of xs k of None \<Rightarrow> None | Some v \<Rightarrow> if v = i \<and> k \<noteq> term then None else Some v)"
  by (subst map_of_filter_value) (auto split: option.splits)

lemma inv_active_change:
  assumes inv: "threads_inv s"
    and dom: "\<forall>t x. map_of a t = Some x \<longrightarrow> map_of (view s) x \<noteq> None"
    and inj: "\<forall>t t' x. map_of a t = Some x \<longrightarrow> map_of a t' = Some x \<longrightarrow> t = t'"
    and dist: "distinct (map fst a)" and named: "map_of a [] = None"
  shows "threads_inv (s\<lparr>active := a\<rparr>)"
proof -
  have h: "holds_inv (s\<lparr>active := a\<rparr>) \<longleftrightarrow>
      (\<forall>t x. map_of a t = Some x \<longrightarrow> map_of (view s) x \<noteq> None)
      \<and> (\<forall>t t' x. map_of a t = Some x \<longrightarrow> map_of a t' = Some x \<longrightarrow> t = t')
      \<and> distinct (map fst a) \<and> map_of a [] = None
      \<and> (\<forall>i \<in> set (held s). \<exists>r. map_of (view s) i = Some r \<and> \<not> archived r)
      \<and> (\<forall>i \<in> set (in_flight s). map_of (view s) i \<noteq> None)"
    by (simp add: holds_inv_def)
  have rest: "ids_inv (s\<lparr>active := a\<rparr>) = ids_inv s" "rows_inv (s\<lparr>active := a\<rparr>) = rows_inv s"
    "records_inv (s\<lparr>active := a\<rparr>) = records_inv s"
    by (simp_all add: ids_inv_def rows_inv_def records_inv_def)
  have "holds_inv (s\<lparr>active := a\<rparr>)"
    unfolding h using dom inj dist named inv_held [OF inv] inv_in_flight [OF inv] by blast
  then show ?thesis using inv by (simp only: threads_inv_def rest)
qed

lemma inv_set_active [inv_intro]:
  assumes inv: "threads_inv s" and i: "map_of (view s) i \<noteq> None" and tm: "term \<noteq> []"
    and act: "act = filter (\<lambda>(t, x). \<not> (x = i \<and> t \<noteq> term)) (active s)"
  shows "threads_inv (s\<lparr>active := (if read_string act term \<noteq> i then AList.update term i act else act)\<rparr>)"
proof (rule inv_active_change [OF inv])
  let ?a = "if read_string act term \<noteq> i then AList.update term i act else act"
  have d: "distinct (map fst (active s))" using inv by (simp add: threads_inv_def holds_inv_def)
  have get: "map_of act k = (case map_of (active s) k of None \<Rightarrow> None
      | Some v \<Rightarrow> if v = i \<and> k \<noteq> term then None else Some v)" for k
    unfolding act by (rule map_of_filter_other [OF d])
  have da: "distinct (map fst act)" unfolding act using d by (rule distinct_filter_keys)
  then show "distinct (map fst ?a)" by simp
  have img: "map_of ?a t = Some x \<Longrightarrow> (t = term \<and> x = i) \<or> (x \<noteq> i \<and> map_of (active s) t = Some x)" for t x
    by (auto simp: get read_string_def split: if_splits option.splits)
  show "map_of ?a [] = None" using tm inv_active_named [OF inv] by (simp add: get)
  show "\<forall>t x. map_of ?a t = Some x \<longrightarrow> map_of (view s) x \<noteq> None"
    using img i inv_active [OF inv] by blast
  show "\<forall>t t' x. map_of ?a t = Some x \<longrightarrow> map_of ?a t' = Some x \<longrightarrow> t = t'"
    using img inv_active_inj [OF inv] by blast
qed

subsection \<open>Minting\<close>

text \<open>The state after a new thread went in: row, identity row, view, both mapping directions.\<close>

definition put_new :: "string \<Rightarrow> thread_record \<Rightarrow> identity_key \<Rightarrow> 'a thread_svc_scheme \<Rightarrow> 'a thread_svc_scheme" where
  "put_new i r key s =
     s\<lparr>thread_rows := AList.update i r (thread_rows s), identity_rows := AList.update key i (identity_rows s),
       view := AList.update i r (view s), identities := AList.update key i (identities s),
       keys := AList.update i key (keys s)\<rparr>"

lemma put_new_inv:
  assumes inv: "threads_inv s" and new: "map_of (view s) i = None" and key: "map_of (identities s) key = None"
    and id: "thread_id r = i" and wf: "wf_thread r" and ar: "\<not> archived r" and integ: "fst key = integration_id r"
  shows "threads_inv (put_new i r key s)"
proof -
  have nk: "map_of (keys s) i = None" using new inv_keys_view [OF inv] by simp
  have none: "map_of (keys s) j \<noteq> Some key" for j using key inv_keys [OF inv, of key j] by simp
  have noti: "map_of (identities s) k \<noteq> Some i" for k using nk inv_keys [OF inv, of k i] by simp
  have nh: "i \<notin> set (held s)" using inv_held [OF inv, of i] new by auto
  have "ids_inv (put_new i r key s)"
    using inv id integ none noti unfolding threads_inv_def ids_inv_def
    by (auto simp: put_new_def simp del: split_paired_All)
  moreover have "holds_inv (put_new i r key s)"
    using inv ar unfolding threads_inv_def holds_inv_def by (auto simp: put_new_def)
  moreover have "rows_inv (put_new i r key s)"
    using inv unfolding threads_inv_def rows_inv_def
    by (auto simp: put_new_def row_agrees_def simp del: split_paired_All)
  moreover have "records_inv (put_new i r key s)"
    using inv wf unfolding threads_inv_def records_inv_def by (auto simp: put_new_def)
  ultimately show ?thesis by (simp add: threads_inv_def)
qed

lemma InsertObserved_cases:
  assumes "threads_inv s"
  shows "core (snd (Threads_InsertObserved r key s)) = core s \<and> fst (Threads_InsertObserved r key s) \<noteq> Inr True
       \<or> fst (Threads_InsertObserved r key s) = Inr True
         \<and> core (snd (Threads_InsertObserved r key s))
            = core (s\<lparr>thread_rows := AList.update (thread_id r) r (thread_rows s),
                      identity_rows := AList.update key (thread_id r) (identity_rows s)\<rparr>)
         \<and> map_of (view s) (thread_id r) = None \<and> map_of (identities s) key = None"
proof -
  obtain failed s1 where io: "io_step s = (failed, s1)" by (cases "io_step s")
  have s1: "s1 = s\<lparr>io_ops := Suc (io_ops s)\<rparr>" using io by (simp add: io_step_def)
  have v: "map_of (view s) (thread_id r) = None" if "map_of (thread_rows s) (thread_id r) = None"
    using that inv_rows_dom [OF assms] by blast
  have k: "map_of (identities s) key = None" if "map_of (identity_rows s) key = None"
    using that inv_identity_rows [OF assms, of key] by simp
  show ?thesis
    using v k
    by (cases failed; cases "map_of (thread_rows s) (thread_id r)"; cases "map_of (identity_rows s) key")
      (simp_all add: Threads_InsertObserved_def io Let_def s1 core_def has_key_def)
qed

declare insert_loop.simps [simp del]

lemma insert_loop_outcome:
  assumes "threads_inv s" and "wf_thread r" and "\<not> archived r" and "fst key = integration_id r"
  shows "threads_inv (snd (insert_loop tape r key s))
       \<and> (case fst (insert_loop tape r key s) of
            Inl e \<Rightarrow> view (snd (insert_loop tape r key s)) = view s
          | Inr r' \<Rightarrow> map_of (view (snd (insert_loop tape r key s))) (thread_id r') = Some r'
                   \<and> map_of (view s) (thread_id r') = None
                   \<and> map_of (identities (snd (insert_loop tape r key s))) key = Some (thread_id r')
                   \<and> \<not> archived r')"
  using assms
proof (induction tape arbitrary: r s)
  case Nil
  have "core (s\<lparr>id_tape := []\<rparr>) = core s" by (simp add: core_def)
  then show ?case using Nil by (simp add: insert_loop.simps threads_inv_core [of "s\<lparr>id_tape := []\<rparr>" s])
next
  case (Cons sfx tape)
  define r1 where "r1 = r\<lparr>thread_id := thread_prefix @ sfx\<rparr>"
  define s1 where "s1 = s\<lparr>id_tape := tape\<rparr>"
  have c1: "core s1 = core s" by (simp add: s1_def core_def)
  have inv1: "threads_inv s1" using Cons.prems threads_inv_core [OF c1] by simp
  have r1: "wf_thread r1" "\<not> archived r1" "fst key = integration_id r1"
    using Cons.prems by (simp_all add: r1_def)
  obtain res s2 where ins: "Threads_InsertObserved r1 key s1 = (res, s2)"
    by (cases "Threads_InsertObserved r1 key s1")
  have loop: "insert_loop (sfx # tape) r key s =
      (case res of Inl e \<Rightarrow> (Inl e, s2)
       | Inr inserted \<Rightarrow>
           if inserted
           then (Inr r1, s2\<lparr>view := AList.update (thread_id r1) r1 (view s2),
                           identities := AList.update key (thread_id r1) (identities s2),
                           keys := AList.update (thread_id r1) key (keys s2)\<rparr>)
           else insert_loop tape r1 key s2)"
    using ins by (simp add: insert_loop.simps Let_def r1_def s1_def split: sum.split)
  from InsertObserved_cases [OF inv1, of r1 key, unfolded ins fst_conv snd_conv] show ?case
  proof
    assume *: "core s2 = core s1 \<and> res \<noteq> Inr True"
    then have inv2: "threads_inv s2" using inv1 threads_inv_core [of s2 s1] by simp
    have v2: "view s2 = view s" using * c1 core_components [of s2 s] by simp
    show ?thesis
    proof (cases res)
      case (Inl e)
      then show ?thesis using loop inv2 v2 by simp
    next
      case (Inr b)
      then have eq: "insert_loop (sfx # tape) r key s = insert_loop tape r1 key s2" using loop * by simp
      show ?thesis unfolding eq using Cons.IH [OF inv2 r1] unfolding v2 .
    qed
  next
    assume *: "res = Inr True \<and> core s2 = core (s1\<lparr>thread_rows := AList.update (thread_id r1) r1 (thread_rows s1),
          identity_rows := AList.update key (thread_id r1) (identity_rows s1)\<rparr>)
        \<and> map_of (view s1) (thread_id r1) = None \<and> map_of (identities s1) key = None"
    let ?s3 = "s2\<lparr>view := AList.update (thread_id r1) r1 (view s2),
                  identities := AList.update key (thread_id r1) (identities s2),
                  keys := AList.update (thread_id r1) key (keys s2)\<rparr>"
    have core3: "core ?s3 = core (put_new (thread_id r1) r1 key s1)"
      using * by (simp add: core_def put_new_def)
    have "threads_inv (put_new (thread_id r1) r1 key s1)"
      using * r1 by (intro put_new_inv [OF inv1]) auto
    then have "threads_inv ?s3" using threads_inv_core [OF core3] by simp
    moreover have "map_of (view s) (thread_id r1) = None" using * by (simp add: s1_def)
    ultimately show ?thesis using * loop r1 by simp
  qed
qed

subsection \<open>Committing a session observation\<close>

lemma update_present: "map_of xs k = Some v \<Longrightarrow> AList.update k v xs = xs"
  by (induction xs) (auto split: if_splits)

lemma store_thread_view_other:
  assumes "threads_inv s" and "may_replace s i r" and "j \<noteq> i"
  shows "map_of (view (snd (store_thread r s))) j = map_of (view s) j"
  using store_thread_cases [OF assms(1,2)] assms(3)
  by (auto dest!: core_components simp: put_both_def)

lemma coerceInactive_view_other:
  assumes inv: "threads_inv s" and j: "j \<noteq> i"
  shows "map_of (view (snd (coerceInactive i s))) j = map_of (view s) j"
proof (cases "map_of (view s) i")
  case None
  then show ?thesis by (simp add: coerceInactive_def)
next
  case (Some r)
  obtain r' c where cr: "coerceRecord r = (r', c)" by (cases "coerceRecord r")
  obtain t s1 where n: "now s = (t, s1)" by (cases "now s")
  have s1: "core s1 = core s" using core_now [of s] by (simp add: n)
  have inv1: "threads_inv s1" using inv threads_inv_core [OF s1] by simp
  have may: "may_replace s1 i (r'\<lparr>updated_at := t\<rparr>)"
    using may_replace_coerced [OF inv Some s1] by (simp add: cr)
  have "snd (coerceInactive i s) = (if c then snd (store_thread (r'\<lparr>updated_at := t\<rparr>) s1) else s)"
    by (simp add: coerceInactive_def Some cr n split: prod.split sum.split bool.split)
  then show ?thesis
    using store_thread_view_other [OF inv1 may j] core_components [OF s1] by simp
qed

text \<open>The last steps of \<^const>\<open>commit\<close>, after the projection moved.\<close>

definition commit_tail :: "string \<Rightarrow> bool \<Rightarrow> string \<Rightarrow> string list \<Rightarrow> 'a thread_svc_scheme \<Rightarrow> 'a thread_svc_scheme" where
  "commit_tail tid changed displaced ts s =
     publish_all EventTerminalUpdated terminal_resource ts
       (publish_thread changed tid
         (if displaced \<noteq> ''''
          then publish_thread (fst (coerceInactive displaced s)) displaced (snd (coerceInactive displaced s)) else s))"

text \<open>The projection with the thread moved to the terminal.\<close>

definition moved_active :: "string \<Rightarrow> string \<Rightarrow> 'a thread_svc_scheme \<Rightarrow> (string \<times> string) list" where
  "moved_active tid term s =
     (let act = filter (\<lambda>(t, x). \<not> (x = tid \<and> t \<noteq> term)) (active s)
      in if read_string act term \<noteq> tid then AList.update term tid act else act)"

lemma commit_split:
  assumes "has_key (view s) tid"
  shows "\<exists>ts displaced. (displaced = '''' \<or> displaced \<noteq> tid) \<and>
     commit r tid term changed s =
       commit_tail tid changed displaced ts
         (s\<lparr>view := AList.update tid r (view s), active := moved_active tid term s\<rparr>)"
proof -
  define act where "act = filter (\<lambda>(t, x). \<not> (x = tid \<and> t \<noteq> term)) (active s)"
  define displaced where
    "displaced = (case map_of act term of Some p \<Rightarrow> if p \<noteq> tid then p else '''' | None \<Rightarrow> '''')"
  have "displaced = '''' \<or> displaced \<noteq> tid"
    by (auto simp: displaced_def split: option.splits)
  moreover have "commit r tid term changed s =
      commit_tail tid changed displaced
        (map fst (filter (\<lambda>(t, x). x = tid \<and> t \<noteq> term) (active s)) @ (if read_string act term \<noteq> tid then [term] else []))
        (s\<lparr>view := AList.update tid r (view s), active := moved_active tid term s\<rparr>)"
    using assms
    by (simp add: commit_def commit_tail_def moved_active_def Let_def case_prod_beta displaced_def act_def)
  ultimately show ?thesis by blast
qed

lemma commit_tail_outcome:
  assumes inv: "threads_inv s" and d: "displaced = '''' \<or> displaced \<noteq> tid"
  shows "threads_inv (commit_tail tid changed displaced ts s)"
    and "around (commit_tail tid changed displaced ts s) = around s"
    and "map_of (view (commit_tail tid changed displaced ts s)) tid = map_of (view s) tid"
proof -
  let ?s1 = "if displaced \<noteq> '''' then snd (coerceInactive displaced s) else s"
  have c: "core (commit_tail tid changed displaced ts s) = core ?s1"
    by (simp add: commit_tail_def)
  have v: "view (commit_tail tid changed displaced ts s) = view ?s1" using core_components [OF c] by simp
  show "threads_inv (commit_tail tid changed displaced ts s)"
    using threads_inv_core [OF c] coerceInactive_inv [OF inv] inv by auto
  show "around (commit_tail tid changed displaced ts s) = around s"
    using around_core [OF c] coerceInactive_around [OF inv] by auto
  show "map_of (view (commit_tail tid changed displaced ts s)) tid = map_of (view s) tid"
    unfolding v using d coerceInactive_view_other [OF inv] by auto
qed

end
