(* ===== verification/Projects.thy ===== *)
theory Projects
  imports Store GoStrings
begin

text \<open>
  \<^verbatim>\<open>internal/projects/projects.go\<close>: durable codebase context, a thin policy layer over the repository (no
  in-memory view). The filesystem is two parameters: \<open>canon\<close> is \<^verbatim>\<open>paths.CanonicalDir\<close> and \<open>stat\<close>
  is \<^verbatim>\<open>os.Stat\<close>, \<^const>\<open>None\<close> when it fails and otherwise the identity that \<^verbatim>\<open>os.SameFile\<close> compares.
\<close>

definition project_resource :: string where "project_resource = ''project''"
definition project_prefix :: string where "project_prefix = ''proj-''"

text \<open>\<^verbatim>\<open>unclaimed\<close>: the loop over the existing projects, first claim first.\<close>

fun claimed_by ::
  "(string \<Rightarrow> 'f option) \<Rightarrow> 'f \<Rightarrow> string \<Rightarrow> string \<Rightarrow> project_record list \<Rightarrow> err option" where
  "claimed_by stat info canonical except [] = None"
| "claimed_by stat info canonical except (p # ps) =
     (if proj_id p = except then claimed_by stat info canonical except ps
      else if proj_directory p = canonical then Some (ErrDirectoryTaken canonical)
      else if stat (proj_directory p) = Some info then Some (ErrDirectoryTaken canonical)
      else claimed_by stat info canonical except ps)"

definition unclaimed ::
  "(string \<Rightarrow> 'f option) \<Rightarrow> string \<Rightarrow> string \<Rightarrow> 'a db_world_scheme \<Rightarrow> err option \<times> 'a db_world_scheme" where
  "unclaimed stat canonical except s =
     (case stat canonical of
        None \<Rightarrow> (Some (ErrDirectoryInvalid canonical), s)
      | Some info \<Rightarrow>
          (case Projects_List s of
             (Inl e, s) \<Rightarrow> (Some e, s)
           | (Inr ps, s) \<Rightarrow> (claimed_by stat info canonical except ps, s)))"

fun insert_project ::
  "string list \<Rightarrow> project_record \<Rightarrow> 'a db_world_scheme \<Rightarrow> (err + project_record) \<times> 'a db_world_scheme" where
  "insert_project [] r s = (Inl ErrStarved, s\<lparr>id_tape := []\<rparr>)"
| "insert_project (sfx # rest) r s =
     (let r = r\<lparr>proj_id := project_prefix @ sfx\<rparr>
      in case Projects_Insert r (s\<lparr>id_tape := rest\<rparr>) of
           (Inl e, s) \<Rightarrow> (Inl e, s)
         | (Inr inserted, s) \<Rightarrow> if inserted then (Inr r, s) else insert_project rest r s)"

definition Create_project ::
  "(string \<Rightarrow> string option) \<Rightarrow> (string \<Rightarrow> 'f option) \<Rightarrow> string \<Rightarrow> string \<Rightarrow> 'a db_world_scheme
     \<Rightarrow> (err + project_record) \<times> 'a db_world_scheme" where
  "Create_project canon stat name directory s =
     (case canon directory of
        None \<Rightarrow> (Inl (ErrDirectoryInvalid directory), s)
      | Some canonical \<Rightarrow>
          (let name = (if TrimSpace name = '''' then path_base canonical else TrimSpace name);
               (t, s) = now s
           in case unclaimed stat canonical '''' s of
                (Some e, s) \<Rightarrow> (Inl e, s)
              | (None, s) \<Rightarrow>
                  (case insert_project (id_tape s)
                          \<lparr>proj_id = '''', proj_name = name, proj_directory = canonical,
                           proj_created_at = t, proj_updated_at = t\<rparr> s of
                     (Inl e, s) \<Rightarrow> (Inl e, s)
                   | (Inr r, s) \<Rightarrow> (Inr r, Publish EventProjectCreated project_resource (proj_id r) s))))"

definition Get_project :: "string \<Rightarrow> 'a db_world_scheme \<Rightarrow> (err + project_record) \<times> 'a db_world_scheme" where
  "Get_project i s =
     (case Projects_Get i s of
        (Inl e, s) \<Rightarrow> (Inl e, s)
      | (Inr None, s) \<Rightarrow> (Inl ErrNotFound, s)
      | (Inr (Some r), s) \<Rightarrow> (Inr r, s))"

definition List_projects ::
  "'a db_world_scheme \<Rightarrow> (err + project_record list) \<times> 'a db_world_scheme" where
  "List_projects s = Projects_List s"

text \<open>The name and the directory a patch asks for; the directory still has to be unclaimed when it moves.\<close>

definition patched_project_name :: "string patch \<Rightarrow> string \<Rightarrow> err + string" where
  "patched_project_name p current =
     (case p of
        Unset \<Rightarrow> Inr current
      | Clear \<Rightarrow> Inl ErrInvalidUpdate
      | Put v \<Rightarrow> if TrimSpace v = '''' then Inl ErrNameInvalid else Inr (TrimSpace v))"

definition patched_directory ::
  "(string \<Rightarrow> string option) \<Rightarrow> (string \<Rightarrow> 'f option) \<Rightarrow> string \<Rightarrow> string patch \<Rightarrow> string \<Rightarrow> 'a db_world_scheme
     \<Rightarrow> (err + string) \<times> 'a db_world_scheme" where
  "patched_directory canon stat i p current s =
     (case p of
        Unset \<Rightarrow> (Inr current, s)
      | Clear \<Rightarrow> (Inl ErrInvalidUpdate, s)
      | Put v \<Rightarrow>
          (case canon v of
             None \<Rightarrow> (Inl (ErrDirectoryInvalid v), s)
           | Some d \<Rightarrow>
               if d = current then (Inr d, s)
               else (case unclaimed stat d i s of
                       (Some e, s) \<Rightarrow> (Inl e, s) | (None, s) \<Rightarrow> (Inr d, s))))"

definition Update_project ::
  "(string \<Rightarrow> string option) \<Rightarrow> (string \<Rightarrow> 'f option) \<Rightarrow> string \<Rightarrow> string patch \<Rightarrow> string patch
     \<Rightarrow> 'a db_world_scheme \<Rightarrow> (err + project_record \<times> bool) \<times> 'a db_world_scheme" where
  "Update_project canon stat i pname pdir s =
     (case Projects_Get i s of
        (Inl e, s) \<Rightarrow> (Inl e, s)
      | (Inr None, s) \<Rightarrow> (Inl ErrNotFound, s)
      | (Inr (Some current), s) \<Rightarrow>
          (case patched_project_name pname (proj_name current) of
             Inl e \<Rightarrow> (Inl e, s)
           | Inr name \<Rightarrow>
               (case patched_directory canon stat i pdir (proj_directory current) s of
                  (Inl e, s) \<Rightarrow> (Inl e, s)
                | (Inr directory, s) \<Rightarrow>
                    if name = proj_name current \<and> directory = proj_directory current
                    then (Inr (current, False), s)
                    else
                      (let (t, s) = now s
                       in case Projects_Update i name directory t s of
                            (Inl e, s) \<Rightarrow> (Inl e, s)
                          | (Inr None, s) \<Rightarrow> (Inl ErrNotFound, s)
                          | (Inr (Some r), s) \<Rightarrow>
                              (Inr (r, directory \<noteq> proj_directory current),
                               Publish EventProjectUpdated project_resource i s)))))"

definition Delete_project :: "string \<Rightarrow> 'a db_world_scheme \<Rightarrow> err option \<times> 'a db_world_scheme" where
  "Delete_project i s =
     (case Projects_Delete i s of
        (Inl e, s) \<Rightarrow> (Some e, s)
      | (Inr deleted, s) \<Rightarrow>
          if \<not> deleted then (Some ErrNotFound, s)
          else (None, Publish EventProjectDeleted project_resource i s))"

end
