(* ===== verification/Application.thy ===== *)
theory Application
  imports ThreadOps Projects
begin

text \<open>
  \<^verbatim>\<open>internal/application/application.go\<close>: the coordinator, which orders the calls of the domains. The state is the
  threads service's, which extends the terminals' and the database. What the Integration catalog resolves
  (\<^verbatim>\<open>ResolveLaunch\<close>, \<^verbatim>\<open>ResolveResume\<close>, \<^verbatim>\<open>ResolveThreadCreation\<close>) and what the driver answers are arguments;
  the cleanups of the Integrations are arbitrary functions of the state.
\<close>

subsection \<open>Launch modes\<close>

datatype launch_mode = ModeShell | ModeCommand | ModeApp | ModeThread

text \<open>\<^verbatim>\<open>mode\<close>: the loop over the three selectors, which keeps the last one named and counts them.\<close>

definition mode_step :: "launch_mode \<times> string \<Rightarrow> launch_mode \<times> nat \<Rightarrow> launch_mode \<times> nat" where
  "mode_step x acc = (case x of (m, selector) \<Rightarrow> if selector \<noteq> '''' then (m, Suc (snd acc)) else acc)"

definition mode :: "terminal_create_params \<Rightarrow> err + launch_mode" where
  "mode params =
     (let (selected, count) =
            fold mode_step [(ModeCommand, tc_command params), (ModeApp, tc_app params), (ModeThread, tc_thread params)]
                 (ModeShell, 0)
      in if count > 1 then Inl ErrLaunchModeConflict else Inr selected)"

definition placement :: "terminal_create_params \<Rightarrow> terminal_create_params" where
  "placement params = params\<lparr>tc_command := '''', tc_app := '''', tc_thread := ''''\<rparr>"

subsection \<open>Terminals\<close>

text \<open>What the session backend answers to one create, and what inventory each deletion's last pass sees.\<close>

record backend =
  be_outcome :: launch_outcome
  be_polls :: "nat \<Rightarrow> poll"
  be_inventory :: "session list option"
  be_after_delete :: "string \<Rightarrow> session list option"

record catalog =
  cat_launch :: "string \<Rightarrow> err + app_launch"
  cat_resume :: "resume_request \<Rightarrow> err + app_launch"

definition DeleteTerminal ::
  "(string \<Rightarrow> session list option) \<Rightarrow> (string \<Rightarrow> 'a thread_svc_scheme \<Rightarrow> 'a thread_svc_scheme) list \<Rightarrow> string
     \<Rightarrow> 'a thread_svc_scheme \<Rightarrow> err option \<times> 'a thread_svc_scheme" where
  "DeleteTerminal inventories cleanups i s =
     (case Delete_terminal (inventories i) i s of
        (Some e, s) \<Rightarrow> (Some e, s)
      | (None, s) \<Rightarrow> (None, TerminalRemoved i (fold (\<lambda>cleanup s. cleanup i s) cleanups s)))"

text \<open>\<^verbatim>\<open>resumer\<close>: the launch a resume asks for, placed as the request asks.\<close>

definition resumer_Resume ::
  "(string \<Rightarrow> string option) \<Rightarrow> catalog \<Rightarrow> backend \<Rightarrow> terminal_create_params \<Rightarrow> resume_request
     \<Rightarrow> 'a thread_svc_scheme \<Rightarrow> resume_outcome \<times> 'a thread_svc_scheme" where
  "resumer_Resume canon cat be place req s =
     (case cat_resume cat req of
        Inl e \<Rightarrow> (ResumeRefused e, s)
      | Inr launch \<Rightarrow>
          (case create canon place launch (be_outcome be) (be_polls be) (be_inventory be) s of
             (Created t, _, s) \<Rightarrow> (Resumed t None, s)
           | (Unverified t, _, s) \<Rightarrow> (Resumed t (Some (ErrUnverifiedLaunch (at_id t))), s)
           | (Refused e, _, s) \<Rightarrow> (ResumeRefused e, s)))"

definition created_result :: "create_result \<Rightarrow> open_result" where
  "created_result res =
     (case res of
        Created t \<Rightarrow> Opened t True None
      | Unverified t \<Rightarrow> Opened t False (Some (ErrUnverifiedLaunch (at_id t)))
      | Refused e \<Rightarrow> OpenRefused e)"

definition CreateTerminal ::
  "(string \<Rightarrow> string option) \<Rightarrow> catalog \<Rightarrow> backend \<Rightarrow> (string \<Rightarrow> 'a thread_svc_scheme \<Rightarrow> 'a thread_svc_scheme) list
     \<Rightarrow> terminal_create_params \<Rightarrow> 'a thread_svc_scheme \<Rightarrow> open_result \<times> 'a thread_svc_scheme" where
  "CreateTerminal canon cat be cleanups params s =
     (case mode params of
        Inl e \<Rightarrow> (OpenRefused e, s)
      | Inr ModeThread \<Rightarrow>
          Open (resumer_Resume canon cat be (placement params)) (DeleteTerminal (be_after_delete be) cleanups)
            (tc_thread params) s
      | Inr ModeApp \<Rightarrow>
          (case cat_launch cat (tc_app params) of
             Inl e \<Rightarrow> (OpenRefused e, s)
           | Inr launch \<Rightarrow>
               (let (res, _, s) = create canon (placement params) launch (be_outcome be) (be_polls be)
                                    (be_inventory be) s
                in (created_result res, s)))
      | Inr _ \<Rightarrow>
          (let (res, _, s) = create canon params plain_launch (be_outcome be) (be_polls be) (be_inventory be) s
           in (created_result res, s)))"

definition DeleteSpace_everything ::
  "(string \<Rightarrow> session list option) \<Rightarrow> (string \<Rightarrow> 'a thread_svc_scheme \<Rightarrow> 'a thread_svc_scheme) list \<Rightarrow> string
     \<Rightarrow> 'a thread_svc_scheme \<Rightarrow> err option \<times> 'a thread_svc_scheme" where
  "DeleteSpace_everything inventories cleanups i s = DeleteSpace i (DeleteTerminal inventories cleanups) s"

subsection \<open>Projects\<close>

definition backfill :: "'a thread_svc_scheme \<Rightarrow> 'a thread_svc_scheme" where
  "backfill s = snd (Backfill s)"

definition CreateProject ::
  "(string \<Rightarrow> string option) \<Rightarrow> (string \<Rightarrow> 'f option) \<Rightarrow> string \<Rightarrow> string \<Rightarrow> 'a thread_svc_scheme
     \<Rightarrow> (err + project_record) \<times> 'a thread_svc_scheme" where
  "CreateProject canon stat name directory s =
     (case Create_project canon stat name directory s of
        (Inl e, s) \<Rightarrow> (Inl e, s)
      | (Inr p, s) \<Rightarrow> (Inr p, backfill s))"

definition UpdateProject ::
  "(string \<Rightarrow> string option) \<Rightarrow> (string \<Rightarrow> 'f option) \<Rightarrow> string \<Rightarrow> string patch \<Rightarrow> string patch
     \<Rightarrow> 'a thread_svc_scheme \<Rightarrow> (err + project_record) \<times> 'a thread_svc_scheme" where
  "UpdateProject canon stat i pname pdir s =
     (case Update_project canon stat i pname pdir s of
        (Inl e, s) \<Rightarrow> (Inl e, s)
      | (Inr (p, moved), s) \<Rightarrow> (Inr p, if moved then backfill s else s))"

definition DeleteProject_everywhere ::
  "string \<Rightarrow> 'a thread_svc_scheme \<Rightarrow> err option \<times> 'a thread_svc_scheme" where
  "DeleteProject_everywhere i s = DeleteProject i (Delete_project i) s"

subsection \<open>Starting a thread\<close>

record thread_create_params =
  cr_integration :: string
  cr_agent :: string
  cr_project :: string
  cr_prompt :: string
  cr_model :: string
  cr_options :: "(string \<times> string) list"

text \<open>\<^verbatim>\<open>PreparedThread\<close>: what an Integration prepares, and what its dispatch does to the state and answers.\<close>

record 'w prepared_thread =
  pt_provider :: string
  pt_title :: string
  pt_dispatch :: "'w \<Rightarrow> err option \<times> 'w"

definition valid_create :: "thread_create_params \<Rightarrow> bool" where
  "valid_create params \<longleftrightarrow>
     TrimSpace (cr_prompt params) \<noteq> '''' \<and> TrimSpace (cr_model params) \<noteq> ''''
     \<and> list_all (\<lambda>(k, v). TrimSpace k \<noteq> '''') (cr_options params)"

definition discard :: "string \<Rightarrow> string \<Rightarrow> 'a thread_svc_scheme \<Rightarrow> 'a thread_svc_scheme" where
  "discard integration provider s = snd (DiscardExternal integration provider s)"

definition start_observation ::
  "thread_create_params \<Rightarrow> string \<Rightarrow> string \<Rightarrow> string \<Rightarrow> external_observation" where
  "start_observation params directory provider tit =
     \<lparr>eo_integration = cr_integration params, eo_provider = provider, eo_directory = directory, eo_at = 0,
      eo_status = ThreadNone, eo_agent = cr_agent params, eo_title = tit, eo_detail = '''', eo_turn = None,
      eo_metadata = \<lparr>md_title = '''', md_model = cr_model params, md_effort = '''', md_cwd = directory,
                     md_permission_mode = ''''\<rparr>\<rparr>"

text \<open>
  \<^verbatim>\<open>StartThread\<close>. \<open>resolve\<close> is \<^verbatim>\<open>ResolveThreadCreation\<close> and the prepare function it yields; \<open>recorded\<close> is
  the durability seam, \<^const>\<open>None\<close> for \<^verbatim>\<open>CreateThread\<close>.
\<close>

definition start_recorded ::
  "(string \<Rightarrow> string \<Rightarrow> 'a thread_svc_scheme \<Rightarrow> err option \<times> 'a thread_svc_scheme) option \<Rightarrow> string \<Rightarrow> string
     \<Rightarrow> 'a thread_svc_scheme \<Rightarrow> err option \<times> 'a thread_svc_scheme" where
  "start_recorded recorded i t s =
     (case recorded of None \<Rightarrow> (None, s) | Some f \<Rightarrow> f i t s)"

definition StartThread ::
  "(string \<Rightarrow> string option) \<Rightarrow> linkers
     \<Rightarrow> (string \<Rightarrow> string \<Rightarrow> err + (thread_create_params \<Rightarrow> string \<Rightarrow> 'a thread_svc_scheme
           \<Rightarrow> (err + 'a thread_svc_scheme prepared_thread) \<times> 'a thread_svc_scheme))
     \<Rightarrow> (string \<Rightarrow> string \<Rightarrow> 'a thread_svc_scheme \<Rightarrow> err option \<times> 'a thread_svc_scheme) option
     \<Rightarrow> thread_create_params \<Rightarrow> 'a thread_svc_scheme \<Rightarrow> (err + api_thread) \<times> 'a thread_svc_scheme" where
  "StartThread canon linkers resolve recorded params s =
     (if \<not> valid_create params then (Inl ErrThreadCreateInvalid, s)
      else case resolve (cr_integration params) (cr_agent params) of
             Inl e \<Rightarrow> (Inl e, s)
           | Inr prepare \<Rightarrow>
               (case Get_project (cr_project params) s of
                  (Inl e, s) \<Rightarrow> (Inl e, s)
                | (Inr p, s) \<Rightarrow>
                    (case prepare params (proj_directory p) s of
                       (Inl e, s) \<Rightarrow> (Inl e, s)
                     | (Inr pt, s) \<Rightarrow>
                         (case ObserveExternal canon
                                 (start_observation params (proj_directory p) (pt_provider pt) (pt_title pt)) s of
                            (Inl e, s) \<Rightarrow> (Inl e, s)
                          | (Inr i, s) \<Rightarrow>
                              (case SubmitTurn i s of
                                 (Inl e, s) \<Rightarrow> (Inl e, discard (cr_integration params) (pt_provider pt) s)
                               | (Inr t, s) \<Rightarrow>
                                   (case start_recorded recorded i t s of
                                      (Some e, s) \<Rightarrow>
                                        (Inl (ErrRecording e), discard (cr_integration params) (pt_provider pt) s)
                                    | (None, s) \<Rightarrow>
                                        (case pt_dispatch pt s of
                                           (Some e, s) \<Rightarrow>
                                             (Inl e,
                                              if Option.is_none recorded \<or> e \<noteq> ErrUncertain
                                              then discard (cr_integration params) (pt_provider pt) s else s)
                                         | (None, s) \<Rightarrow> (Get_thread linkers i s, s))))))))"

end
