(* ===== verification/ThreadsSafety.thy ===== *)
theory ThreadsSafety
  imports ThreadsInv Application
begin

text \<open>
  Every handler of the Threads service, and every operation of the other domains that writes the shared database,
  keeps \<^const>\<open>threads_inv\<close>.
\<close>

declare map_of_eq_Some_iff [simp del] Some_eq_map_of_iff [simp del]
declare insert_loop.simps [simp del]

subsection \<open>Session observations\<close>

lemma moved_active_inv:
  assumes "threads_inv s" and "map_of (view s) i \<noteq> None" and "tm \<noteq> []"
  shows "threads_inv (s\<lparr>active := moved_active i tm s\<rparr>)"
  unfolding moved_active_def Let_def by (rule inv_set_active [OF assms refl])

lemma moved_active_at: "map_of (moved_active i tm s) tm = Some i \<or> i = ''''"
  by (auto simp: moved_active_def Let_def read_string_def split: option.splits)

text \<open>\<^const>\<open>commit\<close> when the row already carries the record: in both of its uses.\<close>

lemma commit_outcome:
  assumes inv: "threads_inv (s\<lparr>view := AList.update i r (view s)\<rparr>)" and i: "map_of (view s) i \<noteq> None"
    and tm: "tm \<noteq> []"
  shows "threads_inv (commit r i tm changed s)"
    and "map_of (view (commit r i tm changed s)) i = Some r"
    and "active (commit r i tm changed s) = moved_active i tm s"
    and "identities (commit r i tm changed s) = identities s"
proof -
  let ?s1 = "s\<lparr>view := AList.update i r (view s)\<rparr>"
  let ?s2 = "s\<lparr>view := AList.update i r (view s), active := moved_active i tm s\<rparr>"
  obtain ts displaced where d: "displaced = '''' \<or> displaced \<noteq> i"
    and eq: "commit r i tm changed s = commit_tail i changed displaced ts ?s2"
    using commit_split [of s i r tm changed] i by (auto simp: has_key_def)
  have "moved_active i tm ?s1 = moved_active i tm s" by (simp add: moved_active_def)
  then have inv2: "threads_inv ?s2"
    using moved_active_inv [OF inv, of i tm] tm by simp
  note out = commit_tail_outcome [OF inv2 d, of changed ts]
  show "threads_inv (commit r i tm changed s)" unfolding eq by (rule out(1))
  show "map_of (view (commit r i tm changed s)) i = Some r" unfolding eq out(3) by simp
  show "active (commit r i tm changed s) = moved_active i tm s"
    using around_components [OF out(2)] by (simp add: eq)
  show "identities (commit r i tm changed s) = identities s"
    using around_components [OF out(2)] by (simp add: eq)
qed

lemma applyStatus_result:
  "applyStatus r st d tobs at act s = (r', c, s') \<Longrightarrow>
     core s' = core s \<and> (\<exists>fresh. r' = fst (apply_evidence fresh r st d tobs at act)
                              \<and> c = snd (apply_evidence fresh r st d tobs at act))"
  by (auto simp: applyStatus_def Let_def case_prod_beta)

text \<open>The record a session observation writes for a known thread.\<close>

lemma session_record_may:
  assumes inv: "threads_inv s" and r0: "map_of (view s) i = Some r0" and s': "core s' = core s"
    and r1: "r1 = unarchive (set_agent a (set_terminal tm r0))"
    and r2: "r2 = fst (apply_evidence fresh r1 st d tobs at act)"
    and r3: "r3 = fst (applyMetadata r2 m)"
  shows "may_replace s' i (stamp c at r3)" and "\<not> archived (stamp c at r3)"
proof -
  have wf: "wf_thread (stamp c at r3)"
    unfolding r3 r2 r1 using inv_view_wf [OF inv r0]
    by (intro record_steps_wf applyMetadata_wf apply_evidence_wf wf_thread_loose)
  have "same_origin r0 r1"
    unfolding r1 by (meson record_steps_keep same_origin_trans)
  moreover have "same_origin r1 r2" unfolding r2 by simp
  moreover have "same_origin r2 (stamp c at r3)"
    unfolding r3 by (meson record_steps_keep applyMetadata_keeps(1) same_origin_trans)
  ultimately have same: "same_origin r0 (stamp c at r3)" by (meson same_origin_trans)
  show na: "\<not> archived (stamp c at r3)" by (simp add: r3 r2 r1)
  show "may_replace s' i (stamp c at r3)"
    unfolding may_replace_core [OF s'] using r0 same wf na by (simp add: may_replace_def)
qed

lemma update_then_view:
  assumes inv: "threads_inv s" and may: "may_replace s i r"
    and core: "core s' = core (s\<lparr>thread_rows := AList.update i r (thread_rows s)\<rparr>)"
  shows "threads_inv (s'\<lparr>view := AList.update i r (view s')\<rparr>)"
proof -
  have "core (s'\<lparr>view := AList.update i r (view s')\<rparr>) = core (put_both i r s)"
    using core by (simp add: core_def put_both_def)
  then show ?thesis using put_both_inv [OF inv may] threads_inv_core by blast
qed

lemma ObserveSession_known:
  assumes inv: "threads_inv s" and tm: "so_terminal obs \<noteq> []"
    and known: "map_of (identities s) (so_integration obs, so_provider obs) = Some i"
  shows "threads_inv (snd (ObserveSession canon obs s))"
    and "identities (snd (ObserveSession canon obs s)) = identities s"
    and "case fst (ObserveSession canon obs s) of
           Inl e \<Rightarrow> core (snd (ObserveSession canon obs s)) = core s
         | Inr j \<Rightarrow> j = i \<and> active (snd (ObserveSession canon obs s)) = moved_active i (so_terminal obs) s
                  \<and> (\<exists>r. map_of (view (snd (ObserveSession canon obs s))) i = Some r
                        \<and> \<not> archived r \<and> terminal_id r = Some (so_terminal obs))"
proof -
  obtain r0 where r0: "map_of (view s) i = Some r0" using inv_identity_view [OF inv known] by blast
  obtain at s1 where at: "observed_at (so_at obs) s = (at, s1)" by (cases "observed_at (so_at obs) s")
  have c1: "core s1 = core s" using core_observed_at [of "so_at obs" s] by (simp add: at)
  define r1 where "r1 = unarchive (set_agent (so_agent obs) (set_terminal (so_terminal obs) r0))"
  obtain r2 c s2 where ap: "applyStatus r1 (so_status obs) (so_detail obs) (so_turn obs) at True s1 = (r2, c, s2)"
    by (metis prod_cases3)
  obtain fresh where r2: "r2 = fst (apply_evidence fresh r1 (so_status obs) (so_detail obs) (so_turn obs) at True)"
    and c2: "core s2 = core s" using applyStatus_result [OF ap] c1 by auto
  obtain r3 m where md: "applyMetadata r2 (so_metadata obs) = (r3, m)" by (cases "applyMetadata r2 (so_metadata obs)")
  have r3: "r3 = fst (applyMetadata r2 (so_metadata obs))" by (simp add: md)
  define changed where "changed \<longleftrightarrow> (r1 = r0 \<longrightarrow> c \<or> m)"
  let ?r = "stamp changed at r3"
  have inv2: "threads_inv s2" using inv threads_inv_core [OF c2] by simp
  have may: "may_replace s2 i ?r" "\<not> archived ?r"
    by (rule session_record_may [OF inv r0 c2 r1_def r2 r3])+
  obtain res s3 where up: "Threads_Update ?r s2 = (res, s3)" by (cases "Threads_Update ?r s2")
  have v1: "view s1 = view s" "identities s1 = identities s" using core_components [OF c1] by simp_all
  have v2: "view s2 = view s" "identities s2 = identities s" "active s2 = active s" using core_components [OF c2] by simp_all
  have run: "ObserveSession canon obs s =
      (case res of Inl e \<Rightarrow> (Inl e, s3)
       | Inr updated \<Rightarrow> if \<not> updated then (Inr '''', s3)
                        else (Inr i, commit ?r i (so_terminal obs) changed s3))"
    using known r0 v1
    by (simp add: ObserveSession_def at Let_def r1_def [symmetric] ap md changed_def [symmetric] up
        split: sum.split)
  have tid: "terminal_id ?r = Some (so_terminal obs)"
    by (simp add: r3 r2 stamp_def) (simp add: r1_def unarchive_def set_agent_def set_terminal_def)
  have row: "map_of (thread_rows s2) (thread_id ?r) \<noteq> None"
    using inv_rows [OF inv2, of i r0] may(1) r0 v2 inv_view_id [OF inv r0]
    by (auto simp: may_replace_def same_origin_def)
  have nf: "res \<noteq> Inr False"
    using up row by (auto simp: Threads_Update_def Let_def io_step_def split: if_splits option.splits)
  from Threads_Update_cases [OF inv2 may(1), unfolded up fst_conv snd_conv]
  have "threads_inv (snd (ObserveSession canon obs s)) \<and> identities (snd (ObserveSession canon obs s)) = identities s
      \<and> (case fst (ObserveSession canon obs s) of
           Inl e \<Rightarrow> core (snd (ObserveSession canon obs s)) = core s
         | Inr j \<Rightarrow> j = i \<and> active (snd (ObserveSession canon obs s)) = moved_active i (so_terminal obs) s
                  \<and> (\<exists>r. map_of (view (snd (ObserveSession canon obs s))) i = Some r
                        \<and> \<not> archived r \<and> terminal_id r = Some (so_terminal obs)))"
  proof
    assume *: "core s3 = core s2 \<and> res \<noteq> Inr True"
    then obtain e where "res = Inl e" using nf by (cases res) auto
    moreover have "core s3 = core s" using * c2 by simp
    ultimately show ?thesis
      using run inv threads_inv_core [of s3 s] core_components [of s3 s] by simp
  next
    assume *: "core s3 = core (s2\<lparr>thread_rows := AList.update i ?r (thread_rows s2)\<rparr>) \<and> res = Inr True"
    then have eqs: "view s3 = view s" "active s3 = active s" "identities s3 = identities s"
      using v2 core_components by fastforce+
    have inv3: "threads_inv (s3\<lparr>view := AList.update i ?r (view s3)\<rparr>)"
      by (rule update_then_view [OF inv2 may(1) conjunct1 [OF *]])
    have vi: "map_of (view s3) i \<noteq> None" using eqs r0 by simp
    note out = commit_outcome [OF inv3 vi tm, of changed]
    have "moved_active i (so_terminal obs) s3 = moved_active i (so_terminal obs) s"
      by (simp add: moved_active_def eqs)
    then show ?thesis using * run out may(2) tid eqs by simp
  qed
  then show "threads_inv (snd (ObserveSession canon obs s))"
    and "identities (snd (ObserveSession canon obs s)) = identities s"
    and "case fst (ObserveSession canon obs s) of
           Inl e \<Rightarrow> core (snd (ObserveSession canon obs s)) = core s
         | Inr j \<Rightarrow> j = i \<and> active (snd (ObserveSession canon obs s)) = moved_active i (so_terminal obs) s
                  \<and> (\<exists>r. map_of (view (snd (ObserveSession canon obs s))) i = Some r
                        \<and> \<not> archived r \<and> terminal_id r = Some (so_terminal obs))" by blast+
qed

lemma update_same_core: "map_of (view s) i = Some r \<Longrightarrow> s\<lparr>view := AList.update i r (view s)\<rparr> = s"
  by (simp add: update_present)

lemma InsertObserved_frame:
  "Threads_InsertObserved r key s = (res, s') \<Longrightarrow>
     active s' = active s \<and> held s' = held s \<and> in_flight s' = in_flight s \<and> view s' = view s
     \<and> identities s' = identities s \<and> keys s' = keys s"
  by (auto simp: Threads_InsertObserved_def Let_def io_step_def split: if_splits)

lemma insert_loop_frame:
  "insert_loop tape r key s = (res, s') \<Longrightarrow>
     active s' = active s \<and> held s' = held s \<and> in_flight s' = in_flight s
     \<and> (case res of Inl _ \<Rightarrow> view s' = view s \<and> identities s' = identities s
        | Inr r' \<Rightarrow> view s' = AList.update (thread_id r') r' (view s)
                   \<and> identities s' = AList.update key (thread_id r') (identities s)
                   \<and> (\<exists>i. r' = r\<lparr>thread_id := i\<rparr>))"
proof (induction tape arbitrary: r s)
  case Nil
  then show ?case by (auto simp: insert_loop.simps)
next
  case (Cons sfx tape)
  let ?r = "r\<lparr>thread_id := thread_prefix @ sfx\<rparr>"
  obtain ins s1 where io: "Threads_InsertObserved ?r key (s\<lparr>id_tape := tape\<rparr>) = (ins, s1)"
    by (cases "Threads_InsertObserved ?r key (s\<lparr>id_tape := tape\<rparr>)")
  note f = InsertObserved_frame [OF io]
  show ?case
  proof (cases "ins = Inr False")
    case True
    then have "insert_loop tape ?r key s1 = (res, s')"
      using Cons.prems io by (simp add: insert_loop.simps Let_def)
    from Cons.IH [OF this] f show ?thesis by (auto split: sum.splits)
  next
    case False
    then show ?thesis
      using Cons.prems io f by (auto simp: insert_loop.simps Let_def split: sum.splits if_splits)
  qed
qed

lemma insert_thread_outcome:
  assumes "threads_inv s" and "wf_thread r" and "\<not> archived r" and "fst key = integration_id r"
    and "insert_thread r key s = (res, s')"
  shows "threads_inv s'" and "active s' = active s" and "held s' = held s" and "in_flight s' = in_flight s"
    and "case res of Inl _ \<Rightarrow> view s' = view s \<and> identities s' = identities s
         | Inr r' \<Rightarrow> map_of (view s) (thread_id r') = None
                    \<and> view s' = AList.update (thread_id r') r' (view s)
                    \<and> identities s' = AList.update key (thread_id r') (identities s)
                    \<and> (\<exists>i. r' = r\<lparr>thread_id := i\<rparr>)"
proof -
  have run: "insert_loop (id_tape s) r key s = (res, s')" using assms(5) by (simp add: insert_thread_def)
  note f = insert_loop_frame [OF run] and o = insert_loop_outcome [OF assms(1-4), of "id_tape s", unfolded run fst_conv snd_conv]
  show "threads_inv s'" using o by simp
  show "active s' = active s" "held s' = held s" "in_flight s' = in_flight s" using f by simp_all
  show "case res of Inl _ \<Rightarrow> view s' = view s \<and> identities s' = identities s
         | Inr r' \<Rightarrow> map_of (view s) (thread_id r') = None
                    \<and> view s' = AList.update (thread_id r') r' (view s)
                    \<and> identities s' = AList.update key (thread_id r') (identities s)
                    \<and> (\<exists>i. r' = r\<lparr>thread_id := i\<rparr>)"
    using f o by (cases res) auto
qed

lemma classify_core: "classify d s = (res, s') \<Longrightarrow> core s' = core s"
  using core_classify [of d s] by simp

text \<open>What a minting handler answers, and what it did.\<close>

definition minted ::
  "'a thread_svc_scheme \<Rightarrow> identity_key \<Rightarrow> err + string \<Rightarrow> 'a thread_svc_scheme \<Rightarrow> bool" where
  "minted s key res s' \<longleftrightarrow>
     (case res of
        Inl _ \<Rightarrow> view s' = view s \<and> identities s' = identities s
      | Inr i \<Rightarrow> map_of (view s) i = None \<and> map_of (identities s') key = Some i
               \<and> (\<forall>k. k \<noteq> key \<longrightarrow> map_of (identities s') k = map_of (identities s) k)
               \<and> (\<exists>r. map_of (view s') i = Some r \<and> \<not> archived r))"

lemma minted_core: "core s1 = core s \<Longrightarrow> minted s1 key res s' = minted s key res s'"
  by (drule core_components; cases res) (simp_all add: minted_def del: split_paired_All)

definition observed_record :: "session_observation \<Rightarrow> time \<Rightarrow> thread_record" where
  "observed_record obs at =
     \<lparr>thread_id = '''', integration_id = so_integration obs, app_id = so_app obs,
      agent_id = so_agent obs, initial_directory = '''', project_id = '''',
      terminal_id = Some (so_terminal obs), title = '''', title_user_set = False,
      model = '''', effort = '''', cwd = '''', permission_mode = '''',
      status = ThreadUnknown, status_detail = '''', last_evidence_at = Some at,
      archived = False, archived_at = None, created_at = at, updated_at = at,
      turn = None, pending = None\<rparr>"

lemma observed_record_wf: "wf_loose (observed_record obs at)"
  by (simp add: wf_loose_def observed_record_def)

lemma createObserved_outcome:
  assumes inv: "threads_inv s" and tm: "so_terminal obs \<noteq> []" and run: "createObserved canon obs at s = (res, s')"
  shows "threads_inv s' \<and> minted s (so_integration obs, so_provider obs) res s'
       \<and> (case res of Inl _ \<Rightarrow> True | Inr i \<Rightarrow> active s' = moved_active i (so_terminal obs) s)"
proof (cases "so_app obs \<noteq> '''' \<and> \<not> HasPrefix (so_app obs) (so_integration obs @ ''/'')")
  case True
  then show ?thesis using run inv by (auto simp: createObserved_def minted_def)
next
  case False
  let ?key = "(so_integration obs, so_provider obs)"
  obtain r1 c s1 where ap: "applyStatus (observed_record obs at) (so_status obs) (so_detail obs) (so_turn obs) at True s
      = (r1, c, s1)" by (metis prod_cases3)
  obtain fresh where r1: "r1 = fst (apply_evidence fresh (observed_record obs at) (so_status obs) (so_detail obs)
      (so_turn obs) at True)" and c1: "core s1 = core s"
    using applyStatus_result [OF ap] by auto
  note v1 = core_components [OF c1]
  have wf1: "wf_thread r1" unfolding r1 by (rule apply_evidence_wf [OF observed_record_wf])
  have run1: "createObserved canon obs at s =
      (case (if so_directory obs = '''' then None else canon (so_directory obs)) of
         None \<Rightarrow> (Inl (ErrNoLocalDirectory (so_directory obs)), s1)
       | Some canonical \<Rightarrow>
           (case classify canonical s1 of
              (Inl e, s) \<Rightarrow> (Inl e, s)
            | (Inr p, s) \<Rightarrow>
                (case insert_thread (fst (applyMetadata (r1\<lparr>initial_directory := canonical, project_id := p\<rparr>)
                        (so_metadata obs))) ?key s of
                   (Inl e, s) \<Rightarrow> (Inl e, s)
                 | (Inr r, s) \<Rightarrow>
                     (Inr (thread_id r),
                      commit r (thread_id r) (so_terminal obs) False
                        (Publish EventThreadCreated thread_resource (thread_id r) s)))))"
    by (simp only: createObserved_def if_not_P [OF False] Let_def observed_record_def [symmetric] ap prod.case)
  show ?thesis
  proof (cases "if so_directory obs = '''' then None else canon (so_directory obs)")
    case None
    then show ?thesis using run run1 inv threads_inv_core [OF c1] v1 by (auto simp: minted_def)
  next
    case (Some canonical)
    obtain cl s2 where cl: "classify canonical s1 = (cl, s2)" by (cases "classify canonical s1")
    have c2: "core s2 = core s" using classify_core [OF cl] c1 by simp
    note v2 = core_components [OF c2]
    have inv2: "threads_inv s2" using inv threads_inv_core [OF c2] by simp
    show ?thesis
    proof (cases cl)
      case (Inl e)
      then show ?thesis using run run1 Some cl inv2 v2 by (auto simp: minted_def)
    next
      case (Inr p)
      let ?r = "fst (applyMetadata (r1\<lparr>initial_directory := canonical, project_id := p\<rparr>) (so_metadata obs))"
      obtain ins s3 where ins: "insert_thread ?r ?key s2 = (ins, s3)" by (cases "insert_thread ?r ?key s2")
      have "wf_thread ?r" by (rule applyMetadata_wf) (simp add: wf1)
      moreover have "\<not> archived ?r" "fst ?key = integration_id ?r"
        by (simp_all add: r1) (simp_all add: observed_record_def)
      ultimately have out: "threads_inv s3" "active s3 = active s2"
        "case ins of Inl _ \<Rightarrow> view s3 = view s2 \<and> identities s3 = identities s2
         | Inr r' \<Rightarrow> map_of (view s2) (thread_id r') = None
                    \<and> view s3 = AList.update (thread_id r') r' (view s2)
                    \<and> identities s3 = AList.update ?key (thread_id r') (identities s2)
                    \<and> (\<exists>i. r' = ?r\<lparr>thread_id := i\<rparr>)"
        using insert_thread_outcome [OF inv2 _ _ _ ins] by blast+
      show ?thesis
      proof (cases ins)
        case (Inl e)
        then show ?thesis using run run1 Some cl Inr ins out v2 by (auto simp: minted_def)
      next
        case r: (Inr r')
        let ?s4 = "Publish EventThreadCreated thread_resource (thread_id r') s3"
        have c4: "core ?s4 = core s3" by simp
        note v4 = core_components [OF c4]
        have vi: "map_of (view ?s4) (thread_id r') = Some r'" using out(3) r v4 by simp
        have inv4: "threads_inv (?s4\<lparr>view := AList.update (thread_id r') r' (view ?s4)\<rparr>)"
          unfolding update_same_core [OF vi] using out(1) by simp
        have vi': "map_of (view ?s4) (thread_id r') \<noteq> None" using vi by simp
        note cm = commit_outcome [OF inv4 vi' tm, of False]
        have res: "res = Inr (thread_id r')" and s': "s' = commit r' (thread_id r') (so_terminal obs) False ?s4"
          using run run1 Some cl Inr ins r by simp_all
        have ma: "moved_active (thread_id r') (so_terminal obs) ?s4 = moved_active (thread_id r') (so_terminal obs) s"
          using v4 out(2) v2 by (simp add: moved_active_def)
        have ar: "\<not> archived r'"
          using out(3) r \<open>\<not> archived ?r\<close> by auto
        show ?thesis
          unfolding res s' using cm out(3) r v2 v4 ma ar by (auto simp: minted_def)
      qed
    qed
  qed
qed

lemma ObserveSession_outcome:
  assumes inv: "threads_inv s" and tm: "so_terminal obs \<noteq> []" and run: "ObserveSession canon obs s = (res, s')"
  shows "threads_inv s'"
    and "map_of (identities s) (so_integration obs, so_provider obs) = None \<Longrightarrow>
           minted s (so_integration obs, so_provider obs) res s'"
    and "res = Inr i \<Longrightarrow> active s' = moved_active i (so_terminal obs) s"
proof -
  obtain at s1 where at: "observed_at (so_at obs) s = (at, s1)" by (cases "observed_at (so_at obs) s")
  have c1: "core s1 = core s" using core_observed_at [of "so_at obs" s] by (simp add: at)
  note v1 = core_components [OF c1]
  have inv1: "threads_inv s1" using inv threads_inv_core [OF c1] by simp
  show "threads_inv s'"
  proof (cases "map_of (identities s) (so_integration obs, so_provider obs)")
    case None
    then have "createObserved canon obs at s1 = (res, s')"
      using run v1 by (simp add: ObserveSession_def at)
    then show ?thesis using createObserved_outcome [OF inv1 tm] by blast
  next
    case (Some i)
    show ?thesis using ObserveSession_known(1) [OF inv tm Some, of canon] run by simp
  qed
  show "minted s (so_integration obs, so_provider obs) res s'"
    if none: "map_of (identities s) (so_integration obs, so_provider obs) = None"
  proof -
    have "createObserved canon obs at s1 = (res, s')"
      using run v1 none by (simp add: ObserveSession_def at)
    then show ?thesis using createObserved_outcome [OF inv1 tm] minted_core [OF c1] by blast
  qed
  show "active s' = moved_active i (so_terminal obs) s" if res: "res = Inr i"
  proof (cases "map_of (identities s) (so_integration obs, so_provider obs)")
    case None
    then have "createObserved canon obs at s1 = (res, s')"
      using run v1 by (simp add: ObserveSession_def at)
    then show ?thesis
      using createObserved_outcome [OF inv1 tm] res v1 by (fastforce simp: moved_active_def)
  next
    case (Some j)
    show ?thesis using ObserveSession_known(3) [OF inv tm Some, of canon] run res by simp
  qed
qed

subsection \<open>Status observations and leaving\<close>

text \<open>The three outcomes of a write-through, as facts about the next state.\<close>

lemma store_thread_run:
  assumes inv: "threads_inv s" and may: "may_replace s i r" and run: "store_thread r s = (res, s')"
  shows "threads_inv s'" and "around s' = around s"
    and "res = Inr True \<Longrightarrow> core s' = core (put_both i r s)"
    and "res \<noteq> Inr True \<Longrightarrow> core s' = core s"
  using store_thread_inv [OF inv may] store_thread_around [OF inv may] store_thread_cases [OF inv may]
  by (auto simp: run)

lemma status_record_may:
  assumes inv: "threads_inv s" and r0: "map_of (view s) i = Some r0" and s': "core s' = core s"
  shows "may_replace s' i (stamp c at (fst (applyMetadata (fst (apply_evidence fresh r0 st d tobs at act)) m)))"
proof -
  let ?r = "stamp c at (fst (applyMetadata (fst (apply_evidence fresh r0 st d tobs at act)) m))"
  have "wf_thread ?r" using inv_view_wf [OF inv r0]
    by (intro record_steps_wf applyMetadata_wf apply_evidence_wf wf_thread_loose)
  moreover have "same_origin r0 ?r"
    by (meson record_steps_keep applyMetadata_keeps(1) apply_evidence_keeps(1) same_origin_trans)
  moreover have "archived ?r = archived r0" by simp
  moreover have "archived r0 \<longrightarrow> i \<notin> set (held s)" using inv_held [OF inv, of i] r0 by auto
  ultimately show ?thesis unfolding may_replace_core [OF s'] using r0 by (simp add: may_replace_def)
qed

lemma ObserveStatus_outcome:
  assumes inv: "threads_inv s"
  shows "threads_inv (snd (ObserveStatus obs s)) \<and> around (snd (ObserveStatus obs s)) = around s"
proof -
  obtain at s1 where at: "observed_at (sto_at obs) s = (at, s1)" by (cases "observed_at (sto_at obs) s")
  have c1: "core s1 = core s" using core_observed_at [of "sto_at obs" s] by (simp add: at)
  note v1 = core_components [OF c1]
  have keep: "threads_inv s1 \<and> around s1 = around s"
    using inv threads_inv_core [OF c1] around_core [OF c1] by simp
  show ?thesis
  proof (cases "map_of (identities s1) (sto_integration obs, sto_provider obs)")
    case None
    then show ?thesis using keep by (simp add: ObserveStatus_def at)
  next
    case (Some i)
    then obtain r0 where r0: "map_of (view s1) i = Some r0" using inv_identity_view keep by blast
    obtain r1 c s2 where ap: "applyStatus r0 (sto_status obs) (sto_detail obs) (sto_turn obs) at
        (holder i s1 \<noteq> '''') s1 = (r1, c, s2)" by (metis prod_cases3)
    obtain fresh where r1: "r1 = fst (apply_evidence fresh r0 (sto_status obs) (sto_detail obs) (sto_turn obs) at
        (holder i s1 \<noteq> ''''))" and c2: "core s2 = core s1"
      using applyStatus_result [OF ap] by auto
    obtain r2 m where md: "applyMetadata r1 (sto_metadata obs) = (r2, m)" by (cases "applyMetadata r1 (sto_metadata obs)")
    have r2: "r2 = fst (applyMetadata r1 (sto_metadata obs))" by (simp add: md)
    have inv1: "threads_inv s1" and inv2: "threads_inv s2" using keep threads_inv_core [OF c2] by simp_all
    let ?r = "stamp (c \<or> m) at r2"
    have may: "may_replace s2 i ?r" unfolding r2 r1 by (rule status_record_may [OF inv1 r0 c2])
    obtain res s3 where st: "store_thread ?r s2 = (res, s3)" by (cases "store_thread ?r s2")
    note out = store_thread_run [OF inv2 may st]
    have "core (snd (ObserveStatus obs s)) = core s3"
      using Some r0 by (simp add: ObserveStatus_def at ap Let_def md st split: sum.split)
    then show ?thesis using threads_inv_core around_core out around_core [OF c2] keep by metis
  qed
qed

lemma Deactivate_outcome:
  assumes inv: "threads_inv s"
  shows "threads_inv (Deactivate tm s)"
proof (cases "map_of (active s) tm")
  case None
  then show ?thesis by (simp add: Deactivate_def inv)
next
  case (Some i)
  then obtain r where r: "map_of (view s) i = Some r" using inv_active [OF inv] by fastforce
  obtain r' c where cr: "coerceRecord r = (r', c)" by (cases "coerceRecord r")
  obtain t s1 where n: "now s = (t, s1)" by (cases "now s")
  have s1: "core s1 = core s" using core_now [of s] by (simp add: n)
  have inv1: "threads_inv s1" using inv threads_inv_core [OF s1] by simp
  have may: "may_replace s1 i (r'\<lparr>updated_at := t\<rparr>)"
    using may_replace_coerced [OF inv r s1] by (simp add: cr)
  obtain res s2 where st: "store_thread (r'\<lparr>updated_at := t\<rparr>) s1 = (res, s2)"
    by (cases "store_thread (r'\<lparr>updated_at := t\<rparr>) s1")
  note out = store_thread_run [OF inv1 may st]
  show ?thesis
    using inv inv_drop_active [OF out(1)] inv_drop_active [OF inv] out(1) Some r
    by (simp add: Deactivate_def cr n st split: sum.split bool.split)
qed

lemma may_replace_stored:
  assumes "threads_inv s" and mj: "may_replace s j r'" and "store_thread r' s = (res, s')" and mi: "may_replace s i r"
  shows "may_replace s' i r"
proof -
  note out = store_thread_run [OF assms(1-3)]
  show ?thesis
  proof (cases "res = Inr True")
    case True
    then have "core s' = core (put_both j r' s)" by (rule out(3))
    then have v: "view s' = AList.update j r' (view s)" and h: "held s' = held s"
      by (auto dest!: core_components simp: put_both_def)
    have "\<exists>r0. map_of (view s') i = Some r0 \<and> same_origin r0 r"
      using mi mj unfolding v by (auto simp: may_replace_def same_origin_def)
    then show ?thesis using mi by (simp add: may_replace_def h)
  next
    case False
    then show ?thesis using may_replace_core [OF out(4)] mi by simp
  qed
qed

lemma unlink_each_outcome:
  assumes "threads_inv s" and "\<forall>r \<in> set rs. may_replace s (thread_id r) r"
    and "unlink_each a rs s = (cleared, s')"
  shows "threads_inv s' \<and> around s' = around s"
  using assms
proof (induction rs arbitrary: s cleared s')
  case (Cons r rs)
  have may: "may_replace s (thread_id r) r" using Cons.prems(2) by simp
  obtain res s1 where st: "store_thread r s = (res, s1)" by (cases "store_thread r s")
  note out = store_thread_run [OF Cons.prems(1) may st]
  have rest: "\<forall>r \<in> set rs. may_replace s1 (thread_id r) r"
    using Cons.prems(2) may_replace_stored [OF Cons.prems(1) may st] by auto
  show ?case
  proof (cases "res = Inr True")
    case True
    let ?s2 = "Publish EventThreadUpdated thread_resource (thread_id r) s1"
    have c2: "core ?s2 = core s1" by simp
    have i2: "threads_inv ?s2" using out(1) by simp
    have m2: "\<forall>r \<in> set rs. may_replace ?s2 (thread_id r) r" using rest may_replace_core [OF c2] by blast
    have u2: "unlink_each a rs ?s2 = (cleared, s')" using Cons.prems(3) st True by simp
    show ?thesis using Cons.IH [OF i2 m2 u2] out(2) by simp
  next
    case False
    obtain c2 where "unlink_each a rs s1 = (c2, s')"
      using Cons.prems(3) st False
      by (cases "unlink_each a rs s1") (auto simp: Let_def split: sum.splits bool.splits)
    then show ?thesis using Cons.IH [OF out(1) rest] out(2) by simp
  qed
qed simp

lemma view_record_at:
  assumes inv: "threads_inv s" and r: "r \<in> set (map snd (view s))"
  shows "map_of (view s) (thread_id r) = Some r"
proof -
  from r obtain i where i: "(i, r) \<in> set (view s)" by auto
  have "distinct (map fst (view s))" using inv by (simp add: threads_inv_def ids_inv_def)
  then have "map_of (view s) i = Some r" using i by (rule in_set_map_of)
  then show ?thesis using inv_view_id [OF inv] by simp
qed

lemma unlink_may:
  assumes inv: "threads_inv s" and r: "map_of (view s) i = Some r"
  shows "may_replace s i (unlink t r)"
proof -
  have "wf_thread (unlink t r)" using inv_view_wf [OF inv r] by (simp add: unlink_def coerceRecord_wf)
  moreover have "same_origin r (unlink t r)"
    using coerceRecord_keeps(1) [of "r\<lparr>terminal_id := None\<rparr>"] by (simp add: unlink_def same_origin_def)
  moreover have "archived (unlink t r) = archived r" by (simp add: unlink_def)
  moreover have "archived r \<longrightarrow> i \<notin> set (held s)" using inv_held [OF inv, of i] r by auto
  ultimately show ?thesis using r by (simp add: may_replace_def)
qed

lemma TerminalRemoved_inv [inv_intro]:
  assumes inv: "threads_inv s"
  shows "threads_inv (TerminalRemoved tm s)"
proof -
  obtain t s1 where n: "now s = (t, s1)" by (cases "now s")
  have s1: "core s1 = core s" using core_now [of s] by (simp add: n)
  have inv1: "threads_inv s1" using inv threads_inv_core [OF s1] by simp
  let ?affected = "map (unlink t) (filter (\<lambda>r. terminal_id r = Some tm) (map snd (view s1)))"
  obtain c s2 where un: "unlink_each (read_string (active s1) tm) ?affected s1 = (c, s2)"
    by (cases "unlink_each (read_string (active s1) tm) ?affected s1")
  have "\<forall>r \<in> set ?affected. may_replace s1 (thread_id r) r"
  proof
    fix x assume "x \<in> set ?affected"
    then obtain r where r: "r \<in> set (map snd (view s1))" and x: "x = unlink t r" by auto
    have "map_of (view s1) (thread_id r) = Some r" using view_record_at [OF inv1 r] .
    moreover have "thread_id x = thread_id r" by (simp add: x unlink_def)
    ultimately show "may_replace s1 (thread_id x) x" unfolding x by (simp add: unlink_may [OF inv1])
  qed
  then have "threads_inv s2" using unlink_each_outcome [OF inv1 _ un] by blast
  then show ?thesis using inv_drop_active [of s2 tm] by (simp add: TerminalRemoved_def n un)
qed

lemma sweep_one_inv [inv_intro]: "threads_inv s \<Longrightarrow> threads_inv (sweep_one tm s)"
  by (auto simp: sweep_one_def intro: TerminalRemoved_inv Deactivate_outcome split: sum.split)

lemma fold_inv: "(\<And>x s. P s \<Longrightarrow> P (f x s)) \<Longrightarrow> P s \<Longrightarrow> P (fold f xs s)"
  by (induction xs arbitrary: s) simp_all

lemma Sweep_inv [inv_intro]: "threads_inv s \<Longrightarrow> threads_inv (Sweep s)"
  unfolding Sweep_def by (rule fold_inv) (auto intro: sweep_one_inv)

subsection \<open>Holds and conversations a program owns\<close>

lemma inv_held_change:
  assumes inv: "threads_inv s" and h: "\<forall>i \<in> set h. \<exists>r. map_of (view s) i = Some r \<and> \<not> archived r"
  shows "threads_inv (s\<lparr>held := h\<rparr>)"
proof -
  have "holds_inv (s\<lparr>held := h\<rparr>) \<longleftrightarrow>
      (\<forall>t x. map_of (active s) t = Some x \<longrightarrow> map_of (view s) x \<noteq> None)
      \<and> (\<forall>t t' x. map_of (active s) t = Some x \<longrightarrow> map_of (active s) t' = Some x \<longrightarrow> t = t')
      \<and> distinct (map fst (active s)) \<and> map_of (active s) [] = None \<and> (\<forall>i \<in> set h. \<exists>r. map_of (view s) i = Some r \<and> \<not> archived r)
      \<and> (\<forall>i \<in> set (in_flight s). map_of (view s) i \<noteq> None)"
    by (simp add: holds_inv_def)
  moreover have "distinct (map fst (active s))" using inv by (simp add: threads_inv_def holds_inv_def)
  ultimately have "holds_inv (s\<lparr>held := h\<rparr>)"
    using h inv_active [OF inv] inv_active_inj [OF inv] inv_active_named [OF inv] inv_in_flight [OF inv] by blast
  moreover have "ids_inv (s\<lparr>held := h\<rparr>) = ids_inv s" "rows_inv (s\<lparr>held := h\<rparr>) = rows_inv s"
    "records_inv (s\<lparr>held := h\<rparr>) = records_inv s"
    by (simp_all add: ids_inv_def rows_inv_def records_inv_def)
  ultimately show ?thesis using inv by (simp only: threads_inv_def)
qed

lemma inv_in_flight_change:
  assumes inv: "threads_inv s" and f: "\<forall>i \<in> set fl. map_of (view s) i \<noteq> None"
  shows "threads_inv (s\<lparr>in_flight := fl\<rparr>)"
proof -
  have "holds_inv (s\<lparr>in_flight := fl\<rparr>) \<longleftrightarrow>
      (\<forall>t x. map_of (active s) t = Some x \<longrightarrow> map_of (view s) x \<noteq> None)
      \<and> (\<forall>t t' x. map_of (active s) t = Some x \<longrightarrow> map_of (active s) t' = Some x \<longrightarrow> t = t')
      \<and> distinct (map fst (active s)) \<and> map_of (active s) [] = None \<and> (\<forall>i \<in> set (held s). \<exists>r. map_of (view s) i = Some r \<and> \<not> archived r)
      \<and> (\<forall>i \<in> set fl. map_of (view s) i \<noteq> None)"
    by (simp add: holds_inv_def)
  moreover have "distinct (map fst (active s))" using inv by (simp add: threads_inv_def holds_inv_def)
  ultimately have "holds_inv (s\<lparr>in_flight := fl\<rparr>)"
    using f inv_active [OF inv] inv_active_inj [OF inv] inv_active_named [OF inv] inv_held [OF inv] by blast
  moreover have "ids_inv (s\<lparr>in_flight := fl\<rparr>) = ids_inv s" "rows_inv (s\<lparr>in_flight := fl\<rparr>) = rows_inv s"
    "records_inv (s\<lparr>in_flight := fl\<rparr>) = records_inv s"
    by (simp_all add: ids_inv_def rows_inv_def records_inv_def)
  ultimately show ?thesis using inv by (simp only: threads_inv_def)
qed

lemma hold_inv [inv_intro]:
  "threads_inv s \<Longrightarrow> map_of (view s) i = Some r \<Longrightarrow> \<not> archived r \<Longrightarrow> threads_inv (hold i s)"
  unfolding hold_def by (rule inv_held_change) (auto dest: inv_held)

lemma release_inv [inv_intro]: "threads_inv s \<Longrightarrow> threads_inv (release i s)"
  unfolding release_def by (rule inv_held_change) (auto dest: inv_held)

lemma external_record_wf: "wf_loose (external_record obs d p at)"
  by (simp add: wf_loose_def external_record_def)

lemma createExternal_outcome:
  assumes inv: "threads_inv s" and run: "createExternal canon obs st at s = (res, s')"
  shows "threads_inv s' \<and> minted s (eo_integration obs, eo_provider obs) res s'
       \<and> active s' = active s \<and> in_flight s' = in_flight s
       \<and> (case res of Inl _ \<Rightarrow> held s' = held s | Inr i \<Rightarrow> held s' = List.insert i (held s))"
proof (cases "if eo_directory obs = '''' then None else canon (eo_directory obs)")
  case None
  then show ?thesis using run inv by (auto simp: createExternal_def minted_def)
next
  case (Some canonical)
  let ?key = "(eo_integration obs, eo_provider obs)"
  obtain cl s1 where cl: "classify canonical s = (cl, s1)" by (cases "classify canonical s")
  have c1: "core s1 = core s" using classify_core [OF cl] .
  note v1 = core_components [OF c1]
  show ?thesis
  proof (cases cl)
    case (Inl e)
    then show ?thesis using run Some cl inv threads_inv_core [OF c1] v1 by (auto simp: createExternal_def minted_def)
  next
    case (Inr p)
    obtain r1 c s2 where ap: "applyStatus (external_record obs canonical p at) st (eo_detail obs) (eo_turn obs) at True s1
        = (r1, c, s2)" by (metis prod_cases3)
    obtain fresh where r1: "r1 = fst (apply_evidence fresh (external_record obs canonical p at) st (eo_detail obs)
        (eo_turn obs) at True)" and c2: "core s2 = core s"
      using applyStatus_result [OF ap] c1 by auto
    note v2 = core_components [OF c2]
    have inv2: "threads_inv s2" using inv threads_inv_core [OF c2] by simp
    let ?r = "fst (applyMetadata r1 (eo_metadata obs))"
    obtain ins s3 where ins: "insert_thread ?r ?key s2 = (ins, s3)" by (cases "insert_thread ?r ?key s2")
    have wf: "wf_thread ?r" unfolding r1 by (intro applyMetadata_wf apply_evidence_wf external_record_wf)
    have ar: "\<not> archived ?r" and ig: "fst ?key = integration_id ?r"
      by (simp_all add: r1) (simp_all add: external_record_def)
    note out = insert_thread_outcome [OF inv2 wf ar ig ins]
    show ?thesis
    proof (cases ins)
      case (Inl e)
      then have "res = Inl e \<and> s' = s3"
        using run Some cl Inr ap ins by (simp add: createExternal_def Let_def)
      then show ?thesis using out v2 Inl by (auto simp: minted_def)
    next
      case r: (Inr r')
      have res: "res = Inr (thread_id r')"
        and s': "s' = Publish EventThreadCreated thread_resource (thread_id r') (hold (thread_id r') s3)"
        using run Some cl Inr ap ins r by (simp_all add: createExternal_def Let_def)
      have c': "core s' = core (hold (thread_id r') s3)" by (simp add: s')
      note v' = core_components [OF c']
      have vi: "map_of (view s3) (thread_id r') = Some r'" and na: "\<not> archived r'" using out(5) r ar by auto
      have "threads_inv s'" unfolding s' using hold_inv [OF out(1) vi na] by simp
      then show ?thesis unfolding res using v' out r v2 vi na by (auto simp: minted_def hold_def)
    qed
  qed
qed

lemma external_record_may:
  assumes inv: "threads_inv s" and r0: "map_of (view s) i = Some r0" and s': "core s' = core s"
    and r2: "r2 = fst (apply_evidence fresh (r0\<lparr>agent_id := a\<rparr>) st d tobs at act)"
    and r4: "r4 = fst (applyMetadata (track_title x r2) m)"
  shows "may_replace s' i (stamp c at (unarchive r4))"
proof -
  let ?r = "stamp c at (unarchive r4)"
  have "wf_thread ?r" unfolding r4 r2 using inv_view_wf [OF inv r0]
    by (intro record_steps_wf applyMetadata_wf apply_evidence_wf wf_thread_loose) simp
  moreover have "same_origin r0 r2" unfolding r2
    by (rule same_origin_trans [OF _ apply_evidence_keeps(1)]) simp
  then have "same_origin r0 ?r"
    unfolding r4 by (meson record_steps_keep applyMetadata_keeps(1) same_origin_trans)
  ultimately show ?thesis unfolding may_replace_core [OF s'] using r0 by (simp add: may_replace_def)
qed

lemma ObserveExternal_outcome:
  assumes inv: "threads_inv s" and run: "ObserveExternal canon obs s = (res, s')"
  shows "threads_inv s'"
    and "map_of (identities s) (eo_integration obs, eo_provider obs) = None \<Longrightarrow>
           minted s (eo_integration obs, eo_provider obs) res s'"
    and "map_of (identities s) (eo_integration obs, eo_provider obs) = Some i \<Longrightarrow>
           identities s' = identities s \<and> (case res of Inl _ \<Rightarrow> True | Inr j \<Rightarrow> j = i)"
    and "res = Inr j \<Longrightarrow> map_of (view s') j \<noteq> None"
    and "active s' = active s \<and> in_flight s' = in_flight s"
proof -
  obtain at s1 where at: "observed_at (eo_at obs) s = (at, s1)" by (cases "observed_at (eo_at obs) s")
  have c1: "core s1 = core s" using core_observed_at [of "eo_at obs" s] by (simp add: at)
  note v1 = core_components [OF c1]
  have inv1: "threads_inv s1" using inv threads_inv_core [OF c1] by simp
  let ?key = "(eo_integration obs, eo_provider obs)"
  let ?st = "if eo_status obs = ThreadNone then ThreadUnknown else eo_status obs"
  have "threads_inv s' \<and> (active s' = active s \<and> in_flight s' = in_flight s)
      \<and> (map_of (identities s) ?key = None \<longrightarrow> minted s ?key res s')
      \<and> (\<forall>i. map_of (identities s) ?key = Some i \<longrightarrow> identities s' = identities s \<and> (case res of Inl _ \<Rightarrow> True | Inr j \<Rightarrow> j = i))
      \<and> (\<forall>j. res = Inr j \<longrightarrow> map_of (view s') j \<noteq> None)"
  proof (cases "map_of (identities s) ?key")
    case None
    then have "createExternal canon obs ?st at s1 = (res, s')"
      using run v1 by (simp add: ObserveExternal_def at Let_def)
    from createExternal_outcome [OF inv1 this] show ?thesis
      using None v1 minted_core [OF c1] by (auto simp: minted_def)
  next
    case (Some i)
    then obtain r0 where r0: "map_of (view s1) i = Some r0" using inv_identity_view [OF inv1] v1 by fastforce
    obtain r2 c s2 where ap: "applyStatus (r0\<lparr>agent_id := eo_agent obs\<rparr>) ?st (eo_detail obs) (eo_turn obs) at True s1
        = (r2, c, s2)" by (metis prod_cases3)
    obtain fresh where r2: "r2 = fst (apply_evidence fresh (r0\<lparr>agent_id := eo_agent obs\<rparr>) ?st (eo_detail obs)
        (eo_turn obs) at True)" and c2: "core s2 = core s1"
      using applyStatus_result [OF ap] by auto
    obtain r4 m where md: "applyMetadata (track_title (eo_title obs) r2) (eo_metadata obs) = (r4, m)"
      by (cases "applyMetadata (track_title (eo_title obs) r2) (eo_metadata obs)")
    have r4: "r4 = fst (applyMetadata (track_title (eo_title obs) r2) (eo_metadata obs))" by (simp add: md)
    have inv2: "threads_inv s2" using inv1 threads_inv_core [OF c2] by simp
    define changed where "changed = (agent_id r0 \<noteq> eo_agent obs \<or> c \<or> track_title (eo_title obs) r2 \<noteq> r2 \<or> m \<or> archived r4)"
    let ?r = "stamp changed at (unarchive r4)"
    have may: "may_replace s2 i ?r" by (rule external_record_may [OF inv1 r0 c2 r2 r4])
    obtain ok s3 where st: "store_thread ?r s2 = (ok, s3)" by (cases "store_thread ?r s2")
    note out = store_thread_run [OF inv2 may st]
    have run1: "ObserveExternal canon obs s =
        (case ok of Inl e \<Rightarrow> (Inl e, s3)
         | Inr updated \<Rightarrow> if \<not> updated then (Inr '''', s3) else (Inr i, publish_thread changed i (hold i s3)))"
      using Some v1 r0
      by (simp only: ObserveExternal_def at Let_def prod.case ap md changed_def [symmetric] st option.case)
    show ?thesis
    proof (cases "ok = Inr True")
      case True
      have co: "core s3 = core (put_both i ?r s2)" using out(3) True .
      have vi: "map_of (view s3) i = Some ?r" using core_components [OF co] by (simp add: put_both_def)
      have "\<not> archived ?r" by simp
      then have inv3: "threads_inv (hold i s3)" using hold_inv [OF out(1) vi] by blast
      have res: "res = Inr i" and s': "s' = publish_thread changed i (hold i s3)" using run run1 True by simp_all
      have c': "core s' = core (hold i s3)" by (simp add: s')
      show ?thesis
        unfolding res using threads_inv_core [OF c'] inv3 core_components [OF c'] vi Some
          around_components [OF out(2)] core_components [OF c2] v1
        by (simp add: hold_def)
    next
      case False
      have co: "core s3 = core s2" using out(4) False .
      have "ok \<noteq> Inr False"
      proof
        assume "ok = Inr False"
        have "thread_id ?r = i" using may inv_view_id [OF inv2] by (auto simp: may_replace_def same_origin_def)
        then have "map_of (thread_rows s2) (thread_id ?r) \<noteq> None"
          using may inv_rows_dom [OF inv2, of i] by (auto simp: may_replace_def)
        then show False
          using st \<open>ok = Inr False\<close>
          by (auto simp: store_thread_def Threads_Update_def Let_def io_step_def split: if_splits option.splits)
      qed
      then obtain e where "ok = Inl e" using False by (cases ok) auto
      then have "res = Inl e" and "s' = s3" using run run1 by simp_all
      then show ?thesis using out(1) core_components [OF co] core_components [OF c2] v1 Some by simp
    qed
  qed
  then show "threads_inv s'"
    and "map_of (identities s) ?key = None \<Longrightarrow> minted s ?key res s'"
    and "map_of (identities s) ?key = Some i \<Longrightarrow>
           identities s' = identities s \<and> (case res of Inl _ \<Rightarrow> True | Inr j \<Rightarrow> j = i)"
    and "res = Inr j \<Longrightarrow> map_of (view s') j \<noteq> None"
    and "active s' = active s \<and> in_flight s' = in_flight s" by blast+
qed

lemma release_each_inv [inv_intro]: "threads_inv s \<Longrightarrow> threads_inv (release_each is s)"
proof (induction "is" arbitrary: s)
  case (Cons i rest)
  have "threads_inv (publish_thread (fst (coerceInactive i s)) i (release i (snd (coerceInactive i s))))"
    using coerceInactive_inv [OF Cons.prems] by (simp add: release_inv)
  from Cons.IH [OF this] show ?case by (simp add: case_prod_beta Let_def)
qed simp

lemma ReleaseIntegration_inv [inv_intro]: "threads_inv s \<Longrightarrow> threads_inv (ReleaseIntegration integration s)"
  unfolding ReleaseIntegration_def by (rule release_each_inv)

lemma now_core: "now s = (t, s') \<Longrightarrow> core s' = core s"
  using core_now [of s] by simp

lemma release_core: "core s' = core s \<Longrightarrow> core (release i s') = core (release i s)"
  by (drule core_components) (simp add: release_def core_def)

lemma may_replace_release:
  "may_replace (s\<lparr>held := removeAll i (held s)\<rparr>) i r \<longleftrightarrow>
     (\<exists>r0. map_of (view s) i = Some r0 \<and> same_origin r0 r) \<and> wf_thread r"
  by (auto simp: may_replace_def)

text \<open>\<^verbatim>\<open>ArchiveExternalThread\<close> writes before it releases the hold; the pair is one step for the invariant.\<close>

lemma ArchiveExternalThread_inv [inv_intro]:
  assumes inv: "threads_inv s"
  shows "threads_inv (snd (ArchiveExternalThread integration provider s))"
proof (cases "map_of (identities s) (integration, provider)")
  case None
  then show ?thesis by (simp add: ArchiveExternalThread_def inv)
next
  case (Some i)
  then obtain r0 where r0: "map_of (view s) i = Some r0" using inv_identity_view [OF inv] by blast
  obtain r1 co where cr: "coerceRecord r0 = (r1, co)" by (cases "coerceRecord r0")
  have r1: "r1 = fst (coerceRecord r0)" by (simp add: cr)
  have wf1: "wf_thread r1" unfolding r1 by (rule coerceRecord_wf [OF inv_view_wf [OF inv r0]])
  have o1: "same_origin r0 r1" unfolding r1 by simp
  show ?thesis
  proof (cases "archived r1 \<and> \<not> co")
    case True
    then show ?thesis using Some r0 cr release_inv [OF inv] by (simp add: ArchiveExternalThread_def Let_def)
  next
    case False
    obtain r2 s1 where p1: "(if archived r1 then (r1, s)
        else let (t, s) = now s in (r1\<lparr>archived := True, archived_at := Some t\<rparr>, s)) = (r2, s1)"
      by (metis prod.exhaust)
    have c1: "core s1 = core s" and wf2: "wf_thread r2" and o2: "same_origin r0 r2"
      using p1 wf1 o1 now_core [of s] by (auto split: if_splits prod.splits)
    obtain t s2 where n: "now s1 = (t, s2)" by (cases "now s1")
    have c2: "core s2 = core s" using core_now [of s1] c1 by (simp add: n)
    let ?r = "r2\<lparr>updated_at := t\<rparr>"
    obtain res s3 where up: "Threads_Update ?r s2 = (res, s3)" by (cases "Threads_Update ?r s2")
    have run: "ArchiveExternalThread integration provider s =
        (case res of Inl e \<Rightarrow> (Some e, s3)
         | Inr updated \<Rightarrow>
             (None, publish_thread updated i (release i (if updated then put_view ?r s3 else s3))))"
      by (simp only: ArchiveExternalThread_def Some r0 option.case cr prod.case Let_def if_not_P [OF False] p1 [unfolded Let_def] n up)
    txt \<open>The same update with the hold already gone.\<close>
    let ?h = "removeAll i (held s2)"
    have inv2: "threads_inv (s2\<lparr>held := ?h\<rparr>)"
      using release_inv [of s2 i] inv threads_inv_core [OF c2] by (simp add: release_def)
    have up': "Threads_Update ?r (s2\<lparr>held := ?h\<rparr>) = (res, s3\<lparr>held := ?h\<rparr>)"
      using up by (auto simp: Threads_Update_def Let_def io_step_def project_fk_def terminal_fk_def
          split: if_splits option.splits)
    have may: "may_replace (s2\<lparr>held := ?h\<rparr>) i ?r"
      unfolding may_replace_release using wf2 o2 r0 core_components [OF c2] by simp
    have inv2': "threads_inv s2" using inv threads_inv_core [OF c2] by simp
    from Threads_Update_cases [OF inv2 may, unfolded up' fst_conv snd_conv]
    show ?thesis
    proof
      assume *: "core (s3\<lparr>held := ?h\<rparr>) = core (s2\<lparr>held := ?h\<rparr>) \<and> res \<noteq> Inr True"
      have h3: "held s3 = held s2"
        using up by (auto simp: Threads_Update_def Let_def io_step_def split: if_splits option.splits)
      have c3: "core s3 = core s2" using * h3 by (simp add: core_def)
      have inv3: "threads_inv s3" using inv2' threads_inv_core [OF c3] by simp
      show ?thesis
        using * inv3 release_inv [OF inv3] by (cases res) (auto simp: run)
    next
      assume *: "core (s3\<lparr>held := ?h\<rparr>) = core (s2\<lparr>held := ?h, thread_rows := AList.update i ?r (thread_rows (s2\<lparr>held := ?h\<rparr>))\<rparr>)
          \<and> res = Inr True"
      have id: "thread_id ?r = i" using o2 inv_view_id [OF inv r0] by (simp add: same_origin_def)
      have h3: "held s3 = held s2"
        using up by (auto simp: Threads_Update_def Let_def io_step_def split: if_splits option.splits)
      have "core (release i (put_view ?r s3)) = core (put_both i ?r (s2\<lparr>held := ?h\<rparr>))"
        using * id r0 core_components [OF c2] h3
        by (auto simp: core_def release_def put_view_def put_both_def has_key_def)
      from threads_inv_core [OF this] have "threads_inv (release i (put_view ?r s3))"
        using put_both_inv [OF inv2 may] by simp
      then show ?thesis
        using * by (simp add: run)
    qed
  qed
qed

subsection \<open>Patch and delete\<close>

lemma activeHolder_none:
  assumes inv: "threads_inv s" and h: "activeHolder i s = ''''"
  shows "map_of (active s) t \<noteq> Some i"
proof
  assume "map_of (active s) t = Some i"
  then have mem: "(t, i) \<in> set (active s)" by (rule map_of_in_set)
  then have "find (\<lambda>(t, x). x = i) (active s) \<noteq> None" by (auto simp: find_None_iff)
  then obtain p where f: "find (\<lambda>(t, x). x = i) (active s) = Some p" by auto
  then have "p \<in> set (active s)" and "snd p = i" by (auto simp: find_Some_iff) (metis nth_mem)
  moreover from this have "fst p = ''''" using h f by (simp add: activeHolder_def case_prod_beta)
  ultimately have "('''', i) \<in> set (active s)" by (metis prod.collapse)
  moreover have "distinct (map fst (active s))" using inv by (simp add: threads_inv_def holds_inv_def)
  ultimately have "map_of (active s) '''' = Some i" using in_set_map_of by metis
  then show False using inv_active_named [OF inv] by simp
qed

lemma holder_none:
  assumes inv: "threads_inv s" and h: "holder i s = ''''"
  shows "activeHolder i s = '''' \<and> i \<notin> set (held s)"
  using h inv_held [OF inv, of i] by (auto simp: holder_def split: if_splits option.splits)

lemma ids_invI:
  assumes "view s = v" and "identities s = m" and "keys s = ks"
    and "\<And>i r. map_of v i = Some r \<Longrightarrow> thread_id r = i"
    and "\<And>k i. map_of m k = Some i \<longleftrightarrow> map_of ks i = Some k"
    and "\<And>i. map_of ks i = None \<longleftrightarrow> map_of v i = None"
    and "\<And>i r k. map_of v i = Some r \<Longrightarrow> map_of ks i = Some k \<Longrightarrow> fst k = integration_id r"
    and "distinct (map fst v)"
  shows "ids_inv s"
  unfolding ids_inv_def assms(1-3) using assms(4-8) by blast

lemma remove_thread_inv:
  assumes inv: "threads_inv s" and na: "activeHolder i s = ''''" and nf: "i \<notin> set (in_flight s)"
  shows "threads_inv (snd (remove_thread i s))"
proof -
  obtain res s1 where del: "Threads_Delete i s = (res, s1)" by (cases "Threads_Delete i s")
  show ?thesis
  proof (cases "res = Inr True")
    case False
    then have "core s1 = core s"
      using del by (auto simp: Threads_Delete_def Let_def io_step_def core_def split: if_splits)
    then have "threads_inv s1" using inv threads_inv_core by blast
    then show ?thesis using False del by (cases res) (auto simp: remove_thread_def)
  next
    case True
    have c1: "core s1 = core (s\<lparr>thread_rows := AList.delete i (thread_rows s),
        identity_rows := filter (\<lambda>(k, t). t \<noteq> i) (identity_rows s)\<rparr>)"
      and row: "map_of (thread_rows s) i \<noteq> None"
      using del True by (auto simp: Threads_Delete_def Let_def io_step_def core_def has_key_def split: if_splits)
    have vi: "map_of (view s) i \<noteq> None" using row inv_rows_dom [OF inv, of i] by simp
    then obtain k where k: "map_of (keys s) i = Some k" using inv_keys_view [OF inv, of i] by auto
    let ?s2 = "s\<lparr>thread_rows := AList.delete i (thread_rows s),
        identity_rows := filter (\<lambda>(k, t). t \<noteq> i) (identity_rows s),
        view := AList.delete i (view s), held := removeAll i (held s),
        identities := AList.delete k (identities s), keys := AList.delete i (keys s)\<rparr>"
    have s2_maps: "view ?s2 = AList.delete i (view s)" "identities ?s2 = AList.delete k (identities s)"
      "keys ?s2 = AList.delete i (keys s)" by simp_all
    have ik: "map_of (identities s) k = Some i" using k inv_keys [OF inv, of k i] by simp
    have kk: "map_of (identities s) k' = Some i \<longleftrightarrow> k' = k" for k'
      using k inv_keys [OF inv, of k' i] by auto
    have uk: "map_of (keys s) j = Some k \<Longrightarrow> j = i" for j
      using ik inv_keys [OF inv, of k j] by simp
    have "map_of (AList.delete k (identities s)) k' = Some j \<longleftrightarrow> map_of (AList.delete i (keys s)) j = Some k'" for k' j
    proof (cases "j = i")
      case True
      then show ?thesis using kk [of k'] by simp
    next
      case False
      then have "map_of (keys s) j \<noteq> Some k" using uk by blast
      then show ?thesis using False inv_keys [OF inv, of k' j] by (cases "k' = k") simp_all
    qed
    moreover have "map_of (AList.delete i (view s)) j = Some r \<Longrightarrow> thread_id r = j" for j r
      using inv_view_id [OF inv, of j r] by (simp split: if_splits)
    moreover have "map_of (AList.delete i (keys s)) j = None \<longleftrightarrow> map_of (AList.delete i (view s)) j = None" for j
      using inv_keys_view [OF inv, of j] by simp
    moreover have "map_of (AList.delete i (view s)) j = Some r \<Longrightarrow> map_of (AList.delete i (keys s)) j = Some k'
        \<Longrightarrow> fst k' = integration_id r" for j r k'
      using inv_keys_integration [OF inv, of j r k'] by (simp split: if_splits)
    moreover have "distinct (map fst (AList.delete i (view s)))"
      using inv by (simp add: threads_inv_def ids_inv_def)
    ultimately have "ids_inv ?s2" by (intro ids_invI [OF s2_maps]) blast+
    moreover have "holds_inv ?s2"
      using inv activeHolder_none [OF inv na] nf unfolding threads_inv_def holds_inv_def by auto
    moreover have "rows_inv ?s2"
    proof -
      have d: "distinct (map fst (identity_rows s))" using inv by (simp add: threads_inv_def rows_inv_def)
      have "map_of (filter (\<lambda>(k, t). t \<noteq> i) (identity_rows s)) k' = map_of (AList.delete k (identities s)) k'" for k'
        unfolding map_of_filter_value [OF d, of "\<lambda>k t. t \<noteq> i"]
        using inv_identity_rows [OF inv, of k'] kk [of k'] by (auto split: option.split)
      then show ?thesis
        using inv unfolding threads_inv_def rows_inv_def by (auto simp del: split_paired_All)
    qed
    moreover have "records_inv ?s2" using inv unfolding threads_inv_def records_inv_def by auto
    ultimately have inv2: "threads_inv ?s2" by (simp add: threads_inv_def)
    have "core (snd (remove_thread i s)) = core ?s2"
      using del True core_components [OF c1] k
      by (simp add: remove_thread_def forgetIdentity_def) (simp add: core_def release_def)
    then show ?thesis using inv2 threads_inv_core by blast
  qed
qed

lemma Delete_thread_inv [inv_intro]:
  assumes inv: "threads_inv s"
  shows "threads_inv (snd (Delete_thread i s))"
  using inv holder_none [OF inv, of i] remove_thread_inv [OF inv, of i] by (simp add: Delete_thread_def)

lemma DiscardExternal_inv [inv_intro]:
  assumes inv: "threads_inv s"
  shows "threads_inv (snd (DiscardExternal integration provider s))"
proof (cases "map_of (identities s) (integration, provider)")
  case None
  then show ?thesis using inv by (simp add: DiscardExternal_def)
next
  case (Some i)
  then show ?thesis using inv remove_thread_inv [OF inv, of i] by (simp add: DiscardExternal_def)
qed

lemma patch_title_keeps:
  "same_origin r (patch_title p r)" "archived (patch_title p r) = archived r"
  "wf_thread (patch_title p r) = wf_thread r"
  by (cases p; simp add: patch_title_def)+

lemma patch_project_result:
  "patch_project p r s = (res, s') \<Longrightarrow>
     core s' = core s \<and> (\<forall>r'. res = Inr r' \<longrightarrow> (\<exists>q. r' = r\<lparr>project_id := q\<rparr>))"
proof -
  assume run: "patch_project p r s = (res, s')"
  show ?thesis
  proof (cases p)
    case Unset
    then have "core s' = core s" and "res = Inr (r\<lparr>project_id := project_id r\<rparr>)"
      using run by (simp_all add: patch_project_def)
    then show ?thesis by blast
  next
    case Clear
    then show ?thesis using run by (auto simp: patch_project_def)
  next
    case (Put v)
    obtain g s1 where g: "Projects_Get v s = (g, s1)" by (cases "Projects_Get v s")
    have "core s1 = core s" using core_Projects_Get [of v s] by (simp add: g)
    then show ?thesis
      using run Put g by (auto simp: patch_project_def split: sum.splits option.splits)
  qed
qed

lemma patch_archived_result:
  "patch_archived p hld r s = (res, s') \<Longrightarrow> wf_thread r \<Longrightarrow>
     core s' = core s \<and> (\<forall>r'. res = Inr r' \<longrightarrow> same_origin r r' \<and> wf_thread r' \<and>
        (archived r' \<longrightarrow> archived r \<or> hld = ''''))"
  by (auto simp: patch_archived_def split: patch.splits if_splits prod.splits dest: now_core)

lemma Update_thread_inv [inv_intro]:
  assumes inv: "threads_inv s"
  shows "threads_inv (snd (Update_thread linkers i params s))"
proof (cases "Null (tu_title params) \<or> Null (tu_archived params) \<or> map_of (view s) i = None
    \<or> i \<in> set (in_flight s) \<and> tu_archived params = Put True")
  case True
  then show ?thesis using inv by (auto simp: Update_thread_def split: option.split)
next
  case False
  then obtain r0 where r0: "map_of (view s) i = Some r0" by auto
  define r1 where "r1 = patch_title (tu_title params) r0"
  obtain p s1 where p: "patch_project (tu_project params) r1 s = (p, s1)" by (cases "patch_project (tu_project params) r1 s")
  have c1: "core s1 = core s" using patch_project_result [OF p] by simp
  have inv1: "threads_inv s1" using inv threads_inv_core [OF c1] by simp
  show ?thesis
  proof (cases p)
    case (Inl e)
    then have "snd (Update_thread linkers i params s) = s1"
      using False r0 p by (auto simp: Update_thread_def Let_def r1_def)
    then show ?thesis using inv1 by simp
  next
    case (Inr r2)
    have r2: "same_origin r0 r2" "wf_thread r2" "archived r2 = archived r0"
      using patch_project_result [OF p] Inr patch_title_keeps [where r = r0 and p = "tu_title params"] inv_view_wf [OF inv r0]
      by (auto simp: r1_def)
    obtain a s2 where a: "patch_archived (tu_archived params) (holder i s) r2 s1 = (a, s2)"
      by (cases "patch_archived (tu_archived params) (holder i s) r2 s1")
    have c2: "core s2 = core s" using patch_archived_result [OF a r2(2)] c1 by simp
    have inv2: "threads_inv s2" using inv threads_inv_core [OF c2] by simp
    show ?thesis
    proof (cases a)
      case (Inl e)
      then have "snd (Update_thread linkers i params s) = s2"
        using False r0 p Inr a by (auto simp: Update_thread_def Let_def r1_def)
      then show ?thesis using inv2 by simp
    next
      case r3: (Inr r3)
      have k3: "same_origin r0 r3" "wf_thread r3" "archived r3 \<longrightarrow> archived r0 \<or> holder i s = ''''"
        using patch_archived_result [OF a r2(2)] r3 r2 by (auto intro: same_origin_trans)
      obtain t s3 where n: "now s2 = (t, s3)" by (cases "now s2")
      have c3: "core s3 = core s" using now_core [OF n] c2 by simp
      have inv3: "threads_inv s3" using inv threads_inv_core [OF c3] by simp
      have "archived r3 \<longrightarrow> i \<notin> set (held s)"
        using k3(3) holder_none [OF inv, of i] inv_held [OF inv, of i] r0 by auto
      then have may: "may_replace s3 i (r3\<lparr>updated_at := t\<rparr>)"
        unfolding may_replace_core [OF c3] using k3 r0 by (simp add: may_replace_def)
      obtain ok s4 where st: "store_thread (r3\<lparr>updated_at := t\<rparr>) s3 = (ok, s4)"
        by (cases "store_thread (r3\<lparr>updated_at := t\<rparr>) s3")
      have inv4: "threads_inv s4" using store_thread_run(1) [OF inv3 may st] .
      have "snd (Update_thread linkers i params s) = s2
          \<or> snd (Update_thread linkers i params s) = s4
          \<or> snd (Update_thread linkers i params s) = publish_thread (visible_change r0 r3) i s4"
        using False r0 p Inr a r3 n st
        by (auto simp: Update_thread_def Let_def r1_def split: sum.split)
      then show ?thesis using inv2 inv4 by auto
    qed
  qed
qed

subsection \<open>Turns\<close>

lemma persist_run:
  assumes inv: "threads_inv s" and may: "may_replace s i r" and run: "persist r s = (e, s')"
  shows "threads_inv s'" and "around s' = around s"
    and "e = None \<Longrightarrow> core s' = core (put_both i r s)"
    and "e \<noteq> None \<Longrightarrow> core s' = core s"
proof -
  obtain res s1 where st: "store_thread r s = (res, s1)" by (cases "store_thread r s")
  note out = store_thread_run [OF inv may st]
  have s': "s' = s1" and e: "e = None \<longleftrightarrow> res = Inr True"
    using run st by (auto simp: persist_def split: sum.splits if_splits)
  show "threads_inv s'" "around s' = around s" using out s' by simp_all
  show "e = None \<Longrightarrow> core s' = core (put_both i r s)" using out e s' by simp
  show "e \<noteq> None \<Longrightarrow> core s' = core s" using out e s' by simp
qed

lemma mintPending_result:
  assumes run: "mintPending r s = (r', s')"
  shows "core s' = core s" and "same_origin r r'" and "archived r' = archived r"
    and "wf_thread r \<Longrightarrow> wf_thread r'"
    and "\<exists>p. pending r' = Some p \<and> pending_turn_prior p = (case turn r of None \<Rightarrow> '''' | Some x \<Rightarrow> turn_provider_id x)"
    and "status r' = ThreadWorking"
proof -
  obtain t s1 where n: "now s = (t, s1)" by (cases "now s")
  obtain fresh s2 where f: "newLong turn_prefix s1 = (fresh, s2)" by (cases "newLong turn_prefix s1")
  have c: "core s2 = core s" using now_core [OF n] core_newLong [of turn_prefix s1] by (simp add: f)
  have eq: "mintPending r s = (r\<lparr>pending := Some \<lparr>pending_turn_id = fresh,
        pending_turn_prior = (case turn r of None \<Rightarrow> '''' | Some x \<Rightarrow> turn_provider_id x), pending_turn_submitted_at = t\<rparr>,
      status := ThreadWorking, status_detail := '''', updated_at := t\<rparr>,
      s2\<lparr>prior_status := AList.update (thread_id r) (status r, status_detail r) (prior_status s2)\<rparr>)"
    by (simp only: mintPending_def n f Let_def prod.case)
  have r': "r' = r\<lparr>pending := Some \<lparr>pending_turn_id = fresh,
        pending_turn_prior = (case turn r of None \<Rightarrow> '''' | Some x \<Rightarrow> turn_provider_id x), pending_turn_submitted_at = t\<rparr>,
      status := ThreadWorking, status_detail := '''', updated_at := t\<rparr>"
    using trans [OF sym [OF run] eq] unfolding prod.inject by (rule conjunct1)
  have s': "s' = s2\<lparr>prior_status := AList.update (thread_id r) (status r, status_detail r) (prior_status s2)\<rparr>"
    using trans [OF sym [OF run] eq] unfolding prod.inject by (rule conjunct2)
  show "core s' = core s" using c by (simp add: s' core_def)
  show "same_origin r r'" "archived r' = archived r" by (simp_all add: r' same_origin_def)
  show "wf_thread r \<Longrightarrow> wf_thread r'" by (simp add: r' wf_thread_def turn_running_def)
  show "\<exists>p. pending r' = Some p \<and> pending_turn_prior p = (case turn r of None \<Rightarrow> '''' | Some x \<Rightarrow> turn_provider_id x)"
    by (simp add: r')
  show "status r' = ThreadWorking" by (simp add: r')
qed

lemma archived_not_held:
  "threads_inv s \<Longrightarrow> map_of (view s) i = Some r \<Longrightarrow> archived r \<Longrightarrow> i \<notin> set (held s)"
  using inv_held by force

lemma SubmitTurn_outcome:
  assumes inv: "threads_inv s" and run: "SubmitTurn i s = (res, s')"
  shows "threads_inv s'" and "around s' = around s"
    and "case res of
           Inl _ \<Rightarrow> core s' = core s
         | Inr t \<Rightarrow> \<exists>r p. map_of (view s') i = Some r \<and> pending r = Some p \<and> pending_turn_id p = t \<and> status r = ThreadWorking"
proof -
  have "threads_inv s' \<and> around s' = around s \<and> (case res of
           Inl _ \<Rightarrow> core s' = core s
         | Inr t \<Rightarrow> \<exists>r p. map_of (view s') i = Some r \<and> pending r = Some p \<and> pending_turn_id p = t \<and> status r = ThreadWorking)"
  proof (cases "\<exists>r. map_of (view s) i = Some r \<and> pending r = None")
    case False
    have "core s' = core s \<and> (\<exists>e. res = Inl e)"
    proof (cases "map_of (view s) i")
      case None
      then show ?thesis using run by (auto simp: SubmitTurn_def)
    next
      case (Some r)
      then obtain p where "pending r = Some p" using False by (cases "pending r") auto
      then show ?thesis using run Some by (auto simp: SubmitTurn_def)
    qed
    then show ?thesis using inv threads_inv_core [of s' s] around_core [of s' s] by auto
  next
    case True
    then obtain r where r: "map_of (view s) i = Some r" and np: "pending r = None" by blast
    obtain r1 s1 where m: "mintPending r s = (r1, s1)" by (cases "mintPending r s")
    note mp = mintPending_result [OF m]
    have c1: "core s1 = core s" using mp by simp
    have inv1: "threads_inv s1" using inv threads_inv_core [OF c1] by simp
    have may: "may_replace s1 i r1"
      unfolding may_replace_core [OF c1]
      using mp r inv_view_wf [OF inv r] archived_not_held [OF inv r] by (auto simp: may_replace_def)
    obtain e s2 where p: "persist r1 s1 = (e, s2)" by (cases "persist r1 s1")
    note out = persist_run [OF inv1 may p]
    obtain pd where pd: "pending r1 = Some pd" using mp by blast
    show ?thesis
    proof (cases e)
      case (Some x)
      then have "res = Inl x" and "s' = s2" using run r np m p by (simp_all add: SubmitTurn_def)
      then show ?thesis using out Some around_core [OF c1] c1 by simp
    next
      case None
      then have res: "res = Inr (pending_turn_id pd)" and s': "s' = Publish EventThreadUpdated thread_resource i s2"
        using run r np m p pd by (simp_all add: SubmitTurn_def)
      have c': "core s' = core s2" by (simp add: s')
      have "map_of (view s2) i = Some r1" using core_components [OF out(3) [OF None]] by (simp add: put_both_def)
      then show ?thesis
        unfolding res using mp(6) threads_inv_core [OF c'] around_core [OF c'] out around_core [OF c1] pd core_components [OF c']
        by simp
    qed
  qed
  then show "threads_inv s'" and "around s' = around s"
    and "case res of
           Inl _ \<Rightarrow> core s' = core s
         | Inr t \<Rightarrow> \<exists>r p. map_of (view s') i = Some r \<and> pending r = Some p \<and> pending_turn_id p = t \<and> status r = ThreadWorking" by blast+
qed

lemma adoptResponse_wf: "wf_turn t \<Longrightarrow> wf_turn (fst (adoptResponse t (turn_state t) resp))"
  by (simp add: adoptResponse_def wf_turn_response)

lemma adoptResponse_state: "turn_state (fst (adoptResponse t st resp)) = turn_state t"
  by (simp add: adoptResponse_def)

lemma ObserveTurnResponse_inv [inv_intro]:
  assumes inv: "threads_inv s"
  shows "threads_inv (snd (ObserveTurnResponse i provider resp s))"
proof (cases "\<exists>r t. map_of (view s) i = Some r \<and> turn r = Some t \<and> provider \<noteq> '''' \<and> turn_provider_id t = provider
    \<and> snd (adoptResponse t (turn_state t) resp)")
  case False
  then show ?thesis
    using inv by (auto simp: ObserveTurnResponse_def Let_def case_prod_beta split: option.split)
next
  case True
  then obtain r t where r: "map_of (view s) i = Some r" and t: "turn r = Some t"
    and p: "provider \<noteq> ''''" "turn_provider_id t = provider" and ad: "snd (adoptResponse t (turn_state t) resp)" by blast
  obtain t' where t': "adoptResponse t (turn_state t) resp = (t', True)"
    using ad by (cases "adoptResponse t (turn_state t) resp") simp
  obtain at s1 where n: "now s = (at, s1)" by (cases "now s")
  have c1: "core s1 = core s" using now_core [OF n] .
  have inv1: "threads_inv s1" using inv threads_inv_core [OF c1] by simp
  let ?r = "r\<lparr>turn := Some t', last_evidence_at := Some at, updated_at := at\<rparr>"
  have wf: "wf_thread r" using inv_view_wf [OF inv r] .
  have wt: "wf_turn t'" using adoptResponse_wf [of t resp] wf_thread_the_turn [OF wf t] by (simp add: t')
  have en: "Ended (turn_state t)" using t' by (auto simp: adoptResponse_def split: if_splits)
  have "turn_state t' = turn_state t" using adoptResponse_state [of t "turn_state t" resp] by (simp add: t')
  then have "turn_state t' \<noteq> TurnRunning" using en by auto
  then have "wf_thread ?r" using wf_thread_turn [OF wf wt] by simp
  then have may: "may_replace s1 i ?r"
    unfolding may_replace_core [OF c1] using r archived_not_held [OF inv r] by (auto simp: may_replace_def)
  obtain e s2 where ps: "persist ?r s1 = (e, s2)" by (cases "persist ?r s1")
  note out = persist_run [OF inv1 may ps]
  have "core (snd (ObserveTurnResponse i provider resp s)) = core s2"
    using r t p t' n ps by (simp add: ObserveTurnResponse_def split: option.split)
  then show ?thesis using out(1) threads_inv_core by blast
qed

subsection \<open>Open\<close>

lemma link_outcome:
  assumes inv: "threads_inv s" and run: "link i tm s = (e, s')"
  shows "threads_inv s'" and "around s' = around s"
    and "e = None \<Longrightarrow> \<exists>r. map_of (view s') i = Some r \<and> terminal_id r = Some tm \<and> \<not> archived r"
    and "e \<noteq> None \<Longrightarrow> core s' = core s"
proof -
  have "threads_inv s' \<and> around s' = around s
      \<and> (e = None \<longrightarrow> (\<exists>r. map_of (view s') i = Some r \<and> terminal_id r = Some tm \<and> \<not> archived r))
      \<and> (e \<noteq> None \<longrightarrow> core s' = core s)"
  proof (cases "map_of (view s) i")
    case None
    then show ?thesis using run inv by (auto simp: link_def)
  next
    case (Some r0)
    let ?r = "unarchive (set_terminal tm r0)"
    have tid: "terminal_id ?r = Some tm" by (simp add: unarchive_def set_terminal_def)
    show ?thesis
    proof (cases "?r = r0")
      case True
      have "\<not> archived r0" using record_steps_keep(7) [of "set_terminal tm r0"] True by simp
      then show ?thesis using run inv Some True tid by (auto simp: link_def)
    next
      case False
      obtain at s1 where n: "now s = (at, s1)" by (cases "now s")
      have c1: "core s1 = core s" using now_core [OF n] .
      have inv1: "threads_inv s1" using inv threads_inv_core [OF c1] by simp
      let ?r' = "?r\<lparr>updated_at := at\<rparr>"
      have "same_origin r0 ?r" by (meson record_steps_keep same_origin_trans)
      moreover have "wf_thread ?r" using inv_view_wf [OF inv Some] by (intro record_steps_wf)
      ultimately have may: "may_replace s1 i ?r'"
        unfolding may_replace_core [OF c1] using Some by (simp add: may_replace_def)
      obtain x s2 where ps: "persist ?r' s1 = (x, s2)" by (cases "persist ?r' s1")
      note out = persist_run [OF inv1 may ps]
      have e: "e = x" and s': "s' = (if x = None then Publish EventThreadUpdated thread_resource i s2 else s2)"
        using run Some False n ps by (auto simp: link_def Let_def split: option.splits)
      have c': "core s' = core s2" by (simp add: s')
      have "x = None \<Longrightarrow> map_of (view s2) i = Some ?r'"
        using core_components [OF out(3)] by (simp add: put_both_def)
      then show ?thesis
        unfolding e using threads_inv_core [OF c'] around_core [OF c'] out around_core [OF c1] tid c1 c'
          core_components [OF c'] by auto
    qed
  qed
  then show "threads_inv s'" and "around s' = around s"
    and "e = None \<Longrightarrow> \<exists>r. map_of (view s') i = Some r \<and> terminal_id r = Some tm \<and> \<not> archived r"
    and "e \<noteq> None \<Longrightarrow> core s' = core s" by blast+
qed

lemma decideOpen_outcome:
  assumes inv: "threads_inv s" and run: "decideOpen i s = (d, s')"
  shows "threads_inv s'" and "around s' = around s"
    and "d = Dormant \<Longrightarrow> map_of (view s') i \<noteq> None \<and> i \<notin> set (in_flight s)"
proof -
  have "threads_inv s' \<and> around s' = around s \<and> (d = Dormant \<longrightarrow> map_of (view s') i \<noteq> None \<and> i \<notin> set (in_flight s))"
  proof (cases "map_of (view s) i")
    case None
    then show ?thesis using run inv by (auto simp: decideOpen_def)
  next
    case (Some r)
    show ?thesis
    proof (cases "reusable i r s")
      case None
      then show ?thesis using run inv Some by (auto simp: decideOpen_def split: if_splits)
    next
      case t: (Some t)
      obtain e s1 where l: "link i (at_id t) s = (e, s1)" by (cases "link i (at_id t) s")
      note out = link_outcome [OF inv l]
      have "s' = s1" and "d \<noteq> Dormant"
        using run Some t l by (auto simp: decideOpen_def split: option.splits)
      then show ?thesis using out by simp
    qed
  qed
  then show "threads_inv s'" and "around s' = around s"
    and "d = Dormant \<Longrightarrow> map_of (view s') i \<noteq> None \<and> i \<notin> set (in_flight s)" by blast+
qed

lemma open_begin_outcome:
  assumes inv: "threads_inv s" and run: "open_begin i s = (b, s')"
  shows "threads_inv s'"
    and "(\<exists>req. b = BeginResumes req) \<Longrightarrow> i \<notin> set (in_flight s) \<and> in_flight s' = List.insert i (in_flight s)"
    and "(\<forall>req. b \<noteq> BeginResumes req) \<Longrightarrow> in_flight s' = in_flight s"
proof -
  obtain d s1 where dc: "decideOpen i s = (d, s1)" by (cases "decideOpen i s")
  note out = decideOpen_outcome [OF inv dc]
  have ar: "in_flight s1 = in_flight s" using around_components [OF out(2)] by simp
  have "threads_inv s'
      \<and> ((\<exists>req. b = BeginResumes req) \<longrightarrow> i \<notin> set (in_flight s) \<and> in_flight s' = List.insert i (in_flight s))
      \<and> ((\<forall>req. b \<noteq> BeginResumes req) \<longrightarrow> in_flight s' = in_flight s)"
  proof (cases d)
    case Dormant
    then obtain r where r: "map_of (view s1) i = Some r" using out(3) by auto
    have s': "s' = s1\<lparr>in_flight := List.insert i (in_flight s1)\<rparr>" and b: "\<exists>req. b = BeginResumes req"
      using run dc Dormant r by (auto simp: open_begin_def)
    have "threads_inv s'"
      unfolding s' using r inv_in_flight [OF out(1)] by (intro inv_in_flight_change [OF out(1)]) auto
    then show ?thesis using b s' ar out(3) Dormant by auto
  qed (use run dc out ar in \<open>auto simp: open_begin_def\<close>)
  then show "threads_inv s'"
    and "(\<exists>req. b = BeginResumes req) \<Longrightarrow> i \<notin> set (in_flight s) \<and> in_flight s' = List.insert i (in_flight s)"
    and "(\<forall>req. b \<noteq> BeginResumes req) \<Longrightarrow> in_flight s' = in_flight s" by blast+
qed

lemma open_finish_inv [inv_intro]: "threads_inv s \<Longrightarrow> threads_inv (open_finish i s)"
  unfolding open_finish_def by (rule inv_in_flight_change) (auto dest: inv_in_flight)

subsection \<open>Projects\<close>

lemma clear_project_keeps:
  "thread_id (clear_project p r) = thread_id r" "integration_id (clear_project p r) = integration_id r"
  "archived (clear_project p r) = archived r" "wf_thread (clear_project p r) = wf_thread r"
  by (simp_all add: clear_project_def)

lemma clear_project_agrees: "row_agrees row r \<Longrightarrow> row_agrees (clear_project p row) (clear_project p r)"
  by (auto simp: row_agrees_def clear_project_def)

lemma ids_inv_view_map:
  assumes "ids_inv s" and "view s' = map (\<lambda>(i, r). (i, f r)) (view s)" and "identities s' = identities s"
    and "keys s' = keys s" and "\<And>r. thread_id (f r) = thread_id r" and "\<And>r. integration_id (f r) = integration_id r"
  shows "ids_inv s'"
proof (rule ids_invI [OF assms(2-4)])
  have v: "map_of (map (\<lambda>(i, r). (i, f r)) (view s)) i = map_option f (map_of (view s) i)" for i
    by (rule map_of_map_snd)
  show "map_of (map (\<lambda>(i, r). (i, f r)) (view s)) i = Some r \<Longrightarrow> thread_id r = i" for i r
    using assms(1,5) unfolding v ids_inv_def by auto
  show "map_of (identities s) k = Some i \<longleftrightarrow> map_of (keys s) i = Some k" for k i
    using assms(1) unfolding ids_inv_def by blast
  show "map_of (keys s) i = None \<longleftrightarrow> map_of (map (\<lambda>(i, r). (i, f r)) (view s)) i = None" for i
    using assms(1) unfolding v ids_inv_def by (simp del: split_paired_All)
  show "map_of (map (\<lambda>(i, r). (i, f r)) (view s)) i = Some r \<Longrightarrow> map_of (keys s) i = Some k \<Longrightarrow> fst k = integration_id r"
    for i r k
    using assms(1,6) unfolding v ids_inv_def by (auto simp del: split_paired_All)
  show "distinct (map fst (map (\<lambda>(i, r). (i, f r)) (view s)))"
    using assms(1) unfolding map_fst_map_snd ids_inv_def by blast
qed

lemma clear_project_inv:
  assumes inv: "threads_inv s"
  shows "threads_inv (s\<lparr>thread_rows := map (\<lambda>(k, r). (k, clear_project p r)) (thread_rows s),
                       view := map (\<lambda>(i, r). (i, clear_project p r)) (view s)\<rparr>)" (is "threads_inv ?s")
proof -
  have v: "map_of (map (\<lambda>(i, r). (i, clear_project p r)) xs) i = map_option (clear_project p) (map_of xs i)"
    for xs :: "(string \<times> thread_record) list" and i
    by (rule map_of_map_snd)
  have "ids_inv s" using inv by (simp only: threads_inv_def)
  then have "ids_inv ?s"
    by (rule ids_inv_view_map [where f = "clear_project p"]) (simp_all only: clear_project_keeps, simp_all)
  moreover have "holds_inv ?s"
    using inv unfolding threads_inv_def holds_inv_def by (auto simp: v clear_project_keeps)
  moreover have "records_inv ?s"
    using inv unfolding threads_inv_def records_inv_def by (auto simp: v clear_project_keeps)
  moreover have "rows_inv ?s"
  proof -
    have "row_agrees row r" if a: "map_of (view ?s) i = Some r" and b: "map_of (thread_rows ?s) i = Some row" for i r row
    proof -
      obtain r0 where r0: "map_of (view s) i = Some r0" "r = clear_project p r0" using a by (auto simp: v)
      obtain row0 where row0: "map_of (thread_rows s) i = Some row0" "row = clear_project p row0" using b by (auto simp: v)
      have "row_agrees row0 r0" using inv_rows [OF inv r0(1)] row0(1) by auto
      then show ?thesis unfolding r0(2) row0(2) by (rule clear_project_agrees)
    qed
    moreover have "distinct (map fst (thread_rows ?s))" "distinct (map fst (identity_rows ?s))"
      using inv by (simp_all add: threads_inv_def rows_inv_def map_fst_map_snd del: map_map)
    moreover have "map_of (thread_rows ?s) i = None \<longleftrightarrow> map_of (view ?s) i = None" for i
      using inv_rows_dom [OF inv, of i] by (simp add: v)
    moreover have "map_of (identity_rows ?s) k = map_of (identities ?s) k" for k
      using inv_identity_rows [OF inv, of k] by simp
    ultimately show ?thesis unfolding rows_inv_def by blast
  qed
  ultimately show ?thesis by (simp add: threads_inv_def)
qed

lemma DeleteProject_everywhere_inv [inv_intro]:
  assumes inv: "threads_inv s"
  shows "threads_inv (snd (DeleteProject_everywhere p s))"
proof -
  obtain res s1 where del: "Projects_Delete p s = (res, s1)" by (cases "Projects_Delete p s")
  show ?thesis
  proof (cases "res = Inr True")
    case False
    then have "core s1 = core s"
      using del by (auto simp: Projects_Delete_def Let_def io_step_def core_def split: if_splits)
    then have "threads_inv s1" using inv threads_inv_core by blast
    moreover have "snd (DeleteProject_everywhere p s) = s1"
      using False del by (cases res) (auto simp: DeleteProject_everywhere_def DeleteProject_def Delete_project_def)
    ultimately show ?thesis by simp
  next
    case True
    then have c1: "core s1 = core (s\<lparr>thread_rows := map (\<lambda>(k, r). (k, clear_project p r)) (thread_rows s)\<rparr>)"
      using del by (auto simp: Projects_Delete_def Let_def io_step_def core_def split: if_splits)
    have "core (snd (DeleteProject_everywhere p s)) =
        core (s\<lparr>thread_rows := map (\<lambda>(k, r). (k, clear_project p r)) (thread_rows s),
               view := map (\<lambda>(i, r). (i, clear_project p r)) (view s)\<rparr>)"
      using del True core_components [OF c1]
      by (simp add: DeleteProject_everywhere_def DeleteProject_def Delete_project_def)
        (simp add: core_def Publish_def)
    then show ?thesis using clear_project_inv [OF inv] threads_inv_core by blast
  qed
qed

lemma AssignProject_cases:
  assumes inv: "threads_inv s" and run: "Threads_AssignProject i p t s = (res, s')"
  shows "core s' = core s \<and> res \<noteq> Inr True
       \<or> res = Inr True \<and> (\<exists>r row. map_of (view s) i = Some r \<and> map_of (thread_rows s) i = Some row
            \<and> project_id r = '''' \<and> row_agrees row r
            \<and> core s' = core (s\<lparr>thread_rows := AList.update i (row\<lparr>project_id := p, updated_at := t\<rparr>) (thread_rows s)\<rparr>))"
proof (cases "map_of (thread_rows s) i")
  case None
  then show ?thesis using run by (auto simp: Threads_AssignProject_def Let_def io_step_def core_def split: if_splits)
next
  case (Some row)
  then obtain r where r: "map_of (view s) i = Some r" using inv_rows_dom [OF inv, of i] by auto
  have ag: "row_agrees row r" using inv_rows [OF inv r] Some by auto
  then have pr: "project_id row = project_id r" by (auto simp: row_agrees_def)
  show ?thesis
    using run Some r ag pr
    by (auto simp: Threads_AssignProject_def Let_def io_step_def core_def split: if_splits)
qed

lemma assigned_inv:
  assumes inv: "threads_inv s" and r: "map_of (view s) i = Some r" and row: "map_of (thread_rows s) i = Some row"
    and ag: "row_agrees row r"
  shows "threads_inv (s\<lparr>thread_rows := AList.update i (row\<lparr>project_id := p, updated_at := t\<rparr>) (thread_rows s),
                       view := AList.update i (r\<lparr>project_id := p, updated_at := t\<rparr>) (view s)\<rparr>)" (is "threads_inv ?s")
proof -
  have id: "thread_id r = i" using inv_view_id [OF inv r] .
  have wf: "wf_thread r" using inv_view_wf [OF inv r] .
  have ag': "row_agrees (row\<lparr>project_id := p, updated_at := t\<rparr>) (r\<lparr>project_id := p, updated_at := t\<rparr>)"
    using ag by (auto simp: row_agrees_def)
  have "ids_inv ?s" using inv r id unfolding threads_inv_def ids_inv_def by (auto simp del: split_paired_All)
  moreover have "holds_inv ?s" using inv r unfolding threads_inv_def holds_inv_def by auto
  moreover have "rows_inv ?s"
    using inv ag' unfolding threads_inv_def rows_inv_def by (auto simp del: split_paired_All)
  moreover have "records_inv ?s" using inv wf unfolding threads_inv_def records_inv_def by auto
  ultimately show ?thesis by (simp add: threads_inv_def)
qed

lemma backfill_each_inv:
  "threads_inv s \<Longrightarrow> threads_inv (snd (backfill_each as t s))"
proof (induction "as" arbitrary: s)
  case (Cons a rest)
  obtain i p where a: "a = (i, p)" by (cases a)
  obtain res s1 where run: "Threads_AssignProject i p t s = (res, s1)" by (cases "Threads_AssignProject i p t s")
  from AssignProject_cases [OF Cons.prems run] show ?case
  proof
    assume *: "core s1 = core s \<and> res \<noteq> Inr True"
    then have "threads_inv s1" using Cons.prems threads_inv_core by blast
    then show ?thesis using Cons.IH run * by (cases res) (auto simp: a)
  next
    assume "res = Inr True \<and> (\<exists>r row. map_of (view s) i = Some r \<and> map_of (thread_rows s) i = Some row
            \<and> project_id r = '''' \<and> row_agrees row r
            \<and> core s1 = core (s\<lparr>thread_rows := AList.update i (row\<lparr>project_id := p, updated_at := t\<rparr>) (thread_rows s)\<rparr>))"
    then obtain r row where res: "res = Inr True" and r: "map_of (view s) i = Some r"
      and row: "map_of (thread_rows s) i = Some row" and np: "project_id r = ''''" and ag: "row_agrees row r"
      and c1: "core s1 = core (s\<lparr>thread_rows := AList.update i (row\<lparr>project_id := p, updated_at := t\<rparr>) (thread_rows s)\<rparr>)"
      by blast
    note v1 = core_components [OF c1]
    let ?s2 = "s1\<lparr>view := AList.update i (r\<lparr>project_id := p, updated_at := t\<rparr>) (view s1)\<rparr>"
    have c2: "core ?s2 = core (s\<lparr>thread_rows := AList.update i (row\<lparr>project_id := p, updated_at := t\<rparr>) (thread_rows s),
                       view := AList.update i (r\<lparr>project_id := p, updated_at := t\<rparr>) (view s)\<rparr>)"
      using v1 by (simp add: core_def)
    have "threads_inv ?s2" using assigned_inv [OF Cons.prems r row ag, where p = p and t = t] threads_inv_core [OF c2] by simp
    then have "threads_inv (Publish EventThreadUpdated thread_resource i ?s2)" by simp
    from Cons.IH [OF this] show ?thesis using run res v1 r np by (simp add: a)
  qed
qed simp

lemma Backfill_inv [inv_intro]:
  assumes inv: "threads_inv s"
  shows "threads_inv (snd (Backfill s))"
proof -
  obtain res s1 where l: "Projects_List s = (res, s1)" by (cases "Projects_List s")
  have c1: "core s1 = core s" using core_Projects_List [of s] by (simp add: l)
  obtain t s2 where n: "now s1 = (t, s2)" by (cases "now s1")
  have "core s2 = core s" using now_core [OF n] c1 by simp
  then have "threads_inv s2" "threads_inv s1" using inv threads_inv_core c1 by blast+
  then show ?thesis using backfill_each_inv by (cases res) (simp_all add: Backfill_def l n Let_def)
qed

subsection \<open>The other domains\<close>

text \<open>
  The terminal, space and project operations read and write tables of their own. The one thing they do to the threads is
  the foreign key action of a terminal's deletion, which clears the link in the rows behind the view's back.
\<close>

lemma other_repositories_core [frame]:
  "core (snd (Terminals_Insert r s)) = core s" "core (snd (Terminals_List s)) = core s"
  "core (snd (Terminals_Update i n sp at s)) = core s" "core (snd (Terminals_RecordStopIntent i at s)) = core s"
  "core (snd (Terminals_RecordExit i x y c s)) = core s" "core (snd (Spaces_Insert sr s)) = core s"
  "core (snd (Spaces_List s)) = core s" "core (snd (Spaces_Update i n d at s)) = core s"
  "core (snd (Spaces_Delete i s)) = core s" "core (snd (Projects_Insert p s)) = core s"
  "core (snd (Projects_Update i n d at s)) = core s"
  by (auto simp: Terminals_Insert_def Terminals_List_def Terminals_Update_def Terminals_RecordStopIntent_def
      Terminals_RecordExit_def Spaces_Insert_def Spaces_List_def Spaces_Update_def Spaces_Delete_def
      Projects_Insert_def Projects_Update_def Let_def io_step_def core_def split: option.split)

lemma core_report_Remove [frame]: "core (report_Remove i s) = core s"
  by (simp add: report_Remove_def Let_def io_step_def core_def)

lemma core_fields [simp]:
  "core (s\<lparr>term_view := v\<rparr>) = core s" "core (s\<lparr>settling := l\<rparr>) = core s" "core (s\<lparr>space_view := sv\<rparr>) = core s"
  "core (s\<lparr>default_space := d\<rparr>) = core s" "core (s\<lparr>deleting_spaces := l\<rparr>) = core s" "core (s\<lparr>home_dir := d\<rparr>) = core s"
  "core (s\<lparr>id_tape := l\<rparr>) = core s" "core (s\<lparr>term_view := v, settling := l\<rparr>) = core s"
  by (simp_all add: core_def)

lemma snd_eq: "f s = (x, s') \<Longrightarrow> core (snd (f s)) = core s \<Longrightarrow> core s' = core s"
  by simp

lemma core_mint_terminal [frame]: "core (snd (mint_terminal tape launch r s)) = core s"
proof (induction tape arbitrary: r s)
  case (Cons sfx tape)
  let ?s = "s\<lparr>id_tape := tape\<rparr>"
  let ?r = "r\<lparr>term_id := terminal_prefix @ sfx\<rparr>"
  show ?case
  proof (cases "has_key (term_view ?s) (term_id ?r)")
    case True
    then show ?thesis using Cons.IH [of ?r ?s] by (simp add: Let_def)
  next
    case False
    show ?thesis
    proof (cases "case al_compose launch of None \<Rightarrow> Inr (term_command ?r) | Some f \<Rightarrow> f (term_id ?r) (term_directory ?r)")
      case (Inl e)
      then show ?thesis using False by (simp add: Let_def del: core_fields) (simp add: core_def)
    next
      case (Inr cmd)
      let ?r2 = "?r\<lparr>term_command := cmd\<rparr>"
      obtain res s1 where ins: "Terminals_Insert ?r2 ?s = (res, s1)" by (cases "Terminals_Insert ?r2 ?s")
      have c1: "core s1 = core s" using other_repositories_core(1) [of ?r2 ?s] by (simp add: ins)
      have "snd (mint_terminal (sfx # tape) launch r s) =
          (case res of Inl e \<Rightarrow> s1 | Inr b \<Rightarrow> if b then s1 else snd (mint_terminal tape launch ?r2 s1))"
        using False Inr ins by (simp add: Let_def split: sum.split)
      then show ?thesis using Cons.IH [of ?r2 s1] c1 by (auto split: sum.split)
    qed
  qed
qed simp

lemma core_create_commit [frame]: "core (snd (create_commit params launch resolved s)) = core s"
proof -
  obtain sid name directory where rs: "resolved = (sid, name, directory)" by (cases resolved)
  obtain t s1 where n: "now s = (t, s1)" by (cases "now s")
  have c1: "core s1 = core s" using now_core [OF n] .
  let ?r = "\<lparr>term_id = '''', term_space = sid, term_name = name, term_directory = directory,
               term_command = tc_command params, term_app = al_app launch,
               term_created_at = t, term_updated_at = t,
               term_stop_requested_at = None, term_exited_at = None, term_exit_code = None\<rparr>"
  obtain res s2 where m: "mint_terminal (id_tape s1) launch ?r s1 = (res, s2)"
    by (cases "mint_terminal (id_tape s1) launch ?r s1")
  have c2: "core s2 = core s" using core_mint_terminal [of "id_tape s1" launch ?r s1] c1 by (simp add: m)
  show ?thesis
    using c1 c2 by (simp add: create_commit_def rs n Let_def m core_report_Remove split: sum.split)
qed

lemma core_reconcile_evidence [frame]: "core (snd (reconcile_evidence c s)) = core s"
proof -
  obtain o1 s1 where n: "now s = (o1, s1)" by (cases "now s")
  have c1: "core s1 = core s" using now_core [OF n] .
  have rec: "core (snd (Terminals_RecordExit i x y z s1)) = core s" for i x y z
    using other_repositories_core(5) [of i x y z s1] c1 by simp
  have "core s2 = core s" if "Terminals_RecordExit i x y z s1 = (e, s2)" for i x y z e s2
    using rec [of i x y z] that by simp
  then show ?thesis
    by (auto simp: reconcile_evidence_def Let_def n split: report_file.split option.split prod.split)
qed

lemma core_evidence_all [frame]: "core (snd (evidence_all cs s)) = core s"
proof (induction cs arbitrary: s)
  case (Cons c cs)
  obtain c' s1 where e: "reconcile_evidence c s = (c', s1)" by (cases "reconcile_evidence c s")
  have "core s1 = core s" using core_reconcile_evidence [of c s] by (simp add: e)
  then show ?case using Cons.IH [of s1] by (simp add: e Let_def case_prod_beta)
qed simp

lemma core_apply_all [frame]: "core (snd (apply_all cs s)) = core s"
proof (induction cs arbitrary: s)
  case (Cons c cs)
  obtain x s1 where e: "apply_candidate c s = (x, s1)" by (cases "apply_candidate c s")
  have "core s1 = core s" using e by (auto simp: apply_candidate_def split: option.splits if_splits)
  then show ?case using Cons.IH [of s1] by (simp add: e Let_def case_prod_beta)
qed simp

lemma core_Reconcile [frame]: "core (Reconcile inven s) = core s"
  by (simp add: Reconcile_def reconcile_def reconcile_apply_def Let_def case_prod_beta core_apply_all core_evidence_all)

lemma core_create_settle [frame]: "core (snd (create_settle i ok inven s)) = core s"
  by (simp add: create_settle_def Let_def core_Reconcile split: option.split)

lemma core_Update_terminal [frame]: "core (snd (Update_terminal i pn ps s)) = core s"
proof -
  obtain t s1 where n: "now s = (t, s1)" by (cases "now s")
  have c1: "core s1 = core s" using now_core [OF n] .
  have "core s2 = core s" if "Terminals_Update i a b t s1 = (e, s2)" for a b e s2
    using other_repositories_core(3) [of i a b t s1] c1 that by simp
  then show ?thesis
    by (auto simp: Update_terminal_def Let_def n split: option.split sum.split prod.split)
qed

lemma core_Delete_intent [frame]: "core (snd (Delete_intent i s)) = core s"
proof -
  obtain t s1 where n: "now s = (t, s1)" by (cases "now s")
  have c1: "core s1 = core s" using now_core [OF n] .
  obtain res s2 where st: "Terminals_RecordStopIntent i t s1 = (res, s2)" by (cases "Terminals_RecordStopIntent i t s1")
  have c2: "core s2 = core s" using other_repositories_core(4) [of i t s1] c1 by (simp add: st)
  then show ?thesis
    by (cases res; cases "map_of (term_view s2) i") (simp_all add: Delete_intent_def n st)
qed

lemma core_insertSpace [frame]: "core (snd (insertSpace_loop tape r s)) = core s"
proof (induction tape arbitrary: r s)
  case (Cons sfx tape)
  let ?r = "r\<lparr>space_id := space_prefix @ sfx\<rparr>"
  let ?s = "s\<lparr>id_tape := tape\<rparr>"
  obtain res s1 where ins: "Spaces_Insert ?r ?s = (res, s1)" by (cases "Spaces_Insert ?r ?s")
  have c1: "core s1 = core s" using other_repositories_core(6) [of ?r ?s] by (simp add: ins)
  show ?case using Cons.IH [of ?r s1] c1 by (simp add: ins Let_def split: sum.split)
qed simp

lemma core_CreateSpace [frame]: "core (snd (CreateSpace canon name d s)) = core s"
proof -
  obtain t s1 where n: "now s = (t, s1)" by (cases "now s")
  have c1: "core s1 = core s" using now_core [OF n] .
  have "core s2 = core s" if "insertSpace r s1 = (e, s2)" for r e s2
    using core_insertSpace [of "id_tape s1" r s1] c1 that by (simp add: insertSpace_def)
  then show ?thesis
    by (auto simp: CreateSpace_def Let_def n split: option.split sum.split prod.split)
qed

lemma core_UpdateSpace [frame]: "core (snd (UpdateSpace canon i pn pd s)) = core s"
proof -
  obtain t s1 where n: "now s = (t, s1)" by (cases "now s")
  have c1: "core s1 = core s" using now_core [OF n] .
  have "core s2 = core s" if "Spaces_Update i a b t s1 = (e, s2)" for a b e s2
    using other_repositories_core(8) [of i a b t s1] c1 that by simp
  then show ?thesis
    by (auto simp: UpdateSpace_def Let_def n split: option.split sum.split prod.split)
qed

lemma core_DeleteSpace_parts [frame]:
  "core (snd (DeleteSpace_mark i s)) = core s" "core (snd (DeleteSpace_finish i s)) = core s"
proof -
  show "core (snd (DeleteSpace_mark i s)) = core s"
    by (auto simp: DeleteSpace_mark_def split: option.split)
  obtain res s1 where d: "Spaces_Delete i s = (res, s1)" by (cases "Spaces_Delete i s")
  have c1: "core s1 = core s" using other_repositories_core(9) [of i s] by (simp add: d)
  have "core (s1\<lparr>deleting_spaces := a, space_view := b\<rparr>) = core s" for a b
    using c1 by (simp add: core_def)
  then show "core (snd (DeleteSpace_finish i s)) = core s"
    using c1 by (cases res) (simp_all add: DeleteSpace_finish_def d Let_def)
qed

lemma core_unclaimed [frame]: "core (snd (unclaimed stat c e s)) = core s"
proof -
  have "core s1 = core s" if "Projects_List s = (e, s1)" for e s1
    using core_Projects_List [of s] that by simp
  then show ?thesis by (auto simp: unclaimed_def split: option.split sum.split prod.split)
qed

lemma core_insert_project [frame]: "core (snd (insert_project tape r s)) = core s"
proof (induction tape arbitrary: r s)
  case (Cons sfx tape)
  let ?r = "r\<lparr>proj_id := project_prefix @ sfx\<rparr>"
  let ?s = "s\<lparr>id_tape := tape\<rparr>"
  obtain res s1 where ins: "Projects_Insert ?r ?s = (res, s1)" by (cases "Projects_Insert ?r ?s")
  have c1: "core s1 = core s" using other_repositories_core(10) [of ?r ?s] by (simp add: ins)
  show ?case using Cons.IH [of ?r s1] c1 by (simp add: ins Let_def split: sum.split)
qed simp

lemma core_Create_project [frame]: "core (snd (Create_project canon stat name d s)) = core s"
proof (cases "canon d")
  case None
  then show ?thesis by (simp add: Create_project_def)
next
  case (Some c)
  obtain t s1 where n: "now s = (t, s1)" by (cases "now s")
  have c1: "core s1 = core s" using now_core [OF n] .
  obtain e s2 where u: "unclaimed stat c [] s1 = (e, s2)" by (cases "unclaimed stat c [] s1")
  have c2: "core s2 = core s" using core_unclaimed [of stat c "[]" s1] c1 by (simp add: u)
  let ?r = "\<lparr>proj_id = [], proj_name = (if TrimSpace name = [] then path_base c else TrimSpace name),
             proj_directory = c, proj_created_at = t, proj_updated_at = t\<rparr>"
  obtain x s3 where ip: "insert_project (id_tape s2) ?r s2 = (x, s3)" by (cases "insert_project (id_tape s2) ?r s2")
  have c3: "core s3 = core s" using core_insert_project [of "id_tape s2" ?r s2] c2 by (simp add: ip)
  have run: "Create_project canon stat name d s =
      (case e of Some e \<Rightarrow> (Inl e, s2)
       | None \<Rightarrow> (case x of Inl e \<Rightarrow> (Inl e, s3)
                  | Inr r \<Rightarrow> (Inr r, Publish EventProjectCreated project_resource (proj_id r) s3)))"
    by (simp only: Create_project_def Let_def n prod.case Some option.case u ip split: option.split)
  show ?thesis unfolding run using c2 c3 by (simp split: option.split sum.split)
qed

lemma core_patched_directory [frame]: "core (snd (patched_directory canon stat i p cur s)) = core s"
  using core_unclaimed [of stat _ i s]
  by (auto simp: patched_directory_def split: patch.split option.split prod.split) (metis snd_conv)+

lemma core_Update_project [frame]: "core (snd (Update_project canon stat i pn pd s)) = core s"
proof -
  obtain g s1 where g: "Projects_Get i s = (g, s1)" by (cases "Projects_Get i s")
  have c1: "core s1 = core s" using core_Projects_Get [of i s] by (simp add: g)
  consider (stop) "(\<exists>e. g = Inl e) \<or> g = Inr None" | (go) cur where "g = Inr (Some cur)"
    by (cases g) auto
  then show ?thesis
  proof cases
    case stop
    then show ?thesis using c1 by (auto simp: Update_project_def g)
  next
    case (go cur)
    obtain d s2 where d: "patched_directory canon stat i pd (proj_directory cur) s1 = (d, s2)"
      by (cases "patched_directory canon stat i pd (proj_directory cur) s1")
    have c2: "core s2 = core s" using core_patched_directory [of canon stat i pd "proj_directory cur" s1] c1 by (simp add: d)
    obtain t s3 where n: "now s2 = (t, s3)" by (cases "now s2")
    have c3: "core s3 = core s" using now_core [OF n] c2 by simp
    have c4: "core (snd (Projects_Update i a b t s3)) = core s" for a b
      using other_repositories_core(11) [of i a b t s3] c3 by simp
    show ?thesis
    proof (cases "patched_project_name pn (proj_name cur)")
      case (Inl e)
      then show ?thesis using c1 by (simp add: Update_project_def g go)
    next
      case (Inr name)
      show ?thesis
      proof (cases d)
        case (Inl e)
        then show ?thesis using c2 Inr by (simp add: Update_project_def g go d)
      next
        case dir: (Inr dir)
        obtain u s4 where u: "Projects_Update i name dir t s3 = (u, s4)" by (cases "Projects_Update i name dir t s3")
        have "core s4 = core s" using c4 [of name dir] by (simp add: u)
        then show ?thesis
          using c2 Inr dir by (simp add: Update_project_def g go d n u split: sum.split option.split)
      qed
    qed
  qed
qed

text \<open>The deletion of a terminal's row.\<close>

lemma clear_terminal_agrees: "row_agrees row r \<Longrightarrow> row_agrees (clear_terminal i row) r"
  by (auto simp: row_agrees_def clear_terminal_def)

lemma cleared_rows_inv:
  assumes inv: "threads_inv s"
  shows "threads_inv (s\<lparr>thread_rows := map (\<lambda>(k, r). (k, clear_terminal i r)) (thread_rows s)\<rparr>)" (is "threads_inv ?s")
proof -
  have v: "map_of (map (\<lambda>(j, r). (j, clear_terminal i r)) xs) j = map_option (clear_terminal i) (map_of xs j)"
    for xs :: "(string \<times> thread_record) list" and j by (rule map_of_map_snd)
  have "rows_inv ?s"
  proof -
    have "row_agrees row r" if a: "map_of (view ?s) j = Some r" and b: "map_of (thread_rows ?s) j = Some row" for j r row
    proof -
      obtain row0 where row0: "map_of (thread_rows s) j = Some row0" "row = clear_terminal i row0" using b by (auto simp: v)
      have "row_agrees row0 r" using inv_rows [OF inv, of j r] a row0(1) by auto
      then show ?thesis unfolding row0(2) by (rule clear_terminal_agrees)
    qed
    moreover have "distinct (map fst (thread_rows ?s))" "distinct (map fst (identity_rows ?s))"
      using inv by (simp_all add: threads_inv_def rows_inv_def map_fst_map_snd del: map_map)
    moreover have "map_of (thread_rows ?s) j = None \<longleftrightarrow> map_of (view ?s) j = None" for j
      using inv_rows_dom [OF inv, of j] by (simp add: v)
    moreover have "map_of (identity_rows ?s) k = map_of (identities ?s) k" for k
      using inv_identity_rows [OF inv, of k] by simp
    ultimately show ?thesis unfolding rows_inv_def by blast
  qed
  moreover have "ids_inv ?s = ids_inv s" "holds_inv ?s = holds_inv s" "records_inv ?s = records_inv s"
    by (simp_all add: ids_inv_def holds_inv_def records_inv_def)
  ultimately show ?thesis using inv by (simp only: threads_inv_def)
qed

lemma removeRecord_inv [inv_intro]:
  assumes inv: "threads_inv s"
  shows "threads_inv (snd (removeRecord i s))"
proof -
  obtain res s1 where del: "Terminals_Delete i s = (res, s1)" by (cases "Terminals_Delete i s")
  have "core s1 = core s \<or> core s1 = core (s\<lparr>thread_rows := map (\<lambda>(k, r). (k, clear_terminal i r)) (thread_rows s)\<rparr>)"
    using del by (auto simp: Terminals_Delete_def Let_def io_step_def core_def split: if_splits)
  then have inv1: "threads_inv s1" using inv cleared_rows_inv [OF inv] threads_inv_core by blast
  have "core (snd (removeRecord i s)) = core s1"
    by (simp add: removeRecord_def del core_report_Remove split: sum.split)
  then show ?thesis using inv1 threads_inv_core by blast
qed

lemma create_discard_inv [inv_intro]:
  assumes inv: "threads_inv s"
  shows "threads_inv (snd (create_discard i s))"
proof -
  obtain res s1 where rm: "removeRecord i s = (res, s1)" by (cases "removeRecord i s")
  have "threads_inv s1" using removeRecord_inv [OF inv, of i] by (simp add: rm)
  moreover have "core (snd (create_discard i s)) = core s1"
    by (simp add: create_discard_def rm split: sum.split)
  ultimately show ?thesis using threads_inv_core by blast
qed

subsection \<open>Runs of the service\<close>

text \<open>
  One step is one critical section of one operation, of the Threads service or of a domain that shares the database with
  it, under any behaviour of the clock, the identifiers, the filesystem and the driver. The three sections of \<^verbatim>\<open>Open\<close>
  are separate steps, so any other operation may run while a launch is under way. A session observation names the
  terminal its launch was registered for, which is never the empty string.
\<close>

inductive thread_step :: "'a thread_svc_scheme \<Rightarrow> 'a thread_svc_scheme \<Rightarrow> bool" where
  observe_session: "so_terminal obs \<noteq> '''' \<Longrightarrow> thread_step s (snd (ObserveSession canon obs s))"
| observe_status: "thread_step s (snd (ObserveStatus obs s))"
| observe_external: "thread_step s (snd (ObserveExternal canon eobs s))"
| deactivate: "thread_step s (Deactivate tm s)"
| terminal_removed: "thread_step s (TerminalRemoved tm s)"
| sweep: "thread_step s (Sweep s)"
| release_integration: "thread_step s (ReleaseIntegration integration s)"
| archive_external: "thread_step s (snd (ArchiveExternalThread integration provider s))"
| delete_project: "thread_step s (snd (DeleteProject_everywhere p s))"
| backfill: "thread_step s (snd (Backfill s))"
| update: "thread_step s (snd (Update_thread linkers i params s))"
| delete: "thread_step s (snd (Delete_thread i s))"
| discard_external: "thread_step s (snd (DiscardExternal integration provider s))"
| submit: "thread_step s (snd (SubmitTurn i s))"
| respond: "thread_step s (snd (ObserveTurnResponse i provider resp s))"
| begin_open: "thread_step s (snd (open_begin i s))"
| link_open: "thread_step s (snd (link i tm s))"
| finish_open: "thread_step s (open_finish i s)"
| create_terminal: "thread_step s (snd (create_commit tparams launch resolved s))"
| discard_terminal: "thread_step s (snd (create_discard tm s))"
| settle_terminal: "thread_step s (snd (create_settle tm ok inven s))"
| reconcile_terminals: "thread_step s (Reconcile inven s)"
| update_terminal: "thread_step s (snd (Update_terminal tm pn ps s))"
| stop_terminal: "thread_step s (snd (Delete_intent tm s))"
| remove_terminal: "thread_step s (snd (removeRecord tm s))"
| create_space: "thread_step s (snd (CreateSpace canon name d s))"
| update_space: "thread_step s (snd (UpdateSpace canon i pn pd s))"
| mark_space: "thread_step s (snd (DeleteSpace_mark i s))"
| finish_space: "thread_step s (snd (DeleteSpace_finish i s))"
| create_project: "thread_step s (snd (Create_project canon (stat :: string \<Rightarrow> nat option) name d s))"
| update_project: "thread_step s (snd (Update_project canon (stat :: string \<Rightarrow> nat option) i pn pd s))"
| read_clock: "thread_step s (snd (now s))"

inductive_cases thread_stepE: "thread_step s s'"

lemmas domain_frames =
  core_now core_create_commit core_create_settle core_Reconcile core_Update_terminal core_Delete_intent
  core_CreateSpace core_UpdateSpace core_DeleteSpace_parts core_Create_project core_Update_project

lemma core_step: "core s' = core s \<Longrightarrow> threads_inv s \<Longrightarrow> threads_inv s'"
  using threads_inv_core by blast

lemma thread_step_inv:
  assumes "thread_step s s'" and "threads_inv s"
  shows "threads_inv s'"
  using assms
proof (cases rule: thread_step.cases)
  case (observe_session obs canon)
  then show ?thesis using ObserveSession_outcome(1) [OF assms(2), of obs canon] by (simp add: prod_eq_iff)
next
  case (observe_status obs)
  then show ?thesis using ObserveStatus_outcome [OF assms(2)] by simp
next
  case (observe_external canon eobs)
  then show ?thesis using ObserveExternal_outcome(1) [OF assms(2), of canon eobs] by (simp add: prod_eq_iff)
next
  case (submit i)
  then show ?thesis using SubmitTurn_outcome(1) [OF assms(2), of i] by (simp add: prod_eq_iff)
next
  case (begin_open i)
  then show ?thesis using open_begin_outcome(1) [OF assms(2), of i] by (simp add: prod_eq_iff)
next
  case (link_open i tm)
  then show ?thesis using link_outcome(1) [OF assms(2), of i tm] by (simp add: prod_eq_iff)
qed (use assms(2) in \<open>simp_all add: inv_intro Deactivate_outcome domain_frames [THEN core_step]\<close>)

text \<open>A fresh process over an empty database; \<^const>\<open>Load_threads\<close> covers the start over an existing one.\<close>

definition fresh_start :: "'a thread_svc_scheme \<Rightarrow> bool" where
  "fresh_start s \<longleftrightarrow>
     view s = [] \<and> identities s = [] \<and> keys s = [] \<and> active s = [] \<and> held s = [] \<and> in_flight s = []
     \<and> thread_rows s = [] \<and> identity_rows s = []"

lemma fresh_start_inv: "fresh_start s \<Longrightarrow> threads_inv s"
  by (simp add: fresh_start_def inv_parts)

lemma reachable_inv:
  assumes "thread_step\<^sup>*\<^sup>* s0 s" and "threads_inv s0"
  shows "threads_inv s"
  using assms by (induction rule: rtranclp_induct) (auto intro: thread_step_inv)

end
