(* ===== verification/TurnProps.thy ===== *)
theory TurnProps
  imports ThreadsSafety
begin

text \<open>
  What the status and turn rules of \<^verbatim>\<open>turns.go\<close> promise, stated on a record: the ranking against its reference
  definition, the finality of an ended turn, the fate of a submission, and the inactive coercion.
\<close>

text \<open>A record for the examples: an idle thread whose last turn completed.\<close>

definition sample_turn :: turn_record where
  "sample_turn = \<lparr>turn_id = ''turn-a'', turn_provider_id = ''pt-1'', turn_state = TurnCompleted, turn_started_at = 5,
     turn_completed_at = Some 7, turn_error = '''', turn_response = ''done''\<rparr>"

definition sample_record :: thread_record where
  "sample_record =
     \<lparr>thread_id = ''thrd-aaaaa'', integration_id = ''claude'', app_id = ''claude/tui'', agent_id = '''',
      initial_directory = ''/w'', project_id = '''', terminal_id = None, title = '''', title_user_set = False,
      model = '''', effort = '''', cwd = '''', permission_mode = '''', status = ThreadIdle, status_detail = '''',
      last_evidence_at = Some 7, archived = False, archived_at = None, created_at = 5, updated_at = 7,
      turn = Some sample_turn, pending = None\<rparr>"

subsection \<open>The ranking\<close>

text \<open>The documented order, read off the evidence as a set.\<close>

definition ranking :: "thread_status set \<Rightarrow> thread_status" where
  "ranking S =
     (if S = {} then ThreadUnknown
      else if ThreadError \<in> S then ThreadError
      else if ThreadWaitingForInput \<in> S then ThreadWaitingForInput
      else if ThreadWaitingForPermission \<in> S then ThreadWaitingForPermission
      else if ThreadWorking \<in> S then ThreadWorking
      else if S \<subseteq> {ThreadIdle} then ThreadIdle
      else ThreadUnknown)"

lemma rank_step_ranking:
  "S \<noteq> {} \<Longrightarrow> rank_step st (ranking S) = ranking (insert st S)"
  by (cases st) (auto simp: ranking_def rank_step_def rank_read_def Let_def)

lemma fold_rank_step: "xs \<noteq> [] \<Longrightarrow> fold rank_step xs ThreadIdle = ranking (set xs)"
proof (induction xs rule: rev_nonempty_induct)
  case (single x)
  then show ?case by (cases x) (auto simp: ranking_def rank_step_def rank_read_def Let_def)
next
  case (snoc x xs)
  then show ?case by (simp add: rank_step_ranking)
qed

text \<open>
  The ranking of coexisting evidence depends only on which statuses occur, not on their order or number: error
  outranks everything, then a question, an approval, active work and ignorance; idle needs every source at rest, an
  unrecognized status counts as unknown, and no evidence at all is unknown.
\<close>

theorem Rank_by_priority: "Rank evidence = ranking (set evidence)"
  by (cases "evidence = []") (simp_all add: Rank_def fold_rank_step, simp add: ranking_def)

subsection \<open>Stale evidence\<close>

lemma settle_status [simp]: "status (fst (settleTurn r tobs at)) = status r"
  by (cases "turn r"; cases "pending (fst (settle_running r tobs at))")
    (auto simp: settleTurn_def settle_pending_def case_prod_beta Let_def)

lemma applyTurn_status [simp]: "status (fst (applyTurn fresh r obs at)) = status r"
  by (auto simp: applyTurn_def apply_latest_def replace_turn_def Let_def split: option.splits)

lemma apply_turn_report_status [simp]: "status (fst (apply_turn_report fresh r tobs at act)) = status r"
  by (auto simp: apply_turn_report_def split: option.splits)

lemma apply_evidence_status:
  "status (fst (apply_evidence fresh r st detail tobs at act)) = status (fst (apply_status_claim r st detail act))"
  by (simp add: apply_evidence_def Let_def case_prod_beta)

lemma updateTurn_state [simp]: "turn_state (fst (updateTurn t obs st at)) = st"
  by (simp add: updateTurn_def Let_def)

lemma turn_running_applyTurn:
  "to_state obs \<noteq> TurnRunning \<Longrightarrow> turn_running (fst (applyTurn fresh r obs at)) \<Longrightarrow> turn_running r"
  by (auto simp: applyTurn_def apply_latest_def replace_turn_def apply_same_def adoptResponse_def turn_running_def Let_def
      split: option.splits if_splits)

lemma turn_running_settle: "turn_running (fst (settleTurn r tobs at)) \<Longrightarrow> turn_running r"
  by (cases "turn r"; cases "pending r")
    (auto simp: settleTurn_def settle_running_def settle_pending_def turn_running_def Let_def case_prod_beta split: if_splits)

text \<open>
  C4. Delayed evidence revives nothing: applied to a thread that nothing holds, an observation never makes the status
  live and never leaves a turn running that was not already recorded so.
\<close>

theorem stale_evidence_revives_nothing:
  assumes "apply_evidence fresh r st detail tobs at False = (r', changed)"
  shows "(isLive (status r') \<longrightarrow> isLive (status r) \<and> status r' = status r) \<and> (turn_running r' \<longrightarrow> turn_running r)"
proof -
  have r': "r' = fst (apply_evidence fresh r st detail tobs at False)" by (simp add: assms)
  have "isLive (status r') \<longrightarrow> isLive (status r) \<and> status r' = status r"
    unfolding r' apply_evidence_status by (auto simp: apply_status_claim_def Let_def)
  moreover have "turn_running (fst (apply_turn_report fresh x tobs at False)) \<longrightarrow> turn_running x" for x
    by (auto simp: apply_turn_report_def dest: turn_running_applyTurn split: option.splits if_splits)
  moreover have "turn_running (fst (apply_status_claim r st detail False)) = turn_running r"
    by (simp add: apply_status_claim_def turn_running_def Let_def)
  ultimately show ?thesis
    unfolding r' by (auto simp: apply_evidence_def Let_def case_prod_beta dest!: turn_running_settle)
qed

theorem stale_evidence_revives_nothing_witness:
  "\<not> isLive (status (fst (apply_evidence ''turn-n'' sample_record ThreadWorking '''' None 9 False)))"
proof -
  obtain r' c where e: "apply_evidence ''turn-n'' sample_record ThreadWorking '''' None 9 False = (r', c)"
    by (cases "apply_evidence ''turn-n'' sample_record ThreadWorking '''' None 9 False")
  from stale_evidence_revives_nothing [OF e] have "isLive (status r') \<longrightarrow> isLive (status sample_record)" by blast
  then show ?thesis unfolding e by (simp add: sample_record_def)
qed

subsection \<open>What becomes of a turn\<close>

lemma settleTurn_ended:
  assumes "turn r = Some t" and "turn_state t \<noteq> TurnRunning" and "pending r = None"
  shows "settleTurn r tobs at = (r, False)"
  using assms by (simp add: settleTurn_def settle_running_def settle_pending_def)

lemma claim_keeps [simp]:
  "turn (fst (apply_status_claim r st d act)) = turn r" "pending (fst (apply_status_claim r st d act)) = pending r"
  by (simp_all add: apply_status_claim_def Let_def)

lemma updateTurn_ids [simp]:
  "turn_id (fst (updateTurn t obs st at)) = turn_id t"
  "turn_provider_id (fst (updateTurn t obs st at)) = turn_provider_id t"
  by (simp_all add: updateTurn_def Let_def)

lemma replace_turn_simps [simp]:
  "turn (replace_turn i r obs st at) = Some (fst (updateTurn (new_turn i (to_provider_id obs)) obs st at))"
  "pending (replace_turn i r obs st at) = pending r" "status (replace_turn i r obs st at) = status r"
  by (simp_all add: replace_turn_def)

lemma new_turn_ids [simp]: "turn_id (new_turn i p) = i" "turn_provider_id (new_turn i p) = p"
  by (simp_all add: new_turn_def)

lemma adoptResponse_only: "fst (adoptResponse t st resp) = t \<or> fst (adoptResponse t st resp) = t\<lparr>turn_response := resp\<rparr>"
  by (simp add: adoptResponse_def)

text \<open>What \<^verbatim>\<open>settleTurn\<close> does to a turn, and where a report can take the latest turn.\<close>

lemma settleTurn_turn:
  assumes "turn r = Some t" and "turn_state t \<noteq> TurnRunning"
  shows "turn (fst (settleTurn r tobs at)) = Some t
       \<or> (\<exists>p. pending r = Some p \<and> turn (fst (settleTurn r tobs at)) =
            Some \<lparr>turn_id = pending_turn_id p, turn_provider_id = '''', turn_state = TurnFailed,
                  turn_started_at = pending_turn_submitted_at p, turn_completed_at = Some at,
                  turn_error = status_detail r, turn_response = ''''\<rparr>)"
  using assms by (cases "pending r") (auto simp: settleTurn_def settle_running_def settle_pending_def)

lemma settleTurn_turn_id:
  "turn r = Some t \<Longrightarrow> pending r = None \<Longrightarrow> \<exists>t'. turn (fst (settleTurn r tobs at)) = Some t' \<and> turn_id t' = turn_id t"
  by (cases "turn_state t = TurnRunning")
    (auto simp: settleTurn_def settle_running_def settle_pending_def case_prod_beta Let_def)

text \<open>Where one observation can take the latest turn: the cases of \<^verbatim>\<open>applyTurn\<close>.\<close>

lemma applyTurn_cases:
  "(\<exists>p. pending r = Some p \<and> to_provider_id obs \<noteq> '''' \<and> to_provider_id obs \<noteq> pending_turn_prior p
       \<and> turn (fst (applyTurn fresh r obs at)) =
           turn (replace_turn (pending_turn_id p) r obs (if to_state obs = TurnNone then TurnUnknown else to_state obs) at)
       \<and> pending (fst (applyTurn fresh r obs at)) = None)
   \<or> (\<exists>t. turn r = Some t \<and> same_turn obs (if to_state obs = TurnNone then TurnUnknown else to_state obs) t
       \<and> turn (fst (applyTurn fresh r obs at)) =
           Some (fst (apply_same t obs (if to_state obs = TurnNone then TurnUnknown else to_state obs) at))
       \<and> pending (fst (applyTurn fresh r obs at)) = pending r)
   \<or> (turn (fst (applyTurn fresh r obs at)) =
           turn (replace_turn fresh r obs (if to_state obs = TurnNone then TurnUnknown else to_state obs) at)
       \<and> pending (fst (applyTurn fresh r obs at)) = pending r)"
  by (auto simp: applyTurn_def apply_latest_def Let_def split: option.splits)

lemma apply_same_id [simp]: "turn_id (fst (apply_same t obs st at)) = turn_id t"
  using adoptResponse_only [of t st "to_response obs"] by (auto simp: apply_same_def)

lemma apply_same_ended:
  "Ended (turn_state t) \<Longrightarrow> \<exists>resp. fst (apply_same t obs st at) = t\<lparr>turn_response := resp\<rparr>"
  by (auto simp: apply_same_def adoptResponse_def intro: exI [of _ "turn_response t"])

lemma settleTurn_id:
  "turn r = Some t \<Longrightarrow> turn (fst (settleTurn r tobs at)) = Some t' \<Longrightarrow>
     turn_id t' = turn_id t \<or> (\<exists>p. pending r = Some p \<and> turn_id t' = pending_turn_id p)"
  by (cases "pending r")
    (auto simp: settleTurn_def settle_running_def settle_pending_def case_prod_beta Let_def split: if_splits)

text \<open>
  An ended turn is final, whoever ended it: whatever is observed afterwards, as long as the record still shows that
  turn its state, times, error and provider id are what they were; only its response can still arrive.
\<close>

theorem ended_turn_is_final:
  assumes "apply_evidence fresh r st detail tobs at act = (r', changed)"
    and "turn r = Some t" and "Ended (turn_state t)"
    and "fresh \<noteq> turn_id t" and "\<forall>p. pending r = Some p \<longrightarrow> pending_turn_id p \<noteq> turn_id t"
    and "turn r' = Some t'" and "turn_id t' = turn_id t"
  shows "\<exists>resp. t' = t\<lparr>turn_response := resp\<rparr>"
proof -
  define r1 where "r1 = fst (apply_status_claim r st detail act)"
  define r2 where "r2 = fst (apply_turn_report fresh r1 tobs at act)"
  have r': "r' = fst (settleTurn r2 tobs at)"
    using assms(1) by (auto simp: apply_evidence_def Let_def case_prod_beta r1_def r2_def)
  have r1: "turn r1 = Some t" "pending r1 = pending r" by (simp_all add: r1_def assms(2))
  have "\<exists>t''. turn r2 = Some t'' \<and> (turn_id t'' = turn_id t \<longrightarrow> (\<exists>resp. t'' = t\<lparr>turn_response := resp\<rparr>))
      \<and> (\<forall>p. pending r2 = Some p \<longrightarrow> pending r = Some p)"
  proof (cases "\<exists>obs. tobs = Some obs \<and> \<not> (to_state obs = TurnRunning \<and> \<not> act)")
    case True
    then obtain obs where r2: "r2 = fst (applyTurn fresh r1 obs at)"
      by (auto simp: r2_def apply_turn_report_def)
    show ?thesis
      using applyTurn_cases [of r1 obs fresh at] assms(4,5) r1 apply_same_ended [OF assms(3)]
      unfolding r2 [symmetric] by (elim disjE exE conjE) simp_all
  next
    case False
    then have "r2 = r1" by (auto simp: r2_def apply_turn_report_def split: option.splits)
    then show ?thesis using r1 by (auto intro: exI [of _ "turn_response t"])
  qed
  then obtain t'' where t'': "turn r2 = Some t''" and same: "turn_id t'' = turn_id t \<Longrightarrow> \<exists>resp. t'' = t\<lparr>turn_response := resp\<rparr>"
    and pend: "\<And>p. pending r2 = Some p \<Longrightarrow> pending r = Some p" by blast
  have "turn_id t'' = turn_id t"
    using settleTurn_id [OF t'', of tobs at t'] assms(5-7) pend by (auto simp: r')
  then obtain resp where resp: "t'' = t\<lparr>turn_response := resp\<rparr>" using same by blast
  then have "turn_state t'' \<noteq> TurnRunning" using assms(3) by auto
  from settleTurn_turn [OF t'' this, of tobs at] have "t' = t''"
    using assms(5-7) pend by (auto simp: r')
  then show ?thesis using resp by blast
qed

definition sample_report :: turn_observation where
  "sample_report = \<lparr>to_provider_id = ''pt-1'', to_state = TurnRunning, to_started_at = 0, to_completed_at = 0,
     to_error = [], to_response = []\<rparr>"

theorem ended_turn_is_final_witness:
  "turn_state (the (turn (fst (apply_evidence ''turn-n'' sample_record ThreadWorking [] (Some sample_report) 9 True))))
     = TurnCompleted"
proof -
  let ?ev = "apply_evidence ''turn-n'' sample_record ThreadWorking [] (Some sample_report) 9 True"
  have new: "turn (fst ?ev) = Some sample_turn" by code_simp
  have old: "turn sample_record = Some sample_turn" and none: "pending sample_record = None"
    by (simp_all add: sample_record_def)
  from ended_turn_is_final [OF surjective_pairing old _ _ _ new] none
  obtain resp where "sample_turn = sample_turn\<lparr>turn_response := resp\<rparr>" by (auto simp: sample_turn_def)
  then show ?thesis unfolding new by (simp add: sample_turn_def)
qed

text \<open>
  C5. A submission is never lost: after any observation it is still pending, or the thread's latest turn carries its id,
  bound to the new provider turn the report names or failed with the session's fault.
\<close>

theorem submission_is_never_lost:
  assumes "apply_evidence fresh r st detail tobs at act = (r', changed)" and "pending r = Some p"
  shows "pending r' = Some p
       \<or> (pending r' = None \<and> (\<exists>t. turn r' = Some t \<and> turn_id t = pending_turn_id p
            \<and> (turn_provider_id t = '''' \<and> turn_state t = TurnFailed \<and> status r' = ThreadError
                  \<and> turn_error t = status_detail r'
               \<or> (\<exists>obs. tobs = Some obs \<and> turn_provider_id t = to_provider_id obs
                      \<and> to_provider_id obs \<noteq> '''' \<and> to_provider_id obs \<noteq> pending_turn_prior p))))"
proof -
  define r1 where "r1 = fst (apply_status_claim r st detail act)"
  define r2 where "r2 = fst (apply_turn_report fresh r1 tobs at act)"
  have r': "r' = fst (settleTurn r2 tobs at)"
    using assms(1) by (auto simp: apply_evidence_def Let_def case_prod_beta r1_def r2_def)
  have r1: "pending r1 = Some p" by (simp add: r1_def assms(2))
  have bound: "pending r2 = Some p \<or> (pending r2 = None \<and> (\<exists>t obs. turn r2 = Some t \<and> tobs = Some obs
      \<and> turn_id t = pending_turn_id p \<and> turn_provider_id t = to_provider_id obs
      \<and> to_provider_id obs \<noteq> '''' \<and> to_provider_id obs \<noteq> pending_turn_prior p))"
  proof (cases "\<exists>obs. tobs = Some obs \<and> \<not> (to_state obs = TurnRunning \<and> \<not> act)")
    case True
    then obtain obs where obs: "tobs = Some obs" and r2: "r2 = fst (applyTurn fresh r1 obs at)"
      by (auto simp: r2_def apply_turn_report_def)
    show ?thesis
      using applyTurn_cases [of r1 obs fresh at] r1 obs unfolding r2 [symmetric] by (elim disjE exE conjE) simp_all
  next
    case False
    then have "r2 = r1" by (auto simp: r2_def apply_turn_report_def split: option.splits)
    then show ?thesis using r1 by simp
  qed
  show ?thesis
  proof (cases "pending r2 = None")
    case True
    then obtain t obs where t: "turn r2 = Some t" and b: "tobs = Some obs" "turn_id t = pending_turn_id p"
        "turn_provider_id t = to_provider_id obs" "to_provider_id obs \<noteq> ''''" "to_provider_id obs \<noteq> pending_turn_prior p"
      using bound by auto
    have "pending r' = None \<and> (\<exists>t'. turn r' = Some t' \<and> turn_id t' = turn_id t \<and> turn_provider_id t' = turn_provider_id t)"
      using t True by (auto simp: r' settleTurn_def settle_running_def settle_pending_def case_prod_beta Let_def)
    then show ?thesis using b by auto
  next
    case False
    then have p2: "pending r2 = Some p" using bound by (elim disjE) simp_all
    have "pending (fst (settle_running r2 tobs at)) = Some p"
      using p2 by (simp add: settle_running_def split: option.splits)
    then show ?thesis
      by (auto simp: r' settleTurn_def settle_pending_def case_prod_beta Let_def)
  qed
qed

definition sample_pending :: pending_turn_record where
  "sample_pending = \<lparr>pending_turn_id = ''turn-p'', pending_turn_prior = ''pt-0'', pending_turn_submitted_at = 8\<rparr>"

definition sample_submitted :: thread_record where
  "sample_submitted = sample_record\<lparr>pending := Some sample_pending\<rparr>"

theorem submission_is_never_lost_witness:
  "\<exists>t. turn (fst (apply_evidence ''turn-n'' sample_submitted ThreadWorking [] (Some sample_report) 9 True)) = Some t
     \<and> turn_id t = ''turn-p''"
proof -
  let ?ev = "apply_evidence ''turn-n'' sample_submitted ThreadWorking [] (Some sample_report) 9 True"
  have "pending (fst ?ev) = None" by code_simp
  moreover have "pending sample_submitted = Some sample_pending" by (simp add: sample_submitted_def)
  ultimately obtain t where "turn (fst ?ev) = Some t" "turn_id t = pending_turn_id sample_pending"
    using submission_is_never_lost [of _ sample_submitted, OF surjective_pairing] by (metis option.distinct(1))
  then show ?thesis by (simp add: sample_pending_def)
qed

text \<open>
  The id of a turn survives a reconnect: a provider turn reported again is the turn the thread already shows, under
  the id it was minted with, unless a submission was waiting.
\<close>

theorem reconnect_keeps_turn_id:
  assumes "apply_evidence fresh r st detail (Some obs) at act = (r', changed)"
    and "turn r = Some t" and "pending r = None"
    and "to_provider_id obs = turn_provider_id t" and "turn_provider_id t \<noteq> ''''"
  shows "\<exists>t'. turn r' = Some t' \<and> turn_id t' = turn_id t \<and> turn_provider_id t' = turn_provider_id t"
proof -
  define r1 where "r1 = fst (apply_status_claim r st detail act)"
  define r2 where "r2 = fst (apply_turn_report fresh r1 (Some obs) at act)"
  have r': "r' = fst (settleTurn r2 (Some obs) at)"
    using assms(1) by (auto simp: apply_evidence_def Let_def case_prod_beta r1_def r2_def)
  have r1: "turn r1 = Some t" "pending r1 = None" by (simp_all add: r1_def assms(2,3))
  have same: "same_turn obs x t" for x using assms(4,5) by (simp add: same_turn_def)
  have "\<exists>t'. turn r2 = Some t' \<and> turn_id t' = turn_id t \<and> turn_provider_id t' = turn_provider_id t \<and> pending r2 = None"
    using r1 same adoptResponse_only
    by (auto simp: r2_def apply_turn_report_def applyTurn_def apply_latest_def apply_same_def adoptResponse_def Let_def)
  then show ?thesis
    by (auto simp: r' settleTurn_def settle_running_def settle_pending_def case_prod_beta Let_def)
qed

theorem reconnect_keeps_turn_id_witness:
  "\<exists>t'. turn (fst (apply_evidence ''turn-n'' sample_record ThreadWorking [] (Some sample_report) 9 True)) = Some t'
      \<and> turn_id t' = ''turn-a''"
  using reconnect_keeps_turn_id [OF surjective_pairing, of sample_record sample_turn sample_report]
  by (fastforce simp: sample_record_def sample_turn_def sample_report_def)

subsection \<open>The inactive coercion\<close>

text \<open>
  The inactive coercion leaves nothing live, claims nothing else, keeps a pending submission, and reports a change
  exactly when it made one; applied again it changes nothing.
\<close>

theorem coercion_is_exact:
  "\<not> isLive (status (fst (coerceRecord r))) \<and> \<not> turn_running (fst (coerceRecord r))
   \<and> (snd (coerceRecord r) \<longleftrightarrow> isLive (status r) \<or> turn_running r)
   \<and> (snd (coerceRecord r) \<or> fst (coerceRecord r) = r)
   \<and> pending (fst (coerceRecord r)) = pending r \<and> status_detail (fst (coerceRecord r)) = status_detail r
   \<and> coerceRecord (fst (coerceRecord r)) = (fst (coerceRecord r), False)"
  by (cases "turn r") (simp_all add: coerceRecord_def Let_def turn_running_def)

text \<open>
  Silence is honest: an observation that reports no change left the record exactly as it was, so not publishing it
  hides nothing.
\<close>

theorem silent_observation_changes_nothing:
  assumes "apply_evidence fresh r st detail tobs at act = (r', False)"
  shows "r' = r"
  using apply_evidence_unchanged [of fresh r st detail tobs at act] by (simp add: assms)

theorem silent_observation_changes_nothing_witness:
  "fst (apply_evidence ''turn-n'' sample_record ThreadIdle [] None 9 True) = sample_record"
proof -
  have "\<not> snd (apply_evidence ''turn-n'' sample_record ThreadIdle [] None 9 True)" by code_simp
  then have "apply_evidence ''turn-n'' sample_record ThreadIdle [] None 9 True =
      (fst (apply_evidence ''turn-n'' sample_record ThreadIdle [] None 9 True), False)"
    by (simp add: prod_eq_iff)
  from silent_observation_changes_nothing [OF this] show ?thesis .
qed

end
