(* ===== verification/Restart.thy ===== *)
theory Restart
  imports ThreadsSafety "HOL-Library.Multiset"
begin

text \<open>
  The restart of the Threads service: \<^const>\<open>Load_threads\<close> over the database a previous process left behind rebuilds
  the view and the identity mapping, and no conversation is claimed live.
\<close>

declare map_of_eq_Some_iff [simp del] Some_eq_map_of_iff [simp del]

subsection \<open>The coercing loop\<close>

definition restarted :: "time \<Rightarrow> thread_record \<Rightarrow> thread_record" where
  "restarted t r = (if snd (coerceRecord r) then (fst (coerceRecord r))\<lparr>updated_at := t\<rparr> else r)"

lemma restarted_keeps [simp]:
  "thread_id (restarted t r) = thread_id r" "integration_id (restarted t r) = integration_id r"
  "same_origin r (restarted t r)" "archived (restarted t r) = archived r"
  by (simp_all add: restarted_def)

lemma restarted_wf: "wf_thread r \<Longrightarrow> wf_thread (restarted t r)"
  by (simp add: restarted_def coerceRecord_wf)

lemma coerceRecord_quiet: "\<not> isLive (status (fst (coerceRecord r))) \<and> \<not> turn_running (fst (coerceRecord r))"
  by (cases "turn r") (simp_all add: coerceRecord_def Let_def turn_running_def)

lemma restarted_quiet: "\<not> isLive (status (restarted t r)) \<and> \<not> turn_running (restarted t r)"
  using coerceRecord_quiet [of r] coerceRecord_unchanged [of r] by (auto simp: restarted_def turn_running_def)

lemma Threads_Update_write:
  assumes run: "Threads_Update r s = (Inr b, s')" and row: "map_of (thread_rows s) (thread_id r) = Some old"
    and same: "same_origin old r"
  shows "thread_rows s' = AList.update (thread_id r) r (thread_rows s) \<and> identity_rows s' = identity_rows s
       \<and> around s' = around s \<and> view s' = view s"
  using run row
  by (auto simp: Threads_Update_def Let_def io_step_def around_def write_mutable_same [OF same] split: if_splits)

lemma load_coerce_spec:
  assumes "load_coerce rs t s = (Inr rs', s')" and "distinct (map thread_id rs)"
    and "\<forall>r \<in> set rs. map_of (thread_rows s) (thread_id r) = Some r"
  shows "rs' = map (restarted t) rs \<and> around s' = around s \<and> view s' = view s
       \<and> (\<forall>i. map_of (thread_rows s') i =
            (if i \<in> thread_id ` set rs then map_option (restarted t) (map_of (thread_rows s) i) else map_of (thread_rows s) i))
       \<and> map fst (thread_rows s') = map fst (thread_rows s)"
  using assms
proof (induction rs arbitrary: s rs' s')
  case (Cons r rs)
  obtain r1 c where cr: "coerceRecord r = (r1, c)" by (cases "coerceRecord r")
  have row: "map_of (thread_rows s) (thread_id r) = Some r" using Cons.prems(3) by simp
  show ?case
  proof (cases c)
    case False
    then obtain l where l: "load_coerce rs t s = (Inr l, s')" and rs': "rs' = r # l"
      using Cons.prems(1) cr by (auto split: prod.splits sum.splits)
    have IH: "l = map (restarted t) rs \<and> around s' = around s \<and> view s' = view s
       \<and> (\<forall>i. map_of (thread_rows s') i =
            (if i \<in> thread_id ` set rs then map_option (restarted t) (map_of (thread_rows s) i) else map_of (thread_rows s) i))
       \<and> map fst (thread_rows s') = map fst (thread_rows s)"
      using Cons.IH [OF l] Cons.prems(2,3) by simp
    have rr: "restarted t r = r" using False by (simp add: restarted_def cr)
    have "\<forall>i. map_of (thread_rows s') i =
            (if i \<in> thread_id ` set (r # rs) then map_option (restarted t) (map_of (thread_rows s) i) else map_of (thread_rows s) i)"
      using IH Cons.prems(2) row rr by (auto simp: image_iff)
    then show ?thesis using IH rs' rr by simp
  next
    case True
    let ?r = "r1\<lparr>updated_at := t\<rparr>"
    have rr: "restarted t r = ?r" using True by (simp add: restarted_def cr)
    have r1: "r1 = fst (coerceRecord r)" by (simp add: cr)
    have id: "thread_id ?r = thread_id r" and so: "same_origin r ?r" by (simp_all add: r1)
    obtain b s1 l where up: "Threads_Update ?r s = (Inr b, s1)" and l: "load_coerce rs t s1 = (Inr l, s')"
      and rs': "rs' = ?r # l"
      using Cons.prems(1) cr True by (auto split: prod.splits sum.splits)
    have w: "thread_rows s1 = AList.update (thread_id r) ?r (thread_rows s)" "around s1 = around s" "view s1 = view s"
      using Threads_Update_write [OF up, of r] row id so by simp_all
    have kf: "map fst (thread_rows s1) = map fst (thread_rows s)"
      unfolding w update_keys using map_of_in_set [OF row] by force
    have "\<forall>x \<in> set rs. map_of (thread_rows s1) (thread_id x) = Some x"
    proof
      fix x assume x: "x \<in> set rs"
      then have "thread_id x \<noteq> thread_id r" using Cons.prems(2) by (metis distinct.simps(2) image_eqI list.simps(9) set_map)
      moreover have "map_of (thread_rows s) (thread_id x) = Some x" using Cons.prems(3) x by simp
      ultimately show "map_of (thread_rows s1) (thread_id x) = Some x" by (simp add: w(1))
    qed
    then have IH: "l = map (restarted t) rs \<and> around s' = around s1 \<and> view s' = view s1
       \<and> (\<forall>i. map_of (thread_rows s') i =
            (if i \<in> thread_id ` set rs then map_option (restarted t) (map_of (thread_rows s1) i) else map_of (thread_rows s1) i))
       \<and> map fst (thread_rows s') = map fst (thread_rows s1)"
      using Cons.IH [OF l] Cons.prems(2) by simp
    have "\<forall>i. map_of (thread_rows s') i =
            (if i \<in> thread_id ` set (r # rs) then map_option (restarted t) (map_of (thread_rows s) i) else map_of (thread_rows s) i)"
      using IH Cons.prems(2) row rr by (auto simp: w)
    then show ?thesis using IH rs' rr w kf by simp
  qed
qed simp

subsection \<open>Filling the maps\<close>

lemma fold_update_other:
  "k \<notin> f ` set xs \<Longrightarrow> map_of (fold (\<lambda>x m. AList.update (f x) (g x) m) xs m) k = map_of m k"
  by (induction xs arbitrary: m) auto

lemma fold_update_at:
  "distinct (map f xs) \<Longrightarrow> x \<in> set xs \<Longrightarrow>
   map_of (fold (\<lambda>x m. AList.update (f x) (g x) m) xs m) (f x) = Some (g x)"
proof (induction xs arbitrary: m)
  case (Cons y ys)
  show ?case
  proof (cases "x = y")
    case True
    then have "f x \<notin> f ` set ys" using Cons.prems by auto
    then show ?thesis using True by (simp add: fold_update_other)
  next
    case False
    then show ?thesis using Cons by simp
  qed
qed simp

lemma fold_update_iff:
  assumes "distinct (map f xs)"
  shows "map_of (fold (\<lambda>x m. AList.update (f x) (g x) m) xs []) k = Some v \<longleftrightarrow> (\<exists>x \<in> set xs. f x = k \<and> g x = v)"
proof (cases "k \<in> f ` set xs")
  case True
  then obtain x where x: "x \<in> set xs" "k = f x" by auto
  have "f y = k \<Longrightarrow> y \<in> set xs \<Longrightarrow> y = x" for y
    using assms x by (auto simp: distinct_map dest: inj_onD)
  then show ?thesis using fold_update_at [OF assms x(1)] x by auto
next
  case False
  then show ?thesis by (auto simp: fold_update_other)
qed

lemma fold_update_distinct:
  "distinct (map fst m) \<Longrightarrow> distinct (map fst (fold (\<lambda>x m. AList.update (f x) (g x) m) xs m))"
  by (induction xs arbitrary: m) simp_all

subsection \<open>Rebuilding the service\<close>

text \<open>What the process keeps in memory is gone; the database stays.\<close>

definition reboot :: "'a thread_svc_scheme \<Rightarrow> 'a thread_svc_scheme" where
  "reboot s = s\<lparr>view := [], identities := [], keys := [], active := [], held := [], prior_status := [], in_flight := []\<rparr>"

lemma row_wf: "row_agrees row r \<Longrightarrow> wf_thread r \<Longrightarrow> wf_thread row"
  by (auto simp: row_agrees_def)

lemma row_facts:
  assumes inv: "threads_inv s" and row: "map_of (thread_rows s) i = Some row"
  shows "thread_id row = i" and "wf_thread row" and "map_of (keys s) i \<noteq> None"
    and "map_of (keys s) i = Some k \<Longrightarrow> fst k = integration_id row"
proof -
  obtain r where r: "map_of (view s) i = Some r" using row inv_rows_dom [OF inv, of i] by auto
  have ag: "row_agrees row r" using inv_rows [OF inv r] row by auto
  show "thread_id row = i" using ag inv_view_id [OF inv r] by (auto simp: row_agrees_def)
  show "wf_thread row" using row_wf [OF ag inv_view_wf [OF inv r]] .
  show "map_of (keys s) i \<noteq> None" using r inv_keys_view [OF inv, of i] by simp
  show "map_of (keys s) i = Some k \<Longrightarrow> fst k = integration_id row"
    using inv_keys_integration [OF inv r, of k] ag by (auto simp: row_agrees_def)
qed

lemma rows_listed:
  assumes inv: "threads_inv s" and rs: "rs = sort_key (\<lambda>r. (created_at r, thread_id r)) (map snd (thread_rows s))"
  shows "distinct (map thread_id rs)"
    and "r \<in> set rs \<longleftrightarrow> map_of (thread_rows s) (thread_id r) = Some r"
proof -
  have d: "distinct (map fst (thread_rows s))" using inv by (simp add: threads_inv_def rows_inv_def)
  have ids: "(i, r) \<in> set (thread_rows s) \<Longrightarrow> thread_id r = i" for i r
    using row_facts(1) [OF inv] in_set_map_of [OF d] by blast
  have eq: "map (thread_id \<circ> snd) (thread_rows s) = map fst (thread_rows s)"
    using ids by (intro map_cong) auto
  have "mset (map thread_id rs) = mset (map fst (thread_rows s))"
    unfolding rs eq [symmetric] by (simp add: multiset.map_comp)
  then show "distinct (map thread_id rs)" using d mset_eq_imp_distinct_iff by blast
  show "r \<in> set rs \<longleftrightarrow> map_of (thread_rows s) (thread_id r) = Some r"
  proof
    assume "r \<in> set rs"
    then obtain i where i: "(i, r) \<in> set (thread_rows s)" by (auto simp: rs)
    then show "map_of (thread_rows s) (thread_id r) = Some r" using ids [OF i] in_set_map_of [OF d i] by simp
  next
    assume "map_of (thread_rows s) (thread_id r) = Some r"
    from map_of_in_set [OF this] show "r \<in> set rs" by (force simp: rs)
  qed
qed

text \<open>The maps \<^const>\<open>Load_threads\<close> builds, by what a read of them gives.\<close>

definition view_of_rows :: "thread_record list \<Rightarrow> (string \<times> thread_record) list" where
  "view_of_rows rs = fold (\<lambda>r v. AList.update (thread_id r) r v) rs []"

lemma view_of_rows_get:
  "distinct (map thread_id rs) \<Longrightarrow> map_of (view_of_rows rs) i = Some r \<longleftrightarrow> r \<in> set rs \<and> thread_id r = i"
  using fold_update_iff [of thread_id rs "\<lambda>r. r" i r] by (auto simp: view_of_rows_def)

definition identities_of_rows :: "(identity_key \<times> string) list \<Rightarrow> (identity_key \<times> string) list" where
  "identities_of_rows ids = fold (\<lambda>(k, i) m. AList.update k i m) ids []"

definition keys_of_rows :: "(identity_key \<times> string) list \<Rightarrow> (string \<times> identity_key) list" where
  "keys_of_rows ids = fold (\<lambda>(k, i) m. AList.update i k m) ids []"

lemma identities_of_rows_get:
  "distinct (map fst ids) \<Longrightarrow> map_of (identities_of_rows ids) k = Some i \<longleftrightarrow> (k, i) \<in> set ids"
  using fold_update_iff [of fst ids snd k i]
  by (simp only: identities_of_rows_def split_def) force

lemma keys_of_rows_get:
  "distinct (map snd ids) \<Longrightarrow> map_of (keys_of_rows ids) i = Some k \<longleftrightarrow> (k, i) \<in> set ids"
  using fold_update_iff [of snd ids fst i k]
  by (simp only: keys_of_rows_def split_def) force

lemma Load_threads_run:
  assumes run: "Load_threads s = (None, s')" and empty: "view s = []" "identities s = []" "keys s = []"
  shows "\<exists>t s1 s2 rs'. core s1 = core s
     \<and> load_coerce (sort_key (\<lambda>r. (created_at r, thread_id r)) (map snd (thread_rows s))) t s1 = (Inr rs', s2)
     \<and> s' = s2\<lparr>view := fold (\<lambda>r v. AList.update (thread_id r) r v) rs' (view s2),
               identities := fold (\<lambda>(k, i) m. AList.update k i m) (identity_rows s) (identities s2),
               keys := fold (\<lambda>(k, i) m. AList.update i k m) (identity_rows s) (keys s2)\<rparr>"
proof -
  obtain a s1 where l: "Threads_List s = (a, s1)" by (cases "Threads_List s")
  have c1: "core s1 = core s" using l by (auto simp: Threads_List_def io_step_def Let_def core_def split: if_splits)
  obtain rs where a: "a = Inr rs" using run l by (cases a) (auto simp: Load_threads_def)
  have rs: "rs = sort_key (\<lambda>r. (created_at r, thread_id r)) (map snd (thread_rows s))"
    using l a by (auto simp: Threads_List_def io_step_def Let_def split: if_splits)
  obtain b s2 where i: "Threads_ListIdentities s1 = (b, s2)" by (cases "Threads_ListIdentities s1")
  have c2: "core s2 = core s"
    using i c1 by (auto simp: Threads_ListIdentities_def io_step_def Let_def core_def split: if_splits)
  obtain ids where b: "b = Inr ids" using run l a i by (cases b) (auto simp: Load_threads_def)
  have ids: "ids = identity_rows s"
    using i b core_components [OF c1] by (auto simp: Threads_ListIdentities_def io_step_def Let_def split: if_splits)
  obtain t s3 where n: "now s2 = (t, s3)" by (cases "now s2")
  have c3: "core s3 = core s" using now_core [OF n] c2 by simp
  obtain c s4 where lc: "load_coerce rs t s3 = (c, s4)" by (cases "load_coerce rs t s3")
  obtain rs' where c: "c = Inr rs'" using run l a i b n lc by (cases c) (auto simp: Load_threads_def)
  have "s' = s4\<lparr>view := fold (\<lambda>r v. AList.update (thread_id r) r v) rs' (view s4),
               identities := fold (\<lambda>(k, i) m. AList.update k i m) ids (identities s4),
               keys := fold (\<lambda>(k, i) m. AList.update i k m) ids (keys s4)\<rparr>"
    using run l a i b n lc c by (simp add: Load_threads_def)
  then show ?thesis using c3 lc c rs ids by blast
qed

lemma identity_rows_pairs:
  assumes inv: "threads_inv s"
  shows "(k, i) \<in> set (identity_rows s) \<longleftrightarrow> map_of (identities s) k = Some i"
    and "distinct (map fst (identity_rows s))" and "distinct (map snd (identity_rows s))"
proof -
  show d: "distinct (map fst (identity_rows s))" using inv by (simp add: threads_inv_def rows_inv_def)
  have mem: "(k, i) \<in> set (identity_rows s) \<longleftrightarrow> map_of (identities s) k = Some i" for k i
    using in_set_map_of [OF d, of k i] map_of_in_set [of "identity_rows s" k i] inv_identity_rows [OF inv, of k] by auto
  then show "(k, i) \<in> set (identity_rows s) \<longleftrightarrow> map_of (identities s) k = Some i" .
  have "inj_on snd (set (identity_rows s))"
  proof (rule inj_onI)
    fix x y assume x: "x \<in> set (identity_rows s)" and y: "y \<in> set (identity_rows s)" and eq: "snd x = snd y"
    have "map_of (keys s) (snd x) = Some (fst x)"
      using x mem [of "fst x" "snd x"] inv_keys [OF inv, of "fst x" "snd x"] by simp
    moreover have "map_of (keys s) (snd y) = Some (fst y)"
      using y mem [of "fst y" "snd y"] inv_keys [OF inv, of "fst y" "snd y"] by simp
    ultimately show "x = y" using eq by (simp add: prod_eq_iff)
  qed
  moreover have "distinct (identity_rows s)" using d by (simp add: distinct_map)
  ultimately show "distinct (map snd (identity_rows s))" by (simp add: distinct_map)
qed

lemma core_reboot:
  "thread_rows (reboot s) = thread_rows s" "identity_rows (reboot s) = identity_rows s"
  "view (reboot s) = []" "identities (reboot s) = []" "keys (reboot s) = []" "active (reboot s) = []"
  "held (reboot s) = []" "in_flight (reboot s) = []"
  by (simp_all add: reboot_def)

lemma Load_rebuilds:
  assumes inv: "threads_inv s" and run: "Load_threads (reboot s) = (None, s')"
  shows "threads_inv s'"
    and "map_of (identities s') k = map_of (identities s) k"
    and "map_of (view s') i = Some r \<Longrightarrow> \<exists>t row. map_of (thread_rows s) i = Some row \<and> r = restarted t row"
    and "map_of (view s') i = None \<longleftrightarrow> map_of (view s) i = None"
proof -
  define rs where "rs = sort_key (\<lambda>r. (created_at r, thread_id r)) (map snd (thread_rows s))"
  let ?ids = "identity_rows s"
  obtain t s1 s2 rs' where c1: "core s1 = core (reboot s)" and lc: "load_coerce rs t s1 = (Inr rs', s2)"
    and s': "s' = s2\<lparr>view := fold (\<lambda>r v. AList.update (thread_id r) r v) rs' (view s2),
               identities := fold (\<lambda>(k, i) m. AList.update k i m) ?ids (identities s2),
               keys := fold (\<lambda>(k, i) m. AList.update i k m) ?ids (keys s2)\<rparr>"
    using Load_threads_run [OF run core_reboot(3-5)] unfolding core_reboot rs_def [symmetric] by blast
  note v1 = core_components [OF c1]
  note rl = rows_listed [OF inv rs_def]
  have "\<forall>r \<in> set rs. map_of (thread_rows s1) (thread_id r) = Some r"
    using rl(2) v1 by (simp add: core_reboot)
  from load_coerce_spec [OF lc rl(1) this]
  have rs': "rs' = map (restarted t) rs" and ar: "around s2 = around s1" and v2: "view s2 = view s1"
    and rows: "\<And>i. map_of (thread_rows s2) i =
      (if i \<in> thread_id ` set rs then map_option (restarted t) (map_of (thread_rows s1) i) else map_of (thread_rows s1) i)"
    and kf: "map fst (thread_rows s2) = map fst (thread_rows s1)" by blast+
  note a2 = around_components [OF ar]
  have view': "view s' = view_of_rows rs'" and ids': "identities s' = identities_of_rows ?ids"
    and keys': "keys s' = keys_of_rows ?ids" and rows': "thread_rows s' = thread_rows s2"
    and rest: "active s' = []" "held s' = []" "in_flight s' = []" "identity_rows s' = ?ids"
    using v1 a2 v2 by (simp_all add: s' core_reboot view_of_rows_def identities_of_rows_def keys_of_rows_def)
  have dr: "distinct (map thread_id rs')" unfolding rs' using rl(1) by (simp add: comp_def)
  have get: "map_of (view s') i = Some r \<longleftrightarrow> (\<exists>row. map_of (thread_rows s) i = Some row \<and> r = restarted t row)" for i r
  proof -
    have "map_of (view s') i = Some r \<longleftrightarrow> (\<exists>row \<in> set rs. r = restarted t row \<and> thread_id row = i)"
      unfolding view' view_of_rows_get [OF dr] by (auto simp: rs')
    moreover have "row \<in> set rs \<and> thread_id row = i \<longleftrightarrow> map_of (thread_rows s) i = Some row" for row
      unfolding rl(2) using row_facts(1) [OF inv, of i row] by auto
    ultimately show ?thesis by blast
  qed
  have dom: "i \<in> thread_id ` set rs \<longleftrightarrow> map_of (thread_rows s) i \<noteq> None" for i
  proof -
    have "row \<in> set rs \<and> thread_id row = i \<longleftrightarrow> map_of (thread_rows s) i = Some row" for row
      unfolding rl(2) using row_facts(1) [OF inv, of i row] by auto
    then show ?thesis unfolding image_iff not_None_eq by metis
  qed
  have row2: "map_of (thread_rows s') i = map_option (restarted t) (map_of (thread_rows s) i)" for i
    using dom [of i] v1 by (cases "map_of (thread_rows s) i") (simp_all add: rows' rows core_reboot)
  have none: "map_of (view s') i = None \<longleftrightarrow> map_of (thread_rows s) i = None" for i
    using get [of i] by (cases "map_of (view s') i"; cases "map_of (thread_rows s) i") auto
  note pairs = identity_rows_pairs [OF inv]
  have idg: "map_of (identities s') k = Some i \<longleftrightarrow> map_of (identities s) k = Some i" for k i
    unfolding ids' identities_of_rows_get [OF pairs(2)] by (rule pairs(1))
  have keyg: "map_of (keys s') i = Some k \<longleftrightarrow> map_of (keys s) i = Some k" for k i
    unfolding keys' keys_of_rows_get [OF pairs(3)] pairs(1) by (rule inv_keys [OF inv])
  show idm: "map_of (identities s') k = map_of (identities s) k" for k
    using idg [of k] by (cases "map_of (identities s) k"; cases "map_of (identities s') k") auto
  have keym: "map_of (keys s') i = map_of (keys s) i" for i
    using keyg [of i] by (cases "map_of (keys s) i"; cases "map_of (keys s') i") auto
  show "map_of (view s') i = None \<longleftrightarrow> map_of (view s) i = None" for i
    using none inv_rows_dom [OF inv, of i] by simp
  show "map_of (view s') i = Some r \<Longrightarrow> \<exists>t row. map_of (thread_rows s) i = Some row \<and> r = restarted t row" for i r
    using get by blast
  have "ids_inv s'"
  proof (rule ids_invI [OF refl refl refl])
    show "map_of (view s') i = Some r \<Longrightarrow> thread_id r = i" for i r
      using get row_facts(1) [OF inv] by auto
    show "map_of (identities s') k = Some i \<longleftrightarrow> map_of (keys s') i = Some k" for k i
      unfolding idg keyg by (rule inv_keys [OF inv])
    show "map_of (keys s') i = None \<longleftrightarrow> map_of (view s') i = None" for i
      unfolding keym none using inv_keys_view [OF inv, of i] inv_rows_dom [OF inv, of i] by simp
    show "map_of (view s') i = Some r \<Longrightarrow> map_of (keys s') i = Some k \<Longrightarrow> fst k = integration_id r" for i r k
    proof -
      assume a: "map_of (view s') i = Some r" and b: "map_of (keys s') i = Some k"
      then obtain t row where row: "map_of (thread_rows s) i = Some row" and r: "r = restarted t row" using get by blast
      show ?thesis unfolding r using row_facts(4) [OF inv row, of k] b by (simp add: keym)
    qed
    show "distinct (map fst (view s'))"
      unfolding view' view_of_rows_def by (rule fold_update_distinct) simp
  qed
  moreover have "holds_inv s'" by (simp add: holds_inv_def rest)
  moreover have "rows_inv s'"
  proof -
    have "map_of (thread_rows s') i = None \<longleftrightarrow> map_of (view s') i = None" for i
      unfolding row2 none by simp
    moreover have "row_agrees row r" if a: "map_of (view s') i = Some r" and b: "map_of (thread_rows s') i = Some row" for i r row
      using b get [of i r] a by (auto simp: row2 row_agrees_def)
    moreover have "map_of (identity_rows s') k = map_of (identities s') k" for k
      unfolding idm rest using inv_identity_rows [OF inv, of k] .
    moreover have "distinct (map fst (thread_rows s'))"
      using inv kf v1 by (simp add: rows' core_reboot threads_inv_def rows_inv_def)
    ultimately show ?thesis using pairs(2) unfolding rows_inv_def rest by blast
  qed
  moreover have "records_inv s'"
    unfolding records_inv_def
  proof (intro allI impI)
    fix i r assume "map_of (view s') i = Some r"
    then obtain row where row: "map_of (thread_rows s) i = Some row" and r: "r = restarted t row" using get by auto
    show "wf_thread r" unfolding r by (rule restarted_wf [OF row_facts(2) [OF inv row]])
  qed
  ultimately show "threads_inv s'" by (simp add: threads_inv_def)
qed

end
