(* ===== verification/Server.thy ===== *)
theory Server
  imports Restart
begin

text \<open>
  The running server: the steps of the Threads service and of the domains that share its database, together with the
  restart of the process, and what every reachable state satisfies. A small concrete run serves the examples.
\<close>

declare map_of_eq_Some_iff [simp del] Some_eq_map_of_iff [simp del]

subsection \<open>Reachable states\<close>

text \<open>
  A process stops at any point and a new one loads what the database holds; a load that fails leaves no process.
\<close>

inductive server_step :: "'a thread_svc_scheme \<Rightarrow> 'a thread_svc_scheme \<Rightarrow> bool" where
  runs: "thread_step s s' \<Longrightarrow> server_step s s'"
| restarts: "Load_threads (reboot s) = (None, s') \<Longrightarrow> server_step s s'"

inductive_cases server_stepE: "server_step s s'"

definition reachable :: "'a thread_svc_scheme \<Rightarrow> bool" where
  "reachable s \<longleftrightarrow> (\<exists>s0. fresh_start s0 \<and> server_step\<^sup>*\<^sup>* s0 s)"

lemma server_step_inv: "server_step s s' \<Longrightarrow> threads_inv s \<Longrightarrow> threads_inv s'"
  by (auto elim!: server_stepE intro: thread_step_inv Load_rebuilds(1))

interpretation server: machine fresh_start server_step threads_inv
  by unfold_locales (rule fresh_start_inv, assumption, rule server_step_inv)

lemma reachable_threads_inv: "reachable s \<Longrightarrow> threads_inv s"
  using server.reach_inv by (auto simp: reachable_def)

lemma reachable_step: "reachable s \<Longrightarrow> server_step s s' \<Longrightarrow> reachable s'"
  by (auto simp: reachable_def intro: rtranclp.rtrancl_into_rtrancl)

subsection \<open>A concrete run\<close>

definition sample_terminal :: terminal_record where
  "sample_terminal =
     \<lparr>term_id = ''term-1'', term_space = ''spce-1'', term_name = [], term_directory = ''/w'', term_command = [],
      term_app = ''claude/tui'', term_created_at = 1, term_updated_at = 1, term_stop_requested_at = None,
      term_exited_at = None, term_exit_code = None\<rparr>"

definition sample_space :: space_record where
  "sample_space = \<lparr>space_id = ''spce-1'', space_name = ''Default'', space_directory = ''/h'', space_default = True,
     space_created_at = 1, space_updated_at = 1\<rparr>"

definition sample_project :: project_record where
  "sample_project = \<lparr>proj_id = ''proj-1'', proj_name = ''w'', proj_directory = ''/w'', proj_created_at = 1,
     proj_updated_at = 1\<rparr>"

text \<open>A server with two terminals, a project and no thread; no operation of the environment fails.\<close>

definition server0 :: thread_svc where
  "server0 =
     \<lparr>clock = (\<lambda>n. 100 + int n), ticks = 0, fault = (\<lambda>n. False), io_ops = 0,
      id_tape = [''aaaaa'', ''bbbbb'', ''ccccc''], long_suffix = (\<lambda>n. replicate (Suc n) (CHR ''z'')), longs = 0,
      events_log = [], thread_rows = [], identity_rows = [],
      terminal_rows = [(''term-1'', sample_terminal), (''term-2'', sample_terminal\<lparr>term_id := ''term-2''\<rparr>)],
      space_rows = [(''spce-1'', sample_space)], project_rows = [(''proj-1'', sample_project)],
      term_view = [(''term-1'', \<lparr>e_record = sample_terminal, e_status = TerminalRunning, e_process = ''claude''\<rparr>),
                   (''term-2'', \<lparr>e_record = sample_terminal\<lparr>term_id := ''term-2''\<rparr>, e_status = TerminalRunning,
                                e_process = ''claude''\<rparr>)],
      settling = [], space_view = [(''spce-1'', sample_space)], default_space = ''spce-1'', deleting_spaces = [],
      home_dir = ''/h'', reports = (\<lambda>i. NoReport),
      view = [], identities = [], keys = [], active = [], held = [], prior_status = [], in_flight = []\<rparr>"

definition sample_session :: "string \<Rightarrow> session_observation" where
  "sample_session tm =
     \<lparr>so_integration = ''claude'', so_app = ''claude/tui'', so_agent = [], so_provider = ''conv'', so_terminal = tm,
      so_directory = ''/w/x'', so_at = 0, so_status = ThreadWorking, so_detail = [], so_turn = None,
      so_metadata = \<lparr>md_title = ''t'', md_model = [], md_effort = [], md_cwd = [], md_permission_mode = []\<rparr>\<rparr>"

definition server1 :: thread_svc where
  "server1 = snd (ObserveSession Some (sample_session ''term-1'') server0)"

lemma server0_reachable: "reachable server0"
  unfolding reachable_def
  by (intro exI [of _ server0] conjI rtranclp.rtrancl_refl) (simp add: fresh_start_def server0_def)

lemma server1_reachable: "reachable server1"
  unfolding server1_def
  by (intro reachable_step [OF server0_reachable] runs thread_step.observe_session) (simp add: sample_session_def)

lemma server1_facts:
  "fst (ObserveSession Some (sample_session ''term-1'') server0) = Inr ''thrd-aaaaa''"
  "identities server1 = [((''claude'', ''conv''), ''thrd-aaaaa'')]" "active server1 = [(''term-1'', ''thrd-aaaaa'')]"
  by code_simp+

end
