(* ===== verification/Flight.thy ===== *)
theory Flight
  imports Server
begin

text \<open>
  The marks of \<^verbatim>\<open>Open\<close>: which steps of the server touch the set of threads with a resume in flight, and where. Everything
  else leaves it alone.
\<close>

declare map_of_eq_Some_iff [simp del] Some_eq_map_of_iff [simp del]

named_theorems marks \<open>operations that leave the marks of Open alone\<close>

lemma core_flight: "core s' = core s \<Longrightarrow> in_flight s' = in_flight s"
  by (drule core_components) simp

lemma around_flight: "around s' = around s \<Longrightarrow> in_flight s' = in_flight s"
  by (drule around_components) simp

lemma Threads_Update_marks [marks]: "Threads_Update r s = (res, s') \<Longrightarrow> in_flight s' = in_flight s"
  by (auto simp: Threads_Update_def Let_def io_step_def split: if_splits option.splits)

lemma put_view_marks [simp]: "in_flight (put_view r s) = in_flight s"
  by (simp add: put_view_def)

lemma store_thread_marks [marks]: "store_thread r s = (res, s') \<Longrightarrow> in_flight s' = in_flight s"
  by (auto simp: store_thread_def dest: marks split: prod.splits sum.splits if_splits)

lemma persist_marks [marks]: "persist r s = (res, s') \<Longrightarrow> in_flight s' = in_flight s"
  by (auto simp: persist_def dest: marks split: prod.splits sum.splits if_splits)

lemma now_marks [marks]: "now s = (t, s') \<Longrightarrow> in_flight s' = in_flight s"
  by (auto simp: now_def)

lemma coerceInactive_marks [marks]: "coerceInactive i s = (res, s') \<Longrightarrow> in_flight s' = in_flight s"
  by (auto simp: coerceInactive_def Let_def dest!: marks split: prod.splits sum.splits if_splits option.splits bool.splits)

lemma core_marks [simp]: "in_flight (Publish ty rs i s) = in_flight s" "in_flight (publish_thread c i s) = in_flight s"
  "in_flight (publish_all ty rs xs s) = in_flight s"
  by (rule core_flight, simp)+

lemma release_marks [simp]: "in_flight (release i s) = in_flight s" "in_flight (hold i s) = in_flight s"
  by (simp_all add: release_def hold_def)

lemma Deactivate_marks [simp]: "in_flight (Deactivate tm s) = in_flight s"
  by (auto simp: Deactivate_def Let_def dest!: marks split: prod.splits sum.splits if_splits option.splits bool.splits)

lemma unlink_each_marks [marks]: "unlink_each a rs s = (c, s') \<Longrightarrow> in_flight s' = in_flight s"
proof (induction rs arbitrary: s c s')
  case (Cons r rs)
  obtain res s1 where st: "store_thread r s = (res, s1)" by (cases "store_thread r s")
  have k: "in_flight s1 = in_flight s" by (rule store_thread_marks [OF st])
  show ?case
  proof (cases "res = Inr True")
    case True
    then have "unlink_each a rs (Publish EventThreadUpdated thread_resource (thread_id r) s1) = (c, s')"
      using Cons.prems st by simp
    from Cons.IH [OF this] show ?thesis using k by simp
  next
    case False
    obtain c1 s2 where u: "unlink_each a rs s1 = (c1, s2)" by (cases "unlink_each a rs s1")
    then have "s' = s2" using Cons.prems st False by (auto split: sum.splits bool.splits)
    then show ?thesis using Cons.IH [OF u] k by simp
  qed
qed simp

lemma TerminalRemoved_marks [simp]: "in_flight (TerminalRemoved tm s) = in_flight s"
  by (auto simp: TerminalRemoved_def Let_def dest!: marks split: prod.splits)

lemma fold_marks: "(\<And>x s. in_flight (f x s) = in_flight s) \<Longrightarrow> in_flight (fold f xs s) = in_flight s"
  by (induction xs arbitrary: s) simp_all

lemma Sweep_marks [simp]: "in_flight (Sweep s) = in_flight s"
  unfolding Sweep_def by (rule fold_marks) (simp add: sweep_one_def split: sum.split)

lemma release_each_marks [simp]: "in_flight (release_each is s) = in_flight s"
proof (induction "is" arbitrary: s)
  case (Cons i x)
  obtain c s1 where "coerceInactive i s = (c, s1)" by (cases "coerceInactive i s")
  then show ?case using Cons coerceInactive_marks by simp
qed simp

lemma ReleaseIntegration_marks [simp]: "in_flight (ReleaseIntegration integration s) = in_flight s"
  by (simp add: ReleaseIntegration_def)

lemma ArchiveExternalThread_marks [simp]: "in_flight (snd (ArchiveExternalThread integration provider s)) = in_flight s"
  by (auto simp: ArchiveExternalThread_def Let_def dest!: marks split: prod.splits sum.splits if_splits option.splits)

lemma Threads_Delete_marks [marks]: "Threads_Delete i s = (res, s') \<Longrightarrow> in_flight s' = in_flight s"
  by (auto simp: Threads_Delete_def Let_def io_step_def split: if_splits)

lemma forget_marks [simp]: "in_flight (forgetIdentity i s) = in_flight s" "in_flight (forgetPrior i s) = in_flight s"
  by (simp_all add: forgetIdentity_def forgetPrior_def split: option.split)

lemma remove_thread_marks [simp]: "in_flight (snd (remove_thread i s)) = in_flight s"
  by (auto simp: remove_thread_def dest!: marks split: prod.splits sum.splits)

lemma Delete_thread_marks [simp]: "in_flight (snd (Delete_thread i s)) = in_flight s"
  by (simp add: Delete_thread_def)

lemma DiscardExternal_marks [simp]: "in_flight (snd (DiscardExternal integration provider s)) = in_flight s"
  by (simp add: DiscardExternal_def split: option.split)

lemma ObserveTurnResponse_marks [simp]: "in_flight (snd (ObserveTurnResponse i provider resp s)) = in_flight s"
  by (auto simp: ObserveTurnResponse_def Let_def dest!: marks split: prod.splits sum.splits if_splits option.splits)

lemma Projects_Get_marks [marks]: "Projects_Get p s = (res, s') \<Longrightarrow> in_flight s' = in_flight s"
  by (auto simp: Projects_Get_def Let_def io_step_def split: if_splits)

lemma Projects_List_marks [marks]: "Projects_List s = (res, s') \<Longrightarrow> in_flight s' = in_flight s"
  by (auto simp: Projects_List_def Let_def io_step_def split: if_splits)

lemma patch_project_marks [marks]: "patch_project p r s = (res, s') \<Longrightarrow> in_flight s' = in_flight s"
  by (auto simp: patch_project_def dest!: marks split: patch.splits prod.splits sum.splits option.splits)

lemma patch_archived_marks [marks]: "patch_archived p h r s = (res, s') \<Longrightarrow> in_flight s' = in_flight s"
  by (auto simp: patch_archived_def Let_def dest!: marks split: patch.splits prod.splits if_splits)

lemma Update_thread_marks [simp]: "in_flight (snd (Update_thread linkers i params s)) = in_flight s"
  by (auto simp: Update_thread_def Let_def dest!: marks split: prod.splits sum.splits option.splits if_splits)

lemma commit_marks [simp]: "in_flight (commit r i tm changed s) = in_flight s"
  by (auto simp: commit_def Let_def dest!: marks split: prod.splits if_splits option.splits)

lemma applyStatus_marks [marks]: "applyStatus r st d tobs at act s = (r', c, s') \<Longrightarrow> in_flight s' = in_flight s"
  using core_applyStatus [of r st d tobs at act s] by (auto dest: core_flight)

lemma observed_at_marks [marks]: "observed_at t s = (at, s') \<Longrightarrow> in_flight s' = in_flight s"
  using core_observed_at [of t s] by (auto dest: core_flight)

lemma classify_marks [marks]: "classify d s = (res, s') \<Longrightarrow> in_flight s' = in_flight s"
  using core_classify [of d s] by (auto dest: core_flight)

lemma InsertObserved_marks [marks]: "Threads_InsertObserved r k s = (res, s') \<Longrightarrow> in_flight s' = in_flight s"
  by (auto simp: Threads_InsertObserved_def Let_def io_step_def split: if_splits)

lemma insert_loop_marks: "insert_loop tape r k s = (res, s') \<Longrightarrow> in_flight s' = in_flight s"
  by (induction tape r k s rule: insert_loop.induct)
    (auto simp: insert_loop.simps Let_def dest!: marks split: prod.splits sum.splits if_splits)

lemma insert_thread_marks [marks]: "insert_thread r k s = (res, s') \<Longrightarrow> in_flight s' = in_flight s"
  unfolding insert_thread_def by (rule insert_loop_marks)

lemma createObserved_marks [marks]: "createObserved canon obs at s = (res, s') \<Longrightarrow> in_flight s' = in_flight s"
  by (auto simp: createObserved_def Let_def dest!: marks split: prod.splits sum.splits if_splits option.splits)

lemma createObserved_snd_marks [simp]: "in_flight (snd (createObserved canon obs at s)) = in_flight s"
  by (rule createObserved_marks [OF surjective_pairing])

lemma ObserveSession_marks [simp]: "in_flight (snd (ObserveSession canon obs s)) = in_flight s"
  by (auto simp: ObserveSession_def Let_def dest!: marks split: prod.splits sum.splits if_splits option.splits)

lemma AssignProject_marks [marks]: "Threads_AssignProject i p t s = (res, s') \<Longrightarrow> in_flight s' = in_flight s"
  by (auto simp: Threads_AssignProject_def Let_def io_step_def split: if_splits option.splits)

lemma backfill_each_marks [simp]: "in_flight (snd (backfill_each as t s)) = in_flight s"
  by (induction as t s rule: backfill_each.induct)
    (auto dest!: marks split: prod.splits sum.splits if_splits option.splits)

lemma Backfill_marks [simp]: "in_flight (snd (Backfill s)) = in_flight s"
  by (auto simp: Backfill_def Let_def dest!: marks split: prod.splits sum.splits)

lemma Delete_project_marks [marks]: "Delete_project i s = (res, s') \<Longrightarrow> in_flight s' = in_flight s"
  by (auto simp: Delete_project_def Projects_Delete_def Let_def io_step_def split: if_splits)

lemma DeleteProject_marks [simp]: "in_flight (snd (DeleteProject_everywhere i s)) = in_flight s"
  by (auto simp: DeleteProject_everywhere_def DeleteProject_def dest!: marks split: prod.splits option.splits)

lemma removeRecord_marks [marks]: "removeRecord i s = (res, s') \<Longrightarrow> in_flight s' = in_flight s"
  by (auto simp: removeRecord_def Terminals_Delete_def report_Remove_def Let_def io_step_def split: if_splits)

lemma create_discard_marks [simp]: "in_flight (snd (create_discard i s)) = in_flight s"
  by (auto simp: create_discard_def dest!: marks split: prod.splits sum.splits)

lemma thread_step_marks:
  assumes inv: "threads_inv s" and "thread_step s s'"
  shows "in_flight s' = in_flight s
       \<or> (\<exists>i req. open_begin i s = (BeginResumes req, s') \<and> i \<notin> set (in_flight s) \<and> set (in_flight s') = insert i (set (in_flight s)))
       \<or> (\<exists>i. s' = open_finish i s)"
  using assms(2)
proof (cases rule: thread_step.cases)
  case (observe_status obs)
  then show ?thesis using ObserveStatus_outcome [OF inv] around_flight by blast
next
  case (observe_external canon eobs)
  then show ?thesis using ObserveExternal_outcome(5) [OF inv surjective_pairing] by blast
next
  case (submit i)
  then show ?thesis using SubmitTurn_outcome(2) [OF inv surjective_pairing] around_flight by blast
next
  case (link_open i tm)
  then show ?thesis using link_outcome(2) [OF inv surjective_pairing] around_flight by blast
next
  case (begin_open i)
  obtain b s1 where b: "open_begin i s = (b, s1)" by (cases "open_begin i s")
  then show ?thesis using open_begin_outcome(2,3) [OF inv b] begin_open by (cases b) auto
next
  case (remove_terminal tm)
  then show ?thesis using removeRecord_marks [OF surjective_pairing] by blast
qed (auto simp: domain_frames [THEN core_flight])

end
