(* ===== verification/ThreadProps.thy ===== *)
theory ThreadProps
  imports Flight
begin

text \<open>
  The properties of the Threads service: what holds in every reachable state, and what each operation does there. The
  proofs are the outcome lemmas of ThreadsSafety and Restart at \<^const>\<open>reachable\<close> states.
\<close>

declare map_of_eq_Some_iff [simp del] Some_eq_map_of_iff [simp del]

subsection \<open>Every reachable state\<close>

text \<open>
  C2. The private identity mapping is a bijection onto the threads: one conversation of a provider is one thread and a
  thread has exactly one identity, in its own Integration's namespace; the view is keyed by the threads' own ids.
\<close>

theorem identities_match_threads:
  assumes "reachable s"
  shows "(map_of (identities s) k = Some i \<longleftrightarrow> map_of (keys s) i = Some k)
    \<and> (map_of (keys s) i = None \<longleftrightarrow> map_of (view s) i = None)
    \<and> (map_of (view s) i = Some r \<longrightarrow> thread_id r = i \<and> (\<exists>p. map_of (identities s) (integration_id r, p) = Some i))"
proof -
  note inv = reachable_threads_inv [OF assms]
  have "\<exists>p. map_of (identities s) (integration_id r, p) = Some i" if r: "map_of (view s) i = Some r"
  proof -
    obtain k where k: "map_of (keys s) i = Some k" using inv_keys_view [OF inv, of i] r by fastforce
    have "k = (integration_id r, snd k)" using inv_keys_integration [OF inv r k] by (simp add: prod_eq_iff)
    then show ?thesis using inv_keys [OF inv] k by metis
  qed
  then show ?thesis using inv_keys [OF inv] inv_keys_view [OF inv] inv_view_id [OF inv] by blast
qed

theorem identities_match_threads_witness:
  "map_of (keys server1) ''thrd-aaaaa'' = Some (''claude'', ''conv'')"
  using identities_match_threads [OF server1_reachable, of "(''claude'', ''conv'')" "''thrd-aaaaa''"]
  by (simp add: server1_facts)

text \<open>
  C1. The view refines the database: the same threads, the same identities, and for each thread the row the view
  shows, except that the deletion of a terminal may already have cleared the row's link.
\<close>

theorem database_agrees:
  assumes "reachable s"
  shows "(map_of (thread_rows s) i = None \<longleftrightarrow> map_of (view s) i = None)
    \<and> map_of (identity_rows s) k = map_of (identities s) k
    \<and> (map_of (view s) i = Some r \<longrightarrow>
         map_of (thread_rows s) i = Some r \<or> map_of (thread_rows s) i = Some (r\<lparr>terminal_id := None\<rparr>))"
proof -
  note inv = reachable_threads_inv [OF assms]
  have "map_of (thread_rows s) i = Some r \<or> map_of (thread_rows s) i = Some (r\<lparr>terminal_id := None\<rparr>)"
    if r: "map_of (view s) i = Some r"
    using inv_rows [OF inv r] by (auto simp: row_agrees_def)
  then show ?thesis using inv_rows_dom [OF inv] inv_identity_rows [OF inv] by blast
qed

theorem database_agrees_witness:
  "map_of (identity_rows server1) (''claude'', ''conv'') = Some ''thrd-aaaaa''"
  using database_agrees [OF server1_reachable] by (simp add: server1_facts)

text \<open>
  C18. Holders are real: a terminal projects at most one thread, a thread is projected by at most one terminal, both
  projection and hold name threads that exist, a held thread is not archived, and a resume in flight has its thread.
\<close>

theorem holders_are_real:
  assumes "reachable s"
  shows "(ActiveThreadID t s \<noteq> '''' \<longrightarrow> map_of (view s) (ActiveThreadID t s) \<noteq> None)
    \<and> (ActiveThreadID t s = ActiveThreadID t' s \<longrightarrow> ActiveThreadID t s \<noteq> '''' \<longrightarrow> t = t')
    \<and> (i \<in> set (held s) \<longrightarrow> (\<exists>r. map_of (view s) i = Some r \<and> \<not> archived r))
    \<and> (i \<in> set (in_flight s) \<longrightarrow> map_of (view s) i \<noteq> None)"
proof -
  note inv = reachable_threads_inv [OF assms]
  have act: "map_of (active s) t = Some (ActiveThreadID t s)" if "ActiveThreadID t s \<noteq> ''''" for t
    using that by (auto simp: ActiveThreadID_def read_string_def split: option.splits)
  have "t = t'" if "ActiveThreadID t s = ActiveThreadID t' s" "ActiveThreadID t s \<noteq> []"
    using inv_active_inj [OF inv act [of t], of t'] act [of t'] that by simp
  then show ?thesis using inv_active [OF inv act] inv_held [OF inv] inv_in_flight [OF inv] by blast
qed

theorem holders_are_real_witness:
  "map_of (view server1) (ActiveThreadID ''term-1'' server1) \<noteq> None"
  using holders_are_real [OF server1_reachable, of "''term-1''"]
  by (simp add: ActiveThreadID_def read_string_def server1_facts)

text \<open>
  C19. Every record is what the API promises: a detail only with an error status, a failure text only on a failed turn, a
  response only on an ended one, a completion time exactly on a turn that is over, no running turn and no pending
  submission on a faulted session, an archive time exactly on an archived thread.
\<close>

theorem records_are_well_formed:
  assumes "reachable s" and "map_of (view s) i = Some r"
  shows "(status_detail r \<noteq> '''' \<longrightarrow> status r = ThreadError)
    \<and> (status r = ThreadError \<longrightarrow> pending r = None \<and> \<not> turn_running r)
    \<and> (archived r \<longleftrightarrow> archived_at r \<noteq> None)
    \<and> (\<forall>t. turn r = Some t \<longrightarrow>
         (turn_error t \<noteq> '''' \<longrightarrow> turn_state t = TurnFailed)
         \<and> (turn_response t \<noteq> '''' \<longrightarrow> Ended (turn_state t))
         \<and> (turn_completed_at t = None \<longleftrightarrow> turn_state t = TurnRunning \<or> turn_state t = TurnUnknown))"
  using inv_view_wf [OF reachable_threads_inv [OF assms(1)] assms(2)]
  by (auto simp: wf_thread_def wf_turn_def)

theorem records_are_well_formed_witness:
  "archived_at (the (map_of (view server1) ''thrd-aaaaa'')) = None"
proof -
  have "map_of (view server1) ''thrd-aaaaa'' \<noteq> None" "\<not> archived (the (map_of (view server1) ''thrd-aaaaa''))"
    by code_simp+
  then show ?thesis using records_are_well_formed [OF server1_reachable, of "''thrd-aaaaa''"] by fastforce
qed

text \<open>
  C8. A restart forgets nothing durable and claims nothing live: after a successful load the threads and their
  identities are the ones before, each record is its row with live status and running turn coerced to unknown, no
  terminal shows a thread, no Integration holds one, and no resume is in flight.
\<close>

theorem restart_is_faithful:
  assumes "reachable s" and "Load_threads (reboot s) = (None, s')"
  shows "map_of (identities s') k = map_of (identities s) k
    \<and> (map_of (view s') i = None \<longleftrightarrow> map_of (view s) i = None)
    \<and> (map_of (view s') i = Some r \<longrightarrow> \<not> isLive (status r) \<and> \<not> turn_running r
         \<and> (\<exists>row. map_of (thread_rows s) i = Some row \<and> (r = row \<or> (\<exists>t. r = (fst (coerceRecord row))\<lparr>updated_at := t\<rparr>))))"
proof -
  note load = Load_rebuilds [OF reachable_threads_inv [OF assms(1)] assms(2)]
  have "\<not> isLive (status r) \<and> \<not> turn_running r
      \<and> (\<exists>row. map_of (thread_rows s) i = Some row \<and> (r = row \<or> (\<exists>t. r = (fst (coerceRecord row))\<lparr>updated_at := t\<rparr>)))"
    if r': "map_of (view s') i = Some r"
  proof -
    obtain t row where row: "map_of (thread_rows s) i = Some row" and r: "r = restarted t row"
      using load(3) [OF r'] by blast
    have "r = row \<or> (\<exists>t. r = (fst (coerceRecord row))\<lparr>updated_at := t\<rparr>)" by (auto simp: r restarted_def)
    then show ?thesis using row restarted_quiet [of t row] unfolding r by blast
  qed
  then show ?thesis using load(2,4) by blast
qed

theorem restart_is_faithful_witness:
  "map_of (identities (snd (Load_threads (reboot server1)))) (''claude'', ''conv'') = Some ''thrd-aaaaa''"
proof -
  have "fst (Load_threads (reboot server1)) = None" by code_simp
  then have "Load_threads (reboot server1) = (None, snd (Load_threads (reboot server1)))" by (simp add: prod_eq_iff)
  from restart_is_faithful [OF server1_reachable this, of "(''claude'', ''conv'')"] show ?thesis
    by (simp add: server1_facts)
qed

subsection \<open>Observations\<close>

lemma moved_active_get:
  assumes inv: "threads_inv s" and i: "i \<noteq> ''''"
  shows "read_string (moved_active i tm s) t = (if t = tm then i else if read_string (active s) t = i then '''' else read_string (active s) t)"
proof -
  let ?act = "filter (\<lambda>(t, x). \<not> (x = i \<and> t \<noteq> tm)) (active s)"
  have d: "distinct (map fst (active s))" using inv by (simp add: inv_parts)
  have "map_of ?act t = (if t \<noteq> tm \<and> map_of (active s) t = Some i then None else map_of (active s) t)" for t
    unfolding map_of_filter_value [OF d, of "\<lambda>t x. \<not> (x = i \<and> t \<noteq> tm)" t] by (auto split: option.splits)
  then show ?thesis
    by (auto simp: moved_active_def Let_def read_string_def i split: option.splits)
qed

text \<open>
  C3. A session observation moves the projection, and only it: the observed terminal shows the thread, any other
  terminal that showed it shows nothing, every other terminal shows what it showed; the thread is not archived and
  carries the observed identity.
\<close>

theorem session_moves_projection:
  assumes "reachable s" and "so_terminal obs \<noteq> ''''"
    and "ObserveSession canon obs s = (Inr i, s')" and "i \<noteq> ''''"
  shows "ActiveThreadID t s' = (if t = so_terminal obs then i
           else if ActiveThreadID t s = i then '''' else ActiveThreadID t s)
    \<and> map_of (identities s') (so_integration obs, so_provider obs) = Some i
    \<and> (\<exists>r. map_of (view s') i = Some r \<and> \<not> archived r)"
proof -
  note inv = reachable_threads_inv [OF assms(1)]
  note out = ObserveSession_outcome [OF inv assms(2,3)]
  have "map_of (identities s') (so_integration obs, so_provider obs) = Some i \<and> (\<exists>r. map_of (view s') i = Some r \<and> \<not> archived r)"
  proof (cases "map_of (identities s) (so_integration obs, so_provider obs)")
    case None
    from out(2) [OF this] show ?thesis by (auto simp: minted_def)
  next
    case (Some j)
    from ObserveSession_known(2,3) [OF inv assms(2) this, of canon] Some show ?thesis by (auto simp: assms(3))
  qed
  then show ?thesis
    using moved_active_get [OF inv assms(4), of "so_terminal obs" t] out(3) [OF refl] by (simp add: ActiveThreadID_def)
qed

definition server2 :: thread_svc where
  "server2 = snd (ObserveSession Some (sample_session ''term-2'') server1)"

lemma server2_facts:
  "ObserveSession Some (sample_session ''term-2'') server1 = (Inr ''thrd-aaaaa'', server2)"
  "sample_session ''term-2''\<lparr>so_terminal := ''term-1''\<rparr> = sample_session ''term-1''"
  "so_terminal (sample_session tm) = tm" "so_integration (sample_session tm) = ''claude''" "so_provider (sample_session tm) = ''conv''"
  unfolding prod_eq_iff server2_def by (simp_all add: sample_session_def) code_simp

theorem session_moves_projection_witness:
  "ActiveThreadID ''term-1'' server2 = '''' \<and> ActiveThreadID ''term-2'' server2 = ''thrd-aaaaa''"
  using session_moves_projection [OF server1_reachable _ server2_facts(1), of "''term-1''"]
    session_moves_projection [OF server1_reachable _ server2_facts(1), of "''term-2''"]
  by (simp add: server2_facts ActiveThreadID_def read_string_def server1_facts)

lemma same_identities_same_threads:
  fixes s s' :: "'a thread_svc_scheme"
  assumes "threads_inv s" and "threads_inv s'" and "identities s' = identities s"
  shows "map_of (view s') i = None \<longleftrightarrow> map_of (view s) i = None"
proof -
  have "map_of (view x) i \<noteq> None \<longleftrightarrow> (\<exists>k. map_of (identities x) k = Some i)" if "threads_inv x" for x :: "'a thread_svc_scheme"
    using inv_keys [OF that] inv_keys_view [OF that, of i] by (metis not_None_eq)
  then show ?thesis using assms by metis
qed

text \<open>
  An identity is stable: a conversation already known, observed in a terminal or reported by its program, is
  answered with the thread it has, and neither the mapping nor the set of threads changes.
\<close>

theorem known_identity_reattaches:
  assumes "reachable s" and "map_of (identities s) (integration, provider) = Some i"
    and "so_integration obs = integration \<and> so_provider obs = provider \<and> so_terminal obs \<noteq> ''''
           \<and> ObserveSession canon obs s = (res, s')
         \<or> eo_integration eobs = integration \<and> eo_provider eobs = provider \<and> ObserveExternal canon eobs s = (res, s')"
  shows "(case res of Inl e \<Rightarrow> True | Inr j \<Rightarrow> j = i)
    \<and> identities s' = identities s \<and> (map_of (view s') x = None \<longleftrightarrow> map_of (view s) x = None)"
proof -
  note inv = reachable_threads_inv [OF assms(1)]
  have "threads_inv s' \<and> identities s' = identities s \<and> (case res of Inl e \<Rightarrow> True | Inr j \<Rightarrow> j = i)"
    using assms(3)
  proof
    assume a: "so_integration obs = integration \<and> so_provider obs = provider \<and> so_terminal obs \<noteq> ''''
           \<and> ObserveSession canon obs s = (res, s')"
    have "map_of (identities s) (so_integration obs, so_provider obs) = Some i" using assms(2) a by simp
    from ObserveSession_known [OF inv _ this, of canon] a show ?thesis by (cases res) simp_all
  next
    assume a: "eo_integration eobs = integration \<and> eo_provider eobs = provider \<and> ObserveExternal canon eobs s = (res, s')"
    then have k: "map_of (identities s) (eo_integration eobs, eo_provider eobs) = Some i" using assms(2) by simp
    have run: "ObserveExternal canon eobs s = (res, s')" using a by blast
    show ?thesis using ObserveExternal_outcome(1,3) [OF inv run] k by blast
  qed
  then show ?thesis using same_identities_same_threads [OF inv, of s' x] by blast
qed

theorem known_identity_reattaches_witness:
  "identities server2 = identities server1"
  using known_identity_reattaches [OF server1_reachable, of "''claude''" "''conv''" "''thrd-aaaaa''"
      "sample_session ''term-2''" Some "Inr ''thrd-aaaaa''" server2]
  by (simp add: server1_facts server2_facts)

text \<open>
  C17. An unknown conversation gets a thread of its own: the id answered was free, only its identity is added, and a
  refusal adds nothing.
\<close>

theorem unknown_identity_mints:
  assumes "reachable s" and "map_of (identities s) (so_integration obs, so_provider obs) = None"
    and "so_terminal obs \<noteq> ''''" and "ObserveSession canon obs s = (res, s')"
  shows "case res of
           Inl e \<Rightarrow> view s' = view s \<and> identities s' = identities s
         | Inr i \<Rightarrow> map_of (view s) i = None
             \<and> (\<exists>r. map_of (view s') i = Some r)
             \<and> (\<forall>k. map_of (identities s') k =
                     (if k = (so_integration obs, so_provider obs) then Some i else map_of (identities s) k))"
  using ObserveSession_outcome(2) [OF reachable_threads_inv [OF assms(1)] assms(3,4,2)]
  by (auto simp: minted_def split: sum.splits)

theorem unknown_identity_mints_witness:
  "map_of (view server0) ''thrd-aaaaa'' = None \<and> (\<exists>r. map_of (view server1) ''thrd-aaaaa'' = Some r)"
proof -
  have run: "ObserveSession Some (sample_session ''term-1'') server0 = (Inr ''thrd-aaaaa'', server1)"
    using server1_facts(1) by (simp add: prod_eq_iff server1_def)
  have "identities server0 = []" by (simp add: server0_def)
  then show ?thesis using unknown_identity_mints [OF server0_reachable _ _ run] by (simp add: server2_facts)
qed

subsection \<open>Submissions, deletion and open\<close>

text \<open>
  C6. One unstarted submission per thread: an accepted submission answers the id that is now pending and shows the
  thread working; while one is pending a second is refused naming it, and a refused one changes no thread.
\<close>

theorem one_submission_at_a_time:
  assumes "reachable s" and "map_of (view s) i = Some r" and "SubmitTurn i s = (res, s')"
  shows "case res of
           Inr t \<Rightarrow> pending r = None
             \<and> (\<exists>r' p. map_of (view s') i = Some r' \<and> pending r' = Some p \<and> pending_turn_id p = t
                      \<and> status r' = ThreadWorking)
         | Inl e \<Rightarrow> view s' = view s \<and> thread_rows s' = thread_rows s
             \<and> (\<forall>p. pending r = Some p \<longrightarrow> e = ErrTurnPending (pending_turn_id p) \<and> s' = s)"
proof (cases "pending r")
  case None
  then show ?thesis
    using SubmitTurn_outcome(3) [OF reachable_threads_inv [OF assms(1)] assms(3)] core_components [of s' s]
    by (cases res) auto
next
  case (Some p)
  then show ?thesis using assms(2,3) by (auto simp: SubmitTurn_def)
qed

definition server3 :: thread_svc where
  "server3 = snd (SubmitTurn ''thrd-aaaaa'' server1)"

lemma server3_reachable: "reachable server3"
  unfolding server3_def by (intro reachable_step [OF server1_reachable] runs thread_step.submit)

theorem one_submission_at_a_time_witness:
  "fst (SubmitTurn ''thrd-aaaaa'' server3) = Inl (ErrTurnPending ''turn-zz'')"
proof -
  obtain r where r: "map_of (view server3) ''thrd-aaaaa'' = Some r" and p: "map_option pending_turn_id (pending r) = Some ''turn-zz''"
  proof -
    have "map_of (view server3) ''thrd-aaaaa'' \<noteq> None"
      "map_option pending_turn_id (pending (the (map_of (view server3) ''thrd-aaaaa''))) = Some ''turn-zz''"
      by code_simp+
    then show ?thesis using that by fastforce
  qed
  then show ?thesis
    using one_submission_at_a_time [OF server3_reachable r surjective_pairing] by (auto split: sum.splits)
qed

text \<open>
  A ledger of the opens under way, kept beside the server: the threads of the opens that were told to resume and have not
  finished. An open that is told to resume enters its thread; it finishes once, and only then leaves the ledger. Any other
  step of the server may happen in between; a step with the effect of a critical section of \<^verbatim>\<open>Open\<close> is that section.
\<close>

inductive opens_step :: "'a thread_svc_scheme \<times> string list \<Rightarrow> 'a thread_svc_scheme \<times> string list \<Rightarrow> bool" where
  told_to_resume: "open_begin i s = (BeginResumes req, s') \<Longrightarrow> opens_step (s, L) (s', i # L)"
| told_otherwise: "open_begin i s = (b, s') \<Longrightarrow> (\<And>req. b \<noteq> BeginResumes req) \<Longrightarrow> opens_step (s, L) (s', L)"
| finished: "i \<in> set L \<Longrightarrow> opens_step (s, L) (open_finish i s, remove1 i L)"
| beside: "thread_step s s' \<Longrightarrow> (\<And>i. s' \<noteq> snd (open_begin i s)) \<Longrightarrow> (\<And>i. i \<in> set L \<Longrightarrow> s' \<noteq> open_finish i s)
    \<Longrightarrow> opens_step (s, L) (s', L)"

inductive_cases opens_stepE: "opens_step (s, L) y"

definition ledger_ok :: "'a thread_svc_scheme \<Rightarrow> string list \<Rightarrow> bool" where
  "ledger_ok s L \<longleftrightarrow> threads_inv s \<and> distinct L \<and> set L = set (in_flight s)"

lemma finish_marks: "set (in_flight (open_finish i s)) = set (in_flight s) - {i}"
  by (simp add: open_finish_def)

lemma opens_step_ok:
  assumes "opens_step (s, L) (s', L')" and "ledger_ok s L"
  shows "ledger_ok s' L'"
proof -
  have inv: "threads_inv s" and d: "distinct L" and L: "set L = set (in_flight s)"
    using assms(2) by (simp_all add: ledger_ok_def)
  show ?thesis
    using assms(1)
  proof (cases rule: opens_step.cases)
    case (told_to_resume i req)
    note out = open_begin_outcome(1,2) [OF inv told_to_resume(2)]
    then show ?thesis using d L told_to_resume(1) by (simp add: ledger_ok_def)
  next
    case (told_otherwise i b)
    note out = open_begin_outcome(1,3) [OF inv told_otherwise(2)]
    then show ?thesis using d L told_otherwise(1,3) by (simp add: ledger_ok_def)
  next
    case (finished i)
    then show ?thesis using open_finish_inv [OF inv] d L by (simp add: ledger_ok_def finish_marks)
  next
    case beside
    have "set (in_flight s') = set (in_flight s)"
      using thread_step_marks [OF inv beside(2)]
    proof (elim disjE exE conjE)
      fix i req assume "open_begin i s = (BeginResumes req, s')"
      then show ?thesis using beside(3) [of i] by simp
    next
      fix i assume "s' = open_finish i s"
      then show ?thesis using beside(4) [of i] L by (auto simp: finish_marks)
    qed simp
    then show ?thesis using thread_step_inv [OF beside(2) inv] d L beside(1) by (simp add: ledger_ok_def)
  qed
qed

lemma opens_run_ok:
  "opens_step\<^sup>*\<^sup>* (s0, L0) (s, L) \<Longrightarrow> ledger_ok s0 L0 \<Longrightarrow> ledger_ok s L"
  by (induction "(s, L)" arbitrary: s L rule: rtranclp_induct) (auto dest: opens_step_ok)

lemma marked_open_resumes_nothing:
  "threads_inv s \<Longrightarrow> i \<in> set (in_flight s) \<Longrightarrow> fst (open_begin i s) \<noteq> BeginResumes req"
  using open_begin_outcome(2) [OF _ surjective_pairing, of s i] by auto

text \<open>
  C16. At most one resume per thread is in flight: however opens of threads interleave with each other and with every
  other step of the server, the opens told to resume and not finished are of distinct threads, exactly the marked ones; an
  open of one of them is not told to resume. The marks themselves change only when an open is told to resume, which
  happens for an unmarked thread only, and when an open finishes.
\<close>

theorem one_resume_per_thread:
  assumes "reachable s0" and "in_flight s0 = []" and "opens_step\<^sup>*\<^sup>* (s0, []) (s, L)"
  shows "distinct L \<and> set L = set (in_flight s)
    \<and> (\<forall>i \<in> set L. \<forall>req. fst (open_begin i s) \<noteq> BeginResumes req)
    \<and> (\<forall>s'. thread_step s s' \<longrightarrow>
         in_flight s' = in_flight s
       \<or> (\<exists>i req. open_begin i s = (BeginResumes req, s') \<and> i \<notin> set (in_flight s)
            \<and> set (in_flight s') = insert i (set (in_flight s)))
       \<or> (\<exists>i. s' = open_finish i s))"
proof -
  have "ledger_ok s0 []" using reachable_threads_inv [OF assms(1)] assms(2) by (simp add: ledger_ok_def)
  then have "ledger_ok s L" using opens_run_ok [OF assms(3)] by simp
  then have inv: "threads_inv s" and L: "distinct L" "set L = set (in_flight s)" by (simp_all add: ledger_ok_def)
  show ?thesis
    using L marked_open_resumes_nothing [OF inv] thread_step_marks [OF inv] by (intro conjI allI impI ballI) auto
qed

definition sample_conversation :: external_observation where
  "sample_conversation =
     \<lparr>eo_integration = ''t3code'', eo_provider = ''x1'', eo_directory = ''/w'', eo_at = 0, eo_status = ThreadIdle,
      eo_agent = [], eo_title = ''ext'', eo_detail = [], eo_turn = None,
      eo_metadata = \<lparr>md_title = [], md_model = [], md_effort = [], md_cwd = [], md_permission_mode = []\<rparr>\<rparr>"

text \<open>The sample server with a conversation a program owns, and a resume of it begun.\<close>

definition server4 :: thread_svc where
  "server4 = snd (ObserveExternal Some sample_conversation server1)"

lemma server4_reachable: "reachable server4"
  unfolding server4_def by (intro reachable_step [OF server1_reachable] runs thread_step.observe_external)

lemma server4_open:
  "in_flight server4 = []" "in_flight (snd (open_begin ''thrd-bbbbb'' server4)) = [''thrd-bbbbb'']"
  "fst (open_begin ''thrd-bbbbb'' (snd (open_begin ''thrd-bbbbb'' server4))) = BeginWaits"
  "(case fst (open_begin ''thrd-bbbbb'' server4) of BeginResumes req \<Rightarrow> rr_provider req | _ \<Rightarrow> '''') = ''x1''"
  by code_simp+

theorem one_resume_per_thread_witness:
  "\<exists>req s. open_begin ''thrd-bbbbb'' server4 = (BeginResumes req, s) \<and> set (in_flight s) = {''thrd-bbbbb''}
     \<and> fst (open_begin ''thrd-bbbbb'' s) = BeginWaits"
proof -
  obtain b s where b: "open_begin ''thrd-bbbbb'' server4 = (b, s)" by (cases "open_begin ''thrd-bbbbb'' server4")
  then obtain req where r: "open_begin ''thrd-bbbbb'' server4 = (BeginResumes req, s)"
    using server4_open(4) by (cases b) auto
  have run: "opens_step\<^sup>*\<^sup>* (server4, []) (s, [''thrd-bbbbb''])"
    using told_to_resume [OF r, of "[]"] by (rule r_into_rtranclp)
  have "set [''thrd-bbbbb''] = set (in_flight s)"
    using one_resume_per_thread [OF server4_reachable server4_open(1) run] by simp
  then show ?thesis using r server4_open(3) by auto
qed

lemma remove_thread_run:
  assumes "remove_thread i s = (None, s')"
  shows "view s' = AList.delete i (view s) \<and> thread_rows s' = AList.delete i (thread_rows s)
    \<and> identity_rows s' = filter (\<lambda>(k, t). t \<noteq> i) (identity_rows s)
    \<and> identities s' = (case map_of (keys s) i of Some k \<Rightarrow> AList.delete k (identities s) | None \<Rightarrow> identities s)
    \<and> prior_status s' = AList.delete i (prior_status s) \<and> held s' = removeAll i (held s)
    \<and> active s' = active s \<and> in_flight s' = in_flight s"
    and "terminal_rows s' = terminal_rows s \<and> space_rows s' = space_rows s \<and> project_rows s' = project_rows s
    \<and> term_view s' = term_view s
    \<and> events_log s' = events_log s @ [\<lparr>ev_type = EventThreadDeleted, ev_resource = thread_resource, ev_id = i\<rparr>]"
  using assms
  by (auto simp: remove_thread_def Threads_Delete_def Let_def io_step_def forgetPrior_def forgetIdentity_def release_def
      Publish_def split: if_splits option.splits prod.splits sum.splits)

lemma remove_thread_fails: "remove_thread i s = (Some e, s') \<Longrightarrow> core s' = core s \<and> events_log s' = events_log s"
  by (auto simp: remove_thread_def Threads_Delete_def Let_def io_step_def core_def split: if_splits)

text \<open>
  C7. Deletion is refused while anything holds the thread or a resume is in flight. An accepted one removes the thread,
  its row and its identity, from the view and from the database, and nothing else: the view entries, rows, identities,
  identity rows, holds and remembered statuses of the other threads stay, and so do the terminals, Spaces and Projects. A
  refused one changes no thread, row, identity, hold or mark.
\<close>

theorem deletion_is_guarded:
  assumes "reachable s" and "Delete_thread i s = (e, s')"
  shows "if e = None
         then holder i s = '''' \<and> i \<notin> set (in_flight s)
            \<and> map_of (view s') i = None \<and> map_of (thread_rows s') i = None
            \<and> (\<forall>k. map_of (identities s') k \<noteq> Some i) \<and> (\<forall>(k, t) \<in> set (identity_rows s'). t \<noteq> i)
            \<and> (\<forall>j. j \<noteq> i \<longrightarrow> map_of (view s') j = map_of (view s) j \<and> map_of (thread_rows s') j = map_of (thread_rows s) j
                 \<and> map_of (prior_status s') j = map_of (prior_status s) j \<and> (j \<in> set (held s') \<longleftrightarrow> j \<in> set (held s))
                 \<and> (\<forall>k. (map_of (identities s') k = Some j \<longleftrightarrow> map_of (identities s) k = Some j)
                        \<and> ((k, j) \<in> set (identity_rows s') \<longleftrightarrow> (k, j) \<in> set (identity_rows s))))
            \<and> active s' = active s \<and> in_flight s' = in_flight s
            \<and> terminal_rows s' = terminal_rows s \<and> space_rows s' = space_rows s \<and> project_rows s' = project_rows s
            \<and> events_log s' = events_log s @ [\<lparr>ev_type = EventThreadDeleted, ev_resource = thread_resource, ev_id = i\<rparr>]
         else core s' = core s \<and> view s' = view s \<and> thread_rows s' = thread_rows s \<and> identities s' = identities s
            \<and> identity_rows s' = identity_rows s \<and> held s' = held s \<and> in_flight s' = in_flight s
            \<and> events_log s' = events_log s"
proof (cases e)
  case None
  note inv = reachable_threads_inv [OF assms(1)]
  have inv': "threads_inv s'" using Delete_thread_inv [OF inv, of i] assms(2) by simp
  have g: "holder i s = ''''" "i \<notin> set (in_flight s)" and rm: "remove_thread i s = (None, s')"
    using assms(2) None by (auto simp: Delete_thread_def split: if_splits)
  note run = remove_thread_run [OF rm]
  have gone: "map_of (identities s') k \<noteq> Some i" for k
    using inv_keys [OF inv', of k i] inv_keys_view [OF inv', of i] run(1) by auto
  have ids: "map_of (identities s') k = Some j \<longleftrightarrow> map_of (identities s) k = Some j" if "j \<noteq> i" for k j
  proof (cases "map_of (keys s) i")
    case (Some own)
    then have "map_of (identities s) own = Some i" using inv_keys [OF inv, of own i] by simp
    then show ?thesis using run(1) Some that by (cases "k = own") auto
  qed (use run(1) in simp)
  have rows: "(k, j) \<in> set (identity_rows s') \<longleftrightarrow> (k, j) \<in> set (identity_rows s)" if "j \<noteq> i" for k j
    using run(1) that by simp
  have gone_rows: "\<forall>(k, t) \<in> set (identity_rows s'). t \<noteq> i" using run(1) by auto
  have maps: "map_of (view s') i = None" "map_of (thread_rows s') i = None"
    "j \<noteq> i \<Longrightarrow> map_of (view s') j = map_of (view s) j" "j \<noteq> i \<Longrightarrow> map_of (thread_rows s') j = map_of (thread_rows s) j"
    "j \<noteq> i \<Longrightarrow> map_of (prior_status s') j = map_of (prior_status s) j"
    "j \<noteq> i \<Longrightarrow> j \<in> set (held s') \<longleftrightarrow> j \<in> set (held s)" for j
    using run(1) by simp_all
  have same: "active s' = active s" "in_flight s' = in_flight s" using run(1) by blast+
  show ?thesis
    unfolding None if_P [OF refl]
    by (intro conjI allI impI) (fact g gone gone_rows maps same run(2) [THEN conjunct1] | erule maps ids rows | use run(2) in blast)+
next
  case (Some x)
  then have "core s' = core s \<and> events_log s' = events_log s"
    using assms(2) remove_thread_fails [of i s x s'] by (auto simp: Delete_thread_def split: if_splits)
  then show ?thesis using Some core_components [of s' s] by simp
qed

text \<open>The held thread of the sample server is kept; the conversation a program owned is deleted beside it, once the Integration
  has released it.\<close>

definition server5 :: thread_svc where
  "server5 = ReleaseIntegration ''t3code'' server4"

lemma server5_reachable: "reachable server5"
  unfolding server5_def by (intro reachable_step [OF server4_reachable] runs thread_step.release_integration)

lemma server5_deletes: "fst (Delete_thread ''thrd-bbbbb'' server5) = None" "map_of (view server5) ''thrd-bbbbb'' \<noteq> None"
  "map_of (view server5) ''thrd-aaaaa'' \<noteq> None" "map_of (identities server5) (''claude'', ''conv'') = Some ''thrd-aaaaa''"
  "holder ''thrd-aaaaa'' server1 \<noteq> ''''"
  by code_simp+

theorem deletion_is_guarded_witness:
  "fst (Delete_thread ''thrd-aaaaa'' server1) \<noteq> None
   \<and> map_of (view (snd (Delete_thread ''thrd-bbbbb'' server5))) ''thrd-bbbbb'' = None
   \<and> map_of (view (snd (Delete_thread ''thrd-bbbbb'' server5))) ''thrd-aaaaa'' \<noteq> None
   \<and> map_of (identities (snd (Delete_thread ''thrd-bbbbb'' server5))) (''claude'', ''conv'') = Some ''thrd-aaaaa''"
proof -
  have "fst (Delete_thread ''thrd-aaaaa'' server1) \<noteq> None"
    using deletion_is_guarded [OF server1_reachable surjective_pairing, of "''thrd-aaaaa''"] server5_deletes(5)
    by (simp split: if_splits)
  moreover note deletion_is_guarded [OF server5_reachable surjective_pairing, of "''thrd-bbbbb''"]
  ultimately show ?thesis using server5_deletes by simp
qed

end
