(* ===== verification/Classification.thy ===== *)
theory Classification
  imports Server "HOL-Library.Sublist"
begin

text \<open>
  Which project a directory belongs to: containment of canonical paths against path segments, the deepest containing
  project, and the backfill of unassigned threads.
\<close>

declare map_of_eq_Some_iff [simp del] Some_eq_map_of_iff [simp del]

subsection \<open>Containment\<close>

text \<open>A canonical path as its segments: each one follows a slash; the root has none.\<close>

definition join_segments :: "string list \<Rightarrow> string" where
  "join_segments xs = concat (map (\<lambda>x. CHR ''/'' # x) xs)"

definition path_of :: "string list \<Rightarrow> string" where
  "path_of xs = (if xs = [] then ''/'' else join_segments xs)"

definition segment :: "string \<Rightarrow> bool" where
  "segment x \<longleftrightarrow> x \<noteq> '''' \<and> CHR ''/'' \<notin> set x"

lemma join_simps [simp]: "join_segments [] = ''''" "join_segments (x # xs) = CHR ''/'' # x @ join_segments xs"
  by (simp_all add: join_segments_def)

lemma HasPrefix_prefix: "HasPrefix s p \<longleftrightarrow> prefix p s"
  by (simp add: HasPrefix_iff prefix_def)

lemma segment_cut:
  assumes "CHR ''/'' \<notin> set x" and "CHR ''/'' \<notin> set y"
  shows "prefix (x @ CHR ''/'' # u) (y @ CHR ''/'' # v) \<longleftrightarrow> x = y \<and> prefix u v"
  using assms
proof (induction x arbitrary: y)
  case Nil
  then show ?case by (cases y) auto
next
  case (Cons c x)
  then show ?case by (cases y) auto
qed

lemma join_slash: "\<exists>u. join_segments xs @ ''/'' = CHR ''/'' # u"
  by (cases xs) auto

lemma join_prefix:
  "list_all segment xs \<Longrightarrow> list_all segment ys \<Longrightarrow>
     prefix (join_segments xs @ ''/'') (join_segments ys @ ''/'') \<longleftrightarrow> prefix xs ys"
proof (induction xs arbitrary: ys)
  case Nil
  show ?case by (cases ys) simp_all
next
  case (Cons x xs)
  show ?case
  proof (cases ys)
    case Nil
    then show ?thesis using Cons.prems by (auto simp: segment_def)
  next
    case ys: (Cons y ys')
    obtain u where u: "join_segments xs @ ''/'' = CHR ''/'' # u" using join_slash by blast
    obtain v where v: "join_segments ys' @ ''/'' = CHR ''/'' # v" using join_slash by blast
    have "prefix (x @ CHR ''/'' # u) (y @ CHR ''/'' # v) \<longleftrightarrow> x = y \<and> prefix u v"
      using Cons.prems by (intro segment_cut) (auto simp: segment_def ys)
    moreover have "prefix u v \<longleftrightarrow> prefix xs ys'"
      using Cons.IH [of ys'] Cons.prems unfolding u v by (simp add: ys)
    ultimately show ?thesis using u v by (simp add: ys)
  qed
qed

text \<open>
  Containment respects path segments: of canonical paths, one contains the other exactly when its segments are a
  prefix of the other's, so \<^verbatim>\<open>/a/b\<close> contains \<^verbatim>\<open>/a/b/c\<close> but not \<^verbatim>\<open>/a/bc\<close>, and the root contains everything.
\<close>

theorem contains_by_segments:
  assumes "list_all segment xs" and "list_all segment ys"
  shows "contains (path_of xs) (path_of ys) \<longleftrightarrow> prefix xs ys"
proof (cases "xs = []")
  case True
  then show ?thesis by (cases ys) (auto simp: contains_def path_of_def IsAbs_def)
next
  case xs: False
  show ?thesis
  proof (cases "ys = []")
    case True
    then show ?thesis using xs assms by (cases xs) (auto simp: contains_def path_of_def segment_def HasPrefix_prefix)
  next
    case ys: False
    have "join_segments xs \<noteq> ''/''" using xs assms by (cases xs) (auto simp: segment_def)
    then have "contains (path_of xs) (path_of ys) \<longleftrightarrow> prefix (join_segments xs @ ''/'') (join_segments ys @ ''/'')"
      using xs ys by (auto simp: contains_def path_of_def HasPrefix_prefix)
    then show ?thesis using join_prefix [OF assms] by simp
  qed
qed

theorem contains_by_segments_witness:
  "contains ''/a/b'' ''/a/b/c'' \<and> \<not> contains ''/a/b'' ''/a/bc''"
  using contains_by_segments [of "[''a'', ''b'']" "[''a'', ''b'', ''c'']"]
    contains_by_segments [of "[''a'', ''b'']" "[''a'', ''bc'']"]
  by (simp add: path_of_def segment_def)

subsection \<open>The deepest project\<close>

lemma contains_prefix: "contains root dir \<Longrightarrow> prefix root dir"
  by (auto simp: contains_def IsAbs_def HasPrefix_prefix prefix_def split: if_splits)

definition deepest :: "project_record list \<Rightarrow> string \<Rightarrow> project_record option \<Rightarrow> bool" where
  "deepest ps dir best \<longleftrightarrow>
     (case best of
        None \<Rightarrow> \<forall>q \<in> set ps. \<not> contains (proj_directory q) dir
      | Some p \<Rightarrow> p \<in> set ps \<and> contains (proj_directory p) dir
          \<and> (\<forall>q \<in> set ps. contains (proj_directory q) dir \<longrightarrow> length (proj_directory q) \<le> length (proj_directory p)))"

lemma deepest_step: "deepest ps dir best \<Longrightarrow> deepest (ps @ [p]) dir (more_specific dir p best)"
  by (cases best) (auto simp: deepest_def more_specific_def)

lemma fold_deepest: "deepest ps dir (fold (more_specific dir) ps None)"
proof (induction ps rule: rev_induct)
  case (snoc p ps)
  then show ?case using deepest_step [of ps dir _ p] by (simp del: append_Cons)
qed (simp add: deepest_def)

text \<open>
  C14. A directory belongs to the deepest project that contains it, and to none exactly when none contains it; since
  project directories are unique, the order in which the projects are listed does not matter.
\<close>

theorem deepest_project_wins:
  assumes "distinct (map proj_directory ps)" and "set qs = set ps"
  shows "mostSpecific qs dir = mostSpecific ps dir
    \<and> (if \<exists>p \<in> set ps. contains (proj_directory p) dir
       then \<exists>p \<in> set ps. contains (proj_directory p) dir \<and> mostSpecific ps dir = proj_id p
              \<and> (\<forall>q \<in> set ps. contains (proj_directory q) dir \<longrightarrow> prefix (proj_directory q) (proj_directory p))
       else mostSpecific ps dir = '''')"
proof -
  have unique: "p = q" if a: "deepest ps dir (Some p)" and b: "deepest qs dir (Some q)" for p q
  proof -
    have "prefix (proj_directory p) dir" "prefix (proj_directory q) dir"
      using a b by (auto simp: deepest_def intro: contains_prefix)
    moreover have "length (proj_directory p) = length (proj_directory q)"
      using a b assms(2) by (auto simp: deepest_def intro: le_antisym)
    ultimately have "proj_directory p = proj_directory q" by (auto simp: prefix_def)
    moreover have "p \<in> set ps" "q \<in> set ps" using a b assms(2) by (auto simp: deepest_def)
    ultimately show "p = q" using assms(1) by (auto simp: distinct_map dest: inj_onD)
  qed
  let ?p = "fold (more_specific dir) ps None" and ?q = "fold (more_specific dir) qs None"
  have d: "deepest ps dir ?p" "deepest qs dir ?q" by (rule fold_deepest)+
  have same: "?q = ?p"
    using d unique assms(2) by (cases ?p; cases ?q) (auto simp: deepest_def)
  show ?thesis
  proof (cases ?p)
    case None
    then show ?thesis using d same by (auto simp: mostSpecific_def deepest_def)
  next
    case (Some p)
    have "prefix (proj_directory q) (proj_directory p)" if "q \<in> set ps" "contains (proj_directory q) dir" for q
      using d(1) that contains_prefix [of _ dir] prefix_length_prefix [of "proj_directory q" dir "proj_directory p"]
      by (auto simp: Some deepest_def)
    then show ?thesis using d(1) same Some by (auto simp: mostSpecific_def deepest_def)
  qed
qed

theorem deepest_project_wins_witness:
  "mostSpecific [sample_project, sample_project\<lparr>proj_id := ''proj-2'', proj_directory := ''/w/x''\<rparr>] ''/w/x/y'' = ''proj-2''"
proof -
  let ?q = "sample_project\<lparr>proj_id := ''proj-2'', proj_directory := ''/w/x''\<rparr>"
  have "mostSpecific [?q, sample_project] ''/w/x/y'' = ''proj-2''" by code_simp
  moreover have "distinct (map proj_directory [sample_project, ?q])" by (simp add: sample_project_def)
  moreover have "set [?q, sample_project] = set [sample_project, ?q]" by auto
  ultimately show ?thesis using deepest_project_wins [THEN conjunct1] by metis
qed

subsection \<open>Backfill\<close>

lemma AssignProject_refused:
  assumes inv: "threads_inv s" and r: "map_of (view s) i = Some r" and "project_id r = ''''"
  shows "fst (Threads_AssignProject i p t s) \<noteq> Inr False"
proof -
  obtain row where row: "map_of (thread_rows s) i = Some row" using inv_rows [OF inv r] by blast
  have "project_id row = ''''" using inv_rows [OF inv r] row assms(3) by (auto simp: row_agrees_def)
  then show ?thesis using row by (auto simp: Threads_AssignProject_def Let_def io_step_def)
qed

definition filed :: "string \<Rightarrow> time \<Rightarrow> thread_record \<Rightarrow> thread_record" where
  "filed p t r = r\<lparr>project_id := p, updated_at := t\<rparr>"

text \<open>What one round of assignments leaves of a thread: itself, or itself filed under the project chosen for it.\<close>

lemma backfill_each_outcome:
  assumes "threads_inv s" and "distinct (map fst as)" and "backfill_each as t s = (e, s')"
    and "map_of (view s) j = Some r"
  shows "map_of (view s') j = Some r \<and> (e = None \<longrightarrow> project_id r = '''' \<longrightarrow> map_of as j = None)
       \<or> (\<exists>p. project_id r = '''' \<and> map_of as j = Some p \<and> map_of (view s') j = Some (filed p t r))"
  using assms
proof (induction as arbitrary: s r)
  case (Cons a rest)
  obtain i p where a: "a = (i, p)" by (cases a)
  obtain res s1 where run: "Threads_AssignProject i p t s = (res, s1)" by (cases "Threads_AssignProject i p t s")
  have ni: "i \<notin> fst ` set rest" using Cons.prems(2) a by simp
  from AssignProject_cases [OF Cons.prems(1) run] show ?case
  proof
    assume *: "core s1 = core s \<and> res \<noteq> Inr True"
    then have inv1: "threads_inv s1" and v1: "map_of (view s1) j = Some r"
      using Cons.prems(1,4) threads_inv_core core_components [of s1 s] by auto
    show ?thesis
    proof (cases res)
      case (Inl x)
      then show ?thesis using Cons.prems(3) run v1 a by auto
    next
      case (Inr b)
      then have "b = False" using * by simp
      then have rest: "backfill_each rest t s1 = (e, s')" using Cons.prems(3) run Inr a by simp
      have "i \<noteq> j \<or> project_id r \<noteq> ''''"
        using AssignProject_refused [OF Cons.prems(1,4), of p t] run Inr \<open>b = False\<close> by auto
      moreover note Cons.IH [OF inv1 _ rest v1]
      ultimately show ?thesis using Cons.prems(2) a by auto
    qed
  next
    assume "res = Inr True \<and> (\<exists>r row. map_of (view s) i = Some r \<and> map_of (thread_rows s) i = Some row
            \<and> project_id r = '''' \<and> row_agrees row r
            \<and> core s1 = core (s\<lparr>thread_rows := AList.update i (row\<lparr>project_id := p, updated_at := t\<rparr>) (thread_rows s)\<rparr>))"
    then obtain ri row where res: "res = Inr True" and ri: "map_of (view s) i = Some ri"
      and row: "map_of (thread_rows s) i = Some row" and np: "project_id ri = ''''" and ag: "row_agrees row ri"
      and c1: "core s1 = core (s\<lparr>thread_rows := AList.update i (row\<lparr>project_id := p, updated_at := t\<rparr>) (thread_rows s)\<rparr>)"
      by blast
    note v1 = core_components [OF c1]
    let ?s2 = "Publish EventThreadUpdated thread_resource i
        (s1\<lparr>view := AList.update i (ri\<lparr>project_id := p, updated_at := t\<rparr>) (view s1)\<rparr>)"
    have c2: "core ?s2 = core (s\<lparr>thread_rows := AList.update i (row\<lparr>project_id := p, updated_at := t\<rparr>) (thread_rows s),
                       view := AList.update i (ri\<lparr>project_id := p, updated_at := t\<rparr>) (view s)\<rparr>)"
      using v1 by (simp add: core_def Publish_def)
    have inv2: "threads_inv ?s2"
      using assigned_inv [OF Cons.prems(1) ri row ag, where p = p and t = t] threads_inv_core [OF c2] by simp
    have rest: "backfill_each rest t ?s2 = (e, s')" using Cons.prems(3) run res v1 ri np a by simp
    have view2: "map_of (view ?s2) j = (if j = i then Some (filed p t ri) else map_of (view s) j)"
      using core_components [OF c2] by (simp add: filed_def)
    show ?thesis
    proof (cases "j = i")
      case True
      then have "map_of rest j = None" using ni by (simp add: map_of_eq_None_iff)
      moreover have "map_of (view ?s2) j = Some (filed p t r)" using view2 True ri Cons.prems(4) by simp
      ultimately have "map_of (view s') j = Some (filed p t r)"
        using Cons.IH [OF inv2 _ rest] Cons.prems(2) a by fastforce
      then show ?thesis using True np ri Cons.prems(4) a by simp
    next
      case False
      then have "map_of (view ?s2) j = Some r" using view2 Cons.prems(4) by simp
      from Cons.IH [OF inv2 _ rest this] show ?thesis using Cons.prems(2) a False by auto
    qed
  qed
qed simp

lemma map_of_map_filter:
  "distinct (map fst xs) \<Longrightarrow>
     map_of (List.map_filter (\<lambda>(i, r). map_option (Pair i) (f r)) xs) j = Option.bind (map_of xs j) f"
proof (induction xs)
  case (Cons x xs)
  obtain i r where x: "x = (i, r)" by (cases x)
  show ?case
  proof (cases "f r")
    case None
    have "i \<notin> fst ` set xs" using Cons.prems x by simp
    then have "map_of xs i = None" by (simp add: map_of_eq_None_iff)
    then show ?thesis using Cons None x by (simp add: List.map_filter_simps)
  next
    case (Some v)
    then show ?thesis using Cons x by (simp add: List.map_filter_simps)
  qed
qed (simp add: List.map_filter_simps)

lemma distinct_map_filter:
  "distinct (map fst xs) \<Longrightarrow> distinct (map fst (List.map_filter (\<lambda>(i, r). map_option (Pair i) (f r)) xs))"
proof (induction xs)
  case (Cons x xs)
  have "fst ` set (List.map_filter (\<lambda>(i, r). map_option (Pair i) (f r)) xs) \<subseteq> fst ` set xs"
    by (force simp: List.map_filter_def)
  then show ?case using Cons by (cases x; cases "f (snd x)") (auto simp: List.map_filter_simps)
qed (simp add: List.map_filter_simps)

lemma map_of_sort_key:
  assumes "distinct (map fst xs)"
  shows "map_of (sort_key fst xs) = map_of xs" and "distinct (map fst (sort_key fst xs))"
proof -
  have "mset (map fst (sort_key fst xs)) = mset (map fst xs)" by simp
  then show d: "distinct (map fst (sort_key fst xs))" using assms mset_eq_imp_distinct_iff by blast
  show "map_of (sort_key fst xs) = map_of xs"
  proof
    fix k
    have "map_of (sort_key fst xs) k = Some v \<longleftrightarrow> map_of xs k = Some v" for v
      unfolding map_of_eq_Some_iff [OF d] map_of_eq_Some_iff [OF assms] by simp
    then show "map_of (sort_key fst xs) k = map_of xs k"
      by (cases "map_of xs k"; cases "map_of (sort_key fst xs) k") auto
  qed
qed

text \<open>The assignment \<^verbatim>\<open>Backfill\<close> works out for a thread.\<close>

definition chosen :: "project_record list \<Rightarrow> thread_record \<Rightarrow> string option" where
  "chosen ps r =
     (if project_id r \<noteq> '''' \<or> initial_directory r = '''' \<or> mostSpecific ps (initial_directory r) = '''' then None
      else Some (mostSpecific ps (initial_directory r)))"

lemma Backfill_run:
  assumes inv: "threads_inv s" and run: "Backfill s = (e, s')"
    and ps: "ps = sort_key (\<lambda>r. (proj_created_at r, proj_id r)) (map snd (project_rows s))"
  shows "core s' = core s \<and> e \<noteq> None
       \<or> (\<exists>as t s2. core s2 = core s \<and> backfill_each as t s2 = (e, s') \<and> distinct (map fst as)
            \<and> (\<forall>j. map_of as j = Option.bind (map_of (view s) j) (chosen ps)))"
proof -
  obtain res s1 where l: "Projects_List s = (res, s1)" by (cases "Projects_List s")
  have c1: "core s1 = core s" using core_Projects_List [of s] by (simp add: l)
  show ?thesis
  proof (cases res)
    case (Inl x)
    then show ?thesis using run l c1 by (auto simp: Backfill_def)
  next
    case (Inr qs)
    have qs: "qs = ps" using l Inr ps by (auto simp: Projects_List_def Let_def io_step_def split: if_splits)
    obtain t s2 where n: "now s1 = (t, s2)" by (cases "now s1")
    have c2: "core s2 = core s" using now_core [OF n] c1 by simp
    let ?as = "List.map_filter (\<lambda>(i, r). map_option (Pair i) (chosen ps r)) (view s)"
    have eq: "(\<lambda>(i, r). if project_id r \<noteq> '''' \<or> initial_directory r = '''' then None
                      else if mostSpecific ps (initial_directory r) = '''' then None
                      else Some (i, mostSpecific ps (initial_directory r)))
            = (\<lambda>(i, r). map_option (Pair i) (chosen ps r))"
      by (auto simp: chosen_def fun_eq_iff)
    have v1: "view s1 = view s" using core_components [OF c1] by simp
    have "Backfill s = backfill_each (sort_key fst ?as) t s2"
      unfolding Backfill_def l Inr prod.case sum.case qs n Let_def v1 eq by (rule refl)
    then have "backfill_each (sort_key fst ?as) t s2 = (e, s')" using run by simp
    moreover have d: "distinct (map fst (view s))" using inv by (simp add: threads_inv_def ids_inv_def)
    note s = map_of_sort_key [OF distinct_map_filter [OF d, of "chosen ps"]]
    have "distinct (map fst (sort_key fst ?as))" by (rule s(2))
    moreover have "map_of (sort_key fst ?as) j = Option.bind (map_of (view s) j) (chosen ps)" for j
      unfolding s(1) by (rule map_of_map_filter [OF d])
    ultimately show ?thesis using c2 by blast
  qed
qed

text \<open>
  Backfill files the unassigned and nothing else: a thread with a project keeps it, an unassigned one changes at most
  in its project and update time, to the deepest project containing its origin directory, and after a successful
  backfill it has that project.
\<close>

theorem backfill_files_the_unassigned:
  assumes "reachable s" and "Backfill s = (e, s')" and "map_of (view s) j = Some r"
    and "p = mostSpecific (sort_key (\<lambda>r. (proj_created_at r, proj_id r)) (map snd (project_rows s))) (initial_directory r)"
  shows "\<exists>r'. map_of (view s') j = Some r'
       \<and> (r' = r \<or> project_id r = '''' \<and> (\<exists>t. r' = r\<lparr>project_id := p, updated_at := t\<rparr>))
       \<and> (e = None \<and> project_id r = '''' \<and> initial_directory r \<noteq> '''' \<longrightarrow> project_id r' = p)"
proof -
  note inv = reachable_threads_inv [OF assms(1)]
  from Backfill_run [OF inv assms(2) refl] show ?thesis
  proof
    assume *: "core s' = core s \<and> e \<noteq> None"
    then have "map_of (view s') j = Some r" using core_components [of s' s] assms(3) by simp
    then show ?thesis using * by auto
  next
    let ?ps = "sort_key (\<lambda>r. (proj_created_at r, proj_id r)) (map snd (project_rows s))"
    assume "\<exists>as t s2. core s2 = core s \<and> backfill_each as t s2 = (e, s') \<and> distinct (map fst as)
            \<and> (\<forall>j. map_of as j = Option.bind (map_of (view s) j) (chosen ?ps))"
    then obtain as t s2 where c2: "core s2 = core s" and be: "backfill_each as t s2 = (e, s')"
      and d: "distinct (map fst as)" and as: "map_of as j = chosen ?ps r"
      using assms(3) by auto
    have inv2: "threads_inv s2" using inv threads_inv_core [OF c2] by simp
    have v2: "map_of (view s2) j = Some r" using core_components [OF c2] assms(3) by simp
    from backfill_each_outcome [OF inv2 d be v2] show ?thesis
    proof
      assume "map_of (view s') j = Some r \<and> (e = None \<longrightarrow> project_id r = '''' \<longrightarrow> map_of as j = None)"
      then show ?thesis by (auto simp: as chosen_def assms(4) split: if_splits)
    next
      assume "\<exists>p. project_id r = '''' \<and> map_of as j = Some p \<and> map_of (view s') j = Some (filed p t r)"
      then show ?thesis by (auto simp: as chosen_def assms(4) filed_def split: if_splits)
    qed
  qed
qed

text \<open>The sample server without a project, a thread observed in it, and a project created after that.\<close>

definition unfiled0 :: thread_svc where "unfiled0 = server0\<lparr>project_rows := []\<rparr>"

definition unfiled1 :: thread_svc where
  "unfiled1 = snd (ObserveSession Some (sample_session ''term-1'') unfiled0)"

definition unfiled2 :: thread_svc where
  "unfiled2 = snd (Create_project Some (\<lambda>d. Some (length d)) ''w'' ''/w'' unfiled1)"

lemma unfiled2_reachable: "reachable unfiled2"
proof -
  have "reachable unfiled0"
    unfolding reachable_def
    by (intro exI [of _ unfiled0] conjI rtranclp.rtrancl_refl) (simp add: fresh_start_def server0_def unfiled0_def)
  then have "reachable unfiled1"
    unfolding unfiled1_def
    by (rule reachable_step [OF _ runs [OF thread_step.observe_session]]) (simp add: sample_session_def)
  then show ?thesis
    unfolding unfiled2_def by (rule reachable_step [OF _ runs [OF thread_step.create_project]])
qed

theorem backfill_files_the_unassigned_witness:
  "map_option project_id (map_of (view (snd (Backfill unfiled2))) ''thrd-aaaaa'') = Some ''proj-bbbbb''"
proof -
  have e: "fst (Backfill unfiled2) = None" by code_simp
  have "map_option (\<lambda>r. (project_id r, initial_directory r)) (map_of (view unfiled2) ''thrd-aaaaa'') = Some ([], ''/w/x'')"
    by code_simp
  then obtain r where r: "map_of (view unfiled2) ''thrd-aaaaa'' = Some r" and p: "project_id r = []" "initial_directory r = ''/w/x''"
    by auto
  have m: "mostSpecific (sort_key (\<lambda>r. (proj_created_at r, proj_id r)) (map snd (project_rows unfiled2))) ''/w/x'' = ''proj-bbbbb''"
    by code_simp
  from backfill_files_the_unassigned [OF unfiled2_reachable surjective_pairing r refl]
  obtain r' where "map_of (view (snd (Backfill unfiled2))) ''thrd-aaaaa'' = Some r'" and "project_id r' = ''proj-bbbbb''"
    unfolding p m e by blast
  then show ?thesis by simp
qed

end
