(* ===== verification/TerminalProps.thy ===== *)
theory TerminalProps
  imports Server
begin

text \<open>
  The properties of the Terminals service: the verdict of a reconciliation pass on each terminal, the orphans it kills,
  the evidence of an exit, the verification window of a create, and a create whose session never ran.
\<close>

declare map_of_eq_Some_iff [simp del] Some_eq_map_of_iff [simp del]

subsection \<open>The phases of a pass\<close>

lemma RecordExit_frame:
  "Terminals_RecordExit i x at code s = (e, s') \<Longrightarrow>
     term_view s' = term_view s \<and> settling s' = settling s \<and> reports s' = reports s \<and> (e \<noteq> None \<longrightarrow> e = Some ErrIO)"
  by (auto simp: Terminals_RecordExit_def Let_def io_step_def split: if_splits option.splits)

lemma reconcile_evidence_frame:
  "reconcile_evidence c s = (c', s') \<Longrightarrow>
     term_view s' = term_view s \<and> settling s' = settling s \<and> reports s' = reports s
     \<and> c_id c' = c_id c \<and> c_created_at c' = c_created_at c"
  by (auto simp: reconcile_evidence_def Let_def now_def dest!: RecordExit_frame
      split: report_file.splits option.splits if_splits prod.splits)

lemma evidence_all_frame:
  fixes s :: "'a term_svc_scheme"
  shows "evidence_all cs s = (cs', s') \<Longrightarrow>
     term_view s' = term_view s \<and> settling s' = settling s
     \<and> list_all2 (\<lambda>c c'. \<exists>t :: 'a term_svc_scheme. reports t = reports s \<and> c' = fst (reconcile_evidence c t)) cs cs'"
proof (induction cs arbitrary: s cs' s')
  case (Cons c cs)
  obtain c1 s1 where c: "reconcile_evidence c s = (c1, s1)" by (cases "reconcile_evidence c s")
  obtain cs1 s2 where cs: "evidence_all cs s1 = (cs1, s2)" by (cases "evidence_all cs s1")
  have eq: "cs' = c1 # cs1" "s' = s2" using Cons.prems c cs by simp_all
  note f = reconcile_evidence_frame [OF c]
  have "\<exists>t :: 'a term_svc_scheme. reports t = reports s \<and> c1 = fst (reconcile_evidence c t)"
    by (rule exI [of _ s]) (simp add: c)
  with Cons.IH [OF cs] f show ?case unfolding eq by simp
qed simp

text \<open>One candidate's evidence writes at most its own row; the fault oracle is the driver's.\<close>

lemma RecordExit_rows:
  "Terminals_RecordExit i x at code s = (e, s') \<Longrightarrow>
     fault s' = fault s \<and> io_ops s' = Suc (io_ops s) \<and> (e \<noteq> None \<longleftrightarrow> fault s (io_ops s))
     \<and> (j \<noteq> i \<longrightarrow> map_of (terminal_rows s') j = map_of (terminal_rows s) j)
     \<and> map_of (terminal_rows s') i =
         (if e \<noteq> None then map_of (terminal_rows s) i
          else map_option (\<lambda>old. if term_exited_at old \<noteq> None then old
                 else old\<lparr>term_exited_at := Some x, term_exit_code := code, term_updated_at := at\<rparr>) (map_of (terminal_rows s) i))"
  by (auto simp: Terminals_RecordExit_def Let_def io_step_def split: if_splits option.splits)

lemma reconcile_evidence_rows:
  "reconcile_evidence c s = (c', s') \<Longrightarrow>
     fault s' = fault s \<and> io_ops s \<le> io_ops s' \<and> (j \<noteq> c_id c \<longrightarrow> map_of (terminal_rows s') j = map_of (terminal_rows s) j)"
  by (auto simp: reconcile_evidence_def Let_def now_def dest!: RecordExit_rows [where j = j]
      split: report_file.splits option.splits if_splits prod.splits)

lemma evidence_all_rows:
  "evidence_all cs s = (cs', s') \<Longrightarrow> i \<notin> c_id ` set cs \<Longrightarrow>
     fault s' = fault s \<and> io_ops s \<le> io_ops s' \<and> map_of (terminal_rows s') i = map_of (terminal_rows s) i"
proof (induction cs arbitrary: s cs' s')
  case (Cons c cs)
  obtain c1 s1 where c: "reconcile_evidence c s = (c1, s1)" by (cases "reconcile_evidence c s")
  obtain cs1 s2 where cs: "evidence_all cs s1 = (cs1, s2)" by (cases "evidence_all cs s1")
  show ?case using Cons.IH [OF cs] reconcile_evidence_rows [OF c, of i] Cons.prems c cs by auto
qed simp

text \<open>The state a candidate's evidence is looked at in, and the one that leaves, within the phase.\<close>

definition evidence_at :: "'a term_svc_scheme \<Rightarrow> candidate \<Rightarrow> candidate \<Rightarrow> 'a term_svc_scheme \<Rightarrow> bool" where
  "evidence_at s c c' s' \<longleftrightarrow>
     (\<exists>(t :: 'a term_svc_scheme) t'. reconcile_evidence c t = (c', t') \<and> reports t = reports s \<and> fault t = fault s
        \<and> io_ops s \<le> io_ops t \<and> io_ops t' \<le> io_ops s'
        \<and> map_of (terminal_rows t) (c_id c) = map_of (terminal_rows s) (c_id c)
        \<and> map_of (terminal_rows s') (c_id c) = map_of (terminal_rows t') (c_id c))"

lemma evidence_all_at:
  assumes "evidence_all cs s = (cs', s')" and "distinct (map c_id cs)" and "find (\<lambda>c. c_id c = i) cs = Some c"
  shows "\<exists>c'. find (\<lambda>c. c_id c = i) cs' = Some c' \<and> evidence_at s c c' s'"
  using assms
proof (induction cs arbitrary: s cs' s')
  case (Cons d cs)
  obtain d1 s1 where d: "reconcile_evidence d s = (d1, s1)" by (cases "reconcile_evidence d s")
  obtain cs1 s2 where cs: "evidence_all cs s1 = (cs1, s2)" by (cases "evidence_all cs s1")
  have eq: "cs' = d1 # cs1" "s' = s2" using Cons.prems(1) d cs by simp_all
  have nin: "c_id d \<notin> c_id ` set cs" and dist: "distinct (map c_id cs)" using Cons.prems(2) by simp_all
  have id: "c_id d1 = c_id d" and rp: "reports s1 = reports s" using reconcile_evidence_frame [OF d] by simp_all
  show ?case
  proof (cases "c_id d = i")
    case True
    then have c: "c = d" using Cons.prems(3) by simp
    have "evidence_at s d d1 s2"
      unfolding evidence_at_def
      by (rule exI [of _ s], rule exI [of _ s1]) (use d evidence_all_rows [OF cs nin] reconcile_evidence_rows [OF d] in simp)
    then show ?thesis using True id unfolding eq c by simp
  next
    case False
    then have "find (\<lambda>c. c_id c = i) cs = Some c" using Cons.prems(3) by simp
    then obtain c' where c': "find (\<lambda>c. c_id c = i) cs1 = Some c'" "evidence_at s1 c c' s2" and "c_id c = i"
      using Cons.IH [OF cs dist] by (auto simp: find_Some_iff)
    moreover have "evidence_at s c c' s2"
      using c'(2) rp reconcile_evidence_rows [OF d, of i] False \<open>c_id c = i\<close> unfolding evidence_at_def
      by (metis le_trans)
    ultimately show ?thesis using False id unfolding eq by simp
  qed
qed simp

lemma apply_candidate_run:
  "apply_candidate c s = (xs, s') \<Longrightarrow>
     settling s' = settling s
     \<and> map_of (term_view s') i =
         (if i = c_id c
          then map_option (\<lambda>e. if term_created_at (e_record e) \<noteq> c_created_at c \<or> i \<in> set (settling s) then e
                              else apply_entry c e) (map_of (term_view s) i)
          else map_of (term_view s) i)
     \<and> xs = (case map_of (term_view s) (c_id c) of
               None \<Rightarrow> []
             | Some e \<Rightarrow> if term_created_at (e_record e) \<noteq> c_created_at c \<or> c_id c \<in> set (settling s) then []
                        else if e_status (apply_entry c e) \<noteq> e_status e then [c_id c] else [])"
  by (auto simp: apply_candidate_def split: option.splits if_splits)

lemma find_none: "k \<notin> f ` set xs \<Longrightarrow> find (\<lambda>x. f x = k) xs = None"
  by (auto simp: find_None_iff)

lemma apply_all_run:
  assumes "apply_all cs s = (xs, s')" and "distinct (map c_id cs)"
  shows "settling s' = settling s
    \<and> map_of (term_view s') i =
        (case find (\<lambda>c. c_id c = i) cs of
           None \<Rightarrow> map_of (term_view s) i
         | Some c \<Rightarrow> map_option (\<lambda>e. if term_created_at (e_record e) \<noteq> c_created_at c \<or> i \<in> set (settling s) then e
                                    else apply_entry c e) (map_of (term_view s) i))"
  using assms
proof (induction cs arbitrary: s xs s')
  case (Cons c cs)
  obtain x s1 where c: "apply_candidate c s = (x, s1)" by (cases "apply_candidate c s")
  obtain ys s2 where cs: "apply_all cs s1 = (ys, s2)" by (cases "apply_all cs s1")
  have s': "s' = s2" using Cons.prems c cs by simp
  have d: "distinct (map c_id cs)" and nin: "c_id c \<notin> c_id ` set cs" using Cons.prems(2) by simp_all
  note IH = Cons.IH [OF cs d] and run = apply_candidate_run [OF c, of i]
  show ?case
  proof (cases "c_id c = i")
    case True
    have "find (\<lambda>c. c_id c = i) cs = None" using find_none [OF nin] True by simp
    then show ?thesis using IH run True unfolding s' by simp
  next
    case False
    have eq: "settling s1 = settling s" "map_of (term_view s1) i = map_of (term_view s) i" using run False by simp_all
    show ?thesis using IH False unfolding s' eq by simp
  qed
qed simp

lemma apply_all_rows: "apply_all cs s = (xs, s') \<Longrightarrow> terminal_rows s' = terminal_rows s \<and> io_ops s' = io_ops s"
proof (induction cs arbitrary: s xs s')
  case (Cons c cs)
  obtain x s1 where c: "apply_candidate c s = (x, s1)" by (cases "apply_candidate c s")
  obtain ys s2 where cs: "apply_all cs s1 = (ys, s2)" by (cases "apply_all cs s1")
  have "terminal_rows s1 = terminal_rows s \<and> io_ops s1 = io_ops s"
    using c by (auto simp: apply_candidate_def split: option.splits if_splits)
  then show ?case using Cons.IH [OF cs] Cons.prems c cs by simp
qed simp

lemma publish_all_frame:
  "term_view (publish_all ty rs xs s) = term_view s" "terminal_rows (publish_all ty rs xs s) = terminal_rows s"
  "io_ops (publish_all ty rs xs s) = io_ops s"
  unfolding publish_all_def by (induction xs arbitrary: s) (simp_all add: Publish_def)

subsection \<open>The verdict\<close>

text \<open>
  The reference: what a pass over a complete or missing inventory says of a terminal, given the report file its monitor
  left. Exit evidence is a report of this incarnation that records an exit.
\<close>

definition exit_evidence :: "report_file \<Rightarrow> terminal_record \<Rightarrow> report option" where
  "exit_evidence file r =
     (case file of
        Report p \<Rightarrow> if rep_started_at p < term_created_at r \<or> rep_exited_at p = None then None else Some p
      | _ \<Rightarrow> None)"

definition verdict :: "session list option \<Rightarrow> report_file \<Rightarrow> string \<Rightarrow> terminal_record \<Rightarrow> terminal_status" where
  "verdict inven file i r =
     (if term_exited_at r \<noteq> None then TerminalExited
      else case inven of
             None \<Rightarrow> TerminalUnreachable
           | Some l \<Rightarrow>
               (case present l i of
                  Some True \<Rightarrow> TerminalRunning
                | Some False \<Rightarrow> TerminalUnreachable
                | None \<Rightarrow> if exit_evidence file r = None then TerminalMissing else TerminalExited))"

text \<open>The record after the pass: unchanged, or with the evidence written, the code suppressed for a requested stop.\<close>

definition exit_recorded :: "report \<Rightarrow> time \<Rightarrow> terminal_record \<Rightarrow> terminal_record" where
  "exit_recorded p at r =
     r\<lparr>term_exited_at := rep_exited_at p,
       term_exit_code := (if term_stop_requested_at r \<noteq> None then None else rep_code p), term_updated_at := at\<rparr>"

text \<open>The row of the terminal, in which evidence that is already there stays.\<close>

definition exit_row :: "report \<Rightarrow> time \<Rightarrow> terminal_record \<Rightarrow> terminal_record \<Rightarrow> terminal_record" where
  "exit_row p at r row =
     (if term_exited_at row \<noteq> None then row
      else row\<lparr>term_exited_at := rep_exited_at p,
               term_exit_code := (if term_stop_requested_at r \<noteq> None then None else rep_code p), term_updated_at := at\<rparr>)"

text \<open>
  The three ways a terminal may leave the pass: judged without new evidence, exited on evidence that is now in its record
  and in its row, or, when the driver failed during the pass, as it was.
\<close>

definition judged :: "terminal_status \<Rightarrow> entry \<Rightarrow> entry \<Rightarrow> terminal_record option \<Rightarrow> terminal_record option \<Rightarrow> bool" where
  "judged v e e' row row' \<longleftrightarrow>
     e_status e' = v \<and> e_record e' = e_record e \<and> row' = row \<and> (v = TerminalExited \<longrightarrow> term_exited_at (e_record e) \<noteq> None)"

definition recorded :: "report \<Rightarrow> entry \<Rightarrow> entry \<Rightarrow> terminal_record option \<Rightarrow> terminal_record option \<Rightarrow> bool" where
  "recorded p e e' row row' \<longleftrightarrow>
     term_exited_at (e_record e) = None \<and> e_status e' = TerminalExited
     \<and> (\<exists>at. e_record e' = exit_recorded p at (e_record e) \<and> row' = map_option (exit_row p at (e_record e)) row)"

definition left_alone :: "entry \<Rightarrow> entry \<Rightarrow> terminal_record option \<Rightarrow> terminal_record option \<Rightarrow> bool" where
  "left_alone e e' row row' \<longleftrightarrow>
     term_exited_at (e_record e) = None \<and> e_status e' = e_status e \<and> e_record e' = e_record e \<and> row' = row"

lemma candidate_verdict:
  fixes s s' :: "'a term_svc_scheme"
  assumes at: "evidence_at s (decide_candidate inven i e) c' s'"
  defines "v \<equiv> verdict inven (reports s i) i (e_record e)"
    and "row \<equiv> map_of (terminal_rows s) i" and "row' \<equiv> map_of (terminal_rows s') i"
  shows "judged v e (apply_entry c' e) row row'
     \<or> v = TerminalExited \<and> (\<exists>p. exit_evidence (reports s i) (e_record e) = Some p \<and> recorded p e (apply_entry c' e) row row')
     \<or> v = TerminalExited \<and> left_alone e (apply_entry c' e) row row'
          \<and> (\<exists>n. io_ops s \<le> n \<and> n < io_ops s' \<and> fault s n)"
proof -
  define c where "c = decide_candidate inven i e"
  have cid: "c_id c = i" by (simp add: c_def decide_candidate_def Let_def split: option.split bool.split)
  obtain t t' :: "'a term_svc_scheme" where run: "reconcile_evidence c t = (c', t')" and rp: "reports t = reports s" and ft: "fault t = fault s"
    and ops: "io_ops s \<le> io_ops t" "io_ops t' \<le> io_ops s'"
    and raw: "map_of (terminal_rows t) (c_id c) = map_of (terminal_rows s) (c_id c)"
      "map_of (terminal_rows s') (c_id c) = map_of (terminal_rows t') (c_id c)"
    using at unfolding evidence_at_def c_def [symmetric] by blast
  have rows: "map_of (terminal_rows t) i = row" "row' = map_of (terminal_rows t') i"
    using raw by (simp_all add: cid row_def row'_def)
  show ?thesis
  proof (cases "term_exited_at (e_record e) = None \<and> (\<exists>l. inven = Some l \<and> present l i = None)")
    case False
    have c: "\<not> c_absent c" "c_exit c = None" "c_status c = Some v"
      using False by (auto simp: c_def v_def decide_candidate_def verdict_def Let_def split: option.splits bool.splits)
    have "t' = t" and "c' = c \<or> (\<exists>p. c' = c\<lparr>c_process := p\<rparr>)"
      using run c(1) by (auto simp: reconcile_evidence_def Let_def split: report_file.splits option.splits)
    moreover have "v = TerminalExited \<longrightarrow> term_exited_at (e_record e) \<noteq> None"
      using False by (auto simp: v_def verdict_def split: option.splits bool.splits)
    ultimately have "judged v e (apply_entry c' e) row row'"
      using c rows by (auto simp: judged_def apply_entry_def apply_exit_def)
    then show ?thesis by simp
  next
    case True
    have c: "c_created_at c = term_created_at (e_record e)" "c_absent c" "c_exit c = None" "c_status c = None"
      "c_stop_requested c = (term_stop_requested_at (e_record e) \<noteq> None)"
      using True by (auto simp: c_def decide_candidate_def Let_def)
    show ?thesis
    proof (cases "exit_evidence (reports s i) (e_record e)")
      case None
      then have v: "v = TerminalMissing" using True by (auto simp: v_def verdict_def)
      have "t' = t" "c' = c\<lparr>c_status := Some TerminalMissing, c_process := c_process c'\<rparr>"
        using run None c cid rp by (auto simp: reconcile_evidence_def exit_evidence_def Let_def
            split: report_file.splits option.splits if_splits)
      then have "judged v e (apply_entry c' e) row row'"
        using c(3) v rows
        by (metis (no_types, lifting) apply_entry_def apply_exit_def candidate.select_convs candidate.surjective
            candidate.update_convs entry.select_convs judged_def option.simps terminal_status.distinct)
      then show ?thesis by simp
    next
      case (Some p)
      then obtain x where rf: "reports t i = Report p" "\<not> rep_started_at p < term_created_at (e_record e)" "rep_exited_at p = Some x"
        by (auto simp: rp exit_evidence_def split: report_file.splits if_splits)
      have v: "v = TerminalExited" using True Some by (auto simp: v_def verdict_def)
      obtain at t1 where n: "now t = (at, t1)" by (cases "now t")
      have t1: "terminal_rows t1 = terminal_rows t" "fault t1 = fault t" "io_ops t1 = io_ops t"
        using n by (auto simp: now_def)
      let ?code = "if term_stop_requested_at (e_record e) \<noteq> None then None else rep_code p"
      obtain er t2 where re: "Terminals_RecordExit i x at ?code t1 = (er, t2)"
        by (cases "Terminals_RecordExit i x at ?code t1")
      note rec = RecordExit_rows [OF re]
      show ?thesis
      proof (cases er)
        case None
        have "t' = t2" "c' = c\<lparr>c_process := rep_process p, c_exit := Some (x, ?code, at), c_status := Some TerminalExited\<rparr>"
          using run rf c cid n re None by (simp_all add: reconcile_evidence_def Let_def)
        then have "recorded p e (apply_entry c' e) row row'"
          using c True rf(3) rows rec t1 None
          by (auto simp: recorded_def apply_entry_def apply_exit_def exit_recorded_def exit_row_def fun_eq_iff
              intro!: exI [of _ at] option.map_cong)
        then show ?thesis using v Some by blast
      next
        case (Some y)
        have t': "t' = t2" "c' = c\<lparr>c_process := rep_process p, c_status := None\<rparr>"
          using run rf c cid n re Some by (simp_all add: reconcile_evidence_def Let_def)
        then have "left_alone e (apply_entry c' e) row row'"
          using c True rows rec t1 Some by (auto simp: left_alone_def apply_entry_def apply_exit_def)
        moreover have "io_ops s \<le> io_ops t \<and> io_ops t < io_ops s' \<and> fault s (io_ops t)"
          using rec t1 t' ops ft Some by auto
        ultimately show ?thesis using v by blast
      qed
    qed
  qed
qed

lemma decide_candidate_ids [simp]:
  "c_id (decide_candidate inven i e) = i" "c_created_at (decide_candidate inven i e) = term_created_at (e_record e)"
  by (simp_all add: decide_candidate_def Let_def split: option.split bool.split)

lemma list_all2_keys: "list_all2 R xs ys \<Longrightarrow> (\<And>x y. R x y \<Longrightarrow> f x = f y) \<Longrightarrow> map f ys = map f xs"
  by (induction rule: list_all2_induct) auto

lemma find_decided:
  "distinct (map fst m) \<Longrightarrow> map_of m i = Some e \<Longrightarrow> P i \<Longrightarrow>
     find (\<lambda>c. c_id c = i) (map (\<lambda>(i, e). decide_candidate inven i e) (filter (\<lambda>(i, e). P i) m)) = Some (decide_candidate inven i e)"
  by (induction m) (auto split: if_splits)

text \<open>
  C15. The verdict of a reconciliation pass: every terminal not being created ends the pass with the status the
  reference assigns to the inventory, its record and its report. Only a report of this incarnation that records an exit
  makes it exited, and then the evidence is in its record and in its row. The one deviation is evidence whose write the
  driver failed: it leaves the terminal, record and row, as they were for the next pass. A pass in which no statement
  fails records all the evidence there is.
\<close>

theorem reconcile_verdict:
  assumes "reconcile reap inven leftovers s = (orphans, s')"
    and "distinct (map fst (term_view s))" and "map_of (term_view s) i = Some e" and "i \<notin> set (settling s)"
  shows "\<exists>e' v row row'. map_of (term_view s') i = Some e' \<and> v = verdict inven (reports s i) i (e_record e)
     \<and> row = map_of (terminal_rows s) i \<and> row' = map_of (terminal_rows s') i
     \<and> (judged v e e' row row'
        \<or> v = TerminalExited \<and> (\<exists>p. exit_evidence (reports s i) (e_record e) = Some p \<and> recorded p e e' row row')
        \<or> v = TerminalExited \<and> left_alone e e' row row' \<and> (\<exists>n. io_ops s \<le> n \<and> n < io_ops s' \<and> fault s n))"
proof -
  let ?cs = "reconcile_decide inven s"
  obtain cs' s1 where ev: "evidence_all ?cs s = (cs', s1)" by (cases "evidence_all ?cs s")
  obtain xs s2 where ap: "apply_all cs' s1 = (xs, s2)" by (cases "apply_all cs' s1")
  have s': "s' = publish_all EventTerminalUpdated terminal_resource xs s2"
    using assms(1) by (simp add: reconcile_def reconcile_apply_def ev ap Let_def)
  note f = evidence_all_frame [OF ev]
  have found: "find (\<lambda>c. c_id c = i) ?cs = Some (decide_candidate inven i e)"
    unfolding reconcile_decide_def using find_decided [OF assms(2,3), of "\<lambda>i. i \<notin> set (settling s)"] assms(4) by simp
  have dist: "distinct (map c_id ?cs)"
    using assms(2) by (simp add: reconcile_decide_def comp_def case_prod_beta)
  obtain c' where c': "find (\<lambda>c. c_id c = i) cs' = Some c'" and at: "evidence_at s (decide_candidate inven i e) c' s1"
    using evidence_all_at [OF ev dist found] by blast
  have "c_id y = c_id x"
    if "\<exists>t :: 'a term_svc_scheme. reports t = reports s \<and> y = fst (reconcile_evidence x t)" for x y
    using that reconcile_evidence_frame [OF surjective_pairing] by blast
  then have "map c_id cs' = map c_id ?cs" using list_all2_keys [OF conjunct2 [OF conjunct2 [OF f]], of c_id] by metis
  then have d: "distinct (map c_id cs')" using dist by simp
  have same: "c_created_at c' = term_created_at (e_record e)"
    using at by (auto simp: evidence_at_def dest!: reconcile_evidence_frame)
  have "map_of (term_view s2) i = Some (apply_entry c' e)"
    using apply_all_run [OF ap d, of i] c' same assms(3,4) f by simp
  then show ?thesis
    using candidate_verdict [OF at] apply_all_rows [OF ap] unfolding s' publish_all_frame by auto
qed

text \<open>The sample server, its first terminal gone with a report of its exit, the second without one.\<close>

definition server_exit :: thread_svc where
  "server_exit = server0\<lparr>reports := (\<lambda>i. if i = ''term-1''
     then Report \<lparr>rep_started_at = 1, rep_exited_at = Some 90, rep_code = Some 3, rep_process = ''claude''\<rparr> else NoReport)\<rparr>"

theorem reconcile_verdict_witness:
  "(\<exists>e' row'. map_of (term_view (snd (reconcile False (Some []) None server_exit))) ''term-1'' = Some e'
      \<and> e_status e' = TerminalExited \<and> term_exited_at (e_record e') = Some 90 \<and> term_exit_code (e_record e') = Some 3
      \<and> map_of (terminal_rows (snd (reconcile False (Some []) None server_exit))) ''term-1'' = Some row'
      \<and> term_exited_at row' = Some 90 \<and> term_exit_code row' = Some 3)
   \<and> (\<exists>e'. map_of (term_view (snd (reconcile False (Some []) None server_exit))) ''term-2'' = Some e'
      \<and> e_status e' = TerminalMissing)"
proof -
  let ?e = "\<lparr>e_record = sample_terminal, e_status = TerminalRunning, e_process = ''claude''\<rparr>"
  let ?e2 = "\<lparr>e_record = sample_terminal\<lparr>term_id := ''term-2''\<rparr>, e_status = TerminalRunning, e_process = ''claude''\<rparr>"
  let ?p = "\<lparr>rep_started_at = 1, rep_exited_at = Some 90, rep_code = Some 3, rep_process = ''claude''\<rparr>"
  have tv: "map_of (term_view server_exit) ''term-1'' = Some ?e" "map_of (term_view server_exit) ''term-2'' = Some ?e2"
    "distinct (map fst (term_view server_exit))" "settling server_exit = []" "reports server_exit ''term-1'' = Report ?p"
    "reports server_exit ''term-2'' = NoReport" "\<not> fault server_exit n"
    "map_of (terminal_rows server_exit) ''term-1'' = Some sample_terminal" for n
    by (simp_all add: server_exit_def server0_def)
  have v: "verdict (Some []) (Report ?p) ''term-1'' sample_terminal = TerminalExited"
    "exit_evidence (Report ?p) sample_terminal = Some ?p"
    "verdict (Some []) NoReport ''term-2'' (sample_terminal\<lparr>term_id := ''term-2''\<rparr>) = TerminalMissing"
    "term_exited_at sample_terminal = None" "term_stop_requested_at sample_terminal = None"
    by (simp_all add: verdict_def present_def exit_evidence_def sample_terminal_def)
  note one = reconcile_verdict [OF surjective_pairing tv(3,1), of False "Some []" None]
    and two = reconcile_verdict [OF surjective_pairing tv(3,2), of False "Some []" None]
  show ?thesis
    using one two tv v by (auto simp: judged_def recorded_def exit_recorded_def exit_row_def)
qed

subsection \<open>Events and orphans\<close>

lemma publish_all_log:
  "events_log (publish_all ty rs xs s) = events_log s @ map (\<lambda>i. \<lparr>ev_type = ty, ev_resource = rs, ev_id = i\<rparr>) xs"
  unfolding publish_all_def by (induction xs arbitrary: s) (simp_all add: Publish_def)

lemma evidence_log: "evidence_all cs s = (cs', s') \<Longrightarrow> events_log s' = events_log s"
proof (induction cs arbitrary: s cs' s')
  case (Cons c cs)
  obtain c1 s1 where c: "reconcile_evidence c s = (c1, s1)" by (cases "reconcile_evidence c s")
  obtain cs1 s2 where cs: "evidence_all cs s1 = (cs1, s2)" by (cases "evidence_all cs s1")
  have "events_log s1 = events_log s"
    using c by (auto simp: reconcile_evidence_def Terminals_RecordExit_def Let_def now_def io_step_def
        split: report_file.splits option.splits if_splits prod.splits)
  then show ?case using Cons.IH [OF cs] Cons.prems c cs by simp
qed simp

lemma apply_all_log: "apply_all cs s = (xs, s') \<Longrightarrow> events_log s' = events_log s"
proof (induction cs arbitrary: s xs s')
  case (Cons c cs)
  obtain x s1 where c: "apply_candidate c s = (x, s1)" by (cases "apply_candidate c s")
  obtain ys s2 where cs: "apply_all cs s1 = (ys, s2)" by (cases "apply_all cs s1")
  have "events_log s1 = events_log s" using c by (auto simp: apply_candidate_def split: option.splits if_splits)
  then show ?case using Cons.IH [OF cs] Cons.prems c cs by simp
qed simp

text \<open>The identifiers a pass announces, against the statuses before and after.\<close>

definition status_of :: "'a term_svc_scheme \<Rightarrow> string \<Rightarrow> terminal_status option" where
  "status_of s i = map_option e_status (map_of (term_view s) i)"

lemma apply_all_changed:
  assumes "apply_all cs s = (xs, s')" and "distinct (map c_id cs)"
  shows "distinct xs \<and> set xs \<subseteq> c_id ` set cs \<and> (i \<in> set xs \<longleftrightarrow> status_of s' i \<noteq> status_of s i)"
  using assms
proof (induction cs arbitrary: s xs s')
  case (Cons c cs)
  obtain x s1 where c: "apply_candidate c s = (x, s1)" by (cases "apply_candidate c s")
  obtain ys s2 where cs: "apply_all cs s1 = (ys, s2)" by (cases "apply_all cs s1")
  have eq: "xs = x @ ys" "s' = s2" using Cons.prems c cs by simp_all
  have d: "distinct (map c_id cs)" and nin: "c_id c \<notin> c_id ` set cs" using Cons.prems(2) by simp_all
  note IH = Cons.IH [OF cs d] and run = apply_candidate_run [OF c]
  have x: "x = [] \<or> x = [c_id c]" using run by (auto split: option.splits if_splits)
  have sub: "set ys \<subseteq> c_id ` set cs" and dy: "distinct ys" using IH by blast+
  have other: "status_of s1 j = status_of s j" if "j \<noteq> c_id c" for j using run [of j] that by (simp add: status_of_def)
  have own: "c_id c \<in> set x \<longleftrightarrow> status_of s1 (c_id c) \<noteq> status_of s (c_id c)"
    using run [of "c_id c"] by (auto simp: status_of_def split: option.splits if_splits)
  have late: "status_of s2 (c_id c) = status_of s1 (c_id c)"
    using apply_all_run [OF cs d, of "c_id c"] find_none [OF nin] by (simp add: status_of_def)
  have "i \<in> set xs \<longleftrightarrow> status_of s2 i \<noteq> status_of s i"
  proof (cases "i = c_id c")
    case True
    then show ?thesis using own late sub nin by (auto simp: eq)
  next
    case False
    then show ?thesis using other [OF False] IH x by (auto simp: eq)
  qed
  moreover have "distinct xs" using x sub nin dy by (auto simp: eq)
  ultimately show ?case using x sub by (auto simp: eq)
qed simp

text \<open>
  A pass announces exactly the changes it made: one \<^verbatim>\<open>terminal.updated\<close> for each terminal whose status differs
  after the pass, and no other event.
\<close>

theorem reconcile_announces_changes:
  assumes "reconcile reap inven leftovers s = (orphans, s')" and "distinct (map fst (term_view s))"
  shows "\<exists>changed. distinct changed \<and> (\<forall>i. i \<in> set changed \<longleftrightarrow> status_of s' i \<noteq> status_of s i)
     \<and> events_log s' = events_log s
          @ map (\<lambda>i. \<lparr>ev_type = EventTerminalUpdated, ev_resource = terminal_resource, ev_id = i\<rparr>) changed"
proof -
  let ?cs = "reconcile_decide inven s"
  obtain cs' s1 where ev: "evidence_all ?cs s = (cs', s1)" by (cases "evidence_all ?cs s")
  obtain xs s2 where ap: "apply_all cs' s1 = (xs, s2)" by (cases "apply_all cs' s1")
  have s': "s' = publish_all EventTerminalUpdated terminal_resource xs s2"
    using assms(1) by (simp add: reconcile_def reconcile_apply_def ev ap Let_def)
  have tv: "term_view (publish_all ty rs xs s2) = term_view s2" for ty rs
    unfolding publish_all_def by (induction xs arbitrary: s2) (simp_all add: Publish_def)
  have R: "c_id (fst (reconcile_evidence c t)) = c_id c" for c and t :: "'a term_svc_scheme"
    using reconcile_evidence_frame [OF surjective_pairing] by blast
  have "distinct (map c_id ?cs)" using assms(2) by (simp add: reconcile_decide_def comp_def case_prod_beta)
  then have d: "distinct (map c_id cs')"
    using list_all2_keys [OF conjunct2 [OF conjunct2 [OF evidence_all_frame [OF ev]]], of c_id] R by metis
  have "status_of s1 = status_of s" using evidence_all_frame [OF ev] by (simp add: status_of_def fun_eq_iff)
  moreover have "status_of s' = status_of s2" by (simp add: s' tv status_of_def fun_eq_iff)
  ultimately show ?thesis
    using apply_all_changed [OF ap d] evidence_log [OF ev] apply_all_log [OF ap]
    by (intro exI [of _ xs]) (simp add: s' publish_all_log)
qed

theorem reconcile_announces_changes_witness:
  "events_log (snd (reconcile False (Some []) None server0)) \<noteq> []"
proof -
  have d: "distinct (map fst (term_view server0))" by (simp add: server0_def)
  have "status_of (snd (reconcile False (Some []) None server0)) ''term-1'' \<noteq> status_of server0 ''term-1''" by code_simp
  then show ?thesis
    using reconcile_announces_changes [OF surjective_pairing d, of False "Some []" None] by force
qed

text \<open>
  Only orphans are killed: every session a pass names for killing belongs to no record, and none is named by a pass
  that does not reap or that has no complete inventory.
\<close>

theorem orphans_are_unclaimed:
  assumes "reconcile reap inven leftovers s = (orphans, s')" and "name \<in> set orphans"
  shows "reap \<and> inven \<noteq> None \<and> map_of (term_view s) name = None"
  using assms
  by (auto simp: reconcile_def orphan_sessions_def orphan_leftovers_def has_key_def Let_def split: option.splits if_splits prod.splits)

theorem orphans_are_unclaimed_witness:
  "map_of (term_view server0) ''term-9'' = None"
proof -
  let ?inven = "Some [\<lparr>ses_name = ''term-1'', ses_reachable = True\<rparr>, \<lparr>ses_name = ''term-9'', ses_reachable = True\<rparr>]"
  have "''term-9'' \<in> set (fst (reconcile True ?inven None server0))" by code_simp
  from orphans_are_unclaimed [OF surjective_pairing this] show ?thesis by blast
qed

subsection \<open>The verification window\<close>

text \<open>What a poll decides: the session is up or has exited, the caller gave up, or the counters move on.\<close>

lemma awaitSettled_bound:
  assumes "\<And>k. k < n + ((VerifyPasses - passes) * VerifyFailureCap - failures) \<Longrightarrow> polls' k = polls k"
  shows "awaitSettled polls n passes failures i = awaitSettled polls' n passes failures i"
  using assms
proof (induction polls n passes failures i rule: awaitSettled.induct)
  case (1 polls n passes failures i)
  show ?case
  proof (cases "passes < VerifyPasses \<and> failures < VerifyFailureCap")
    case True
    let ?rest = "(VerifyPasses - Suc passes) * VerifyFailureCap"
    have left: "(VerifyPasses - passes) * VerifyFailureCap = VerifyFailureCap + ?rest"
      using True by (metis Suc_diff_Suc mult_Suc)
    then have agree: "polls' k = polls k" if "k < n + (VerifyFailureCap + ?rest - failures)" for k
      using 1(3) [of k] that by simp
    have "n < n + (VerifyFailureCap + ?rest - failures)" using True by linarith
    from agree [OF \<open>n < _\<close>] have here: "polls' n = polls n" .
    have fail: "awaitSettled polls (Suc n) passes (Suc failures) i = awaitSettled polls' (Suc n) passes (Suc failures) i"
      if "p_inventory (polls n) = None" "\<not> p_exited (polls n)" "\<not> p_cancelled (polls n)"
    proof (rule 1(1) [OF True that(2,1,3)])
      fix k assume "k < Suc n + ((VerifyPasses - passes) * VerifyFailureCap - Suc failures)"
      then have "k < n + (VerifyFailureCap + ?rest - failures)" using True left by linarith
      then show "polls' k = polls k" by (rule agree)
    qed
    have pass: "awaitSettled polls (Suc n) (Suc passes) 0 i = awaitSettled polls' (Suc n) (Suc passes) 0 i"
      if "p_inventory (polls n) = Some l" "\<not> p_exited (polls n)" "\<not> p_cancelled (polls n)"
        "\<not> list_ex (\<lambda>x. ses_name x = i \<and> ses_reachable x) l" for l
    proof (rule 1(2) [OF True that(2,1,4,3)])
      fix k assume "k < Suc n + (?rest - 0)"
      then have "k < n + (VerifyFailureCap + ?rest - failures)" using True by linarith
      then show "polls' k = polls k" by (rule agree)
    qed
    show ?thesis
      unfolding awaitSettled.simps [of polls n] awaitSettled.simps [of polls' n] here
      using fail pass by (auto split: option.split)
  next
    case False
    then show ?thesis
      unfolding awaitSettled.simps [of polls n] awaitSettled.simps [of polls' n] by auto
  qed
qed

text \<open>
  C20. The verification window is finite: whatever the backend answers, the outcome is settled by at most 800 polls, forty
  complete inventories with fewer than twenty consecutive failures before each.
\<close>

theorem verification_window_is_finite:
  assumes "\<forall>k < 800. polls' k = polls k"
  shows "awaitSettled polls' 0 0 0 i = awaitSettled polls 0 0 0 i"
  by (rule awaitSettled_bound [symmetric]) (use assms in \<open>simp add: VerifyPasses_def VerifyFailureCap_def\<close>)

theorem verification_window_is_finite_witness:
  "awaitSettled (\<lambda>k. \<lparr>p_exited = (k \<ge> 900), p_inventory = None, p_cancelled = False\<rparr>) 0 0 0 ''term-1''
     = awaitSettled (\<lambda>k. \<lparr>p_exited = False, p_inventory = None, p_cancelled = False\<rparr>) 0 0 0 ''term-1''"
  by (rule verification_window_is_finite) simp

subsection \<open>A create whose session never ran\<close>

lemma removeRecord_run:
  "removeRecord i s = (Inr True, s') \<Longrightarrow>
     term_view s' = AList.delete i (term_view s) \<and> terminal_rows s' = AList.delete i (terminal_rows s)
     \<and> settling s' = removeAll i (settling s)
     \<and> events_log s' = events_log s @ [\<lparr>ev_type = EventTerminalDeleted, ev_resource = terminal_resource, ev_id = i\<rparr>]"
  by (auto simp: removeRecord_def Terminals_Delete_def report_Remove_def Publish_def Let_def io_step_def
      split: if_splits prod.splits sum.splits)

lemma mint_terminal_run:
  "mint_terminal tape launch r s = (Inr r', s') \<Longrightarrow>
     map_of (term_view s) (term_id r') = None \<and> term_view s' = term_view s \<and> settling s' = settling s
     \<and> map_of (terminal_rows s) (term_id r') = None \<and> has_key (terminal_rows s') (term_id r')
     \<and> (\<forall>j. j \<noteq> term_id r' \<longrightarrow> map_of (terminal_rows s') j = map_of (terminal_rows s) j)"
  by (induction tape launch r s rule: mint_terminal.induct)
    (auto simp: Terminals_Insert_def Let_def io_step_def has_key_def split: if_splits prod.splits sum.splits option.splits)

lemma create_commit_run:
  assumes "create_commit params launch resolved s = (Inr r, s')"
  shows "map_of (term_view s) (term_id r) = None \<and> map_of (terminal_rows s) (term_id r) = None
     \<and> (\<exists>e. term_view s' = AList.update (term_id r) e (term_view s)) \<and> has_key (terminal_rows s') (term_id r)
     \<and> settling s' = List.insert (term_id r) (settling s)
     \<and> (\<forall>j. j \<noteq> term_id r \<longrightarrow> map_of (terminal_rows s') j = map_of (terminal_rows s) j)"
proof -
  obtain sid name dir where res: "resolved = (sid, name, dir)" by (cases resolved)
  obtain at t where n: "now s = (at, t)" by (cases "now s")
  have t: "term_view t = term_view s" "terminal_rows t = terminal_rows s" "settling t = settling s"
    using n by (auto simp: now_def)
  obtain r0 t1 where m: "mint_terminal (id_tape t) launch r0 t = (Inr r, t1)"
    and s': "s' = Publish EventTerminalCreated terminal_resource (term_id r)
        ((report_Remove (term_id r) t1)
          \<lparr>term_view := AList.update (term_id r)
              \<lparr>e_record = r, e_status = TerminalUnreachable, e_process = fallbackProcess r\<rparr>
              (term_view (report_Remove (term_id r) t1)),
           settling := List.insert (term_id r) (settling (report_Remove (term_id r) t1))\<rparr>)"
    using assms by (auto simp: create_commit_def res n Let_def split: prod.splits sum.splits)
  have "term_view (report_Remove (term_id r) t1) = term_view t1" "terminal_rows (report_Remove (term_id r) t1) = terminal_rows t1"
    "settling (report_Remove (term_id r) t1) = settling t1"
    by (auto simp: report_Remove_def io_step_def Let_def split: prod.splits)
  then show ?thesis using mint_terminal_run [OF m] t by (auto simp: s' Publish_def)
qed

lemma Terminals_Insert_refused:
  "Terminals_Insert r s = (x, s') \<Longrightarrow> term_view s' = term_view s \<and> settling s' = settling s
     \<and> (x \<noteq> Inr True \<longrightarrow> terminal_rows s' = terminal_rows s)"
  by (auto simp: Terminals_Insert_def Let_def io_step_def split: if_splits)

lemma mint_terminal_refused:
  "mint_terminal tape launch r s = (Inl e, s') \<Longrightarrow>
     term_view s' = term_view s \<and> terminal_rows s' = terminal_rows s \<and> settling s' = settling s"
proof (induction tape launch r s rule: mint_terminal.induct)
  case (2 sfx rest launch r s)
  let ?s = "s\<lparr>id_tape := rest\<rparr>" and ?r = "r\<lparr>term_id := terminal_prefix @ sfx\<rparr>"
  show ?case
  proof (cases "has_key (term_view ?s) (term_id ?r)")
    case True
    then show ?thesis using 2 by simp
  next
    case fresh: False
    let ?composed = "case al_compose launch of None \<Rightarrow> Inr (term_command ?r) | Some f \<Rightarrow> f (term_id ?r) (term_directory ?r)"
    show ?thesis
    proof (cases ?composed)
      case (Inl y)
      then show ?thesis using "2.prems" fresh by (auto simp: Let_def)
    next
      case (Inr command)
      obtain x t where ins: "Terminals_Insert (?r\<lparr>term_command := command\<rparr>) ?s = (x, t)"
        by (cases "Terminals_Insert (?r\<lparr>term_command := command\<rparr>) ?s")
      show ?thesis
      proof (cases "x = Inr False")
        case True
        then show ?thesis
          using "2.prems" fresh Inr ins Terminals_Insert_refused [OF ins] "2.IH"(2) [OF refl refl] by (simp add: Let_def)
      next
        case False
        then show ?thesis
          using "2.prems" fresh Inr ins Terminals_Insert_refused [OF ins] by (auto simp: Let_def split: sum.splits if_splits)
      qed
    qed
  qed
qed auto

lemma create_commit_refused:
  "create_commit params launch resolved s = (Inl e, s') \<Longrightarrow>
     term_view s' = term_view s \<and> terminal_rows s' = terminal_rows s \<and> settling s' = settling s"
  by (auto simp: create_commit_def Let_def now_def dest!: mint_terminal_refused split: prod.splits sum.splits)

lemma create_discard_run:
  assumes "create_discard i s = (ErrNotLaunched, s')" and "has_key (terminal_rows s) i"
  shows "term_view s' = AList.delete i (term_view s) \<and> terminal_rows s' = AList.delete i (terminal_rows s)
     \<and> settling s' = removeAll i (settling s)"
proof -
  obtain b where b: "removeRecord i s = (Inr b, s')"
    using assms(1) by (auto simp: create_discard_def split: prod.splits sum.splits)
  then have b
    using assms(2) by (auto simp: removeRecord_def Terminals_Delete_def Let_def io_step_def split: prod.splits sum.splits if_splits)
  then show ?thesis using removeRecord_run [of i s s'] b by simp
qed

lemma withdrawn_insert:
  "map_of m k = None \<Longrightarrow> (\<And>j. j \<noteq> k \<Longrightarrow> map_of m' j = map_of m j) \<Longrightarrow> map_of (AList.delete k m') = map_of m"
  by (auto simp: fun_eq_iff delete_conv')

text \<open>
  A create whose session never ran leaves no terminal behind: when the backend answers that nothing was launched and
  the record could be withdrawn, every stored and every served terminal is the one there was before the create.
\<close>

theorem unlaunched_create_leaves_nothing:
  assumes "create canon params launch NotLaunched polls inven s = (Refused ErrNotLaunched, abort, s')"
  shows "map_of (term_view s') = map_of (term_view s) \<and> map_of (terminal_rows s') = map_of (terminal_rows s)
    \<and> set (settling s') \<subseteq> set (settling s)"
proof (cases "create_resolve canon params launch s")
  case (Inl e)
  then show ?thesis using assms by (simp add: create_def)
next
  case (Inr resolved)
  obtain res s1 where commit: "create_commit params launch resolved s = (res, s1)"
    by (cases "create_commit params launch resolved s")
  show ?thesis
  proof (cases res)
    case (Inl e)
    then show ?thesis using assms commit Inr create_commit_refused [of params launch resolved s e s1]
      by (simp add: create_def)
  next
    case r: (Inr r)
    note run = create_commit_run [OF commit [unfolded r]]
    have "create_discard (term_id r) s1 = (ErrNotLaunched, s')"
      using assms commit Inr r by (auto simp: create_def split: prod.splits)
    note gone = create_discard_run [OF this]
    show ?thesis using run gone by (auto intro!: withdrawn_insert simp: update_conv')
  qed
qed

text \<open>A plain command in the home directory of the default space.\<close>

definition sample_create :: terminal_create_params where
  "sample_create = \<lparr>tc_space = '''', tc_directory = ''/h'', tc_name = ''build'', tc_command = ''make'', tc_app = '''',
     tc_thread = ''''\<rparr>"

theorem unlaunched_create_leaves_nothing_witness:
  "map_of (term_view (snd (snd (create Some sample_create plain_launch NotLaunched (\<lambda>k. undefined) None server0))))
     = map_of (term_view server0)"
proof -
  let ?run = "create Some sample_create plain_launch NotLaunched (\<lambda>k. undefined) None server0"
  have "fst ?run = Refused ErrNotLaunched" by code_simp
  then have "?run = (Refused ErrNotLaunched, fst (snd ?run), snd (snd ?run))" by (simp add: prod_eq_iff)
  from unlaunched_create_leaves_nothing [OF this] show ?thesis by blast
qed

end
