(* ===== verification/Stranded.thy ===== *)
theory Stranded
  imports Server
begin

text \<open>
  A run of the service that leaves a thread live with nothing holding it: a terminal disappears, the thread is reopened
  in another one before the sweep notices, and the first terminal's record is deleted.
\<close>

declare map_of_eq_Some_iff [simp del] Some_eq_map_of_iff [simp del]

definition gone1 :: thread_svc where
  "gone1 = Reconcile (Some [\<lparr>ses_name = ''term-2'', ses_reachable = True\<rparr>]) server1"

definition gone2 :: thread_svc where
  "gone2 = snd (open_begin ''thrd-aaaaa'' gone1)"

definition gone3 :: thread_svc where
  "gone3 = open_finish ''thrd-aaaaa'' (snd (link ''thrd-aaaaa'' ''term-2'' gone2))"

text \<open>The deletion of the first terminal by the coordinator's workflow: the intent, the record, one pass, the threads.\<close>

definition only_second :: "session list option" where
  "only_second = Some [\<lparr>ses_name = ''term-2'', ses_reachable = True\<rparr>]"

definition gone4 :: thread_svc where "gone4 = snd (Delete_intent ''term-1'' gone3)"
definition gone5 :: thread_svc where "gone5 = snd (removeRecord ''term-1'' gone4)"
definition gone6 :: thread_svc where "gone6 = TerminalRemoved ''term-1'' (Reconcile only_second gone5)"

lemma gone6_is_deletion: "DeleteTerminal (\<lambda>i. only_second) [] ''term-1'' gone3 = (None, gone6)"
proof -
  have "fst (Delete_intent ''term-1'' gone3) = None" "fst (removeRecord ''term-1'' gone4) = Inr True"
    by code_simp+
  then have "Delete_intent ''term-1'' gone3 = (None, gone4)" "removeRecord ''term-1'' gone4 = (Inr True, gone5)"
    by (simp_all add: prod_eq_iff gone4_def gone5_def)
  then show ?thesis by (simp add: DeleteTerminal_def Delete_terminal_def gone6_def)
qed

lemma gone_reachable: "reachable gone3 \<and> reachable gone6"
proof -
  note step = reachable_step [OF _ runs]
  have "reachable gone1" unfolding gone1_def by (rule step [OF server1_reachable thread_step.reconcile_terminals])
  then have "reachable gone2" unfolding gone2_def by (rule step [OF _ thread_step.begin_open])
  then have "reachable (snd (link ''thrd-aaaaa'' ''term-2'' gone2))" by (rule step [OF _ thread_step.link_open])
  then have three: "reachable gone3" unfolding gone3_def by (rule step [OF _ thread_step.finish_open])
  then have "reachable gone4" unfolding gone4_def by (rule step [OF _ thread_step.stop_terminal])
  then have "reachable gone5" unfolding gone5_def by (rule step [OF _ thread_step.remove_terminal])
  then have "reachable (Reconcile only_second gone5)" by (rule step [OF _ thread_step.reconcile_terminals])
  then have "reachable gone6" unfolding gone6_def by (rule step [OF _ thread_step.terminal_removed])
  with three show ?thesis by simp
qed

lemma gone_facts:
  "fst (open_begin ''thrd-aaaaa'' gone1) = BeginResumes \<lparr>rr_integration = ''claude'', rr_app = ''claude/tui'', rr_provider = ''conv''\<rparr>"
  "map_option status (map_of (view gone6) ''thrd-aaaaa'') = Some ThreadWorking"
  "active gone6 = []" "held gone6 = []"
  by code_simp+

text \<open>
  C21. The deletion of a terminal can leave a thread live that nothing holds: the coercion follows the records that still
  name the terminal, while the projection it drops may show a thread already linked to another one.
\<close>

theorem deletion_can_strand_a_live_thread:
  "\<exists>(s :: thread_svc) s' t i r.
     reachable s \<and> DeleteTerminal (\<lambda>i. only_second) [] t s = (None, s') \<and> reachable s'
     \<and> map_of (view s') i = Some r \<and> isLive (status r) \<and> holder i s' = '''' \<and> active s' = []"
proof -
  obtain r where "map_of (view gone6) ''thrd-aaaaa'' = Some r" and "status r = ThreadWorking"
    using gone_facts(2) by auto
  moreover have "holder ''thrd-aaaaa'' gone6 = ''''" by (simp add: holder_def activeHolder_def gone_facts)
  ultimately show ?thesis using gone_reachable gone6_is_deletion gone_facts(3) by (intro exI conjI) auto
qed

end
