(* ===== verification/Ids.thy ===== *)
theory Ids
  imports Prelude "HOL-Library.Word"
begin

unbundle bit_operations_syntax

text \<open>
  \<^verbatim>\<open>internal/ids/ids.go\<close>: public identifiers. The entropy of \<^verbatim>\<open>crypto/rand\<close> is the list of the 16-byte
  buffers the loop reads; \<^const>\<open>None\<close> is a call that has not returned when the list is used up (each buffer may
  be rejected as a whole, so no bound on the buffers is certain). \<^verbatim>\<open>sha256\<close> is a parameter.
\<close>

subsection \<open>Minting\<close>

definition SuffixLength :: nat where "SuffixLength = 5"
definition longSuffixLength :: nat where "longSuffixLength = 10"
definition alphabet :: string where "alphabet = ''23456789bcdfghjkmnpqrstvwxyz''"

text \<open>\<^verbatim>\<open>limit := byte(256 - 256%len(alphabet))\<close>\<close>

definition limit :: "8 word" where
  "limit = word_of_nat (256 - 256 mod length alphabet)"

definition pick :: "8 word \<Rightarrow> char" where
  "pick b = alphabet ! (unat b mod length alphabet)"

text \<open>The inner loop: \<open>suffix\<close> is what has been filled, in order, up to the index \<^verbatim>\<open>i\<close>.\<close>

fun fill :: "8 word list \<Rightarrow> nat \<Rightarrow> string \<Rightarrow> string" where
  "fill [] n suffix = suffix"
| "fill (b # bs) n suffix =
     (if length suffix = n then suffix
      else if b \<ge> limit then fill bs n suffix
      else fill bs n (suffix @ [pick b]))"

fun mint_loop :: "8 word list list \<Rightarrow> nat \<Rightarrow> string \<Rightarrow> string option" where
  "mint_loop bufs n suffix =
     (if length suffix < n
      then (case bufs of [] \<Rightarrow> None | buf # rest \<Rightarrow> mint_loop rest n (fill buf n suffix))
      else Some suffix)"

declare mint_loop.simps [simp del]

definition mint :: "8 word list list \<Rightarrow> string \<Rightarrow> nat \<Rightarrow> string option" where
  "mint bufs prefix n = map_option (\<lambda>suffix. prefix @ suffix) (mint_loop bufs n [])"

definition New :: "8 word list list \<Rightarrow> string \<Rightarrow> string option" where
  "New bufs prefix = mint bufs prefix SuffixLength"

definition NewLong :: "8 word list list \<Rightarrow> string \<Rightarrow> string option" where
  "NewLong bufs prefix = mint bufs prefix longSuffixLength"

subsection \<open>UUIDs\<close>

definition hex_digit :: "nat \<Rightarrow> char" where
  "hex_digit n = ''0123456789abcdef'' ! n"

definition hex_byte :: "8 word \<Rightarrow> string" where
  "hex_byte b = [hex_digit (unat b div 16), hex_digit (unat b mod 16)]"

definition hex :: "8 word list \<Rightarrow> string" where
  "hex bs = concat (map hex_byte bs)"

definition slice :: "nat \<Rightarrow> nat \<Rightarrow> 'a list \<Rightarrow> 'a list" where
  "slice i j xs = take (j - i) (drop i xs)"

definition uuidOf :: "8 word list \<Rightarrow> string" where
  "uuidOf b0 =
     (let b1 = b0[6 := (b0 ! 6 AND 0x0f) OR 0x40];
          b = b1[8 := (b1 ! 8 AND 0x3f) OR 0x80]
      in hex (slice 0 4 b) @ ''-'' @ hex (slice 4 6 b) @ ''-'' @ hex (slice 6 8 b) @ ''-''
           @ hex (slice 8 10 b) @ ''-'' @ hex (slice 10 16 b))"

definition UUIDFrom :: "(string \<Rightarrow> 8 word list) \<Rightarrow> string \<Rightarrow> string" where
  "UUIDFrom sha256 key = uuidOf (take 16 (sha256 key))"

subsection \<open>The minting loop\<close>

definition accepted :: "8 word list \<Rightarrow> 8 word list" where
  "accepted bs = filter (\<lambda>b. b < limit) bs"

lemma accepted_simps [simp]:
  "accepted [] = []"
  "accepted (b # bs) = (if b < limit then b # accepted bs else accepted bs)"
  "accepted (xs @ ys) = accepted xs @ accepted ys"
  by (simp_all add: accepted_def)

lemma fill_spec:
  "length suffix \<le> n \<Longrightarrow> fill bs n suffix = suffix @ map pick (take (n - length suffix) (accepted bs))"
proof (induction bs arbitrary: suffix)
  case (Cons b bs)
  show ?case
  proof (cases "length suffix = n")
    case False
    then have "n - length suffix = Suc (n - Suc (length suffix))" using Cons.prems by simp
    then show ?thesis using Cons False by (simp add: not_le [symmetric])
  qed simp
qed simp

lemma mint_loop_spec:
  "length suffix \<le> n \<Longrightarrow>
   mint_loop bufs n suffix =
     (if n - length suffix \<le> length (accepted (concat bufs))
      then Some (suffix @ map pick (take (n - length suffix) (accepted (concat bufs)))) else None)"
proof (induction bufs arbitrary: suffix)
  case Nil
  then show ?case by (subst mint_loop.simps) auto
next
  case (Cons buf bufs)
  let ?m = "n - length suffix"
  let ?s = "fill buf n suffix"
  have s: "?s = suffix @ map pick (take ?m (accepted buf))"
    using Cons.prems by (rule fill_spec)
  then have le: "length ?s \<le> n" using Cons.prems by simp
  have m: "n - length ?s = ?m - length (accepted buf)" by (simp add: s)
  show ?case
  proof (cases "length suffix < n")
    case True
    then have "mint_loop (buf # bufs) n suffix = mint_loop bufs n ?s"
      by (subst mint_loop.simps) simp
    also have "\<dots> = (if n - length ?s \<le> length (accepted (concat bufs))
        then Some (?s @ map pick (take (n - length ?s) (accepted (concat bufs)))) else None)"
      by (rule Cons.IH [OF le])
    finally show ?thesis unfolding m by (simp add: s le_diff_conv add.commute)
  next
    case False
    then show ?thesis using Cons.prems by (subst mint_loop.simps) simp
  qed
qed

lemma mint_spec:
  "mint bufs prefix n =
     (if n \<le> length (accepted (concat bufs))
      then Some (prefix @ map pick (take n (accepted (concat bufs)))) else None)"
  by (simp add: mint_def mint_loop_spec)

lemma alphabet_length [simp]: "length alphabet = 28"
  by (simp add: alphabet_def)

lemma pick_in_alphabet: "pick b \<in> set alphabet"
  unfolding pick_def by (rule nth_mem) simp

lemma unat_limit: "unat limit = 252"
  by (simp add: limit_def)

lemma distinct_alphabet: "distinct alphabet"
  by (simp add: alphabet_def)

text \<open>The residue classes below the limit: nine bytes for each letter.\<close>

lemma residues:
  assumes k: "k < 28"
  shows "{n. n < 252 \<and> n mod 28 = k} = (\<lambda>q. 28 * q + k) ` {0..<9::nat}"
proof
  show "{n. n < 252 \<and> n mod 28 = k} \<subseteq> (\<lambda>q. 28 * q + k) ` {0..<9}"
  proof
    fix n :: nat assume "n \<in> {n. n < 252 \<and> n mod 28 = k}"
    then have "n = 28 * (n div 28) + k" and "n div 28 < 9" by auto
    then show "n \<in> (\<lambda>q. 28 * q + k) ` {0..<9}" by auto
  qed
  show "(\<lambda>q. 28 * q + k) ` {0..<9} \<subseteq> {n. n < 252 \<and> n mod 28 = k}"
    using k by auto
qed

lemma pick_letter: "k < 28 \<Longrightarrow> pick b = alphabet ! k \<longleftrightarrow> unat b mod 28 = k"
  using nth_eq_iff_index_eq [OF distinct_alphabet, of "unat b mod 28" k] by (simp add: pick_def)

lemma letter_bytes:
  assumes "c \<in> set alphabet"
  shows "card {b :: 8 word. b < limit \<and> pick b = c} = 9"
proof -
  obtain k where k: "k < 28" and c: "c = alphabet ! k"
    using assms by (auto simp: in_set_conv_nth)
  have "{b :: 8 word. b < limit \<and> pick b = c} = word_of_nat ` {n. n < 252 \<and> n mod 28 = k}" (is "?B = ?I")
  proof
    show "?B \<subseteq> ?I"
    proof
      fix b assume "b \<in> ?B"
      then have "unat b < 252" and "unat b mod 28 = k"
        using k by (auto simp: c pick_letter word_less_nat_alt unat_limit)
      then show "b \<in> ?I" by (intro image_eqI [of _ _ "unat b"]) auto
    qed
    show "?I \<subseteq> ?B"
      using k by (auto simp: c pick_letter word_less_nat_alt unat_limit unat_of_nat)
  qed
  moreover have "inj_on (word_of_nat :: nat \<Rightarrow> 8 word) {n. n < 252 \<and> n mod 28 = k}"
    by (rule inj_on_inverseI [where g = unat]) (simp add: unat_of_nat)
  moreover have "card {n. n < 252 \<and> n mod 28 = k} = 9"
    unfolding residues [OF k] by (subst card_image) (auto intro: inj_onI)
  ultimately show ?thesis
    by (simp add: card_image)
qed

text \<open>
  Rejection sampling is uniform: among the bytes that are not re-rolled, each letter of the alphabet is picked by
  exactly nine, so a uniform byte source yields uniform suffix characters.
\<close>

theorem mint_uniform:
  "card {b :: 8 word. b < limit \<and> pick b = c} = (if c \<in> set alphabet then 9 else 0)"
  using letter_bytes [of c] pick_in_alphabet by (auto simp: card_eq_0_iff)

subsection \<open>Fixed length identifiers\<close>

lemma mint_shape:
  "mint bufs prefix n = Some i \<Longrightarrow> \<exists>sfx. i = prefix @ sfx \<and> length sfx = n \<and> set sfx \<subseteq> set alphabet"
  by (auto simp: mint_spec pick_in_alphabet split: if_splits)

text \<open>
  C31. The call returns exactly when the buffers hold enough bytes below the limit, and then the identifier is the prefix
  followed by the letters of the first five of them; with one full buffer of such bytes it has returned.
\<close>

theorem New_spec:
  "New bufs prefix =
     (if 5 \<le> length (accepted (concat bufs))
      then Some (prefix @ map pick (take 5 (accepted (concat bufs)))) else None)"
  by (simp add: New_def mint_spec SuffixLength_def)

text \<open>
  Identifiers of a kind are prefix-free: no terminal id is a proper prefix of another, so a trailing-star match on a
  complete id meets that session only.
\<close>

theorem New_prefix_free:
  assumes "New bufs prefix = Some i" and "New bufs' prefix = Some j" and "j = i @ rest"
  shows "rest = ''''"
  using assms mint_shape [of bufs prefix SuffixLength i] mint_shape [of bufs' prefix SuffixLength j]
  by (auto simp: New_def)

theorem New_prefix_free_witness:
  "New [replicate 16 0] ''term-'' = Some ''term-22222'' \<and> ([] :: char list) = ''''"
proof -
  have a: "New [replicate 16 0] ''term-'' = Some ''term-22222''"
    by code_simp
  show ?thesis using a New_prefix_free [OF a a, of "[]"] by simp
qed

subsection \<open>The shape of a UUID\<close>

lemma hex_simps [simp]: "hex [] = []" "hex (b # bs) = hex_byte b @ hex bs"
  by (simp_all add: hex_def)

lemma slice_16:
  "slice 0 4 [a, b, c, d, e, f, g, h, i, j, k, l, m, n, p, q] = [a, b, c, d]"
  "slice 4 6 [a, b, c, d, e, f, g, h, i, j, k, l, m, n, p, q] = [e, f]"
  "slice 6 8 [a, b, c, d, e, f, g, h, i, j, k, l, m, n, p, q] = [g, h]"
  "slice 8 10 [a, b, c, d, e, f, g, h, i, j, k, l, m, n, p, q] = [i, j]"
  "slice 10 16 [a, b, c, d, e, f, g, h, i, j, k, l, m, n, p, q] = [k, l, m, n, p, q]"
  by (simp_all add: slice_def)

lemma version_nibble: "unat ((b AND 0x0f) OR (0x40 :: 8 word)) div 16 = 4"
proof -
  have "drop_bit 4 ((b AND 0x0f) OR (0x40 :: 8 word)) = 4"
    by (rule bit_word_eqI) (auto simp: bit_simps numeral_eq_Suc less_Suc_eq)
  then have "unat (drop_bit 4 ((b AND 0x0f) OR (0x40 :: 8 word))) = 4" by simp
  then show ?thesis by (simp add: unat_drop_bit_eq drop_bit_eq_div unat_div)
qed

lemma variant_nibble: "unat ((b AND 0x3f) OR (0x80 :: 8 word)) div 16 \<in> {8, 9, 10, 11}"
proof -
  have "drop_bit 6 ((b AND 0x3f) OR (0x80 :: 8 word)) = 2"
    by (rule bit_word_eqI) (auto simp: bit_simps numeral_eq_Suc less_Suc_eq)
  then have "unat (drop_bit 6 ((b AND 0x3f) OR (0x80 :: 8 word))) = 2" by simp
  then have "unat ((b AND 0x3f) OR (0x80 :: 8 word)) div 64 = 2"
    by (simp add: unat_drop_bit_eq drop_bit_eq_div unat_div)
  then show ?thesis by auto
qed

text \<open>
  A UUID is 36 characters in the 8-4-4-4-12 layout, marked version 4 with the RFC variant, whatever the sixteen bytes.
\<close>

theorem uuidOf_shape:
  assumes "length bs = 16"
  shows "length (uuidOf bs) = 36 \<and> uuidOf bs ! 14 = CHR ''4'' \<and> uuidOf bs ! 19 \<in> set ''89ab''
       \<and> (\<forall>i \<in> {8, 13, 18, 23}. uuidOf bs ! i = CHR ''-'')"
proof -
  from assms obtain a b c d e f g h i j k l m n p q
    where bs: "bs = [a, b, c, d, e, f, g, h, i, j, k, l, m, n, p, q]"
    by (auto simp: numeral_eq_Suc length_Suc_conv)
  have dig: "hex_digit (unat ((g AND 0x0f) OR 0x40) div 16) = CHR ''4''"
    by (simp only: version_nibble) (simp add: hex_digit_def)
  have var: "hex_digit (unat ((i AND 0x3f) OR 0x80) div 16) \<in> set ''89ab''"
    using variant_nibble [of i] by (auto simp: hex_digit_def)
  show ?thesis
    using dig var by (simp add: bs uuidOf_def slice_16 hex_byte_def)
qed

theorem uuidOf_shape_witness:
  "length (replicate 16 (0 :: 8 word)) = 16 \<and> uuidOf (replicate 16 0) ! 14 = CHR ''4''"
  using uuidOf_shape [of "replicate 16 0"] by simp

end
