(* ===== verification/Events.thy ===== *)
theory Events
  imports Prelude "HOL-Library.Word"
begin

text \<open>
  \<^verbatim>\<open>internal/events/events.go\<close>: the change-event hub. A subscriber is the handle of its channel; \<open>channels\<close> is the
  heap of the channels, each with its buffered events and whether it was closed. An operation that would panic
  (an index or slice out of range) is \<^const>\<open>None\<close>. Sequence numbers are 64-bit words and wrap.
\<close>

subsection \<open>State\<close>

record change =
  ch_seq :: "64 word"
  ch_type :: string
  ch_resource :: string
  ch_id :: string

record channel =
  buffered :: "change list"
  closed :: bool

record hub =
  ring :: "change list"
  capacity :: nat
  nextSeq :: "64 word"
  subscribers :: "nat list"
  channels :: "(nat \<times> channel) list"
  next_channel :: nat

definition DefaultBacklog :: nat where "DefaultBacklog = 256"
definition subscriberBuffer :: nat where "subscriberBuffer = 64"

definition NewHubAt :: "nat \<Rightarrow> 64 word \<Rightarrow> hub" where
  "NewHubAt backlog firstSeq =
     \<lparr>ring = [], capacity = backlog, nextSeq = firstSeq, subscribers = [], channels = [], next_channel = 0\<rparr>"

text \<open>\<^verbatim>\<open>NewHub\<close>: the base is drawn from eight random bytes, read as a big-endian number.\<close>

definition NewHub :: "nat \<Rightarrow> 64 word \<Rightarrow> hub" where
  "NewHub backlog random = NewHubAt backlog (random mod 2 ^ 50 + 2 ^ 20)"

subsection \<open>Operations\<close>

text \<open>One turn of the fan-out loop: a full buffer disconnects the subscriber.\<close>

definition send_one :: "change \<Rightarrow> nat \<Rightarrow> hub \<Rightarrow> hub" where
  "send_one x c h =
     (case map_of (channels h) c of
        None \<Rightarrow> h
      | Some ch \<Rightarrow>
          if length (buffered ch) < subscriberBuffer
          then h\<lparr>channels := AList.update c (ch\<lparr>buffered := buffered ch @ [x]\<rparr>) (channels h)\<rparr>
          else h\<lparr>subscribers := removeAll c (subscribers h),
                 channels := AList.update c (ch\<lparr>closed := True\<rparr>) (channels h)\<rparr>)"

definition push_ring :: "change \<Rightarrow> hub \<Rightarrow> hub option" where
  "push_ring x h =
     (if length (ring h) = capacity h
      then (case ring h of [] \<Rightarrow> None | _ # rest \<Rightarrow> Some (h\<lparr>ring := rest @ [x]\<rparr>))
      else Some (h\<lparr>ring := ring h @ [x]\<rparr>))"

definition Publish_hub :: "string \<Rightarrow> string \<Rightarrow> string \<Rightarrow> hub \<Rightarrow> hub option" where
  "Publish_hub ty rs i h =
     (let x = \<lparr>ch_seq = nextSeq h, ch_type = ty, ch_resource = rs, ch_id = i\<rparr>
      in case push_ring x (h\<lparr>nextSeq := nextSeq h + 1\<rparr>) of
           None \<Rightarrow> None
         | Some h \<Rightarrow> Some (fold (send_one x) (subscribers h) h))"

record subscription =
  sub_resync :: bool
  sub_head :: "64 word"
  sub_replay :: "change list"
  sub_channel :: nat

text \<open>The replay decision: resync, the tail of the ring (out of range when it is longer than the ring), or nothing.\<close>

definition replay_of :: "64 word \<Rightarrow> hub \<Rightarrow> (bool \<times> change list) option" where
  "replay_of after h =
     (let oldest = nextSeq h - word_of_nat (length (ring h)); newest = nextSeq h - 1
      in if after > newest \<or> after + 1 < oldest then Some (True, [])
         else if after < newest
         then (if unat (newest - after) \<le> length (ring h)
               then Some (False, drop (length (ring h) - unat (newest - after)) (ring h)) else None)
         else Some (False, []))"

definition Subscribe :: "64 word \<Rightarrow> bool \<Rightarrow> hub \<Rightarrow> (subscription \<times> hub) option" where
  "Subscribe after hasCursor h =
     (case (if hasCursor then replay_of after h else Some (False, [])) of
        None \<Rightarrow> None
      | Some (resync, replay) \<Rightarrow>
          Some (\<lparr>sub_resync = resync, sub_head = nextSeq h - 1, sub_replay = replay, sub_channel = next_channel h\<rparr>,
                h\<lparr>subscribers := next_channel h # subscribers h,
                  channels := AList.update (next_channel h) \<lparr>buffered = [], closed = False\<rparr> (channels h),
                  next_channel := Suc (next_channel h)\<rparr>))"

definition Close_subscription :: "nat \<Rightarrow> hub \<Rightarrow> hub" where
  "Close_subscription c h =
     (if c \<in> set (subscribers h)
      then h\<lparr>subscribers := removeAll c (subscribers h),
             channels := (case map_of (channels h) c of
                            None \<Rightarrow> channels h
                          | Some ch \<Rightarrow> AList.update c (ch\<lparr>closed := True\<rparr>) (channels h))\<rparr>
      else h)"

text \<open>A receive on the channel: the oldest buffered event; \<^const>\<open>None\<close> when there is none (blocked, or closed and drained).\<close>

definition receive :: "nat \<Rightarrow> hub \<Rightarrow> (change \<times> hub) option" where
  "receive c h =
     (case map_of (channels h) c of
        None \<Rightarrow> None
      | Some ch \<Rightarrow>
          (case buffered ch of
             [] \<Rightarrow> None
           | x # xs \<Rightarrow> Some (x, h\<lparr>channels := AList.update c (ch\<lparr>buffered := xs\<rparr>) (channels h)\<rparr>)))"

subsection \<open>The log behind the ring\<close>

text \<open>What was published since the hub was made, numbered from its base, and the window of its last entries.\<close>

definition number_one :: "64 word \<Rightarrow> nat \<Rightarrow> change_event \<Rightarrow> change" where
  "number_one base n e =
     \<lparr>ch_seq = base + word_of_nat n, ch_type = ev_type e, ch_resource = ev_resource e, ch_id = ev_id e\<rparr>"

definition numbered :: "64 word \<Rightarrow> change_event list \<Rightarrow> change list" where
  "numbered base es = map (\<lambda>(n, e). number_one base n e) (enumerate 0 es)"

definition window :: "nat \<Rightarrow> 'a list \<Rightarrow> 'a list" where
  "window n xs = drop (length xs - n) xs"

lemma numbered_simps [simp]:
  "numbered base [] = []"
  "numbered base (es @ [e]) = numbered base es @ [number_one base (length es) e]"
  "length (numbered base es) = length es"
  by (simp_all add: numbered_def enumerate_append_eq)

lemma length_window [simp]: "length (window n xs) = min n (length xs)"
  by (simp add: window_def)

lemma window_snoc:
  "0 < n \<Longrightarrow> window n (xs @ [x]) =
     (if length (window n xs) = n then tl (window n xs) @ [x] else window n xs @ [x])"
  by (auto simp: window_def Suc_diff_le tl_drop drop_Suc min_def)

definition represents :: "64 word \<Rightarrow> change_event list \<Rightarrow> hub \<Rightarrow> bool" where
  "represents base es h \<longleftrightarrow>
     0 < capacity h \<and> nextSeq h = base + word_of_nat (length es)
     \<and> ring h = window (capacity h) (numbered base es)"

lemma send_one_frame [frame, simp]:
  "ring (send_one x c h) = ring h" "capacity (send_one x c h) = capacity h"
  "nextSeq (send_one x c h) = nextSeq h" "next_channel (send_one x c h) = next_channel h"
  by (auto simp: send_one_def split: option.splits)

lemma send_all_frame [frame, simp]:
  "ring (fold (send_one x) cs h) = ring h" "capacity (fold (send_one x) cs h) = capacity h"
  "nextSeq (fold (send_one x) cs h) = nextSeq h" "next_channel (fold (send_one x) cs h) = next_channel h"
  by (induction cs arbitrary: h) simp_all

lemma push_ring_window:
  assumes "0 < capacity h" and r: "ring h = window (capacity h) xs"
  shows "push_ring x h = Some (h\<lparr>ring := window (capacity h) (xs @ [x])\<rparr>)"
proof -
  have "window (capacity h) (xs @ [x]) =
      (if length (ring h) = capacity h then tl (ring h) @ [x] else ring h @ [x])"
    unfolding r by (rule window_snoc [OF assms(1)])
  then show ?thesis using assms(1) by (cases "ring h") (simp_all add: push_ring_def)
qed

lemma represents_new: "0 < backlog \<Longrightarrow> represents base [] (NewHubAt backlog base)"
  by (simp add: represents_def NewHubAt_def window_def)

lemma represents_publish:
  assumes "represents base es h"
  shows "\<exists>h'. Publish_hub ty rs i h = Some h' \<and> represents base (es @ [\<lparr>ev_type = ty, ev_resource = rs, ev_id = i\<rparr>]) h'"
  using assms
  by (simp add: represents_def Publish_hub_def Let_def push_ring_window [where xs = "numbered base es"]
      number_one_def add.assoc)

subsection \<open>Catching up\<close>

text \<open>The bound of \<^verbatim>\<open>NewHub\<close>: a base above zero, and a run too short to wrap the numbering.\<close>

definition in_range :: "64 word \<Rightarrow> nat \<Rightarrow> bool" where
  "in_range base n \<longleftrightarrow> 0 < unat base \<and> unat base + n < 2 ^ 64"

lemma unat_seq: "in_range base n \<Longrightarrow> k \<le> n \<Longrightarrow> unat (base + word_of_nat k) = unat base + k"
  by (simp add: in_range_def unat_word_ariths unat_of_nat)

lemma unat_pred: "0 < unat (w :: 64 word) \<Longrightarrow> unat (w - 1) = unat w - 1"
  by (metis One_nat_def less_numeral_extra(3) unat_eq_zero unat_minus_one)

lemma unat_oldest:
  "in_range base n \<Longrightarrow> k \<le> n \<Longrightarrow> unat (base + word_of_nat n - word_of_nat k) = unat base + n - k"
proof -
  assume r: "in_range base n" and k: "k \<le> n"
  have "base + word_of_nat n - word_of_nat k = base + word_of_nat (n - k)"
    using k by (simp add: of_nat_diff algebra_simps)
  moreover have "unat (base + word_of_nat (n - k)) = unat base + (n - k)"
    by (rule unat_seq [OF r diff_le_self])
  ultimately show ?thesis using k by (simp only: diff_add_assoc)
qed

definition published_after :: "nat \<Rightarrow> 64 word \<Rightarrow> change_event list \<Rightarrow> change list" where
  "published_after a base es = drop (Suc a - unat base) (numbered base es)"

lemma window_drop:
  "k \<le> n \<Longrightarrow> k \<le> length xs \<Longrightarrow> drop (length (window n xs) - k) (window n xs) = drop (length xs - k) xs"
  by (simp add: window_def min_def)

lemma replay_of_spec:
  assumes h: "represents base es h" and r: "in_range base (length es)"
  defines "newest \<equiv> unat base + length es - 1" and "kept \<equiv> length (ring h)"
  shows "replay_of after h =
     (if unat after > newest \<or> unat after + kept < newest then Some (True, [])
      else Some (False, published_after (unat after) base es))"
proof -
  have kept: "kept \<le> length es" and ring: "ring h = window (capacity h) (numbered base es)"
    and nx: "nextSeq h = base + word_of_nat (length es)"
    using h by (auto simp: represents_def kept_def)
  have kcap: "kept \<le> capacity h" by (simp add: kept_def ring)
  have b: "0 < unat base" "unat base + length es < 2 ^ 64" using r by (auto simp: in_range_def)
  have un: "unat (nextSeq h) = unat base + length es" using unat_seq [OF r, of "length es"] nx by simp
  have new: "unat (nextSeq h - 1) = newest"
    using un b by (simp add: unat_pred newest_def)
  have old: "unat (nextSeq h - word_of_nat (length (ring h))) = unat base + length es - kept"
    using unat_oldest [OF r kept] by (simp add: nx kept_def)
  have suc: "unat after \<le> newest \<Longrightarrow> unat (after + 1) = unat after + 1"
    using b by (simp add: newest_def unat_word_ariths)
  have c1: "after > nextSeq h - 1 \<longleftrightarrow> unat after > newest"
    by (simp add: word_less_nat_alt new)
  have c2: "unat after \<le> newest \<Longrightarrow>
      after + 1 < nextSeq h - word_of_nat (length (ring h)) \<longleftrightarrow> unat after + kept < newest"
    using kept b by (auto simp: word_less_nat_alt old suc newest_def)
  show ?thesis
  proof (cases "unat after > newest \<or> unat after + kept < newest")
    case True
    then show ?thesis using c1 c2 by (auto simp: replay_of_def Let_def not_less)
  next
    case False
    then have le: "unat after \<le> newest" and big: "newest \<le> unat after + kept" by auto
    have n1: "\<not> after > nextSeq h - 1" using c1 le by simp
    have n2: "\<not> after + 1 < nextSeq h - word_of_nat (length (ring h))" using c2 [OF le] big by simp
    show ?thesis
    proof (cases "unat after < newest")
      case True
      then have lt: "after < nextSeq h - 1" by (simp add: word_less_nat_alt new)
      have cnt: "unat (nextSeq h - 1 - after) = newest - unat after"
        using unat_sub [of after "nextSeq h - 1"] lt new by (simp only: word_le_less_eq simp_thms)
      let ?k = "newest - unat after"
      have k: "?k \<le> kept" using big by simp
      have "drop (length (ring h) - ?k) (ring h) = drop (length (numbered base es) - ?k) (numbered base es)"
        unfolding ring using k kcap kept by (intro window_drop) auto
      moreover have "length (numbered base es) - ?k = Suc (unat after) - unat base"
        using True b k kept by (simp add: newest_def)
      ultimately show ?thesis
        using n1 n2 lt cnt k False by (simp add: replay_of_def Let_def published_after_def kept_def)
    next
      case False
      then have eq: "unat after = newest" using le by simp
      then have "published_after (unat after) base es = []"
        using b by (simp add: published_after_def newest_def)
      moreover have "\<not> after < nextSeq h - 1" using eq by (simp add: word_less_nat_alt new)
      ultimately show ?thesis using n1 n2 le big by (simp add: replay_of_def Let_def)
    qed
  qed
qed

subsection \<open>The fan-out\<close>

definition after_send :: "change \<Rightarrow> channel \<Rightarrow> channel" where
  "after_send x ch =
     (if length (buffered ch) < subscriberBuffer then ch\<lparr>buffered := buffered ch @ [x]\<rparr> else ch\<lparr>closed := True\<rparr>)"

lemma send_one_channels:
  "map_of (channels (send_one x c h)) d =
     (if d = c then map_option (after_send x) (map_of (channels h) c) else map_of (channels h) d)"
  by (auto simp: send_one_def after_send_def split: option.splits)

lemma send_one_subscribers:
  "set (subscribers (send_one x c h)) =
     set (subscribers h) - {d. d = c \<and> (\<exists>ch. map_of (channels h) c = Some ch \<and> subscriberBuffer \<le> length (buffered ch))}"
  by (auto simp: send_one_def split: option.splits)

lemma send_one_distinct: "distinct (subscribers h) \<Longrightarrow> distinct (subscribers (send_one x c h))"
  by (auto simp: send_one_def distinct_removeAll split: option.splits)

lemma send_all_distinct: "distinct (subscribers h) \<Longrightarrow> distinct (subscribers (fold (send_one x) cs h))"
  by (induction cs arbitrary: h) (simp_all add: send_one_distinct)

lemma send_all_channels:
  "distinct cs \<Longrightarrow> map_of (channels (fold (send_one x) cs h)) d =
     (if d \<in> set cs then map_option (after_send x) (map_of (channels h) d) else map_of (channels h) d)"
  by (induction cs arbitrary: h) (auto simp: send_one_channels)

lemma send_all_subscribers:
  "distinct cs \<Longrightarrow> set (subscribers (fold (send_one x) cs h)) =
     set (subscribers h) - {d \<in> set cs. \<exists>ch. map_of (channels h) d = Some ch \<and> subscriberBuffer \<le> length (buffered ch)}"
  by (induction cs arbitrary: h) (auto simp: send_one_subscribers send_one_channels)

subsection \<open>Runs of the hub\<close>

text \<open>
  The hub with a ghost record of what was published, where each subscriber came in, and what it has received.
  Any number of publishers, subscribers and readers interleave; each critical section is one step.
\<close>

record feed =
  fd_hub :: hub
  fd_log :: "change_event list"
  fd_from :: "nat \<Rightarrow> nat"
  fd_got :: "nat \<Rightarrow> change list"

definition feed_start :: "64 word \<Rightarrow> nat \<Rightarrow> feed" where
  "feed_start base backlog =
     \<lparr>fd_hub = NewHubAt backlog base, fd_log = [], fd_from = (\<lambda>_. 0), fd_got = (\<lambda>_. [])\<rparr>"

inductive feed_step :: "64 word \<Rightarrow> feed \<Rightarrow> feed \<Rightarrow> bool" for base where
  publish: "Publish_hub ty rs i (fd_hub f) = Some h \<Longrightarrow> in_range base (Suc (length (fd_log f))) \<Longrightarrow>
    feed_step base f
      (f\<lparr>fd_hub := h, fd_log := fd_log f @ [\<lparr>ev_type = ty, ev_resource = rs, ev_id = i\<rparr>]\<rparr>)"
| subscribe: "Subscribe after hasCursor (fd_hub f) = Some (sub, h) \<Longrightarrow>
    feed_step base f
      (f\<lparr>fd_hub := h, fd_from := (fd_from f)(sub_channel sub := length (fd_log f)),
         fd_got := (fd_got f)(sub_channel sub := [])\<rparr>)"
| deliver: "receive c (fd_hub f) = Some (x, h) \<Longrightarrow>
    feed_step base f (f\<lparr>fd_hub := h, fd_got := (fd_got f)(c := fd_got f c @ [x])\<rparr>)"
| leave: "feed_step base f (f\<lparr>fd_hub := Close_subscription c (fd_hub f)\<rparr>)"

inductive_cases feed_stepE: "feed_step base f g"

text \<open>What one channel has carried: exactly the events since its subscription, or a prefix of them once it is closed.\<close>

definition carried :: "64 word \<Rightarrow> feed \<Rightarrow> nat \<Rightarrow> channel \<Rightarrow> bool" where
  "carried base f c ch \<longleftrightarrow>
     fd_from f c \<le> length (fd_log f) \<and> length (buffered ch) \<le> subscriberBuffer
     \<and> (if c \<in> set (subscribers (fd_hub f))
        then \<not> closed ch \<and> fd_got f c @ buffered ch = drop (fd_from f c) (numbered base (fd_log f))
        else closed ch \<and> (\<exists>n \<le> length (fd_log f).
               fd_got f c @ buffered ch = drop (fd_from f c) (take n (numbered base (fd_log f)))))"

definition feed_inv :: "64 word \<Rightarrow> feed \<Rightarrow> bool" where
  "feed_inv base f \<longleftrightarrow>
     represents base (fd_log f) (fd_hub f) \<and> in_range base (length (fd_log f))
     \<and> distinct (subscribers (fd_hub f))
     \<and> (\<forall>c. next_channel (fd_hub f) \<le> c \<longrightarrow> map_of (channels (fd_hub f)) c = None)
     \<and> set (subscribers (fd_hub f)) \<subseteq> {c. map_of (channels (fd_hub f)) c \<noteq> None}
     \<and> (\<forall>c ch. map_of (channels (fd_hub f)) c = Some ch \<longrightarrow> carried base f c ch)"

lemma feed_inv_start: "0 < backlog \<Longrightarrow> in_range base 0 \<Longrightarrow> feed_inv base (feed_start base backlog)"
  by (simp add: feed_inv_def feed_start_def represents_new) (simp add: NewHubAt_def)

lemma Publish_hub_Some:
  assumes rep: "represents base es h"
  shows "\<exists>h0. Publish_hub ty rs i h = Some (fold (send_one \<lparr>ch_seq = base + word_of_nat (length es), ch_type = ty,
            ch_resource = rs, ch_id = i\<rparr>) (subscribers h) h0)
          \<and> channels h0 = channels h \<and> subscribers h0 = subscribers h \<and> next_channel h0 = next_channel h"
  using rep
  by (intro exI [of _ "h\<lparr>nextSeq := nextSeq h + 1, ring := window (capacity h) (numbered base es @
        [\<lparr>ch_seq = nextSeq h, ch_type = ty, ch_resource = rs, ch_id = i\<rparr>])\<rparr>"])
    (simp add: represents_def Publish_hub_def Let_def push_ring_window [where xs = "numbered base es"])

lemma carried_publish:
  assumes old: "carried base f c ch" and sub: "c \<in> set (subscribers (fd_hub f))"
    and log: "fd_log g = fd_log f @ [e]" and fr: "fd_from g c = fd_from f c" and got: "fd_got g c = fd_got f c"
    and subs: "c \<in> set (subscribers (fd_hub g)) \<longleftrightarrow> length (buffered ch) < subscriberBuffer"
    and x: "x = number_one base (length (fd_log f)) e"
  shows "carried base g c (after_send x ch)"
proof -
  have o: "fd_from f c \<le> length (fd_log f)" "length (buffered ch) \<le> subscriberBuffer" "\<not> closed ch"
    "fd_got f c @ buffered ch = drop (fd_from f c) (numbered base (fd_log f))"
    using old sub by (auto simp: carried_def)
  show ?thesis
  proof (cases "length (buffered ch) < subscriberBuffer")
    case True
    then show ?thesis
      using o subs by (simp add: carried_def after_send_def log fr got x append_assoc [symmetric] del: append_assoc)
  next
    case False
    have "fd_got f c @ buffered ch
        = drop (fd_from f c) (take (length (fd_log f)) (numbered base (fd_log f) @ [x]))"
      using o by simp
    moreover have "length (fd_log f) \<le> Suc (length (fd_log f))" by simp
    ultimately have "\<exists>n \<le> Suc (length (fd_log f)). fd_got f c @ buffered ch
        = drop (fd_from f c) (take n (numbered base (fd_log f) @ [x]))" by blast
    with False show ?thesis
      using o subs by (simp add: carried_def after_send_def log fr got x)
  qed
qed

lemma carried_closed_grows:
  assumes old: "carried base f c ch" and sub: "c \<notin> set (subscribers (fd_hub f))"
    and log: "fd_log g = fd_log f @ [e]" and fr: "fd_from g c = fd_from f c" and got: "fd_got g c = fd_got f c"
    and subs: "c \<notin> set (subscribers (fd_hub g))"
  shows "carried base g c ch"
proof -
  obtain n where n: "n \<le> length (fd_log f)"
      "fd_got f c @ buffered ch = drop (fd_from f c) (take n (numbered base (fd_log f)))"
    using old sub by (auto simp: carried_def)
  then have "fd_got f c @ buffered ch = drop (fd_from f c) (take n (numbered base (fd_log f @ [e])))" by simp
  moreover have "n \<le> Suc (length (fd_log f))" using n by simp
  ultimately have "\<exists>n \<le> Suc (length (fd_log f)). fd_got f c @ buffered ch
      = drop (fd_from f c) (take n (numbered base (fd_log f @ [e])))" by blast
  then show ?thesis
    using old sub subs by (simp add: carried_def log fr got)
qed

lemma feed_inv_publish:
  assumes inv: "feed_inv base f" and pub: "Publish_hub ty rs i (fd_hub f) = Some h"
    and range: "in_range base (Suc (length (fd_log f)))"
  shows "feed_inv base (f\<lparr>fd_hub := h, fd_log := fd_log f @ [\<lparr>ev_type = ty, ev_resource = rs, ev_id = i\<rparr>]\<rparr>)"
proof -
  let ?e = "\<lparr>ev_type = ty, ev_resource = rs, ev_id = i\<rparr>"
  let ?x = "number_one base (length (fd_log f)) ?e"
  let ?g = "f\<lparr>fd_hub := h, fd_log := fd_log f @ [?e]\<rparr>"
  have rep: "represents base (fd_log f) (fd_hub f)" and dist: "distinct (subscribers (fd_hub f))"
    and fresh: "\<forall>c. next_channel (fd_hub f) \<le> c \<longrightarrow> map_of (channels (fd_hub f)) c = None"
    and known: "set (subscribers (fd_hub f)) \<subseteq> {c. map_of (channels (fd_hub f)) c \<noteq> None}"
    and carr: "\<And>c ch. map_of (channels (fd_hub f)) c = Some ch \<Longrightarrow> carried base f c ch"
    using inv by (auto simp: feed_inv_def)
  obtain h0 where h: "h = fold (send_one ?x) (subscribers (fd_hub f)) h0"
    and h0: "channels h0 = channels (fd_hub f)" "subscribers h0 = subscribers (fd_hub f)"
      "next_channel h0 = next_channel (fd_hub f)"
    using Publish_hub_Some [OF rep, of ty rs i] pub by (auto simp: number_one_def)
  have rep': "represents base (fd_log f @ [?e]) h"
    using represents_publish [OF rep, of ty rs i] pub by simp
  have chan: "map_of (channels h) c =
      (if c \<in> set (subscribers (fd_hub f)) then map_option (after_send ?x) (map_of (channels (fd_hub f)) c)
       else map_of (channels (fd_hub f)) c)" for c
    using dist by (simp add: h h0 send_all_channels)
  have subs: "set (subscribers h) = set (subscribers (fd_hub f)) - {d \<in> set (subscribers (fd_hub f)).
      \<exists>ch. map_of (channels (fd_hub f)) d = Some ch \<and> subscriberBuffer \<le> length (buffered ch)}"
    using dist by (simp add: h h0 send_all_subscribers)
  have "carried base ?g c ch'" if c: "map_of (channels h) c = Some ch'" for c ch'
  proof (cases "c \<in> set (subscribers (fd_hub f))")
    case True
    then obtain ch where ch: "map_of (channels (fd_hub f)) c = Some ch" and ch': "ch' = after_send ?x ch"
      using c by (auto simp: chan)
    show ?thesis unfolding ch'
      by (rule carried_publish [OF carr [OF ch] True, where e = ?e]) (use True ch in \<open>auto simp: subs\<close>)
  next
    case False
    then have "map_of (channels (fd_hub f)) c = Some ch'" using c by (simp add: chan)
    then show ?thesis
      by (intro carried_closed_grows [OF carr False, where e = ?e]) (use False in \<open>auto simp: subs\<close>)
  qed
  moreover have "set (subscribers h) \<subseteq> {c. map_of (channels h) c \<noteq> None}"
    using known by (auto simp: chan subs)
  moreover have "\<forall>c. next_channel h \<le> c \<longrightarrow> map_of (channels h) c = None"
  proof -
    have "next_channel h = next_channel (fd_hub f)" by (simp add: h h0)
    then show ?thesis using fresh by (simp add: chan)
  qed
  moreover have "distinct (subscribers h)"
    unfolding h by (rule send_all_distinct) (simp add: h0 dist)
  ultimately show ?thesis
    using rep' range by (simp add: feed_inv_def)
qed

lemma feed_inv_subscribe:
  assumes inv: "feed_inv base f" and sub: "Subscribe after hasCursor (fd_hub f) = Some (sub, h)"
  shows "feed_inv base (f\<lparr>fd_hub := h, fd_from := (fd_from f)(sub_channel sub := length (fd_log f)),
                         fd_got := (fd_got f)(sub_channel sub := [])\<rparr>)"
proof -
  let ?n = "next_channel (fd_hub f)"
  have h: "h = (fd_hub f)\<lparr>subscribers := ?n # subscribers (fd_hub f),
      channels := AList.update ?n \<lparr>buffered = [], closed = False\<rparr> (channels (fd_hub f)), next_channel := Suc ?n\<rparr>"
    and c: "sub_channel sub = ?n"
    using sub by (auto simp: Subscribe_def split: option.splits)
  have none: "map_of (channels (fd_hub f)) ?n = None" and new: "?n \<notin> set (subscribers (fd_hub f))"
    using inv by (auto simp: feed_inv_def)
  have "carried base (f\<lparr>fd_hub := h, fd_from := (fd_from f)(?n := length (fd_log f)), fd_got := (fd_got f)(?n := [])\<rparr>) d ch"
    if d: "map_of (channels h) d = Some ch" for d ch
  proof (cases "d = ?n")
    case True
    then show ?thesis using d by (auto simp: carried_def h)
  next
    case False
    then have "carried base f d ch" using d inv by (simp add: feed_inv_def h)
    then show ?thesis using False by (simp add: carried_def h)
  qed
  then show ?thesis
    using inv new by (auto simp: feed_inv_def c represents_def) (auto simp: h)
qed

lemma feed_inv_deliver:
  assumes inv: "feed_inv base f" and rec: "receive c (fd_hub f) = Some (x, h)"
  shows "feed_inv base (f\<lparr>fd_hub := h, fd_got := (fd_got f)(c := fd_got f c @ [x])\<rparr>)"
proof -
  obtain ch xs where ch: "map_of (channels (fd_hub f)) c = Some ch" and b: "buffered ch = x # xs"
    and h: "h = (fd_hub f)\<lparr>channels := AList.update c (ch\<lparr>buffered := xs\<rparr>) (channels (fd_hub f))\<rparr>"
    using rec by (auto simp: receive_def split: option.splits list.splits)
  have "carried base (f\<lparr>fd_hub := h, fd_got := (fd_got f)(c := fd_got f c @ [x])\<rparr>) d ch'"
    if d: "map_of (channels h) d = Some ch'" for d ch'
  proof (cases "d = c")
    case True
    moreover have "carried base f c ch" using inv ch by (simp add: feed_inv_def)
    ultimately show ?thesis using d b by (auto simp: carried_def h)
  next
    case False
    then have "carried base f d ch'" using d inv by (simp add: feed_inv_def h)
    then show ?thesis using False by (simp add: carried_def h)
  qed
  then show ?thesis
    using inv ch by (auto simp: feed_inv_def represents_def) (auto simp: h)
qed

lemma feed_inv_leave:
  assumes inv: "feed_inv base f"
  shows "feed_inv base (f\<lparr>fd_hub := Close_subscription c (fd_hub f)\<rparr>)"
proof (cases "c \<in> set (subscribers (fd_hub f))")
  case False
  then show ?thesis using inv by (simp add: Close_subscription_def)
next
  case True
  then obtain ch where ch: "map_of (channels (fd_hub f)) c = Some ch"
    using inv by (auto simp: feed_inv_def)
  let ?h = "(fd_hub f)\<lparr>subscribers := removeAll c (subscribers (fd_hub f)),
              channels := AList.update c (ch\<lparr>closed := True\<rparr>) (channels (fd_hub f))\<rparr>"
  have h: "Close_subscription c (fd_hub f) = ?h"
    using True ch by (simp add: Close_subscription_def)
  have "carried base (f\<lparr>fd_hub := ?h\<rparr>) d ch'" if d: "map_of (channels ?h) d = Some ch'" for d ch'
  proof (cases "d = c")
    case True
    have old: "carried base f c ch" using inv ch by (simp add: feed_inv_def)
    have "fd_got f c @ buffered ch = drop (fd_from f c) (take (length (fd_log f)) (numbered base (fd_log f)))"
      using old \<open>c \<in> _\<close> by (simp add: carried_def)
    with True d old show ?thesis by (auto simp: carried_def)
  next
    case False
    then have "carried base f d ch'" using d inv by (simp add: feed_inv_def)
    then show ?thesis using False by (simp add: carried_def)
  qed
  then show ?thesis
    using inv ch unfolding h by (auto simp: feed_inv_def represents_def distinct_removeAll)
qed

lemma feed_inv_step: "feed_step base f g \<Longrightarrow> feed_inv base f \<Longrightarrow> feed_inv base g"
  by (erule feed_step.cases)
    (auto intro: feed_inv_publish feed_inv_subscribe feed_inv_deliver feed_inv_leave)

interpretation feed: machine
  "\<lambda>f. \<exists>backlog. 0 < backlog \<and> in_range base 0 \<and> f = feed_start base backlog" "feed_step base" "feed_inv base" for base
  by unfold_locales (auto intro: feed_inv_start feed_inv_step)

lemma feed_inv_reach:
  assumes "(feed_step base)\<^sup>*\<^sup>* (feed_start base backlog) f" and "0 < backlog" and "in_range base 0"
  shows "feed_inv base f"
  using feed.reach_inv assms by blast

subsection \<open>What a subscriber can rely on\<close>

lemma published_after_grows:
  "Suc a - unat base \<le> length es \<Longrightarrow>
   published_after a base (es @ es') = published_after a base es @ drop (length es) (numbered base (es @ es'))"
proof -
  assume le: "Suc a - unat base \<le> length es"
  have split: "numbered base (es @ es') = numbered base es @ drop (length es) (numbered base (es @ es'))"
  proof -
    have "take (length es) (numbered base (es @ es')) = numbered base es"
      by (simp add: numbered_def enumerate_append_eq)
    then show ?thesis using append_take_drop_id [of "length es" "numbered base (es @ es')"] by simp
  qed
  show ?thesis
    using le by (subst (1) published_after_def, subst split) (simp add: published_after_def)
qed

lemma feed_steps_keep:
  assumes "(feed_step base)\<^sup>*\<^sup>* f g" and "c < next_channel (fd_hub f)"
  shows "fd_from g c = fd_from f c \<and> (\<exists>es. fd_log g = fd_log f @ es) \<and> c < next_channel (fd_hub g)"
  using assms
proof (induction rule: rtranclp_induct)
  case (step g k)
  then have IH: "fd_from g c = fd_from f c" "\<exists>es. fd_log g = fd_log f @ es" "c < next_channel (fd_hub g)" by auto
  from step.hyps(2) show ?case
  proof cases
    case (publish ty rs i h)
    then have "next_channel h = next_channel (fd_hub g)"
      by (auto simp: Publish_hub_def push_ring_def Let_def split: option.splits if_splits list.splits)
    then show ?thesis using IH publish by auto
  next
    case (subscribe after hasCursor sub h)
    then show ?thesis using IH by (auto simp: Subscribe_def split: option.splits)
  next
    case (deliver d x h)
    then show ?thesis using IH by (auto simp: receive_def split: option.splits list.splits)
  next
    case (leave d)
    then show ?thesis using IH by (auto simp: Close_subscription_def)
  qed
qed simp

text \<open>A sample run: a hub of two slots, based at 5, after three events.\<close>

definition sample_publish :: "feed \<Rightarrow> feed" where
  "sample_publish f =
     f\<lparr>fd_hub := the (Publish_hub ''thread.updated'' ''thread'' ''thrd-22222'' (fd_hub f)),
       fd_log := fd_log f @ [\<lparr>ev_type = ''thread.updated'', ev_resource = ''thread'', ev_id = ''thrd-22222''\<rparr>]\<rparr>"

definition sample_feed :: feed where
  "sample_feed = sample_publish (sample_publish (sample_publish (feed_start 5 2)))"

definition sample_subscribed :: feed where
  "sample_subscribed =
     sample_feed\<lparr>fd_hub := snd (the (Subscribe 5 True (fd_hub sample_feed))),
                 fd_from := (fd_from sample_feed)(0 := 3), fd_got := (fd_got sample_feed)(0 := [])\<rparr>"

lemma sample_publish_step:
  "feed_inv 5 f \<Longrightarrow> in_range 5 (Suc (length (fd_log f))) \<Longrightarrow> feed_step 5 f (sample_publish f)"
  using represents_publish [of 5 "fd_log f" "fd_hub f" "''thread.updated''" "''thread''" "''thrd-22222''"]
    feed_step.publish [of "''thread.updated''" "''thread''" "''thrd-22222''" f _ 5]
  by (auto simp: feed_inv_def sample_publish_def)

lemma sample_range: "n < 100 \<Longrightarrow> in_range 5 n"
  by (simp add: in_range_def)

lemma sample_log:
  "fd_log (feed_start 5 2) = []" "length (fd_log (sample_publish f)) = Suc (length (fd_log f))"
  by (simp_all add: feed_start_def sample_publish_def)

lemma sample_reach: "(feed_step 5)\<^sup>*\<^sup>* (feed_start 5 2) sample_feed"
proof -
  let ?a = "feed_start 5 2" and ?b = "sample_publish (feed_start 5 2)"
  have a: "feed_inv 5 ?a" by (rule feed_inv_start) (simp_all add: sample_range)
  have 1: "feed_step 5 ?a ?b" using a by (rule sample_publish_step) (simp add: sample_range sample_log)
  have b: "feed_inv 5 ?b" using 1 a by (rule feed_inv_step)
  have 2: "feed_step 5 ?b (sample_publish ?b)"
    using b by (rule sample_publish_step) (simp add: sample_range sample_log)
  have c: "feed_inv 5 (sample_publish ?b)" using 2 b by (rule feed_inv_step)
  have 3: "feed_step 5 (sample_publish ?b) sample_feed"
    unfolding sample_feed_def using c by (rule sample_publish_step) (simp add: sample_range sample_log)
  from 1 2 3 show ?thesis by (meson rtranclp.rtrancl_into_rtrancl rtranclp.rtrancl_refl)
qed

definition sample_number :: "64 word \<Rightarrow> change" where
  "sample_number n = \<lparr>ch_seq = n, ch_type = ''thread.updated'', ch_resource = ''thread'', ch_id = ''thrd-22222''\<rparr>"

lemma sample_hub:
  "fd_hub sample_feed =
     \<lparr>ring = [sample_number 6, sample_number 7], capacity = 2, nextSeq = 8, subscribers = [], channels = [],
      next_channel = 0\<rparr>"
  by code_simp

lemma sample_subscribe:
  "Subscribe 5 True (fd_hub sample_feed) =
     Some (\<lparr>sub_resync = False, sub_head = 7, sub_replay = [sample_number 6, sample_number 7], sub_channel = 0\<rparr>,
           \<lparr>ring = [sample_number 6, sample_number 7], capacity = 2, nextSeq = 8, subscribers = [0],
            channels = [(0, \<lparr>buffered = [], closed = False\<rparr>)], next_channel = 1\<rparr>)"
  unfolding sample_hub by code_simp

lemma sample_feed_length [simp]: "length (fd_log sample_feed) = 3"
  by (simp add: sample_feed_def sample_log)

lemma sample_subscribed_reach: "(feed_step 5)\<^sup>*\<^sup>* (feed_start 5 2) sample_subscribed"
proof -
  have "fd_log sample_feed = replicate 3 \<lparr>ev_type = ''thread.updated'', ev_resource = ''thread'', ev_id = ''thrd-22222''\<rparr>"
    by (simp add: sample_feed_def sample_publish_def feed_start_def numeral_3_eq_3)
  then have "feed_step 5 sample_feed sample_subscribed"
    using feed_step.subscribe [OF sample_subscribe] by (simp add: sample_subscribed_def sample_subscribe)
  with sample_reach show ?thesis by (rule rtranclp.rtrancl_into_rtrancl)
qed

text \<open>
  C22. However publishers, subscribers and readers interleave, the ring holds exactly the last \<^verbatim>\<open>capacity\<close> events with
  consecutive numbers, and the next publish neither panics nor loses that.
\<close>

theorem hub_ring_is_window:
  assumes "(feed_step base)\<^sup>*\<^sup>* (feed_start base backlog) f" and "0 < backlog" and "in_range base 0"
  shows "ring (fd_hub f) = window (capacity (fd_hub f)) (numbered base (fd_log f))
       \<and> nextSeq (fd_hub f) = base + word_of_nat (length (fd_log f))
       \<and> (\<exists>h. Publish_hub ty rs i (fd_hub f) = Some h)"
  using feed_inv_reach [OF assms] represents_publish [of base "fd_log f" "fd_hub f" ty rs i]
  by (auto simp: feed_inv_def represents_def)

theorem hub_ring_is_window_witness:
  "ring (fd_hub sample_feed) = window 2 (numbered 5 (fd_log sample_feed))"
  using hub_ring_is_window [OF sample_reach] by (simp add: sample_range sample_hub)

text \<open>
  C23. No gap and no duplicate: what a connected subscriber has received, followed by what waits in its buffer, is exactly
  the sequence published since it subscribed; a disconnected one has seen a prefix of it.
\<close>

theorem subscriber_sees_no_gap:
  assumes "(feed_step base)\<^sup>*\<^sup>* (feed_start base backlog) f" and "0 < backlog" and "in_range base 0"
    and "map_of (channels (fd_hub f)) c = Some ch"
  shows "if c \<in> set (subscribers (fd_hub f))
         then fd_got f c @ buffered ch = drop (fd_from f c) (numbered base (fd_log f))
         else \<exists>n. fd_got f c @ buffered ch = drop (fd_from f c) (take n (numbered base (fd_log f)))"
proof -
  have "carried base f c ch" using feed_inv_reach [OF assms(1-3)] assms(4) by (simp add: feed_inv_def)
  then show ?thesis by (auto simp: carried_def)
qed

theorem subscriber_sees_no_gap_witness:
  "fd_got sample_subscribed 0 @ [] = drop 3 (numbered 5 (fd_log sample_subscribed))"
  using subscriber_sees_no_gap [OF sample_subscribed_reach, of 0 "\<lparr>buffered = [], closed = False\<rparr>"]
  by (simp add: sample_range sample_subscribed_def sample_subscribe)

text \<open>
  Catch-up: a subscriber that presents a cursor and is not told to resync ends up, once connected, with exactly the
  events numbered after its cursor: first the replay, then what it receives live, whatever happens in between.
\<close>

theorem subscriber_catches_up:
  assumes reach: "(feed_step base)\<^sup>*\<^sup>* (feed_start base backlog) f" and "0 < backlog" and "in_range base 0"
    and sub: "Subscribe after True (fd_hub f) = Some (s, h)" and ok: "\<not> sub_resync s"
    and f': "f' = f\<lparr>fd_hub := h, fd_from := (fd_from f)(sub_channel s := length (fd_log f)),
                    fd_got := (fd_got f)(sub_channel s := [])\<rparr>"
    and later: "(feed_step base)\<^sup>*\<^sup>* f' g"
    and conn: "sub_channel s \<in> set (subscribers (fd_hub g))"
  shows "\<exists>ch. map_of (channels (fd_hub g)) (sub_channel s) = Some ch
          \<and> sub_replay s @ fd_got g (sub_channel s) @ buffered ch = published_after (unat after) base (fd_log g)"
proof -
  have inv: "feed_inv base f" using reach assms(2,3) by (rule feed_inv_reach)
  have step: "feed_step base f f'" unfolding f' by (rule feed_step.subscribe [OF sub])
  with reach later have "(feed_step base)\<^sup>*\<^sup>* (feed_start base backlog) g"
    by (meson converse_rtranclp_into_rtranclp rtranclp_trans)
  then have ginv: "feed_inv base g" using assms(2,3) by (rule feed_inv_reach)
  have rep: "represents base (fd_log f) (fd_hub f)" and range: "in_range base (length (fd_log f))"
    using inv by (auto simp: feed_inv_def)
  have replay: "sub_replay s = published_after (unat after) base (fd_log f)"
    and le: "unat after \<le> unat base + length (fd_log f) - 1"
    using sub ok by (auto simp: Subscribe_def replay_of_spec [OF rep range] split: option.splits if_splits)
  have new: "sub_channel s < next_channel (fd_hub f')"
    using sub by (auto simp: Subscribe_def f' split: option.splits)
  obtain es where es: "fd_log g = fd_log f @ es" and fr: "fd_from g (sub_channel s) = length (fd_log f)"
    using feed_steps_keep [OF later new] by (auto simp: f')
  obtain ch where ch: "map_of (channels (fd_hub g)) (sub_channel s) = Some ch"
    using ginv conn by (auto simp: feed_inv_def)
  then have "fd_got g (sub_channel s) @ buffered ch = drop (length (fd_log f)) (numbered base (fd_log g))"
    using ginv conn by (auto simp: feed_inv_def carried_def fr)
  moreover have "Suc (unat after) - unat base \<le> length (fd_log f)"
    using le range unfolding in_range_def by arith
  ultimately show ?thesis using ch replay published_after_grows by (simp add: es)
qed

theorem subscriber_catches_up_witness:
  "\<exists>ch. map_of (channels (fd_hub sample_subscribed)) 0 = Some ch
      \<and> [sample_number 6, sample_number 7] @ fd_got sample_subscribed 0 @ buffered ch
         = published_after 5 5 (fd_log sample_subscribed)"
  using subscriber_catches_up [OF sample_reach _ _ sample_subscribe, of sample_subscribed sample_subscribed]
  by (simp add: sample_range sample_subscribed_def sample_subscribe)

text \<open>
  A resync is asked for exactly when it has to be: the cursor lies past the newest event (an earlier run), or some
  number after it is no longer, or never was, in the ring.
\<close>

theorem resync_iff_missing:
  assumes "(feed_step base)\<^sup>*\<^sup>* (feed_start base backlog) f" and "0 < backlog" and "in_range base 0"
    and "Subscribe after True (fd_hub f) = Some (s, h)"
  shows "sub_resync s \<longleftrightarrow>
     unat after > unat base + length (fd_log f) - 1
     \<or> unat after + length (ring (fd_hub f)) < unat base + length (fd_log f) - 1"
proof -
  have "represents base (fd_log f) (fd_hub f)" "in_range base (length (fd_log f))"
    using feed_inv_reach [OF assms(1-3)] by (auto simp: feed_inv_def)
  from replay_of_spec [OF this, of after] show ?thesis
    using assms(4) by (auto simp: Subscribe_def split: option.splits if_splits)
qed

theorem resync_iff_missing_witness:
  "\<not> unat (5 :: 64 word) + 2 < unat (5 :: 64 word) + length (fd_log sample_feed) - 1"
  using resync_iff_missing [OF sample_reach _ _ sample_subscribe] by (simp add: sample_range sample_hub)

end
