(* ===== verification/HookAuth.thy ===== *)
theory HookAuth
  imports GoStrings Store
begin

text \<open>
  \<^verbatim>\<open>internal/integrations/hookauth\<close>: the launch registry. A registration is a shared object, reached by its secret and
  by its terminal; the object store is a list, a registration's address its index, so that \<open>Deliver\<close> can ask whether
  the registration it resolved is still the one its secret names. \<open>Deliver\<close> releases the registry lock between the
  lookup and the run and is split there.

  \<open>header_files\<close> is the hook directory: the header file of each launch, by terminal id. The secret drawn and the
  success of each file operation are arguments.
\<close>

record 's registration =
  reg_terminal :: string
  reg_secret :: string
  reg_state :: 's

record 's registry =
  header_files :: "(string \<times> string) list"
  registrations :: "'s registration list"
  bySecret :: "(string \<times> nat) list"
  byTerminal :: "(string \<times> nat) list"

definition SecretHeader :: string where "SecretHeader = ''x-atc-hook-secret''"

definition header_line :: "string \<Rightarrow> string" where
  "header_line secret = SecretHeader @ '': '' @ secret"

text \<open>\<^verbatim>\<open>NewRegistry\<close> over a directory that may hold the files of an earlier process.\<close>

definition NewRegistry :: "(string \<times> string) list \<Rightarrow> 's registry" where
  "NewRegistry files = \<lparr>header_files = files, registrations = [], bySecret = [], byTerminal = []\<rparr>"

text \<open>\<^verbatim>\<open>register\<close>: the object enters the store; an earlier one of the same terminal loses its secret.\<close>

definition register :: "'s registration \<Rightarrow> 's registry \<Rightarrow> 's registry" where
  "register reg g =
     (let at = length (registrations g);
          secrets = (case map_of (byTerminal g) (reg_terminal reg) of
                       None \<Rightarrow> bySecret g
                     | Some previous \<Rightarrow> AList.delete (reg_secret (registrations g ! previous)) (bySecret g))
      in g\<lparr>registrations := registrations g @ [reg],
           bySecret := AList.update (reg_secret reg) at secrets,
           byTerminal := AList.update (reg_terminal reg) at (byTerminal g)\<rparr>)"

text \<open>\<^verbatim>\<open>Prepare\<close>: \<open>drawn\<close> is the secret \<^verbatim>\<open>newSecret\<close> yields, \<open>written\<close> whether the header file could be written.\<close>

definition Prepare_registry ::
  "'s \<Rightarrow> string option \<Rightarrow> bool \<Rightarrow> string \<Rightarrow> 's registry \<Rightarrow> err option \<times> 's registry" where
  "Prepare_registry zero drawn written t g =
     (case drawn of
        None \<Rightarrow> (Some ErrIO, g)
      | Some secret \<Rightarrow>
          if \<not> written then (Some ErrIO, g)
          else (None, register \<lparr>reg_terminal = t, reg_secret = secret, reg_state = zero\<rparr>
                        (g\<lparr>header_files := AList.update t (header_line secret) (header_files g)\<rparr>)))"

text \<open>
  \<^verbatim>\<open>Deliver\<close>: the lookup, then under the registration's own lock the ownership check and the agent's callback, here a
  function from the terminal, the launch state and the agent's world.
\<close>

definition Deliver_lookup :: "string \<Rightarrow> 's registry \<Rightarrow> nat option" where
  "Deliver_lookup secret g = map_of (bySecret g) secret"

definition Deliver_run ::
  "string \<Rightarrow> nat \<Rightarrow> (string \<Rightarrow> 's \<Rightarrow> 'w \<Rightarrow> nat \<times> 's \<times> 'w) \<Rightarrow> 's registry \<Rightarrow> 'w \<Rightarrow> nat \<times> 's registry \<times> 'w" where
  "Deliver_run secret at deliver g w =
     (if map_of (bySecret g) secret \<noteq> Some at then (404, g, w)
      else let reg = registrations g ! at;
               (code, st, w) = deliver (reg_terminal reg) (reg_state reg) w
           in (code, g\<lparr>registrations := (registrations g)[at := reg\<lparr>reg_state := st\<rparr>]\<rparr>, w))"

definition Deliver ::
  "string \<Rightarrow> (string \<Rightarrow> 's \<Rightarrow> 'w \<Rightarrow> nat \<times> 's \<times> 'w) \<Rightarrow> 's registry \<Rightarrow> 'w \<Rightarrow> nat \<times> 's registry \<times> 'w" where
  "Deliver secret deliver g w =
     (case Deliver_lookup secret g of
        None \<Rightarrow> (404, g, w)
      | Some at \<Rightarrow> Deliver_run secret at deliver g w)"

definition Deregister :: "string \<Rightarrow> 's registry \<Rightarrow> 's registry" where
  "Deregister t g =
     (let g = (case map_of (byTerminal g) t of
                 None \<Rightarrow> g
               | Some at \<Rightarrow> g\<lparr>byTerminal := AList.delete t (byTerminal g),
                               bySecret := AList.delete (reg_secret (registrations g ! at)) (bySecret g)\<rparr>)
      in g\<lparr>header_files := AList.delete t (header_files g)\<rparr>)"

text \<open>
  \<^verbatim>\<open>Load\<close>: one header file after another; \<open>keep\<close> is the agent's verdict on the terminal and \<open>readable\<close> whether the file
  could be read.
\<close>

definition load_one ::
  "'s \<Rightarrow> (string \<Rightarrow> bool) \<Rightarrow> (string \<Rightarrow> bool) \<Rightarrow> string \<times> string \<Rightarrow> 's registry \<Rightarrow> 's registry" where
  "load_one zero keep readable entry g =
     (let (t, content) = entry;
          discarded = g\<lparr>header_files := AList.delete t (header_files g)\<rparr>;
          prefix = SecretHeader @ '': '';
          secret = drop (length prefix) content
      in if \<not> keep t then discarded
         else if \<not> readable t then g
         else if \<not> HasPrefix content prefix \<or> secret = '''' then discarded
         else register \<lparr>reg_terminal = t, reg_secret = secret, reg_state = zero\<rparr> g)"

definition Load_registry ::
  "'s \<Rightarrow> (string \<Rightarrow> bool) \<Rightarrow> (string \<Rightarrow> bool) \<Rightarrow> 's registry \<Rightarrow> 's registry" where
  "Load_registry zero keep readable g = fold (load_one zero keep readable) (header_files g) g"

subsection \<open>The registry invariant\<close>

text \<open>
  A registered terminal names a registration of its own; a known secret names a registration that carries it and is
  still the current one of its terminal.
\<close>

definition registry_inv :: "'s registry \<Rightarrow> bool" where
  "registry_inv g \<longleftrightarrow>
     (\<forall>t at. map_of (byTerminal g) t = Some at \<longrightarrow> at < length (registrations g) \<and> reg_terminal (registrations g ! at) = t)
     \<and> (\<forall>x at. map_of (bySecret g) x = Some at \<longrightarrow>
          at < length (registrations g) \<and> reg_secret (registrations g ! at) = x
          \<and> map_of (byTerminal g) (reg_terminal (registrations g ! at)) = Some at)"

lemma registry_inv_new: "registry_inv (NewRegistry files)"
  by (simp add: registry_inv_def NewRegistry_def)

lemma registry_inv_register:
  assumes "registry_inv g"
  shows "registry_inv (register reg g)"
  using assms
  by (auto simp: registry_inv_def register_def Let_def nth_append less_Suc_eq split: option.splits if_splits)
    (metis option.distinct(1), metis option.inject)

lemma registry_inv_files [simp]: "registry_inv (g\<lparr>header_files := x\<rparr>) \<longleftrightarrow> registry_inv g"
  by (simp add: registry_inv_def)

lemma registry_inv_Prepare:
  "registry_inv g \<Longrightarrow> registry_inv (snd (Prepare_registry zero drawn written t g))"
  by (auto simp: Prepare_registry_def intro!: registry_inv_register split: option.splits)

lemma registry_inv_Deregister: "registry_inv g \<Longrightarrow> registry_inv (Deregister t g)"
  by (auto simp: registry_inv_def Deregister_def Let_def split: option.splits if_splits)

lemma registry_inv_Deliver_run:
  "registry_inv g \<Longrightarrow> registry_inv (fst (snd (Deliver_run secret at deliver g w)))"
  by (auto simp: registry_inv_def Deliver_run_def Let_def nth_list_update split: prod.splits if_splits)

lemma registry_inv_load_one: "registry_inv g \<Longrightarrow> registry_inv (load_one zero keep readable e g)"
  by (auto simp: load_one_def Let_def intro!: registry_inv_register split: prod.splits)

lemma registry_inv_Load: "registry_inv g \<Longrightarrow> registry_inv (Load_registry zero keep readable g)"
proof -
  have "registry_inv g \<Longrightarrow> registry_inv (fold (load_one zero keep readable) es g)" for es
    by (induction es arbitrary: g) (simp_all add: registry_inv_load_one)
  then show "registry_inv g \<Longrightarrow> registry_inv (Load_registry zero keep readable g)" by (simp add: Load_registry_def)
qed

end
