(* ===== verification/Claude.thy ===== *)
theory Claude
  imports HookAuth Threads ThreadOps
begin

text \<open>
  \<^verbatim>\<open>internal/integrations/claude\<close>: the hook events of a Claude launch. The reducer of \<^verbatim>\<open>tracker.go\<close> turns events into the
  status of a session, and \<^verbatim>\<open>Hooks.apply\<close> decides which events reach the Threads domain and as what; the Threads
  operations it calls are those of theory Threads on the same state.
\<close>

definition claude_ID :: string where "claude_ID = ''claude''"
definition claude_AppID :: string where "claude_AppID = claude_ID @ ''/tui''"
definition claude_AgentID :: string where "claude_AgentID = ''claude''"

subsection \<open>Condensed titles\<close>

text \<open>\<^verbatim>\<open>strings.LastIndexByte(s, ' ')\<close>, and \<^verbatim>\<open>utf8.RuneStart\<close>: not a continuation byte \<^verbatim>\<open>10xxxxxx\<close>.\<close>

definition last_blank :: "string \<Rightarrow> nat option" where
  "last_blank s = (case filter (\<lambda>i. s ! i = CHR '' '') [0..<length s] of [] \<Rightarrow> None | l \<Rightarrow> Some (last l))"

definition rune_start :: "char \<Rightarrow> bool" where
  "rune_start c \<longleftrightarrow> of_char c div 64 \<noteq> (2 :: nat)"

text \<open>The loop that backs off to a rune boundary.\<close>

fun back_off :: "string \<Rightarrow> nat \<Rightarrow> nat" where
  "back_off s 0 = 0"
| "back_off s (Suc n) = (if rune_start (s ! Suc n) then Suc n else back_off s n)"

definition title_limit :: nat where "title_limit = 50"

definition CondenseTitle :: "string \<Rightarrow> string" where
  "CondenseTitle s =
     (let title = join_blank (Fields s)
      in if length title \<le> title_limit then title
         else case last_blank (take title_limit title) of
                Some k \<Rightarrow> if k > 0 then take k title else take (back_off title title_limit) title
              | None \<Rightarrow> take (back_off title title_limit) title)"

subsection \<open>The reducer\<close>

text \<open>\<^verbatim>\<open>payload\<close>: the part of a hook event the reducer reads; an absent level snapshot is \<^const>\<open>None\<close>.\<close>

record payload =
  p_session :: string
  p_event :: string
  p_agent :: string
  p_task :: string
  p_background :: "string list option"
  p_notification :: string
  p_tool :: string
  p_prompt :: string
  p_reason :: string
  p_error :: string
  p_error_details :: string
  p_last_message :: string
  p_cwd :: string
  p_permission_mode :: string
  p_effort :: string

record tracker =
  root :: thread_status
  background :: "(string \<times> thread_status) list"

definition newTracker :: tracker where "newTracker = \<lparr>root = ThreadIdle, background = []\<rparr>"
definition seededTracker :: tracker where "seededTracker = \<lparr>root = ThreadUnknown, background = []\<rparr>"

definition aggregate :: "tracker \<Rightarrow> thread_status" where
  "aggregate t = Rank (root t # map snd (background t))"

fun waiting :: "thread_status \<Rightarrow> bool" where
  "waiting ThreadWaitingForInput = True"
| "waiting ThreadWaitingForPermission = True"
| "waiting _ = False"

text \<open>A level snapshot replaces the background members; a retained one keeps its waiting status.\<close>

definition snapshot_entry :: "(string \<times> thread_status) list \<Rightarrow> string \<Rightarrow> thread_status" where
  "snapshot_entry old i =
     (case map_of old i of Some previous \<Rightarrow> if waiting previous then previous else ThreadWorking
                         | None \<Rightarrow> ThreadWorking)"

definition apply_snapshot :: "string list option \<Rightarrow> tracker \<Rightarrow> tracker \<times> bool" where
  "apply_snapshot tasks t =
     (case tasks of
        None \<Rightarrow> (t, False)
      | Some ids \<Rightarrow>
          (t\<lparr>background := fold (\<lambda>i acc. if i = '''' then acc else AList.update i (snapshot_entry (background t) i) acc) ids []\<rparr>,
           True))"

definition set_member :: "string \<Rightarrow> thread_status \<Rightarrow> tracker \<Rightarrow> tracker" where
  "set_member agent st t =
     (if agent = '''' then t\<lparr>root := st\<rparr> else t\<lparr>background := AList.update agent st (background t)\<rparr>)"

text \<open>A read of a missing key gives the empty status (\<^const>\<open>ThreadNone\<close>).\<close>

definition set_permission :: "string \<Rightarrow> tracker \<Rightarrow> tracker" where
  "set_permission agent t =
     (let current = (if agent = '''' then root t
                     else case map_of (background t) agent of None \<Rightarrow> ThreadNone | Some st \<Rightarrow> st)
      in set_member agent (Rank [current, ThreadWaitingForPermission]) t)"

definition failureDetail :: "payload \<Rightarrow> string" where
  "failureDetail p = (if p_error_details p \<noteq> '''' then p_error_details p else p_error p)"

definition root_turn :: "turn_state \<Rightarrow> string \<Rightarrow> string \<Rightarrow> turn_observation" where
  "root_turn st error response =
     \<lparr>to_provider_id = '''', to_state = st, to_started_at = 0, to_completed_at = 0, to_error = error,
      to_response = response\<rparr>"

text \<open>
  \<^verbatim>\<open>tracker.apply\<close>: the tracker after the payload, the aggregate, whether there is a signal to forward, and the turn
  evidence of the root.
\<close>

definition tracker_event :: "payload \<Rightarrow> bool \<Rightarrow> tracker \<Rightarrow> tracker \<times> bool \<times> turn_observation option" where
  "tracker_event p signal t =
     (let e = p_event p; agent = p_agent p; root' = (agent = '''')
      in if e = ''UserPromptSubmit''
         then (set_member agent ThreadWorking t, True, if root' then Some (root_turn TurnRunning '''' '''') else None)
         else if e \<in> {''PreToolUse'', ''PostToolUse'', ''PostToolUseFailure'', ''PermissionDenied''}
         then (set_member agent ThreadWorking t, True, None)
         else if e = ''Stop''
         then (if root' then (t\<lparr>root := ThreadIdle\<rparr>, True, Some (root_turn TurnCompleted '''' (p_last_message p)))
               else (t, signal, None))
         else if e = ''StopFailure''
         then (if root'
               then (t\<lparr>root := ThreadIdle\<rparr>, True, Some (root_turn TurnFailed (failureDetail p) (p_last_message p)))
               else (t, signal, None))
         else if e = ''SubagentStart''
         then (if agent \<noteq> '''' then set_member agent ThreadWorking t else t, True, None)
         else if e = ''SubagentStop'' then (t\<lparr>background := AList.delete agent (background t)\<rparr>, True, None)
         else if e = ''TaskCreated''
         then (if p_task p \<noteq> '''' then set_member (p_task p) ThreadWorking t else t, True, None)
         else if e = ''TaskCompleted'' then (t\<lparr>background := AList.delete (p_task p) (background t)\<rparr>, True, None)
         else if e = ''PermissionRequest''
         then (if p_tool p = ''AskUserQuestion'' then set_member agent ThreadWaitingForInput t else set_permission agent t,
               True, None)
         else if e = ''Notification''
         then (if p_notification p = ''idle_prompt''
               then (if root' then (t\<lparr>root := ThreadIdle\<rparr>, True, None) else (t, signal, None))
               else if p_notification p = ''permission_prompt'' then (set_permission agent t, True, None)
               else if p_notification p \<in> {''elicitation_dialog'', ''agent_needs_input''}
               then (set_member agent ThreadWaitingForInput t, True, None)
               else (t, signal, None))
         else (t, signal, None))"

definition tracker_apply ::
  "payload \<Rightarrow> tracker \<Rightarrow> tracker \<times> thread_status \<times> bool \<times> turn_observation option" where
  "tracker_apply p t =
     (let (t, signal) = apply_snapshot (p_background p) t;
          (t, signal, tobs) = tracker_event p signal t
      in (t, aggregate t, signal, tobs))"

subsection \<open>A launch\<close>

text \<open>\<^verbatim>\<open>session\<close>: the lifecycle state of one launch, the state of its registration.\<close>

record hook_session =
  hs_id :: string
  hs_established :: bool
  hs_ended :: bool
  hs_title :: string
  hs_tracker :: "tracker option"

definition fresh_session :: hook_session where
  "fresh_session = \<lparr>hs_id = '''', hs_established = False, hs_ended = False, hs_title = '''', hs_tracker = None\<rparr>"

definition rootPrompt :: "payload \<Rightarrow> bool" where
  "rootPrompt p \<longleftrightarrow> p_event p = ''UserPromptSubmit'' \<and> p_agent p = ''''"

definition mapped :: "string \<Rightarrow> 'a thread_svc_scheme \<Rightarrow> bool" where
  "mapped session s \<longleftrightarrow> LookupIdentity claude_ID session s \<noteq> None"

definition metadataFrom :: "payload \<Rightarrow> metadata" where
  "metadataFrom p =
     \<lparr>md_title = '''', md_model = '''', md_effort = p_effort p, md_cwd = p_cwd p,
      md_permission_mode = p_permission_mode p\<rparr>"

text \<open>\<^verbatim>\<open>observe\<close>: a session observation against the terminal's record; it fails when the terminal is gone.\<close>

definition hook_observe ::
  "(string \<Rightarrow> string option) \<Rightarrow> string \<Rightarrow> hook_session \<Rightarrow> payload \<Rightarrow> thread_status \<Rightarrow> 'a thread_svc_scheme
     \<Rightarrow> bool \<times> 'a thread_svc_scheme" where
  "hook_observe canon tm st p claim s =
     (case Get_terminal tm s of
        Inl e \<Rightarrow> (False, s)
      | Inr terminal \<Rightarrow>
          (let (at, s) = now s
           in case ObserveSession canon
                     \<lparr>so_integration = claude_ID, so_app = claude_AppID, so_agent = claude_AgentID,
                      so_provider = p_session p, so_terminal = tm,
                      so_directory = (if p_cwd p = '''' then at_directory terminal else p_cwd p),
                      so_at = at, so_status = claim, so_detail = '''', so_turn = None,
                      so_metadata = (metadataFrom p)\<lparr>md_title := hs_title st\<rparr>\<rparr> s of
                (Inl e, s) \<Rightarrow> (False, s)
              | (Inr i, s) \<Rightarrow> (i \<noteq> '''', s)))"

text \<open>A status observation whose error is only logged.\<close>

definition forward ::
  "payload \<Rightarrow> thread_status \<Rightarrow> turn_observation option \<Rightarrow> metadata \<Rightarrow> 'a thread_svc_scheme \<Rightarrow> 'a thread_svc_scheme" where
  "forward p claim tobs md s =
     (let (at, s) = now s
      in snd (ObserveStatus \<lparr>sto_integration = claude_ID, sto_provider = p_session p, sto_at = at, sto_status = claim,
                             sto_detail = '''', sto_turn = tobs, sto_metadata = md\<rparr> s))"

definition sessionEnd ::
  "string \<Rightarrow> hook_session \<Rightarrow> payload \<Rightarrow> 'a thread_svc_scheme \<Rightarrow> hook_session \<times> 'a thread_svc_scheme" where
  "sessionEnd tm st p s =
     (let st = st\<lparr>hs_tracker := None, hs_ended := True\<rparr>;
          s = forward p ThreadNone None (metadataFrom p) s
      in (st, if p_reason p \<noteq> ''clear'' \<and> p_reason p \<noteq> ''resume'' then Deactivate tm s else s))"

definition reduce :: "hook_session \<Rightarrow> payload \<Rightarrow> 'a thread_svc_scheme \<Rightarrow> hook_session \<times> 'a thread_svc_scheme" where
  "reduce st p s =
     (let t = (case hs_tracker st of None \<Rightarrow> seededTracker | Some t \<Rightarrow> t);
          (t, claim, signal, tobs) = tracker_apply p t;
          st = st\<lparr>hs_tracker := Some t\<rparr>
      in if \<not> signal then (st, s)
         else (st, forward p claim tobs
                     (if rootPrompt p then (metadataFrom p)\<lparr>md_title := hs_title st\<rparr> else metadataFrom p) s))"

text \<open>The gate at the head of \<^verbatim>\<open>apply\<close>: \<^const>\<open>None\<close> drops the payload.\<close>

definition hook_gate :: "string \<Rightarrow> hook_session \<Rightarrow> payload \<Rightarrow> 'a thread_svc_scheme \<Rightarrow> hook_session option" where
  "hook_gate tm st p s =
     (if p_event p = ''SessionStart'' then Some st
      else if hs_ended st then None
      else if hs_id st = ''''
      then (if \<not> rootPrompt p then None
            else if (case LookupIdentity claude_ID (p_session p) s of None \<Rightarrow> False | Some (i, t) \<Rightarrow> t \<noteq> tm) then None
            else Some (st\<lparr>hs_id := p_session p, hs_tracker := Some seededTracker, hs_established := False\<rparr>))
      else if p_session p \<noteq> hs_id st then None
      else Some st)"

definition hook_start ::
  "(string \<Rightarrow> string option) \<Rightarrow> string \<Rightarrow> hook_session \<Rightarrow> payload \<Rightarrow> 'a thread_svc_scheme
     \<Rightarrow> hook_session \<times> 'a thread_svc_scheme" where
  "hook_start canon tm st p s =
     (let st = st\<lparr>hs_ended := False\<rparr>;
          fresh = (p_session p \<noteq> hs_id st);
          st = (if fresh then st\<lparr>hs_id := p_session p, hs_tracker := Some newTracker, hs_established := False, hs_title := ''''\<rparr>
                else st);
          claim = (if fresh then ThreadIdle else ThreadNone)
      in if mapped (p_session p) s
         then let (ok, s) = hook_observe canon tm st p claim s in (st\<lparr>hs_established := ok\<rparr>, s)
         else if claim \<noteq> ThreadNone then (st, Deactivate tm s)
         else (st, s))"

definition hook_end ::
  "(string \<Rightarrow> string option) \<Rightarrow> string \<Rightarrow> hook_session \<Rightarrow> payload \<Rightarrow> 'a thread_svc_scheme
     \<Rightarrow> hook_session \<times> 'a thread_svc_scheme" where
  "hook_end canon tm st p s =
     (let (st, s) = (if hs_title st \<noteq> '''' \<and> \<not> hs_established st
                     then let (ok, s) = hook_observe canon tm st p ThreadNone s in (st\<lparr>hs_established := ok\<rparr>, s)
                     else (st, s))
      in sessionEnd tm st p s)"

definition hook_event ::
  "(string \<Rightarrow> string option) \<Rightarrow> string \<Rightarrow> hook_session \<Rightarrow> payload \<Rightarrow> 'a thread_svc_scheme
     \<Rightarrow> hook_session \<times> 'a thread_svc_scheme" where
  "hook_event canon tm st p s =
     (let st = (if rootPrompt p then st\<lparr>hs_title := CondenseTitle (p_prompt p)\<rparr> else st)
      in if hs_established st then reduce st p s
         else if hs_title st = '''' \<and> \<not> mapped (p_session p) s then (st, s)
         else let (ok, s) = hook_observe canon tm st p ThreadNone s
              in if \<not> ok then (st, s) else reduce (st\<lparr>hs_established := True\<rparr>) p s)"

definition hook_apply ::
  "(string \<Rightarrow> string option) \<Rightarrow> payload \<Rightarrow> string \<Rightarrow> hook_session \<Rightarrow> 'a thread_svc_scheme
     \<Rightarrow> nat \<times> hook_session \<times> 'a thread_svc_scheme" where
  "hook_apply canon p tm st s =
     (case hook_gate tm st p s of
        None \<Rightarrow> (400, st, s)
      | Some st \<Rightarrow>
          (204,
           if p_event p = ''SessionStart'' then hook_start canon tm st p s
           else if p_event p = ''SessionEnd'' then hook_end canon tm st p s
           else hook_event canon tm st p s))"

text \<open>\<^verbatim>\<open>deliver\<close>, with the decoded body as its argument: \<^const>\<open>None\<close> for a body that is not JSON.\<close>

definition hook_deliver ::
  "(string \<Rightarrow> string option) \<Rightarrow> string \<Rightarrow> payload option \<Rightarrow> hook_session registry \<Rightarrow> 'a thread_svc_scheme
     \<Rightarrow> nat \<times> hook_session registry \<times> 'a thread_svc_scheme" where
  "hook_deliver canon secret body g s =
     (case body of
        None \<Rightarrow> (400, g, s)
      | Some p \<Rightarrow>
          if p_session p = '''' \<or> p_event p = '''' then (400, g, s)
          else Deliver secret (hook_apply canon p) g s)"

end
