(* ===== verification/ClaudeProps.thy ===== *)
theory ClaudeProps
  imports Claude Server
begin

text \<open>
  What the hook deliveries of a launch can do to the threads: they go through the Threads operations only, they touch the
  conversation they name and the thread the terminal showed, and without a prompt they create nothing.
\<close>

declare map_of_eq_Some_iff [simp del] Some_eq_map_of_iff [simp del]

subsection \<open>Where the view changes\<close>

named_theorems elsewhere \<open>an operation leaves the other threads alone\<close>

definition keyed :: "'a thread_svc_scheme \<Rightarrow> bool" where
  "keyed s \<longleftrightarrow> (\<forall>i r. map_of (view s) i = Some r \<longrightarrow> thread_id r = i)"

lemma inv_keyed: "threads_inv s \<Longrightarrow> keyed s"
  by (auto simp: keyed_def dest: inv_view_id)

lemma keyed_view: "view s' = view s \<Longrightarrow> keyed s' \<longleftrightarrow> keyed s"
  by (simp add: keyed_def)

lemma Threads_Update_view: "Threads_Update r s = (x, s') \<Longrightarrow> view s' = view s"
  by (auto simp: Threads_Update_def Let_def io_step_def split: if_splits option.splits)

lemma store_thread_elsewhere [elsewhere]:
  "store_thread r s = (x, s') \<Longrightarrow> j \<noteq> thread_id r \<Longrightarrow> map_of (view s') j = map_of (view s) j"
  by (auto simp: store_thread_def put_view_def dest: Threads_Update_view split: prod.splits sum.splits if_splits)

lemma coerceRecord_thread_id [simp]: "thread_id (fst (coerceRecord r)) = thread_id r"
  by (simp add: coerceRecord_def Let_def split: option.split)

lemma coerceInactive_elsewhere [elsewhere]:
  assumes "coerceInactive i s = (x, s')" and "\<forall>r. map_of (view s) i = Some r \<longrightarrow> thread_id r = i" and "j \<noteq> i"
  shows "map_of (view s') j = map_of (view s) j"
proof (cases "map_of (view s) i")
  case None
  then show ?thesis using assms(1) by (simp add: coerceInactive_def)
next
  case (Some r)
  obtain r' c where cr: "coerceRecord r = (r', c)" by (cases "coerceRecord r")
  obtain t s1 where n: "now s = (t, s1)" by (cases "now s")
  have v: "view s1 = view s" using n by (auto simp: now_def)
  obtain y s2 where st: "store_thread (r'\<lparr>updated_at := t\<rparr>) s1 = (y, s2)" by (cases "store_thread (r'\<lparr>updated_at := t\<rparr>) s1")
  have "thread_id r' = i" using coerceRecord_thread_id [of r] assms(2) Some by (simp add: cr)
  then have "map_of (view s2) j = map_of (view s1) j" using store_thread_elsewhere [OF st] assms(3) by simp
  moreover have "s' = (if c then s2 else s)"
    using assms(1) Some by (auto simp: coerceInactive_def cr n st split: sum.splits bool.splits if_splits)
  ultimately show ?thesis using v by simp
qed

lemma publish_views [simp]:
  "view (Publish ty rs i s) = view s" "view (publish_thread c i s) = view s" "view (publish_all ty rs xs s) = view s"
proof -
  show "view (Publish ty rs i s) = view s" for ty rs i and s :: "'a thread_svc_scheme" by (simp add: Publish_def)
  then show "view (publish_thread c i s) = view s" "view (publish_all ty rs xs s) = view s"
    by (simp_all add: publish_thread_def publish_all_def) (induction xs arbitrary: s, simp_all)
qed

lemma commit_elsewhere [elsewhere]:
  assumes "keyed s" and "j \<noteq> i" and "map_of (active s) tm \<noteq> Some j"
  shows "map_of (view (commit r i tm c s)) j = map_of (view s) j"
proof -
  define act where "act = filter (\<lambda>(t, x). \<not> (x = i \<and> t \<noteq> tm)) (active s)"
  define displaced where "displaced = (case map_of act tm of Some p \<Rightarrow> if p \<noteq> i then p else '''' | None \<Rightarrow> '''')"
  define s1 where "s1 = (if has_key (view s) i then s\<lparr>view := AList.update i r (view s)\<rparr> else s)"
  define s2 where "s2 = s1\<lparr>active := (if read_string act tm \<noteq> i then AList.update tm i act else act)\<rparr>"
  define s3 where "s3 = (if displaced \<noteq> '''' then snd (coerceInactive displaced s2) else s2)"
  have v1: "map_of (view s2) k = map_of (view s) k" if "k \<noteq> i" for k using that by (simp add: s2_def s1_def)
  have view: "view (commit r i tm c s) = view s3"
    by (simp add: commit_def Let_def case_prod_beta s3_def s2_def s1_def displaced_def act_def)
  have "map_of (filter (\<lambda>(t, x). \<not> (x = i \<and> t \<noteq> tm)) m) tm = map_of m tm" for m
    by (induction m) auto
  then have act: "map_of act tm = map_of (active s) tm" by (simp only: act_def)
  show ?thesis
  proof (cases "displaced = ''''")
    case True
    then show ?thesis using view v1 [OF assms(2)] by (simp add: s3_def)
  next
    case False
    then have d: "map_of (active s) tm = Some displaced" "displaced \<noteq> i"
      by (auto simp: displaced_def act split: option.splits if_splits)
    have "\<forall>x. map_of (view s2) displaced = Some x \<longrightarrow> thread_id x = displaced"
      using assms(1) v1 [OF d(2)] by (simp add: keyed_def)
    moreover have "j \<noteq> displaced" using d assms(3) by auto
    ultimately have "map_of (view (snd (coerceInactive displaced s2))) j = map_of (view s2) j"
      using coerceInactive_elsewhere [OF surjective_pairing] by blast
    then show ?thesis using view v1 [OF assms(2)] False by (simp add: s3_def)
  qed
qed

lemma insert_thread_view:
  "insert_thread r key s = (x, s') \<Longrightarrow>
     active s' = active s
     \<and> (case x of Inl e \<Rightarrow> view s' = view s | Inr r' \<Rightarrow> view s' = AList.update (thread_id r') r' (view s))"
proof -
  have ins: "Threads_InsertObserved r key s = (y, s1) \<Longrightarrow> active s1 = active s \<and> view s1 = view s" for r y and s s1 :: "'a thread_svc_scheme"
    by (auto simp: Threads_InsertObserved_def Let_def io_step_def split: if_splits)
  have "insert_loop ids r key s = (x, s') \<Longrightarrow>
     active s' = active s
     \<and> (case x of Inl e \<Rightarrow> view s' = view s | Inr r' \<Rightarrow> view s' = AList.update (thread_id r') r' (view s))" for ids
  proof (induction ids arbitrary: r s)
    case (Cons sfx rest)
    let ?r = "r\<lparr>thread_id := thread_prefix @ sfx\<rparr>"
    obtain y s1 where y: "Threads_InsertObserved ?r key (s\<lparr>id_tape := rest\<rparr>) = (y, s1)"
      by (cases "Threads_InsertObserved ?r key (s\<lparr>id_tape := rest\<rparr>)")
    have v: "active s1 = active s" "view s1 = view s" using ins [OF y] by simp_all
    show ?case
    proof (cases "y = Inr False")
      case True
      have run: "insert_loop rest ?r key s1 = (x, s')" using Cons.prems y True by (simp add: insert_loop.simps Let_def)
      from Cons.IH [OF run] show ?thesis using v by (cases x) simp_all
    next
      case False
      then show ?thesis using Cons.prems y v by (cases y) (auto simp: insert_loop.simps Let_def)
    qed
  qed (auto simp: insert_loop.simps)
  then show "insert_thread r key s = (x, s') \<Longrightarrow> ?thesis" by (simp add: insert_thread_def)
qed

lemma createObserved_run:
  assumes run: "createObserved canon obs at s = (res, s')"
  shows "case res of
      Inl e \<Rightarrow> active s' = active s
    | Inr i \<Rightarrow> \<exists>r r' s3 s4. insert_thread r (so_integration obs, so_provider obs) s3 = (Inr r', s4) \<and> i = thread_id r'
        \<and> view s3 = view s \<and> active s3 = active s
        \<and> s' = commit r' i (so_terminal obs) False (Publish EventThreadCreated thread_resource i s4)"
proof (cases "so_app obs \<noteq> '''' \<and> \<not> HasPrefix (so_app obs) (so_integration obs @ ''/'')")
  case True
  then show ?thesis using run by (auto simp: createObserved_def)
next
  case ok: False
  obtain r1 c s1 where ap: "applyStatus (observed_record obs at) (so_status obs) (so_detail obs) (so_turn obs) at True s
      = (r1, c, s1)" by (metis prod_cases3)
  have v1: "active s1 = active s"
    using core_applyStatus [of "observed_record obs at" "so_status obs" "so_detail obs" "so_turn obs" at True s]
      core_components [of s1 s] by (simp add: ap)
  note eq = createObserved_def [of canon obs at s, unfolded Let_def observed_record_def [symmetric] ap prod.case if_not_P [OF ok]]
  show ?thesis
  proof (cases "if so_directory obs = '''' then None else canon (so_directory obs)")
    case None
    then show ?thesis using run v1 unfolding eq None by auto
  next
    case dir: (Some canonical)
  obtain cl s2 where cl: "classify canonical s1 = (cl, s2)" by (cases "classify canonical s1")
  have "core s2 = core s"
    using core_applyStatus [of "observed_record obs at" "so_status obs" "so_detail obs" "so_turn obs" at True s]
      core_classify [of canonical s1] by (simp add: ap cl)
  then have v: "view s2 = view s" "active s2 = active s" using core_components by blast+
  show ?thesis
    using run v unfolding eq dir option.case cl prod.case
    by (cases cl) (auto dest: insert_thread_view split: prod.splits sum.splits)
  qed
qed

lemma ObserveSession_elsewhere [elsewhere]:
  assumes inv: "threads_inv s" and tm: "so_terminal obs \<noteq> ''''" and run: "ObserveSession canon obs s = (res, s')"
    and j: "map_of (identities s') (so_integration obs, so_provider obs) \<noteq> Some j"
      "map_of (active s) (so_terminal obs) \<noteq> Some j"
  shows "map_of (view s') j = map_of (view s) j"
proof -
  let ?key = "(so_integration obs, so_provider obs)"
  obtain at s1 where at: "observed_at (so_at obs) s = (at, s1)" by (cases "observed_at (so_at obs) s")
  have v1: "view s1 = view s" "active s1 = active s" "identities s1 = identities s"
    using core_observed_at [of "so_at obs" s] core_components [of s1 s] by (simp_all add: at)
  show ?thesis
  proof (cases "map_of (identities s) ?key")
    case (Some i)
    then obtain r0 where r0: "map_of (view s) i = Some r0" using inv_identity_view [OF inv] by blast
    have ids: "identities s' = identities s" using ObserveSession_known(2) [OF inv tm Some, of canon] run by simp
    then have ji: "j \<noteq> i" using Some j(1) by auto
    define r1 where "r1 = unarchive (set_agent (so_agent obs) (set_terminal (so_terminal obs) r0))"
    obtain r2 c s2 where ap: "applyStatus r1 (so_status obs) (so_detail obs) (so_turn obs) at True s1 = (r2, c, s2)"
      by (metis prod_cases3)
    have v2: "view s2 = view s" "active s2 = active s"
      using core_applyStatus [of r1 "so_status obs" "so_detail obs" "so_turn obs" at True s1] core_components [of s2 s1] v1
      by (simp_all add: ap)
    obtain r3 m where md: "applyMetadata r2 (so_metadata obs) = (r3, m)" by (cases "applyMetadata r2 (so_metadata obs)")
    define changed where "changed \<longleftrightarrow> (r1 = r0 \<longrightarrow> c \<or> m)"
    obtain y s3 where up: "Threads_Update (stamp changed at r3) s2 = (y, s3)" by (cases "Threads_Update (stamp changed at r3) s2")
    have v3: "view s3 = view s" "active s3 = active s"
      using Threads_Update_view [OF up] up v2 by (auto simp: Threads_Update_def Let_def io_step_def split: if_splits option.splits)
    have "s' = s3 \<or> s' = commit (stamp changed at r3) i (so_terminal obs) changed s3"
      using run Some r0 v1
      by (auto simp: ObserveSession_def at Let_def r1_def [symmetric] ap md changed_def [symmetric] up
          split: sum.splits if_splits)
    then show ?thesis
      using v3 commit_elsewhere [of s3 j i "so_terminal obs"] ji j(2) keyed_view [of s3 s] inv_keyed [OF inv] by auto
  next
    case None
    have run1: "createObserved canon obs at s1 = (res, s')" using run v1 None by (simp add: ObserveSession_def at)
    note m = ObserveSession_outcome(2) [OF inv tm run None]
    show ?thesis
    proof (cases res)
      case (Inl e)
      then show ?thesis using m by (simp add: minted_def)
    next
      case (Inr i)
      then have ji: "j \<noteq> i" using m j(1) by (auto simp: minted_def)
      obtain r r' s3 s4 where ins: "insert_thread r ?key s3 = (Inr r', s4)" and i: "i = thread_id r'"
        and s3: "view s3 = view s" "active s3 = active s"
        and s': "s' = commit r' i (so_terminal obs) False (Publish EventThreadCreated thread_resource i s4)"
        using createObserved_run [OF run1] v1 by (auto simp: Inr)
      have v4: "view s4 = AList.update i r' (view s)" "active s4 = active s"
        using insert_thread_view [OF ins] s3 i by simp_all
      have "keyed s4" using inv_keyed [OF inv] by (auto simp: keyed_def v4 i)
      then have "keyed (Publish EventThreadCreated thread_resource i s4)" by (simp add: keyed_def)
      moreover have "active (Publish EventThreadCreated thread_resource i s4) = active s" by (simp add: Publish_def v4)
      ultimately show ?thesis
        unfolding s' using commit_elsewhere [of "Publish EventThreadCreated thread_resource i s4" j i "so_terminal obs"] ji j(2) v4
        by simp
    qed
  qed
qed

lemma now_frame [simp]: "view (snd (now s)) = view s" "active (snd (now s)) = active s" "identities (snd (now s)) = identities s"
  using core_components [OF core_now [of s]] by simp_all

lemma ObserveStatus_elsewhere [elsewhere]:
  assumes inv: "threads_inv s" and j: "map_of (identities s) (sto_integration obs, sto_provider obs) \<noteq> Some j"
  shows "map_of (view (snd (ObserveStatus obs s))) j = map_of (view s) j"
proof -
  obtain at s1 where at: "observed_at (sto_at obs) s = (at, s1)" by (cases "observed_at (sto_at obs) s")
  have v1: "view s1 = view s" "active s1 = active s" "identities s1 = identities s"
    using core_observed_at [of "sto_at obs" s] core_components [of s1 s] by (simp_all add: at)
  show ?thesis
  proof (cases "map_of (identities s) (sto_integration obs, sto_provider obs)")
    case None
    then show ?thesis by (simp add: ObserveStatus_def at v1)
  next
    case (Some i)
    then obtain r0 where r0: "map_of (view s) i = Some r0" using inv_identity_view [OF inv] by blast
    obtain r1 c s2 where ap: "applyStatus r0 (sto_status obs) (sto_detail obs) (sto_turn obs) at
        (holder i s1 \<noteq> '''') s1 = (r1, c, s2)" by (metis prod_cases3)
    have v2: "view s2 = view s"
      using core_applyStatus [of r0 "sto_status obs" "sto_detail obs" "sto_turn obs" at "holder i s1 \<noteq> ''''" s1]
        core_components [of s2 s1] v1 by (simp add: ap)
    obtain fresh where "r1 = fst (apply_evidence fresh r0 (sto_status obs) (sto_detail obs) (sto_turn obs) at
        (holder i s1 \<noteq> ''''))" using applyStatus_result [OF ap] by blast
    then have "same_origin r0 r1" by simp
    moreover obtain r2 m where md: "applyMetadata r1 (sto_metadata obs) = (r2, m)" by (cases "applyMetadata r1 (sto_metadata obs)")
    ultimately have "same_origin r0 (stamp (c \<or> m) at r2)"
      using applyMetadata_keeps(1) [of r1 "sto_metadata obs"] record_steps_keep same_origin_trans by (metis fst_conv)
    then have id: "thread_id (stamp (c \<or> m) at r2) = i"
      using inv_view_id [OF inv r0] by (simp add: same_origin_def)
    obtain y s3 where st: "store_thread (stamp (c \<or> m) at r2) s2 = (y, s3)"
      by (cases "store_thread (stamp (c \<or> m) at r2) s2")
    have "map_of (view s3) j = map_of (view s2) j" using store_thread_elsewhere [OF st] Some j by (auto simp: id)
    moreover have "view (snd (ObserveStatus obs s)) = view s3"
      using Some r0 v1 by (simp add: ObserveStatus_def at ap Let_def md st split: sum.split)
    ultimately show ?thesis using v2 by simp
  qed
qed

lemma Deactivate_elsewhere [elsewhere]:
  assumes inv: "threads_inv s"
  shows "identities (Deactivate tm s) = identities s"
    and "t \<noteq> tm \<Longrightarrow> map_of (active (Deactivate tm s)) t = map_of (active s) t"
    and "map_of (active (Deactivate tm s)) tm = Some i \<Longrightarrow> map_of (active s) tm = Some i"
    and "map_of (active s) tm \<noteq> Some j \<Longrightarrow> map_of (view (Deactivate tm s)) j = map_of (view s) j"
proof -
  have "identities (Deactivate tm s) = identities s
    \<and> (t \<noteq> tm \<longrightarrow> map_of (active (Deactivate tm s)) t = map_of (active s) t)
    \<and> (map_of (active (Deactivate tm s)) tm = Some i \<longrightarrow> map_of (active s) tm = Some i)
    \<and> (map_of (active s) tm \<noteq> Some j \<longrightarrow> map_of (view (Deactivate tm s)) j = map_of (view s) j)" for t i j
  proof (cases "map_of (active s) tm")
    case None
    then show ?thesis by (simp add: Deactivate_def)
  next
    case (Some k)
    then obtain r where r: "map_of (view s) k = Some r" using inv_active [OF inv] by fastforce
    obtain r' c where cr: "coerceRecord r = (r', c)" by (cases "coerceRecord r")
    obtain at s1 where n: "now s = (at, s1)" by (cases "now s")
    have v1: "view s1 = view s" "active s1 = active s" "identities s1 = identities s"
      using now_frame [of s] by (simp_all add: n)
    obtain y s2 where st: "store_thread (r'\<lparr>updated_at := at\<rparr>) s1 = (y, s2)" by (cases "store_thread (r'\<lparr>updated_at := at\<rparr>) s1")
    have id: "thread_id r' = k" using coerceRecord_thread_id [of r] inv_view_id [OF inv r] by (simp add: cr)
    have st': "map_of (view s2) j = map_of (view s) j" if "j \<noteq> k" for j
      using store_thread_elsewhere [OF st] that v1 id by simp
    have fr: "active s2 = active s" "identities s2 = identities s"
      using st v1
      by (auto simp: store_thread_def put_view_def Threads_Update_def Let_def io_step_def
          split: prod.splits sum.splits if_splits option.splits)
    show ?thesis
      using Some r st' fr
      by (auto simp: Deactivate_def cr n st Publish_def split: sum.split bool.split)
  qed
  then show "identities (Deactivate tm s) = identities s"
    and "t \<noteq> tm \<Longrightarrow> map_of (active (Deactivate tm s)) t = map_of (active s) t"
    and "map_of (active (Deactivate tm s)) tm = Some i \<Longrightarrow> map_of (active s) tm = Some i"
    and "map_of (active s) tm \<noteq> Some j \<Longrightarrow> map_of (view (Deactivate tm s)) j = map_of (view s) j"
    by blast+
qed

subsection \<open>Confinement\<close>

text \<open>
  What a launch in terminal \<open>tm\<close> may do for the conversation \<open>key\<close>: change that conversation's thread and the thread the
  terminal showed, map that conversation, and take it from another terminal.
\<close>

definition confined ::
  "string \<Rightarrow> identity_key \<Rightarrow> 'a thread_svc_scheme \<Rightarrow> 'a thread_svc_scheme \<Rightarrow> bool" where
  "confined tm key s s' \<longleftrightarrow>
     (\<forall>j. map_of (identities s') key \<noteq> Some j \<longrightarrow> map_of (active s) tm \<noteq> Some j \<longrightarrow>
          map_of (view s') j = map_of (view s) j)
     \<and> (\<forall>k. k \<noteq> key \<longrightarrow> map_of (identities s') k = map_of (identities s) k)
     \<and> (\<forall>i. map_of (identities s) key = Some i \<longrightarrow> map_of (identities s') key = Some i)
     \<and> (\<forall>i. map_of (active s') tm = Some i \<longrightarrow> map_of (active s) tm = Some i \<or> map_of (identities s') key = Some i)
     \<and> (\<forall>t. t \<noteq> tm \<longrightarrow> map_of (active s') t = map_of (active s) t
          \<or> map_of (active s') t = None \<and> map_of (active s) t = map_of (identities s') key)"

lemma confinedD:
  assumes "confined tm key s s'"
  shows "map_of (identities s') key \<noteq> Some j \<Longrightarrow> map_of (active s) tm \<noteq> Some j \<Longrightarrow> map_of (view s') j = map_of (view s) j"
    and "k \<noteq> key \<Longrightarrow> map_of (identities s') k = map_of (identities s) k"
    and "map_of (identities s) key = Some i \<Longrightarrow> map_of (identities s') key = Some i"
    and "map_of (active s') tm = Some i \<Longrightarrow> map_of (active s) tm = Some i \<or> map_of (identities s') key = Some i"
    and "t \<noteq> tm \<Longrightarrow> map_of (active s') t = map_of (active s) t
          \<or> map_of (active s') t = None \<and> map_of (active s) t = map_of (identities s') key"
  using assms unfolding confined_def by blast+

lemma confined_core: "core s' = core s \<Longrightarrow> confined tm key s s'"
  by (drule core_components) (simp add: confined_def)

lemma confined_trans:
  assumes a: "confined tm key s s1" and b: "confined tm key s1 s2"
  shows "confined tm key s s2"
  unfolding confined_def
proof (intro conjI allI impI)
  have old: "map_of (identities s2) key \<noteq> Some j \<Longrightarrow> map_of (identities s1) key \<noteq> Some j" for j
    using confinedD(3) [OF b] by blast
  show "map_of (view s2) j = map_of (view s) j"
    if "map_of (identities s2) key \<noteq> Some j" "map_of (active s) tm \<noteq> Some j" for j
    using confinedD(1) [OF b that(1)] confinedD(1) [OF a old [OF that(1)] that(2)] confinedD(4) [OF a, of j] that(2) old [OF that(1)]
    by auto
  show "map_of (identities s2) k = map_of (identities s) k" if "k \<noteq> key" for k
    using confinedD(2) [OF a that] confinedD(2) [OF b that] by simp
  show "map_of (identities s2) key = Some i" if "map_of (identities s) key = Some i" for i
    using confinedD(3) [OF b confinedD(3) [OF a that]] .
  show "map_of (active s) tm = Some i \<or> map_of (identities s2) key = Some i" if "map_of (active s2) tm = Some i" for i
    using confinedD(4) [OF b that] confinedD(4) [OF a, of i] confinedD(3) [OF b, of i] by blast
  show "map_of (active s2) t = map_of (active s) t
      \<or> map_of (active s2) t = None \<and> map_of (active s) t = map_of (identities s2) key" if t: "t \<noteq> tm" for t
  proof (cases "map_of (active s1) t = map_of (active s) t")
    case True
    then show ?thesis using confinedD(5) [OF b t] by simp
  next
    case False
    then have one: "map_of (active s1) t = None" "map_of (active s) t = map_of (identities s1) key"
      using confinedD(5) [OF a t] by simp_all
    then obtain i where i: "map_of (identities s1) key = Some i" using False by (cases "map_of (identities s1) key") auto
    show ?thesis using confinedD(5) [OF b t] confinedD(3) [OF b i] one i by auto
  qed
qed

lemma moved_active_map:
  assumes inv: "threads_inv s"
  shows "map_of (moved_active i tm s) tm = Some i \<or> map_of (moved_active i tm s) tm = map_of (active s) tm"
    and "t \<noteq> tm \<Longrightarrow> map_of (moved_active i tm s) t = (if map_of (active s) t = Some i then None else map_of (active s) t)"
proof -
  have d: "distinct (map fst (active s))" using inv by (simp add: inv_parts)
  show "map_of (moved_active i tm s) tm = Some i \<or> map_of (moved_active i tm s) tm = map_of (active s) tm"
    by (auto simp: moved_active_def Let_def map_of_filter_value [OF d] split: option.splits)
  show "t \<noteq> tm \<Longrightarrow> map_of (moved_active i tm s) t = (if map_of (active s) t = Some i then None else map_of (active s) t)"
    by (auto simp: moved_active_def Let_def map_of_filter_value [OF d] split: option.splits)
qed

lemma ObserveSession_active:
  assumes inv: "threads_inv s" and tm: "so_terminal obs \<noteq> ''''" and run: "ObserveSession canon obs s = (res, s')"
  shows "case res of
      Inl e \<Rightarrow> active s' = active s \<and> identities s' = identities s
    | Inr i \<Rightarrow> active s' = moved_active i (so_terminal obs) s
        \<and> map_of (identities s') (so_integration obs, so_provider obs) = Some i"
proof (cases "map_of (identities s) (so_integration obs, so_provider obs)")
  case (Some i)
  from ObserveSession_known [OF inv tm Some, of canon] run Some show ?thesis
    by (cases res) (auto dest: core_components)
next
  case None
  obtain at s1 where at: "observed_at (so_at obs) s = (at, s1)" by (cases "observed_at (so_at obs) s")
  have v1: "active s1 = active s" "identities s1 = identities s"
    using core_observed_at [of "so_at obs" s] core_components [of s1 s] by (simp_all add: at)
  have run1: "createObserved canon obs at s1 = (res, s')" using run v1 None by (simp add: ObserveSession_def at)
  show ?thesis
    using ObserveSession_outcome(2) [OF inv tm run None] ObserveSession_outcome(3) [OF inv tm run] createObserved_run [OF run1] v1
    by (cases res) (auto simp: minted_def)
qed

lemma confined_session:
  assumes inv: "threads_inv s" and tm: "so_terminal obs \<noteq> ''''" and run: "ObserveSession canon obs s = (res, s')"
  shows "confined (so_terminal obs) (so_integration obs, so_provider obs) s s'"
proof -
  let ?key = "(so_integration obs, so_provider obs)"
  note away = ObserveSession_elsewhere [OF inv tm run] and ac = ObserveSession_active [OF inv tm run]
  show ?thesis
  proof (cases res)
    case (Inl e)
    then show ?thesis using ac away by (simp add: confined_def)
  next
    case (Inr i)
    have others: "map_of (identities s') k = map_of (identities s) k" if "k \<noteq> ?key" for k
    proof (cases "map_of (identities s) ?key")
      case None
      then show ?thesis using ObserveSession_outcome(2) [OF inv tm run None] Inr that by (cases k) (simp add: minted_def)
    next
      case (Some j)
      then show ?thesis using ObserveSession_known(2) [OF inv tm Some, of canon] run by simp
    qed
    have stays: "map_of (identities s') ?key = Some j" if "map_of (identities s) ?key = Some j" for j
      using ObserveSession_known(2) [OF inv tm that, of canon] run that by simp
    have act: "active s' = moved_active i (so_terminal obs) s" "map_of (identities s') ?key = Some i" using ac Inr by simp_all
    show ?thesis
      unfolding confined_def
    proof (intro conjI allI impI)
      fix x assume "map_of (active s') (so_terminal obs) = Some x"
      then show "map_of (active s) (so_terminal obs) = Some x \<or> map_of (identities s') ?key = Some x"
        using moved_active_map(1) [OF inv, of i "so_terminal obs"] act by auto
    next
      fix t assume "t \<noteq> so_terminal obs"
      then show "map_of (active s') t = map_of (active s) t
          \<or> map_of (active s') t = None \<and> map_of (active s) t = map_of (identities s') ?key"
        using moved_active_map(2) [OF inv] act by simp
    qed (use away others stays in blast)+
  qed
qed

lemma confined_status:
  assumes inv: "threads_inv s"
  shows "confined tm (sto_integration obs, sto_provider obs) s (snd (ObserveStatus obs s))"
  using ObserveStatus_elsewhere [OF inv, of obs] around_components [OF conjunct2 [OF ObserveStatus_outcome [OF inv, of obs]]]
  by (simp add: confined_def)

lemma confined_deactivate: "threads_inv s \<Longrightarrow> confined tm key s (Deactivate tm s)"
  by (simp add: confined_def Deactivate_elsewhere)

subsection \<open>One delivery\<close>

text \<open>A stretch of a delivery: server steps that stay within the launch's terminal and conversation.\<close>

definition stretch :: "string \<Rightarrow> string \<Rightarrow> 'a thread_svc_scheme \<Rightarrow> 'a thread_svc_scheme \<Rightarrow> bool" where
  "stretch tm session s s' \<longleftrightarrow> thread_step\<^sup>*\<^sup>* s s' \<and> (threads_inv s \<longrightarrow> confined tm (claude_ID, session) s s')"

lemma stretch_refl [simp]: "stretch tm session s s"
  by (simp add: stretch_def confined_core)

lemma stretch_trans: "stretch tm session s s1 \<Longrightarrow> stretch tm session s1 s2 \<Longrightarrow> stretch tm session s s2"
  by (auto simp: stretch_def intro: confined_trans dest: reachable_inv)

lemma stretch_clock: "now s = (t, s') \<Longrightarrow> stretch tm session s s'"
  using thread_step.read_clock [of s] confined_core [of s' s] core_now [of s] by (auto simp: stretch_def)

lemma stretch_deactivate [simp]: "stretch tm session s (Deactivate tm s)"
  by (auto simp: stretch_def confined_deactivate intro: thread_step.deactivate)

lemma stretch_observe:
  assumes "tm \<noteq> ''''" and "hook_observe canon tm st p claim s = (ok, s')"
  shows "stretch tm (p_session p) s s'"
proof (cases "Get_terminal tm s")
  case (Inl e)
  then show ?thesis using assms(2) by (simp add: hook_observe_def)
next
  case (Inr t)
  obtain at s1 where n: "now s = (at, s1)" by (cases "now s")
  obtain obs where obs: "so_integration obs = claude_ID" "so_provider obs = p_session p" "so_terminal obs = tm"
    and s': "s' = snd (ObserveSession canon obs s1)"
    using assms(2) Inr n
    by (auto simp: hook_observe_def Let_def split: prod.splits sum.splits)
       (metis session_observation.select_convs(1,4,5) snd_conv)+
  have "thread_step s1 s'" unfolding s' using obs(3) assms(1) by (intro thread_step.observe_session) simp
  moreover have "threads_inv s1 \<Longrightarrow> confined tm (claude_ID, p_session p) s1 s'"
    using confined_session [of s1 obs canon "fst (ObserveSession canon obs s1)" s'] obs assms(1) s' by (simp add: prod_eq_iff)
  ultimately have "stretch tm (p_session p) s1 s'" by (auto simp: stretch_def)
  with stretch_clock [OF n] show ?thesis by (rule stretch_trans)
qed

lemma stretch_forward [simp]: "stretch tm (p_session p) s (forward p claim tobs md s)"
proof -
  obtain at s1 where n: "now s = (at, s1)" by (cases "now s")
  obtain obs where obs: "sto_integration obs = claude_ID" "sto_provider obs = p_session p"
    and s': "forward p claim tobs md s = snd (ObserveStatus obs s1)"
    using n by (auto simp: forward_def) (metis status_observation.select_convs(1,2))
  have "stretch tm (p_session p) s1 (snd (ObserveStatus obs s1))"
    using confined_status [of s1 tm obs] obs by (auto simp: stretch_def intro: thread_step.observe_status)
  with stretch_clock [OF n] show ?thesis unfolding s' by (rule stretch_trans)
qed

lemma stretch_reduce: "reduce st p s = (st', s') \<Longrightarrow> stretch tm (p_session p) s s'"
  by (auto simp: reduce_def Let_def intro: stretch_forward split: prod.splits if_splits)

lemma stretch_start:
  "tm \<noteq> '''' \<Longrightarrow> hook_start canon tm st p s = (st', s') \<Longrightarrow> stretch tm (p_session p) s s'"
  by (auto simp: hook_start_def Let_def dest!: stretch_observe split: prod.splits if_splits)

lemma stretch_end:
  assumes "tm \<noteq> ''''" and "hook_end canon tm st p s = (st', s')"
  shows "stretch tm (p_session p) s s'"
proof -
  obtain st1 s1 where one: "(if hs_title st \<noteq> '''' \<and> \<not> hs_established st
      then let (ok, s) = hook_observe canon tm st p ThreadNone s in (st\<lparr>hs_established := ok\<rparr>, s) else (st, s)) = (st1, s1)"
    by fastforce
  have "stretch tm (p_session p) s s1"
    using one assms(1) by (auto intro: stretch_observe split: prod.splits if_splits)
  moreover have "stretch tm (p_session p) s1 s'"
    using assms(2) stretch_trans [OF stretch_forward stretch_deactivate, of tm p s1]
    by (auto simp: hook_end_def one sessionEnd_def Let_def)
  ultimately show ?thesis by (rule stretch_trans)
qed

lemma stretch_event:
  assumes "tm \<noteq> ''''" and "hook_event canon tm st p s = (st', s')"
  shows "stretch tm (p_session p) s s'"
  using assms by (auto simp: hook_event_def Let_def dest!: stretch_observe stretch_reduce intro: stretch_trans
      split: prod.splits if_splits)

lemma stretch_apply:
  assumes "tm \<noteq> ''''" and "hook_apply canon p tm st s = (code, st', s')"
  shows "stretch tm (p_session p) s s'"
  using assms by (auto simp: hook_apply_def intro: stretch_start stretch_end stretch_event split: option.splits if_splits)

lemma stretch_reachable:
  assumes "reachable s" and "stretch tm session s s'"
  shows "reachable s'"
proof -
  have "thread_step\<^sup>*\<^sup>* s s'" using assms(2) by (simp add: stretch_def)
  then show ?thesis using assms(1) by (induction rule: rtranclp_induct) (auto intro: reachable_step runs)
qed

lemma hook_event_session: "hook_event canon tm st p s = (st', s') \<Longrightarrow> hs_id st' = hs_id st"
  by (auto simp: hook_event_def reduce_def Let_def split: prod.splits if_splits)

lemma hook_apply_session: "hook_apply canon p tm st s = (204, st', s') \<Longrightarrow> hs_id st' = p_session p"
  by (auto simp: hook_apply_def hook_gate_def hook_start_def hook_end_def sessionEnd_def Let_def
      dest!: hook_event_session split: prod.splits if_splits option.splits)

text \<open>
  C24. A hook delivery is confined to its launch. Whatever a payload claims, the server stays reachable; a refused payload
  changes nothing and an accepted one belongs to the session the terminal displays; threads other than that
  conversation's and the one the terminal showed are untouched, no other conversation is mapped or unmapped, and another
  terminal at most loses the conversation.
\<close>

theorem hook_delivery_is_confined:
  assumes "reachable s" and "tm \<noteq> ''''" and "hook_apply canon p tm st s = (code, st', s')"
  shows "reachable s'
    \<and> (if code = 204 then hs_id st' = p_session p else st' = st \<and> s' = s)
    \<and> (map_of (identities s') (''claude'', p_session p) = Some j \<or> map_of (active s) tm = Some j
        \<or> map_of (view s') j = map_of (view s) j)
    \<and> (k = (''claude'', p_session p) \<or> map_of (identities s') k = map_of (identities s) k)
    \<and> (t = tm \<or> ActiveThreadID t s' = ActiveThreadID t s
        \<or> ActiveThreadID t s' = '''' \<and> map_of (identities s') (''claude'', p_session p) = Some (ActiveThreadID t s))"
proof -
  have st: "stretch tm (p_session p) s s'" by (rule stretch_apply [OF assms(2,3)])
  have c: "confined tm (''claude'', p_session p) s s'"
    using st reachable_threads_inv [OF assms(1)] by (simp add: stretch_def claude_ID_def)
  have "code = 204 \<or> code = 400 \<and> st' = st \<and> s' = s"
    using assms(3) by (auto simp: hook_apply_def split: option.splits)
  then have "if code = 204 then hs_id st' = p_session p else st' = st \<and> s' = s"
    using assms(3) hook_apply_session [of canon p tm st s st' s'] by auto
  moreover have "t = tm \<or> ActiveThreadID t s' = ActiveThreadID t s
      \<or> ActiveThreadID t s' = '''' \<and> map_of (identities s') (''claude'', p_session p) = Some (ActiveThreadID t s)"
  proof (cases "map_of (active s') t = map_of (active s) t \<or> t = tm")
    case True
    then show ?thesis by (auto simp: ActiveThreadID_def read_string_def)
  next
    case False
    then have "map_of (active s') t = None" "map_of (active s) t = map_of (identities s') (''claude'', p_session p)"
      using confinedD(5) [OF c, of t] by simp_all
    then show ?thesis
      by (cases "map_of (identities s') (''claude'', p_session p)") (simp_all add: ActiveThreadID_def read_string_def)
  qed
  ultimately show ?thesis using stretch_reachable [OF assms(1) st] confinedD(1,2) [OF c] by blast
qed

definition prompt :: payload where
  "prompt = \<lparr>p_session = ''s-1'', p_event = ''UserPromptSubmit'', p_agent = '''', p_task = '''', p_background = None,
     p_notification = '''', p_tool = '''', p_prompt = ''fix it'', p_reason = '''', p_error = '''', p_error_details = '''',
     p_last_message = '''', p_cwd = ''/w/y'', p_permission_mode = '''', p_effort = ''''\<rparr>"

text \<open>A first prompt in the first terminal takes it from the thread it showed and leaves the second alone.\<close>

theorem hook_delivery_is_confined_witness:
  "ActiveThreadID ''term-2'' (snd (snd (hook_apply Some prompt ''term-1'' fresh_session server1))) = ''''
   \<and> map_of (view (snd (snd (hook_apply Some prompt ''term-1'' fresh_session server1)))) ''thrd-zzzzz'' = None"
proof -
  let ?run = "hook_apply Some prompt ''term-1'' fresh_session server1"
  have run: "?run = (fst ?run, fst (snd ?run), snd (snd ?run))" by simp
  have new: "map_of (identities (snd (snd ?run))) (''claude'', p_session prompt) = Some ''thrd-bbbbb''" by code_simp
  have old: "map_of (view server1) ''thrd-zzzzz'' = None" "ActiveThreadID ''term-2'' server1 = ''''"
      "map_of (active server1) ''term-1'' = Some ''thrd-aaaaa''" by code_simp+
  from hook_delivery_is_confined [OF server1_reachable _ run, of "''thrd-zzzzz''" _ "''term-2''"] new old
  show ?thesis by auto
qed

subsection \<open>Without a prompt\<close>

fun hook_run ::
  "(string \<Rightarrow> string option) \<Rightarrow> string \<Rightarrow> hook_session \<Rightarrow> payload list \<Rightarrow> 'a thread_svc_scheme \<Rightarrow> hook_session \<times> 'a thread_svc_scheme" where
  "hook_run canon tm st [] s = (st, s)"
| "hook_run canon tm st (p # ps) s =
     (let (code, st, s) = hook_apply canon p tm st s in hook_run canon tm st ps s)"

lemma mapped_identity:
  "threads_inv s \<Longrightarrow> mapped session s \<longleftrightarrow> map_of (identities s) (claude_ID, session) \<noteq> None"
  using inv_identity_view [of s "(claude_ID, session)"]
  by (auto simp: mapped_def LookupIdentity_def split: option.splits)

lemma hook_observe_known:
  assumes "threads_inv s" and "tm \<noteq> ''''" and "mapped (p_session p) s" and "hook_observe canon tm st p claim s = (ok, s')"
  shows "identities s' = identities s"
proof (cases "Get_terminal tm s")
  case (Inl e)
  then show ?thesis using assms(4) by (simp add: hook_observe_def)
next
  case (Inr t)
  obtain at s1 where n: "now s = (at, s1)" by (cases "now s")
  have s1: "threads_inv s1" "identities s1 = identities s"
    using assms(1) threads_inv_core [OF core_now [of s]] now_frame [of s] by (simp_all add: n)
  obtain i where i: "map_of (identities s1) (claude_ID, p_session p) = Some i"
    using mapped_identity assms(1,3) s1(2) by fastforce
  show ?thesis
    using assms(2,4) Inr n i s1 ObserveSession_known(2) [OF s1(1)]
    by (auto simp: hook_observe_def Let_def split: prod.splits sum.splits) (metis snd_conv session_observation.select_convs(1,4,5))+
qed

lemma forward_identities: "threads_inv s \<Longrightarrow> identities (forward p claim tobs md s) = identities s"
proof -
  assume inv: "threads_inv s"
  obtain at s1 where n: "now s = (at, s1)" by (cases "now s")
  have "threads_inv s1" "identities s1 = identities s"
    using inv threads_inv_core [OF core_now [of s]] now_frame [of s] by (simp_all add: n)
  moreover from this have "identities (snd (ObserveStatus obs s1)) = identities s1" for obs
    using around_components [OF conjunct2 [OF ObserveStatus_outcome]] by blast
  ultimately show ?thesis by (simp add: forward_def n)
qed

lemma Deactivate_identities: "threads_inv s \<Longrightarrow> identities (Deactivate tm s) = identities s"
  by (rule Deactivate_elsewhere)

text \<open>One delivery of a launch that has seen no prompt: it maps nothing, and still has seen none.\<close>

lemma hook_apply_unprompted:
  assumes inv: "threads_inv s" and tm: "tm \<noteq> ''''" and t: "hs_title st = ''''" and p: "\<not> rootPrompt p"
    and run: "hook_apply canon p tm st s = (code, st', s')"
  shows "hs_title st' = '''' \<and> identities s' = identities s"
proof -
  have reduce: "hs_title x = '''' \<Longrightarrow> threads_inv s0 \<Longrightarrow> reduce x p s0 = (st', s') \<Longrightarrow>
      hs_title st' = '''' \<and> identities s' = identities s0" for x s0
    by (auto simp: reduce_def Let_def forward_identities split: prod.splits if_splits)
  have gate: "hook_gate tm st p s = Some x \<Longrightarrow> x = st" for x
    using p by (auto simp: hook_gate_def split: if_splits)
  show ?thesis
  proof (cases "hook_gate tm st p s")
    case None
    then show ?thesis using run t by (simp add: hook_apply_def)
  next
    case (Some st1)
    then have st1: "hs_title st1 = ''''" using gate t by simp
    consider (start) "p_event p = ''SessionStart''" "hook_start canon tm st1 p s = (st', s')"
      | (finish) "p_event p = ''SessionEnd''" "hook_end canon tm st1 p s = (st', s')"
      | (event) "hook_event canon tm st1 p s = (st', s')"
      using run Some by (auto simp: hook_apply_def split: if_splits)
    then show ?thesis
    proof cases
      case start
      then show ?thesis
        using st1 hook_observe_known [OF inv tm] Deactivate_identities [OF inv]
        by (auto simp: hook_start_def Let_def split: prod.splits if_splits)
    next
      case finish
      then have "s' = (if p_reason p \<noteq> ''clear'' \<and> p_reason p \<noteq> ''resume''
            then Deactivate tm (forward p ThreadNone None (metadataFrom p) s)
            else forward p ThreadNone None (metadataFrom p) s)" and st': "hs_title st' = ''''"
        using st1 by (auto simp: hook_end_def sessionEnd_def Let_def split: if_splits)
      moreover have "threads_inv (forward p ThreadNone None (metadataFrom p) s)"
        using stretch_forward [of tm p s] inv by (auto simp: stretch_def intro: reachable_inv)
      ultimately show ?thesis
        using forward_identities [OF inv, of p ThreadNone None "metadataFrom p"] st'
        by (simp add: Deactivate_identities)
    next
      case event
      show ?thesis
      proof (cases "hs_established st1")
        case True
        then show ?thesis using event p reduce [OF st1 inv] by (simp add: hook_event_def)
      next
        case False
        obtain ok s1 where ob: "hook_observe canon tm st1 p ThreadNone s = (ok, s1)"
          by (cases "hook_observe canon tm st1 p ThreadNone s")
        have "mapped (p_session p) s \<Longrightarrow> identities s1 = identities s" by (rule hook_observe_known [OF inv tm _ ob])
        moreover have "threads_inv s1"
          using stretch_observe [OF tm ob] inv by (auto simp: stretch_def intro: reachable_inv)
        moreover have "hs_title (st1\<lparr>hs_established := True\<rparr>) = ''''" using st1 by simp
        ultimately show ?thesis
          using event p False st1 reduce [of "st1\<lparr>hs_established := True\<rparr>" s1]
          by (auto simp: hook_event_def ob split: if_splits)
      qed
    qed
  qed
qed

lemma hook_run_unprompted:
  assumes "threads_inv s" and "tm \<noteq> ''''" and "hs_title st = ''''" and "\<forall>p \<in> set ps. \<not> rootPrompt p"
  shows "threads_inv (snd (hook_run canon tm st ps s)) \<and> identities (snd (hook_run canon tm st ps s)) = identities s"
  using assms
proof (induction ps arbitrary: st s)
  case (Cons p ps)
  obtain code st' s' where run: "hook_apply canon p tm st s = (code, st', s')" by (metis prod_cases3)
  have "threads_inv s'"
    using stretch_apply [OF Cons.prems(2) run] Cons.prems(1) by (auto simp: stretch_def intro: reachable_inv)
  moreover have "hs_title st' = '''' \<and> identities s' = identities s"
    using hook_apply_unprompted [OF Cons.prems(1-3) _ run] Cons.prems(4) by simp
  ultimately show ?case using Cons.IH [of s' st'] Cons.prems(2,4) by (simp add: run)
qed simp

text \<open>
  A launch without a prompt is owed no thread: whatever hook events arrive before the first prompt of the root
  conversation, in any order, no thread is created or lost and no conversation is mapped.
\<close>

theorem unprompted_launch_mints_nothing:
  assumes "reachable s" and "tm \<noteq> ''''" and "hs_title st = ''''" and "\<forall>p \<in> set ps. \<not> rootPrompt p"
  shows "identities (snd (hook_run canon tm st ps s)) = identities s
    \<and> (map_of (view (snd (hook_run canon tm st ps s))) i = None \<longleftrightarrow> map_of (view s) i = None)"
proof -
  note inv = reachable_threads_inv [OF assms(1)]
  note run = hook_run_unprompted [OF inv assms(2-4), of canon]
  have known: "map_of (view x) i \<noteq> None \<longleftrightarrow> (\<exists>k. map_of (identities x) k = Some i)" if "threads_inv x" for x :: "'a thread_svc_scheme"
    using inv_keys [OF that] inv_keys_view [OF that, of i] by (metis not_None_eq)
  show ?thesis using run known [OF inv] known [of "snd (hook_run canon tm st ps s)"] by metis
qed

theorem unprompted_launch_mints_nothing_witness:
  "identities (snd (hook_run Some ''term-1'' fresh_session
      [prompt\<lparr>p_event := ''SessionStart''\<rparr>, prompt\<lparr>p_event := ''PreToolUse''\<rparr>, prompt\<lparr>p_event := ''SessionEnd''\<rparr>] server1))
   = [((''claude'', ''conv''), ''thrd-aaaaa'')]"
proof -
  have "hs_title fresh_session = ''''"
    "\<forall>p \<in> set [prompt\<lparr>p_event := ''SessionStart''\<rparr>, prompt\<lparr>p_event := ''PreToolUse''\<rparr>, prompt\<lparr>p_event := ''SessionEnd''\<rparr>]. \<not> rootPrompt p"
    by (simp_all add: fresh_session_def prompt_def rootPrompt_def)
  from unprompted_launch_mints_nothing [OF server1_reachable _ this] show ?thesis by (simp add: server1_facts)
qed

end
