(* ===== verification/HookProps.thy ===== *)
theory HookProps
  imports HookAuth
begin

text \<open>
  What a launch secret is worth: the runs of the registry, its invariant as a machine, and the finality of a revocation.
\<close>

text \<open>
  The life of a registry: launches prepare secrets, deliveries that resolved a secret run, deletions revoke. A delivery is
  any callback over a world the registry does not see.
\<close>

inductive registry_step :: "'s \<Rightarrow> 's registry \<Rightarrow> 's registry \<Rightarrow> bool" for zero where
  prepares: "registry_step zero g (snd (Prepare_registry zero drawn written t g))"
| delivers: "registry_step zero g (fst (snd (Deliver_run secret at (deliver :: string \<Rightarrow> 's \<Rightarrow> unit \<Rightarrow> nat \<times> 's \<times> unit) g w)))"
| revokes: "registry_step zero g (Deregister t g)"

inductive_cases registry_stepE: "registry_step zero g g'"

text \<open>A process starts with what the hook directory holds.\<close>

definition boot_registry :: "'s \<Rightarrow> 's registry \<Rightarrow> bool" where
  "boot_registry zero g \<longleftrightarrow> (\<exists>files keep readable. g = Load_registry zero keep readable (NewRegistry files))"

interpretation launches: machine "boot_registry zero" "registry_step zero" registry_inv for zero
  by unfold_locales
    (auto simp: boot_registry_def elim!: registry_stepE
       intro: registry_inv_Load registry_inv_new registry_inv_Prepare registry_inv_Deliver_run registry_inv_Deregister)

lemma register_keeps_revoked:
  "map_of (bySecret g) secret \<noteq> Some at \<Longrightarrow> at < length (registrations g) \<Longrightarrow>
     map_of (bySecret (register reg g)) secret \<noteq> Some at \<and> at < length (registrations (register reg g))"
  by (auto simp: register_def Let_def split: option.splits)

lemma step_keeps_revoked:
  assumes "registry_step zero g g'" and "map_of (bySecret g) secret \<noteq> Some at" and "at < length (registrations g)"
  shows "map_of (bySecret g') secret \<noteq> Some at \<and> at < length (registrations g')"
  using assms(1)
proof cases
  case (prepares drawn written t)
  then show ?thesis
    using assms(2,3) register_keeps_revoked [of "g\<lparr>header_files := fs\<rparr>" secret at reg for fs reg]
    by (auto simp: Prepare_registry_def split: option.splits)
next
  case (delivers x n deliver w)
  then show ?thesis using assms(2,3) by (auto simp: Deliver_run_def Let_def split: prod.splits if_splits)
next
  case (revokes t)
  then show ?thesis using assms(2,3) by (auto simp: Deregister_def Let_def split: option.splits)
qed

text \<open>
  C25. A revocation is a barrier: once a terminal is deregistered, or launched again with a new secret, a delivery that had
  already resolved the old secret is answered 404 and runs nothing, however much the registry is used in between and even
  when the old secret is drawn again.
\<close>

theorem revoked_launch_delivers_nothing:
  assumes "boot_registry zero g0" and "(registry_step zero)\<^sup>*\<^sup>* g0 g"
    and "Deliver_lookup secret g = Some at" and "t = reg_terminal (registrations g ! at)"
    and "g1 = Deregister t g \<or> Prepare_registry zero drawn written t g = (None, g1)"
    and "(registry_step zero)\<^sup>*\<^sup>* g1 g2"
  shows "Deliver_run secret at deliver g2 w = (404, g2, w)"
proof -
  have inv: "registry_inv g" by (rule launches.reach_inv [OF assms(1,2)])
  have at: "at < length (registrations g)" "reg_secret (registrations g ! at) = secret" "map_of (byTerminal g) t = Some at"
    using inv assms(3,4) unfolding registry_inv_def Deliver_lookup_def by blast+
  have "map_of (bySecret g1) secret \<noteq> Some at \<and> at < length (registrations g1)"
    using assms(5) at
    by (auto simp: Deregister_def Prepare_registry_def register_def Let_def split: option.splits if_splits)
  with assms(6) have "map_of (bySecret g2) secret \<noteq> Some at \<and> at < length (registrations g2)"
    by (induction rule: rtranclp_induct) (auto dest: step_keeps_revoked)
  then show ?thesis by (simp add: Deliver_run_def)
qed

text \<open>One launch, whose delivery looks the secret up just before the terminal is deleted.\<close>

definition one_launch :: "nat registry" where
  "one_launch = snd (Prepare_registry 0 (Some ''5ec'') True ''term-1'' (Load_registry 0 (\<lambda>t. True) (\<lambda>t. True) (NewRegistry [])))"

theorem revoked_launch_delivers_nothing_witness:
  "Deliver_lookup ''5ec'' one_launch = Some 0
   \<and> Deliver_run ''5ec'' 0 (\<lambda>t n w. (204, Suc n, w)) (Deregister ''term-1'' one_launch) () = (404, Deregister ''term-1'' one_launch, ())
   \<and> fst (Deliver ''5ec'' (\<lambda>t n w. (204, Suc n, w)) one_launch ()) = 204"
proof -
  let ?g0 = "Load_registry 0 (\<lambda>t. True) (\<lambda>t. True) (NewRegistry []) :: nat registry"
  have boot: "boot_registry 0 ?g0" by (auto simp: boot_registry_def)
  have run: "(registry_step 0)\<^sup>*\<^sup>* ?g0 one_launch" unfolding one_launch_def by (intro r_into_rtranclp registry_step.prepares)
  have up: "Deliver_lookup ''5ec'' one_launch = Some 0" "''term-1'' = reg_terminal (registrations one_launch ! 0)"
    "fst (Deliver ''5ec'' (\<lambda>t n w. (204, Suc n, w)) one_launch ()) = 204"
    by code_simp+
  have "Deliver_run ''5ec'' 0 (\<lambda>t n w. (204, Suc n, w)) (Deregister ''term-1'' one_launch) ()
      = (404, Deregister ''term-1'' one_launch, ())"
    by (rule revoked_launch_delivers_nothing [OF boot run up(1,2) disjI1 [OF refl] rtranclp.rtrancl_refl])
  then show ?thesis using up by blast
qed

end
