(* ===== verification/Webhooks.thy ===== *)
theory Webhooks
  imports Threads
begin

text \<open>
  \<^verbatim>\<open>internal/webhooks\<close> and \<^verbatim>\<open>internal/store/webhooks.go\<close>: the durable inbox and the acceptance and processing of
  deliveries. The state extends the server's with the table, the registered routes and the counters of the status report.

  A route's handler belongs to an Integration: the verdict of \<^verbatim>\<open>Verify\<close> on a request is an argument of
  \<open>serveDelivery\<close>, and \<^verbatim>\<open>Process\<close> a function of the accepted delivery and the state. The HTTP connection contributes how
  the body read ended; a response is its status and problem code.
\<close>

subsection \<open>The inbox table\<close>

text \<open>\<^verbatim>\<open>WebhookDelivery\<close>, with the row's state column: a done row keeps its receipt and no payload.\<close>

record webhook_delivery =
  wd_id :: string
  wd_integration :: string
  wd_route :: string
  wd_delivery :: string
  wd_payload :: "string option"
  wd_attempts :: int
  wd_next :: time
  wd_accepted :: time
  wd_completed :: "time option"

text \<open>\<^verbatim>\<open>Route\<close>: the handler's \<^verbatim>\<open>Process\<close> is looked up by the Integration that owns the route.\<close>

record route =
  rt_integration :: string
  rt_path :: string

record webhook_svc = thread_svc +
  inbox :: "(string \<times> webhook_delivery) list"
  routes :: "(string \<times> route) list"
  capacity :: int
  inflight :: nat
  rejected :: nat
  last_rejection :: string
  failures :: nat
  last_failure :: string
  storage_failing :: bool

definition wd_done :: "webhook_delivery \<Rightarrow> bool" where
  "wd_done d \<longleftrightarrow> wd_completed d \<noteq> None"

definition pending_rows :: "'a webhook_svc_scheme \<Rightarrow> webhook_delivery list" where
  "pending_rows s = filter (\<lambda>d. \<not> wd_done d) (map snd (inbox s))"

text \<open>The statements of \<^verbatim>\<open>queries.sql\<close>.\<close>

definition same_delivery :: "webhook_delivery \<Rightarrow> webhook_delivery \<Rightarrow> bool" where
  "same_delivery d d' \<longleftrightarrow> wd_integration d = wd_integration d' \<and> wd_delivery d = wd_delivery d'"

definition InsertWebhookDelivery ::
  "webhook_delivery \<Rightarrow> (string \<times> webhook_delivery) list \<Rightarrow> err + nat \<times> (string \<times> webhook_delivery) list" where
  "InsertWebhookDelivery d rows =
     (if list_ex (\<lambda>(i, d'). same_delivery d d') rows then Inr (0, rows)
      else if has_key rows (wd_id d) then Inl ErrUniqueViolation
      else Inr (1, AList.update (wd_id d) (d\<lparr>wd_attempts := 0, wd_completed := None\<rparr>) rows))"

definition CountPending :: "(string \<times> webhook_delivery) list \<Rightarrow> int" where
  "CountPending rows = int (length (filter (\<lambda>(i, d). \<not> wd_done d) rows))"

definition CompleteWebhookDelivery ::
  "string \<Rightarrow> time \<Rightarrow> (string \<times> webhook_delivery) list \<Rightarrow> nat \<times> (string \<times> webhook_delivery) list" where
  "CompleteWebhookDelivery i at rows =
     (case map_of rows i of
        None \<Rightarrow> (0, rows)
      | Some d \<Rightarrow> if wd_done d then (0, rows)
                  else (1, AList.update i (d\<lparr>wd_payload := None, wd_completed := Some at\<rparr>) rows))"

definition FailWebhookDelivery ::
  "string \<Rightarrow> int \<Rightarrow> time \<Rightarrow> (string \<times> webhook_delivery) list \<Rightarrow> nat \<times> (string \<times> webhook_delivery) list" where
  "FailWebhookDelivery i attempts at rows =
     (case map_of rows i of
        None \<Rightarrow> (0, rows)
      | Some d \<Rightarrow> if wd_done d then (0, rows)
                  else (1, AList.update i (d\<lparr>wd_attempts := attempts, wd_next := at\<rparr>) rows))"

definition ListDue :: "time \<Rightarrow> nat \<Rightarrow> (string \<times> webhook_delivery) list \<Rightarrow> webhook_delivery list" where
  "ListDue at limit rows =
     take limit (sort_key (\<lambda>d. (wd_next d, wd_accepted d, wd_id d))
       (filter (\<lambda>d. \<not> wd_done d \<and> wd_next d \<le> at) (map snd rows)))"

definition PruneAged :: "time \<Rightarrow> (string \<times> webhook_delivery) list \<Rightarrow> (string \<times> webhook_delivery) list" where
  "PruneAged cutoff rows =
     filter (\<lambda>(i, d). case wd_completed d of None \<Rightarrow> True | Some at \<Rightarrow> \<not> at < cutoff) rows"

text \<open>\<^verbatim>\<open>ORDER BY completed_at DESC, id DESC LIMIT -1 OFFSET keep\<close>: the receipts past the newest.\<close>

definition excess_receipts :: "nat \<Rightarrow> (string \<times> webhook_delivery) list \<Rightarrow> string list" where
  "excess_receipts keep rows =
     map fst (drop keep (rev (sort_key (\<lambda>(i, d). (case wd_completed d of None \<Rightarrow> 0 | Some at \<Rightarrow> at, i))
       (filter (\<lambda>(i, d). wd_done d) rows))))"

definition PruneExcess :: "nat \<Rightarrow> (string \<times> webhook_delivery) list \<Rightarrow> (string \<times> webhook_delivery) list" where
  "PruneExcess keep rows =
     filter (\<lambda>(i, d). \<not> (wd_done d \<and> i \<in> set (excess_receipts keep rows))) rows"

subsection \<open>The repository\<close>

text \<open>\<^verbatim>\<open>Accept\<close>: the insert and the capacity check in one transaction.\<close>

definition Accept :: "webhook_delivery \<Rightarrow> int \<Rightarrow> 'a webhook_svc_scheme \<Rightarrow> (err + bool) \<times> 'a webhook_svc_scheme" where
  "Accept d cap s =
     (let (failed, s) = io_step s
      in if failed then (Inl ErrIO, s)
         else case InsertWebhookDelivery d (inbox s) of
                Inl e \<Rightarrow> (Inl e, s)
              | Inr (n, rows) \<Rightarrow>
                  if n = 0 then (Inr False, s)
                  else if CountPending rows > cap then (Inl ErrInboxFull, s)
                  else (Inr True, s\<lparr>inbox := rows\<rparr>))"

definition Due :: "time \<Rightarrow> nat \<Rightarrow> 'a webhook_svc_scheme \<Rightarrow> (err + webhook_delivery list) \<times> 'a webhook_svc_scheme" where
  "Due at limit s =
     (let (failed, s) = io_step s
      in if failed then (Inl ErrIO, s) else (Inr (ListDue at limit (inbox s)), s))"

definition Complete :: "string \<Rightarrow> time \<Rightarrow> 'a webhook_svc_scheme \<Rightarrow> (err + bool) \<times> 'a webhook_svc_scheme" where
  "Complete i at s =
     (let (failed, s) = io_step s
      in if failed then (Inl ErrIO, s)
         else let (n, rows) = CompleteWebhookDelivery i at (inbox s) in (Inr (n > 0), s\<lparr>inbox := rows\<rparr>))"

definition Fail :: "string \<Rightarrow> int \<Rightarrow> time \<Rightarrow> 'a webhook_svc_scheme \<Rightarrow> (err + bool) \<times> 'a webhook_svc_scheme" where
  "Fail i attempts at s =
     (let (failed, s) = io_step s
      in if failed then (Inl ErrIO, s)
         else let (n, rows) = FailWebhookDelivery i attempts at (inbox s) in (Inr (n > 0), s\<lparr>inbox := rows\<rparr>))"

definition Pending :: "'a webhook_svc_scheme \<Rightarrow> (err + int) \<times> 'a webhook_svc_scheme" where
  "Pending s =
     (let (failed, s) = io_step s
      in if failed then (Inl ErrIO, s) else (Inr (CountPending (inbox s)), s))"

definition Prune :: "time \<Rightarrow> nat \<Rightarrow> 'a webhook_svc_scheme \<Rightarrow> err option \<times> 'a webhook_svc_scheme" where
  "Prune cutoff keep s =
     (let (failed, s) = io_step s
      in if failed then (Some ErrIO, s)
         else let s = s\<lparr>inbox := PruneAged cutoff (inbox s)\<rparr>; (failed, s) = io_step s
              in if failed then (Some ErrIO, s) else (None, s\<lparr>inbox := PruneExcess keep (inbox s)\<rparr>))"

subsection \<open>The service\<close>

definition second :: int where "second = 1000000000"
definition defaultCapacity :: int where "defaultCapacity = 1000"
definition processBatch :: nat where "processBatch = 16"
definition receiptRetention :: int where "receiptRetention = 30 * 24 * 3600 * second"
definition receiptKeep :: nat where "receiptKeep = 10000"
definition retryBase :: int where "retryBase = 5 * second"
definition retryMax :: int where "retryMax = 3600 * second"
definition summaryLimit :: nat where "summaryLimit = 200"
definition Concurrency :: nat where "Concurrency = 32"
definition webhook_prefix :: string where "webhook_prefix = ''whk-''"

text \<open>\<^verbatim>\<open>New\<close>: the registrations it refuses, and the table of the others.\<close>

definition route_fault :: "route \<Rightarrow> bool \<Rightarrow> (string \<times> route) list \<Rightarrow> bool" where
  "route_fault r hasHandler table \<longleftrightarrow>
     rt_integration r = '''' \<or> \<not> HasPrefix (rt_path r) ''/'' \<or> length (rt_path r) < 2
     \<or> last (rt_path r) = CHR ''/'' \<or> \<not> hasHandler \<or> has_key table (rt_path r)"

fun New_routes :: "(route \<times> bool) list \<Rightarrow> (string \<times> route) list \<Rightarrow> err + (string \<times> route) list" where
  "New_routes [] table = Inr table"
| "New_routes ((r, hasHandler) # rs) table =
     (if route_fault r hasHandler table then Inl (ErrRouteInvalid (rt_path r))
      else New_routes rs (AList.update (rt_path r) r table))"

definition New_capacity :: "int \<Rightarrow> int" where
  "New_capacity c = (if c = 0 then defaultCapacity else c)"

text \<open>\<^verbatim>\<open>truncate\<close>, on bytes; the ellipsis is three of them.\<close>

definition truncate :: "string \<Rightarrow> string" where
  "truncate text = (if length text > summaryLimit then take (summaryLimit - 1) text @ ellipsis else text)"

definition recordRejection :: "route \<Rightarrow> nat \<Rightarrow> string \<Rightarrow> 'a webhook_svc_scheme \<Rightarrow> 'a webhook_svc_scheme" where
  "recordRejection r code reason s =
     s\<lparr>rejected := Suc (rejected s),
       last_rejection := truncate (rt_path r @ '': '' @ decimal code @ '' '' @ reason)\<rparr>"

text \<open>\<open>describe\<close> is the text of an error.\<close>

definition recordFailure :: "(err \<Rightarrow> string) \<Rightarrow> string \<Rightarrow> err \<Rightarrow> 'a webhook_svc_scheme \<Rightarrow> 'a webhook_svc_scheme" where
  "recordFailure describe path e s =
     s\<lparr>failures := Suc (failures s), last_failure := truncate (path @ '': '' @ describe e)\<rparr>"

definition setStorageFailing :: "bool \<Rightarrow> 'a webhook_svc_scheme \<Rightarrow> 'a webhook_svc_scheme" where
  "setStorageFailing b s = s\<lparr>storage_failing := b\<rparr>"

text \<open>How the body read ended, and the Integration's verdict; a verdict past its deadline is \<open>Undecided\<close>.\<close>

datatype body_read = BodyRead string | TooLarge | BodyUnreadable
datatype verification = Verified string string | Rejection nat string | Undecided

text \<open>The answers of the channel handler.\<close>

datatype response = AcceptedNew string | AcceptedDuplicate | Problem nat string

definition accept_verified ::
  "route \<Rightarrow> string \<Rightarrow> string \<Rightarrow> 'a webhook_svc_scheme \<Rightarrow> response \<times> 'a webhook_svc_scheme" where
  "accept_verified r delivery body s =
     (let (at, s) = now s;
          (i, s) = newLong webhook_prefix s;
          d = \<lparr>wd_id = i, wd_integration = rt_integration r, wd_route = rt_path r, wd_delivery = delivery,
               wd_payload = Some body, wd_attempts = 0, wd_next = at, wd_accepted = at, wd_completed = None\<rparr>
      in case Accept d (capacity s) s of
           (Inl e, s) \<Rightarrow>
             if e = ErrInboxFull then (Problem 503 ''webhook_inbox_full'', s)
             else (Problem 503 ''webhook_storage_failed'', setStorageFailing True s)
         | (Inr accepted, s) \<Rightarrow>
             (if accepted then AcceptedNew i else AcceptedDuplicate, setStorageFailing False s))"

definition serveDelivery ::
  "string \<Rightarrow> body_read \<Rightarrow> (route \<Rightarrow> string \<Rightarrow> verification) \<Rightarrow> 'a webhook_svc_scheme \<Rightarrow> response \<times> 'a webhook_svc_scheme" where
  "serveDelivery path body verify s =
     (case map_of (routes s) path of
        None \<Rightarrow> (Problem 404 ''webhook_route_not_found'', s)
      | Some r \<Rightarrow>
          if inflight s \<ge> Concurrency then (Problem 503 ''webhook_busy'', s)
          else case body of
                 TooLarge \<Rightarrow> (Problem 413 ''webhook_body_too_large'', recordRejection r 413 ''body exceeds limit'' s)
               | BodyUnreadable \<Rightarrow> (Problem 400 ''webhook_body_unreadable'', s)
               | BodyRead b \<Rightarrow>
                   (case verify r b of
                      Rejection code reason \<Rightarrow> (Problem code ''webhook_rejected'', recordRejection r code reason s)
                    | Undecided \<Rightarrow>
                        (Problem 500 ''webhook_verification_failed'', recordRejection r 500 ''verification failed'' s)
                    | Verified delivery payload \<Rightarrow>
                        if delivery = ''''
                        then (Problem 500 ''webhook_verification_failed'',
                              recordRejection r 500 ''integration supplied no delivery identity'' s)
                        else accept_verified r delivery payload s))"

text \<open>\<^verbatim>\<open>backoff\<close>: the loop doubles while it is below the cap.\<close>

fun backoff_loop :: "int \<Rightarrow> nat \<Rightarrow> int \<Rightarrow> int" where
  "backoff_loop cap 0 delay = delay"
| "backoff_loop cap (Suc n) delay = (if delay < cap then backoff_loop cap n (delay * 2) else delay)"

definition backoff_from :: "int \<Rightarrow> int \<Rightarrow> int \<Rightarrow> int" where
  "backoff_from base cap attempts = min (backoff_loop cap (nat (attempts - 1)) base) cap"

definition backoff :: "int \<Rightarrow> int" where
  "backoff attempts = backoff_from retryBase retryMax attempts"

text \<open>
  \<^verbatim>\<open>process\<close>: one attempt at a delivery by the owner of its route; a process that outlives its bound has failed. The
  shutdown branch, which leaves the row, is the run that stops before it.
\<close>

record accepted =
  ac_id :: string
  ac_delivery :: string
  ac_payload :: string
  ac_attempts :: int

type_synonym 'w handlers = "string \<Rightarrow> accepted \<Rightarrow> 'w \<Rightarrow> err option \<times> 'w"

definition accepted_of :: "webhook_delivery \<Rightarrow> accepted" where
  "accepted_of d =
     \<lparr>ac_id = wd_id d, ac_delivery = wd_delivery d, ac_payload = (case wd_payload d of None \<Rightarrow> '''' | Some p \<Rightarrow> p),
      ac_attempts = wd_attempts d\<rparr>"

definition attempt ::
  "'a webhook_svc_scheme handlers \<Rightarrow> webhook_delivery \<Rightarrow> 'a webhook_svc_scheme \<Rightarrow> err option \<times> 'a webhook_svc_scheme" where
  "attempt handlers d s =
     (case map_of (routes s) (wd_route d) of
        None \<Rightarrow> (Some (ErrNoHandler (wd_route d)), s)
      | Some r \<Rightarrow>
          if rt_integration r \<noteq> wd_integration d then (Some (ErrForeignRoute (wd_route d)), s)
          else handlers (rt_integration r) (accepted_of d) s)"

definition process_delivery ::
  "(err \<Rightarrow> string) \<Rightarrow> 'a webhook_svc_scheme handlers \<Rightarrow> webhook_delivery \<Rightarrow> 'a webhook_svc_scheme \<Rightarrow> 'a webhook_svc_scheme" where
  "process_delivery describe handlers d s =
     (let (e, s) = attempt handlers d s; (at, s) = now s
      in case e of
           Some e \<Rightarrow>
             (let attempts = wd_attempts d + 1; s = recordFailure describe (wd_route d) e s
              in case Fail (wd_id d) attempts (at + backoff attempts) s of
                   (Inl _, s) \<Rightarrow> setStorageFailing True s | (Inr _, s) \<Rightarrow> s)
         | None \<Rightarrow>
             (case Complete (wd_id d) at s of (Inl _, s) \<Rightarrow> setStorageFailing True s | (Inr _, s) \<Rightarrow> s))"

definition processDue ::
  "(err \<Rightarrow> string) \<Rightarrow> 'a webhook_svc_scheme handlers \<Rightarrow> 'a webhook_svc_scheme \<Rightarrow> bool \<times> 'a webhook_svc_scheme" where
  "processDue describe handlers s =
     (let (at, s) = now s
      in case Due at processBatch s of
           (Inl e, s) \<Rightarrow> (False, setStorageFailing True s)
         | (Inr due, s) \<Rightarrow>
             (length due = processBatch, fold (process_delivery describe handlers) due (setStorageFailing False s)))"

definition prune :: "'a webhook_svc_scheme \<Rightarrow> 'a webhook_svc_scheme" where
  "prune s = (let (at, s) = now s in snd (Prune (at - receiptRetention) receiptKeep s))"

text \<open>\<^verbatim>\<open>Status\<close>: the part of it the inbox decides.\<close>

definition intake_blocked :: "'a webhook_svc_scheme \<Rightarrow> bool \<times> 'a webhook_svc_scheme" where
  "intake_blocked s =
     (case Pending s of
        (Inl e, s) \<Rightarrow> (let s = setStorageFailing True s in (storage_failing s \<or> 0 \<ge> capacity s, s))
      | (Inr n, s) \<Rightarrow> (storage_failing s \<or> n \<ge> capacity s, s))"

end
