(* ===== verification/WebhookProps.thy ===== *)
theory WebhookProps
  imports Webhooks
begin

text \<open>
  The contract of the inbox: what every run keeps of it, that accepted work stays until its owner has processed it, that a
  redelivery is absorbed, and the closed form of the retry delay.
\<close>

declare map_of_eq_Some_iff [simp del] Some_eq_map_of_iff [simp del]

subsection \<open>The delay\<close>

lemma backoff_loop_run:
  "0 < delay \<Longrightarrow> min (backoff_loop cap n delay) cap = min (delay * 2 ^ n) cap"
proof (induction n arbitrary: delay)
  case (Suc n)
  show ?case
  proof (cases "delay < cap")
    case True
    then show ?thesis using Suc.IH [of "delay * 2"] Suc.prems by (simp add: mult.assoc)
  next
    case False
    moreover have "delay * 1 \<le> delay * 2 ^ Suc n"
      using Suc.prems by (intro mult_left_mono one_le_power) simp_all
    ultimately show ?thesis by simp
  qed
qed simp

lemma backoff_loop_below: "delay \<le> 2 * cap \<Longrightarrow> backoff_loop cap n delay \<le> 2 * cap"
  by (induction n arbitrary: delay) auto

text \<open>
  C28. The retry delay is the base doubled once per failed attempt after the first, capped; it never decreases from one
  attempt to the next, and no value the loop computes leaves the range of a 64-bit duration.
\<close>

theorem backoff_closed_form:
  assumes "1 \<le> attempts"
  shows "backoff attempts = min (retryBase * 2 ^ nat (attempts - 1)) retryMax
    \<and> retryBase \<le> backoff attempts \<and> backoff attempts \<le> backoff (attempts + 1)
    \<and> (\<forall>n. backoff_loop retryMax n retryBase < 2 ^ 63)"
proof -
  have closed: "backoff a = min (retryBase * 2 ^ nat (a - 1)) retryMax" for a
    by (simp add: backoff_def backoff_from_def backoff_loop_run retryBase_def second_def)
  have "nat (attempts + 1 - 1) = Suc (nat (attempts - 1))" using assms by simp
  then have step: "(2 :: int) ^ nat (attempts + 1 - 1) = 2 * 2 ^ nat (attempts - 1)" by simp
  have "backoff attempts \<le> backoff (attempts + 1)"
    unfolding closed step by (intro min.mono) (simp_all add: retryBase_def second_def)
  moreover have "retryBase \<le> backoff attempts"
    unfolding closed by (simp add: retryBase_def retryMax_def second_def)
  moreover have "backoff_loop retryMax n retryBase < 2 ^ 63" for n
    using backoff_loop_below [of retryBase retryMax n] by (simp add: retryBase_def retryMax_def second_def)
  ultimately show ?thesis using closed by blast
qed

theorem backoff_closed_form_witness:
  "backoff 3 = 20 * second \<and> backoff 40 = 3600 * second"
  using backoff_closed_form [of 3] backoff_closed_form [of 40] by (simp add: retryBase_def retryMax_def second_def)

subsection \<open>The table\<close>

definition inbox_rows_inv :: "(string \<times> webhook_delivery) list \<Rightarrow> bool" where
  "inbox_rows_inv rows \<longleftrightarrow>
     distinct (map fst rows) \<and> (\<forall>(i, d) \<in> set rows. wd_id d = i \<and> (wd_payload d = None \<longleftrightarrow> wd_done d))
     \<and> (\<forall>(i, d) \<in> set rows. \<forall>(j, d') \<in> set rows. same_delivery d d' \<longrightarrow> i = j)"

definition inbox_inv :: "'a webhook_svc_scheme \<Rightarrow> bool" where
  "inbox_inv s \<longleftrightarrow> inbox_rows_inv (inbox s) \<and> CountPending (inbox s) \<le> max 0 (capacity s)"

lemma set_update_keys: "(j, x) \<in> set (AList.update k v m) \<Longrightarrow> distinct (map fst m) \<Longrightarrow> j = k \<and> x = v \<or> j \<noteq> k \<and> (j, x) \<in> set m"
  by (metis distinct_update_keys in_set_map_of map_of_in_set map_of_update fun_upd_apply option.inject)

lemma rows_inv_filter: "inbox_rows_inv rows \<Longrightarrow> inbox_rows_inv (filter P rows)"
  by (auto simp: inbox_rows_inv_def distinct_filter_keys)

lemma rows_inv_insert:
  assumes inv: "inbox_rows_inv rows" and ins: "InsertWebhookDelivery d rows = Inr (1, rows')" and p: "wd_payload d \<noteq> None"
  shows "inbox_rows_inv rows' \<and> CountPending rows' = CountPending rows + 1"
proof -
  have new: "\<not> list_ex (\<lambda>(i, d'). same_delivery d d') rows" "map_of rows (wd_id d) = None"
    and rows': "rows' = AList.update (wd_id d) (d\<lparr>wd_attempts := 0, wd_completed := None\<rparr>) rows"
    using ins by (auto simp: InsertWebhookDelivery_def has_key_def split: if_splits)
  have k: "wd_id d \<notin> fst ` set rows" using new(2) by (simp add: map_of_eq_None_iff)
  then have eq: "rows' = rows @ [(wd_id d, d\<lparr>wd_attempts := 0, wd_completed := None\<rparr>)]"
    unfolding rows' by (induction rows) auto
  have nosame: "\<not> same_delivery d d' \<and> \<not> same_delivery d' d" if "(i, d') \<in> set rows" for i d'
    using new(1) that by (auto simp: list_ex_iff same_delivery_def)
  show ?thesis
    using inv k nosame p
    by (auto simp: eq inbox_rows_inv_def CountPending_def wd_done_def same_delivery_def; force)
qed

lemma rows_inv_replace:
  assumes inv: "inbox_rows_inv rows" and d: "map_of rows i = Some d" and same: "same_delivery d' d" "wd_id d' = wd_id d"
    and pay: "wd_payload d' = None \<longleftrightarrow> wd_done d'"
  shows "inbox_rows_inv (AList.update i d' rows)"
proof -
  have dist: "distinct (map fst rows)" using inv by (simp add: inbox_rows_inv_def)
  have mem: "(j, x) \<in> set (AList.update i d' rows) \<Longrightarrow> j = i \<and> x = d' \<or> j \<noteq> i \<and> (j, x) \<in> set rows" for j x
    using set_update_keys dist by metis
  have own: "wd_id d = i" "(i, d) \<in> set rows" using inv d map_of_in_set [OF d] by (auto simp: inbox_rows_inv_def)
  have other: "j = i" if "(j, x) \<in> set rows" "same_delivery x d \<or> same_delivery d x" for j x
    using inv own that unfolding inbox_rows_inv_def by fastforce
  show ?thesis
    unfolding inbox_rows_inv_def
  proof (intro conjI ballI)
    show "distinct (map fst (AList.update i d' rows))" using dist by simp
  next
    fix x assume x: "x \<in> set (AList.update i d' rows)"
    obtain j e where je: "x = (j, e)" by fastforce
    have "j = i \<and> e = d' \<or> (j, e) \<in> set rows" using mem x je by blast
    moreover have "wd_id e = j \<and> (wd_payload e = None \<longleftrightarrow> wd_done e)" if "(j, e) \<in> set rows"
      using inv that unfolding inbox_rows_inv_def by blast
    ultimately show "case x of (j, e) \<Rightarrow> wd_id e = j \<and> (wd_payload e = None \<longleftrightarrow> wd_done e)"
      using own(1) same(2) pay by (auto simp: je)
  next
    have all: "j = k" if in_j: "(j, e) \<in> set (AList.update i d' rows)" and in_k: "(k, e') \<in> set (AList.update i d' rows)"
      and eq: "same_delivery e e'" for j e k e'
    proof -
    have x: "j = i \<and> e = d' \<or> j \<noteq> i \<and> (j, e) \<in> set rows" and y: "k = i \<and> e' = d' \<or> k \<noteq> i \<and> (k, e') \<in> set rows"
      using mem in_j in_k by blast+
    show ?thesis
    proof (cases "j = i \<or> k = i")
      case True
      have "same_delivery d' z = same_delivery d z" "same_delivery z d' = same_delivery z d" for z
        using same(1) by (auto simp: same_delivery_def)
      then show ?thesis using True x y eq other [of j e] other [of k e'] by auto
    next
      case False
      then show ?thesis using x y eq inv unfolding inbox_rows_inv_def by fastforce
    qed
    qed
    fix x assume "x \<in> set (AList.update i d' rows)"
    then show "case x of (j, e) \<Rightarrow> \<forall>(k, e') \<in> set (AList.update i d' rows). same_delivery e e' \<longrightarrow> j = k"
      by (cases x rule: prod.exhaust) (use all in blast)
  qed
qed

lemma count_replace:
  "distinct (map fst rows) \<Longrightarrow> map_of rows i = Some d \<Longrightarrow> \<not> wd_done d \<Longrightarrow>
     CountPending (AList.update i d' rows) = CountPending rows - (if wd_done d' then 1 else 0)"
proof (induction rows)
  case (Cons x rows)
  obtain j e where x: "x = (j, e)" by (cases x)
  show ?case
  proof (cases "j = i")
    case True
    then show ?thesis using Cons.prems x by (auto simp: CountPending_def)
  next
    case False
    then have "CountPending (AList.update i d' rows) = CountPending rows - (if wd_done d' then 1 else 0)"
      using Cons x by simp
    then show ?thesis using False x by (auto simp: CountPending_def split: if_splits)
  qed
qed simp

lemma count_filter: "CountPending (filter P rows) \<le> CountPending rows"
  unfolding CountPending_def by (induction rows) auto

subsection \<open>Runs\<close>

text \<open>What a handler of an Integration must leave alone: the shared inbox and its configuration.\<close>

definition same_inbox :: "'a webhook_svc_scheme \<Rightarrow> 'a webhook_svc_scheme \<Rightarrow> bool" where
  "same_inbox s s' \<longleftrightarrow> inbox s' = inbox s \<and> routes s' = routes s \<and> capacity s' = capacity s"

definition quiet :: "'a webhook_svc_scheme handlers \<Rightarrow> bool" where
  "quiet handlers \<longleftrightarrow> (\<forall>i a s. same_inbox s (snd (handlers i a s)))"

text \<open>
  The worker and the channel handlers interleave at database statements: a delivery served, a due row processed (the one
  worker is the only writer of rows, so the row it read is the row it processes), the reads, the pruning, and whatever the
  rest of the server does.
\<close>

inductive webhook_step ::
  "(err \<Rightarrow> string) \<Rightarrow> 'a webhook_svc_scheme handlers \<Rightarrow> 'a webhook_svc_scheme \<Rightarrow> 'a webhook_svc_scheme \<Rightarrow> bool"
  for describe handlers where
  serves: "webhook_step describe handlers s (snd (serveDelivery path body verify s))"
| processes: "map_of (inbox s) i = Some d \<Longrightarrow> \<not> wd_done d \<Longrightarrow>
    webhook_step describe handlers s (process_delivery describe handlers d s)"
| reads: "webhook_step describe handlers s (snd (Due at n s))"
| reports: "webhook_step describe handlers s (snd (intake_blocked s))"
| prunes: "webhook_step describe handlers s (prune s)"
| others: "same_inbox s s' \<Longrightarrow> webhook_step describe handlers s s'"

inductive_cases webhook_stepE: "webhook_step describe handlers s s'"

lemma same_inbox_simps [simp]:
  "same_inbox s s" "same_inbox s (snd (now s))" "same_inbox s (snd (io_step s))" "same_inbox s (recordRejection r c x s)"
  "same_inbox s (recordFailure describe p e s)" "same_inbox s (setStorageFailing b s)" "same_inbox s (snd (newLong p s))"
  by (simp_all add: same_inbox_def now_def io_step_def recordRejection_def recordFailure_def setStorageFailing_def newLong_def)

lemma same_inbox_trans: "same_inbox s s1 \<Longrightarrow> same_inbox s1 s2 \<Longrightarrow> same_inbox s s2"
  by (simp add: same_inbox_def)

lemma same_inbox_inv: "same_inbox s s' \<Longrightarrow> inbox_inv s' \<longleftrightarrow> inbox_inv s"
  by (simp add: same_inbox_def inbox_inv_def)

text \<open>The three ways a served delivery ends.\<close>

definition inserted_row :: "string \<Rightarrow> 'a webhook_svc_scheme \<Rightarrow> 'a webhook_svc_scheme \<Rightarrow> bool" where
  "inserted_row i s s' \<longleftrightarrow>
     (\<exists>d. wd_id d = i \<and> wd_payload d \<noteq> None \<and> InsertWebhookDelivery d (inbox s) = Inr (1, inbox s')
        \<and> CountPending (inbox s') \<le> capacity s \<and> routes s' = routes s \<and> capacity s' = capacity s)"

lemma Accept_run:
  assumes "Accept d cap s = (x, s')"
  shows "(x = Inr True \<longrightarrow> InsertWebhookDelivery d (inbox s) = Inr (1, inbox s') \<and> CountPending (inbox s') \<le> cap
           \<and> routes s' = routes s \<and> capacity s' = capacity s)
    \<and> (x \<noteq> Inr True \<longrightarrow> same_inbox s s')"
proof -
  have "InsertWebhookDelivery d rows = Inr (n, rows') \<Longrightarrow> n = 0 \<or> n = 1" for n rows rows'
    by (auto simp: InsertWebhookDelivery_def split: if_splits)
  then show ?thesis
    using assms by (fastforce simp: Accept_def Let_def io_step_def same_inbox_def split: if_splits sum.splits prod.splits)
qed

lemma accept_verified_run:
  assumes "accept_verified r delivery body s = (resp, s')"
  shows "case resp of AcceptedNew i \<Rightarrow> inserted_row i s s' | _ \<Rightarrow> same_inbox s s'"
proof -
  obtain at s1 where n: "now s = (at, s1)" by (cases "now s")
  obtain i s2 where l: "newLong webhook_prefix s1 = (i, s2)" by (cases "newLong webhook_prefix s1")
  have s2: "same_inbox s s2"
    using same_inbox_trans [of s s1 s2] same_inbox_simps(2) [of s] same_inbox_simps(7) [of s1 webhook_prefix] by (simp add: n l)
  define d where "d = \<lparr>wd_id = i, wd_integration = rt_integration r, wd_route = rt_path r, wd_delivery = delivery,
               wd_payload = Some body, wd_attempts = 0, wd_next = at, wd_accepted = at, wd_completed = None\<rparr>"
  obtain x s3 where ac: "Accept d (capacity s2) s2 = (x, s3)" by (cases "Accept d (capacity s2) s2")
  have "resp = AcceptedNew i \<and> x = Inr True \<and> s' = setStorageFailing False s3
      \<or> x \<noteq> Inr True \<and> (\<forall>i. resp \<noteq> AcceptedNew i) \<and> (s' = s3 \<or> (\<exists>b. s' = setStorageFailing b s3))"
    using assms
    by (auto simp: accept_verified_def n l Let_def d_def [symmetric] ac split: sum.splits if_splits)
  then show ?thesis
  proof
    assume a: "resp = AcceptedNew i \<and> x = Inr True \<and> s' = setStorageFailing False s3"
    then have "inserted_row i s s'"
      using Accept_run [OF ac] s2 unfolding inserted_row_def
      by (intro exI [of _ d]) (simp add: d_def same_inbox_def setStorageFailing_def)
    with a show ?thesis by simp
  next
    assume a: "x \<noteq> Inr True \<and> (\<forall>i. resp \<noteq> AcceptedNew i) \<and> (s' = s3 \<or> (\<exists>b. s' = setStorageFailing b s3))"
    then have "same_inbox s s'"
      using Accept_run [OF ac] s2 same_inbox_simps(6) [of s3] same_inbox_trans by blast
    with a show ?thesis by (cases resp) simp_all
  qed
qed

lemma serve_run:
  "serveDelivery path body verify s = (resp, s') \<Longrightarrow>
     (case resp of AcceptedNew i \<Rightarrow> inserted_row i s s' | _ \<Rightarrow> same_inbox s s')"
  by (auto simp: serveDelivery_def dest: accept_verified_run
      split: option.splits if_splits body_read.splits verification.splits)

lemma serve_inv: "inbox_inv s \<Longrightarrow> inbox_inv (snd (serveDelivery path body verify s))"
proof -
  assume inv: "inbox_inv s"
  obtain resp s' where run: "serveDelivery path body verify s = (resp, s')" by (cases "serveDelivery path body verify s")
  show ?thesis
  proof (cases resp)
    case (AcceptedNew i)
    then obtain d where d: "wd_payload d \<noteq> None" "InsertWebhookDelivery d (inbox s) = Inr (1, inbox s')"
      "CountPending (inbox s') \<le> capacity s" "capacity s' = capacity s"
      using serve_run [OF run] by (auto simp: inserted_row_def)
    then show ?thesis using inv rows_inv_insert [OF _ d(2,1)] by (simp add: inbox_inv_def run)
  qed (use serve_run [OF run] inv same_inbox_inv [of s s'] in \<open>simp_all add: run\<close>)
qed

text \<open>The two ways a processing attempt ends.\<close>

lemma process_run:
  fixes handlers :: "'a webhook_svc_scheme handlers"
  assumes "quiet handlers" and d: "map_of (inbox s) (wd_id d) = Some d" "\<not> wd_done d"
    and run: "process_delivery describe handlers d s = s'"
  shows "routes s' = routes s \<and> capacity s' = capacity s
    \<and> (inbox s' = inbox s
       \<or> (\<exists>n at. inbox s' = AList.update (wd_id d) (d\<lparr>wd_attempts := n, wd_next := at\<rparr>) (inbox s))
       \<or> (\<exists>at. inbox s' = AList.update (wd_id d) (d\<lparr>wd_payload := None, wd_completed := Some at\<rparr>) (inbox s)
             \<and> fst (attempt handlers d s) = None))"
proof -
  obtain e s1 where a: "attempt handlers d s = (e, s1)" by (cases "attempt handlers d s")
  have "same_inbox s s1"
    using a assms(1) unfolding attempt_def quiet_def
    by (auto split: option.splits if_splits) (metis snd_conv)
  then have s1: "inbox s1 = inbox s" "routes s1 = routes s" "capacity s1 = capacity s" by (simp_all add: same_inbox_def)
  note defs = process_delivery_def a Let_def now_def Fail_def Complete_def io_step_def recordFailure_def
    setStorageFailing_def FailWebhookDelivery_def CompleteWebhookDelivery_def
  have cfg: "routes s' = routes s \<and> capacity s' = capacity s"
    using run d s1 by (cases e) (auto simp: defs)
  consider (down) "inbox s' = inbox s"
    | (retry) x where "e = Some x" "inbox s' = AList.update (wd_id d)
        (d\<lparr>wd_attempts := wd_attempts d + 1, wd_next := clock s1 (ticks s1) + backoff (wd_attempts d + 1)\<rparr>) (inbox s)"
    | (finish) "e = None" "inbox s' = AList.update (wd_id d)
        (d\<lparr>wd_payload := None, wd_completed := Some (clock s1 (ticks s1))\<rparr>) (inbox s)"
    using run d s1 by (cases e; cases "fault s1 (io_ops s1)") (auto simp: defs)
  then show ?thesis
  proof cases
    case finish
    then show ?thesis using cfg by (auto simp: a)
  qed (use cfg in blast)+
qed

lemma webhook_step_inv:
  assumes q: "quiet handlers" and "webhook_step describe handlers s s'" and inv: "inbox_inv s"
  shows "inbox_inv s'"
  using assms(2)
proof cases
  case (serves path body verify)
  then show ?thesis using serve_inv [OF inv] by simp
next
  case (processes i d)
  have own: "wd_id d = i" using inv map_of_in_set [OF processes(2)] by (auto simp: inbox_inv_def inbox_rows_inv_def)
  have rows: "inbox_rows_inv (inbox s)" and cnt: "CountPending (inbox s) \<le> max 0 (capacity s)"
    using inv by (simp_all add: inbox_inv_def)
  have dist: "distinct (map fst (inbox s))" using rows by (simp add: inbox_rows_inv_def)
  have pay: "wd_payload d \<noteq> None"
    using rows map_of_in_set [OF processes(2)] processes(3) unfolding inbox_rows_inv_def by blast
  have fail: "inbox_rows_inv (AList.update i (d\<lparr>wd_attempts := n, wd_next := at\<rparr>) (inbox s))
      \<and> CountPending (AList.update i (d\<lparr>wd_attempts := n, wd_next := at\<rparr>) (inbox s)) \<le> max 0 (capacity s)" for n at
    using rows_inv_replace [OF rows processes(2), of "d\<lparr>wd_attempts := n, wd_next := at\<rparr>"] processes(3) pay
      count_replace [OF dist processes(2,3)] cnt by (simp add: same_delivery_def wd_done_def)
  have finish: "inbox_rows_inv (AList.update i (d\<lparr>wd_payload := None, wd_completed := Some at\<rparr>) (inbox s))
      \<and> CountPending (AList.update i (d\<lparr>wd_payload := None, wd_completed := Some at\<rparr>) (inbox s)) \<le> max 0 (capacity s)" for at
    using rows_inv_replace [OF rows processes(2), of "d\<lparr>wd_payload := None, wd_completed := Some at\<rparr>"]
      count_replace [OF dist processes(2,3)] cnt by (simp add: same_delivery_def wd_done_def)
  show ?thesis
    using process_run [OF q _ processes(3), of s describe s'] processes(1,2) own fail finish inv
    unfolding inbox_inv_def by auto
next
  case prunes
  have "inbox_rows_inv (filter P (inbox s)) \<and> CountPending (filter P (inbox s)) \<le> max 0 (capacity s)" for P
    using inv rows_inv_filter count_filter [of P "inbox s"] by (fastforce simp: inbox_inv_def)
  moreover from this have "inbox_rows_inv (filter Q (filter P (inbox s)))
      \<and> CountPending (filter Q (filter P (inbox s))) \<le> max 0 (capacity s)" for P Q
    by (simp only: filter_filter)
  ultimately show ?thesis
    using inv unfolding prunes
    by (auto simp: prune_def Prune_def Let_def now_def io_step_def inbox_inv_def PruneAged_def PruneExcess_def)
next
  case (reads at n)
  then have "same_inbox s s'" by (auto simp: Due_def Let_def io_step_def same_inbox_def)
  then show ?thesis using inv same_inbox_inv by blast
next
  case reports
  then have "same_inbox s s'"
    by (auto simp: intake_blocked_def Pending_def setStorageFailing_def Let_def io_step_def same_inbox_def split: prod.splits sum.splits if_splits)
  then show ?thesis using inv same_inbox_inv by blast
next
  case others
  then show ?thesis using inv same_inbox_inv by blast
qed

definition empty_inbox :: "'a webhook_svc_scheme \<Rightarrow> bool" where
  "empty_inbox s \<longleftrightarrow> inbox s = []"

lemma empty_inbox_inv: "empty_inbox s \<Longrightarrow> inbox_inv s"
  by (simp add: empty_inbox_def inbox_inv_def inbox_rows_inv_def CountPending_def)

interpretation inbox: machine empty_inbox "\<lambda>s s'. quiet handlers \<and> webhook_step describe handlers s s'" inbox_inv
  for handlers :: "'a webhook_svc_scheme handlers" and describe
  by unfold_locales (auto intro: webhook_step_inv empty_inbox_inv)

lemma inbox_run_inv:
  assumes q: "quiet handlers" and "empty_inbox s0" and run: "(webhook_step describe handlers)\<^sup>*\<^sup>* s0 s"
  shows "inbox_inv s"
proof -
  have "(\<lambda>s s'. quiet handlers \<and> webhook_step describe handlers s s')\<^sup>*\<^sup>* s0 s" using run q by simp
  then show ?thesis using inbox.reach_inv assms(2) by blast
qed

text \<open>
  C27. The inbox is sound in every run: one row per delivery identity of an Integration, a payload exactly on the rows still
  to process, and never more pending rows than its capacity.
\<close>

theorem inbox_is_sound:
  assumes "quiet handlers" and "empty_inbox s0" and "(webhook_step describe handlers)\<^sup>*\<^sup>* s0 s"
    and "map_of (inbox s) i = Some d" and "map_of (inbox s) j = Some d'"
  shows "(wd_integration d = wd_integration d' \<and> wd_delivery d = wd_delivery d' \<longrightarrow> i = j)
    \<and> (wd_payload d = None \<longleftrightarrow> wd_done d) \<and> CountPending (inbox s) \<le> max 0 (capacity s)"
proof -
  have inv: "inbox_inv s" by (rule inbox_run_inv [OF assms(1-3)])
  then show ?thesis
    using map_of_in_set [OF assms(4)] map_of_in_set [OF assms(5)]
    unfolding inbox_inv_def inbox_rows_inv_def same_delivery_def by blast
qed

text \<open>
  C26. Accepted work is never dropped: in one step of a run a pending delivery stays pending with its identity, route and
  payload, or it is done because the Integration that owns its route processed it without error.
\<close>

theorem accepted_work_is_kept:
  assumes "quiet handlers" and "empty_inbox s0" and "(webhook_step describe handlers)\<^sup>*\<^sup>* s0 s"
    and "webhook_step describe handlers s s'" and "map_of (inbox s) i = Some d" and "\<not> wd_done d"
  shows "\<exists>d'. map_of (inbox s') i = Some d'
    \<and> wd_integration d' = wd_integration d \<and> wd_delivery d' = wd_delivery d \<and> wd_route d' = wd_route d
    \<and> (if wd_done d'
       then (\<exists>r. map_of (routes s) (wd_route d) = Some r \<and> rt_integration r = wd_integration d
              \<and> fst (handlers (wd_integration d) (accepted_of d) s) = None)
       else wd_payload d' = wd_payload d)"
  using assms(4)
proof cases
  case (serves path body verify)
  have k: "has_key (inbox s) i" using assms(5) by (simp add: has_key_def)
  have "map_of (inbox s') i = Some d"
  proof (cases "fst (serveDelivery path body verify s)")
    case (AcceptedNew j)
    then have "inserted_row j s s'" using serve_run [of path body verify s, OF surjective_pairing] serves by simp
    then show ?thesis
      using assms(5) k
      by (auto simp: inserted_row_def InsertWebhookDelivery_def split: if_splits)
        (metis fun_upd_other map_of_update)
  qed (use serve_run [of path body verify s, OF surjective_pairing] serves assms(5) in \<open>simp_all add: same_inbox_def\<close>)
  then show ?thesis using assms(6) by simp
next
  case (processes j e)
  have inv: "inbox_inv s" by (rule inbox_run_inv [OF assms(1-3)])
  have own: "wd_id e = j" using inv map_of_in_set [OF processes(2)] by (auto simp: inbox_inv_def inbox_rows_inv_def)
  note run = process_run [OF assms(1) _ processes(3), of s describe s'] 
  show ?thesis
  proof (cases "j = i")
    case True
    then have e: "e = d" using processes(2) assms(5) by simp
    have "fst (attempt handlers d s) = None \<Longrightarrow> \<exists>r. map_of (routes s) (wd_route d) = Some r \<and> rt_integration r = wd_integration d
        \<and> fst (handlers (wd_integration d) (accepted_of d) s) = None"
      by (auto simp: attempt_def split: option.splits if_splits)
    then show ?thesis using run processes(1,2) own True e assms(5,6) by (auto simp: wd_done_def)
  next
    case False
    then show ?thesis using run processes(1,2) own assms(5,6) by auto
  qed
next
  case prunes
  have "map_of (inbox s') i = Some d"
    using assms(5,6) unfolding prunes
    by (auto simp: prune_def Prune_def Let_def now_def io_step_def PruneAged_def PruneExcess_def wd_done_def
        simp del: filter_filter intro!: map_of_filter_in)
  then show ?thesis using assms(6) by simp
next
  case (reads at n)
  then show ?thesis using assms(5,6) by (auto simp: Due_def Let_def io_step_def)
next
  case reports
  then show ?thesis using assms(5,6)
    by (auto simp: intake_blocked_def Pending_def setStorageFailing_def Let_def io_step_def split: prod.splits sum.splits if_splits)
next
  case others
  then show ?thesis using assms(5,6) by (simp add: same_inbox_def)
qed

text \<open>
  A redelivery is absorbed: while the inbox has a row or a receipt for a delivery identity, the same identity verified
  again is acknowledged as a duplicate, or refused because storage fails, and the inbox stays as it is, at capacity too.
\<close>

theorem redelivery_is_absorbed:
  assumes "map_of (inbox s) i = Some d" and "map_of (routes s) path = Some r" and "rt_integration r = wd_integration d"
    and "verify r b = Verified (wd_delivery d) payload" and "wd_delivery d \<noteq> ''''"
    and "serveDelivery path (BodyRead b) verify s = (resp, s')"
  shows "inbox s' = inbox s
    \<and> (resp = AcceptedDuplicate \<or> resp = Problem 503 ''webhook_storage_failed'' \<or> resp = Problem 503 ''webhook_busy'')"
proof (cases "inflight s \<ge> Concurrency")
  case True
  then show ?thesis using assms by (simp add: serveDelivery_def)
next
  case False
  then have run: "accept_verified r (wd_delivery d) payload s = (resp, s')" using assms by (simp add: serveDelivery_def)
  obtain at s1 where n: "now s = (at, s1)" by (cases "now s")
  obtain k s2 where l: "newLong webhook_prefix s1 = (k, s2)" by (cases "newLong webhook_prefix s1")
  have s2: "inbox s2 = inbox s"
    using same_inbox_simps(2) [of s] same_inbox_simps(7) [of s1 webhook_prefix] by (simp add: n l same_inbox_def)
  have known: "list_ex (\<lambda>(i, d'). same_delivery x d') (inbox s)"
    if "wd_integration x = rt_integration r" "wd_delivery x = wd_delivery d" for x
    using map_of_in_set [OF assms(1)] that assms(3) by (auto simp: list_ex_iff same_delivery_def)
  show ?thesis
    using run s2 by (auto simp: accept_verified_def n l Let_def Accept_def InsertWebhookDelivery_def known io_step_def
        setStorageFailing_def split: if_splits)
qed

subsection \<open>A concrete run\<close>

text \<open>An inbox of capacity one with one route; its Integration refuses a payload that is empty.\<close>

definition inbox0 :: webhook_svc where
  "inbox0 =
     \<lparr>clock = (\<lambda>n. 100 + int n), ticks = 0, fault = (\<lambda>n. False), io_ops = 0, id_tape = [],
      long_suffix = (\<lambda>n. replicate (Suc n) (CHR ''z'')), longs = 0, events_log = [], thread_rows = [], identity_rows = [],
      terminal_rows = [], space_rows = [], project_rows = [], term_view = [], settling = [], space_view = [],
      default_space = '''', deleting_spaces = [], home_dir = '''', reports = (\<lambda>i. NoReport), view = [], identities = [],
      keys = [], active = [], held = [], prior_status = [], in_flight = [], inbox = [],
      routes = [(''/linear'', \<lparr>rt_integration = ''linear'', rt_path = ''/linear''\<rparr>)], capacity = 1, inflight = 0,
      rejected = 0, last_rejection = '''', failures = 0, last_failure = '''', storage_failing = False\<rparr>"

definition echo :: "webhook_svc handlers" where
  "echo i a s = (if ac_payload a = '''' then Some ErrIO else None, s)"

definition verify_all :: "route \<Rightarrow> string \<Rightarrow> verification" where
  "verify_all r b = Verified ''d-1'' b"

definition inbox1 :: webhook_svc where
  "inbox1 = snd (serveDelivery ''/linear'' (BodyRead ''hello'') verify_all inbox0)"

definition delivery1 :: webhook_delivery where
  "delivery1 = \<lparr>wd_id = ''whk-z'', wd_integration = ''linear'', wd_route = ''/linear'', wd_delivery = ''d-1'',
     wd_payload = Some ''hello'', wd_attempts = 0, wd_next = 100, wd_accepted = 100, wd_completed = None\<rparr>"

definition inbox2 :: webhook_svc where
  "inbox2 = process_delivery (\<lambda>e. ''failed'') echo delivery1 inbox1"

lemma echo_quiet: "quiet echo"
  by (simp add: quiet_def echo_def)

lemma inbox0_empty: "empty_inbox inbox0"
  by (simp add: empty_inbox_def inbox0_def)

lemma inbox_facts:
  "map_of (inbox inbox1) ''whk-z'' = Some delivery1" "\<not> wd_done delivery1"
  "map_of (routes inbox1) ''/linear'' = Some \<lparr>rt_integration = ''linear'', rt_path = ''/linear''\<rparr>"
  by code_simp+

lemma inbox1_run: "(webhook_step describe echo)\<^sup>*\<^sup>* inbox0 inbox1"
  unfolding inbox1_def by (intro r_into_rtranclp webhook_step.serves)

lemma inbox2_step: "webhook_step (\<lambda>e. ''failed'') echo inbox1 inbox2"
  unfolding inbox2_def by (rule webhook_step.processes [OF inbox_facts(1,2)])

theorem inbox_is_sound_witness: "CountPending (inbox inbox1) \<le> 1"
proof -
  have "capacity inbox1 = 1" by code_simp
  then show ?thesis
    using inbox_is_sound [OF echo_quiet inbox0_empty inbox1_run [of "\<lambda>e. ''''"] inbox_facts(1) inbox_facts(1)] by simp
qed

theorem accepted_work_is_kept_witness:
  "\<exists>d'. map_of (inbox inbox2) ''whk-z'' = Some d' \<and> wd_delivery d' = ''d-1''"
  using accepted_work_is_kept [OF echo_quiet inbox0_empty inbox1_run inbox2_step inbox_facts(1,2)]
  by (auto simp: delivery1_def)

theorem redelivery_is_absorbed_witness:
  "inbox (snd (serveDelivery ''/linear'' (BodyRead ''again'') verify_all inbox1)) = inbox inbox1"
  using redelivery_is_absorbed [OF inbox_facts(1,3), of verify_all "''again''" "''again''", OF _ _ _ surjective_pairing]
  by (simp add: delivery1_def verify_all_def)

end
