(* ===== verification/LinearMessages.thy ===== *)
theory LinearMessages
  imports Threads
begin

text \<open>
  \<^verbatim>\<open>internal/integrations/linear/messages.go\<close>: what the Integration says in Linear, one definition per text. A thread's
  links are the pair of its web and desktop addresses.
\<close>

definition newline :: string where "newline = [CHR 0x0A]"

definition profileIntegration :: string where "profileIntegration = ''t3code''"
definition profileAgent :: string where "profileAgent = ''codex''"
definition profileModel :: string where "profileModel = ''gpt-5.6-sol''"
definition profileEffort :: string where "profileEffort = ''high''"

type_synonym thread_links = "(string \<times> string) option"

definition linkList :: "string \<times> string \<Rightarrow> string" where
  "linkList l = newline @ ''- Web: '' @ fst l @ newline @ ''- Desktop: '' @ snd l"

definition linkLines :: "thread_links \<Rightarrow> string" where
  "linkLines links =
     (case links of
        None \<Rightarrow> newline @ newline @ ''ATC has no link to the conversation yet.''
      | Some l \<Rightarrow> newline @ newline @ ''Open in T3 Code:'' @ linkList l)"

definition composePrompt :: "string \<Rightarrow> string \<Rightarrow> string \<Rightarrow> string" where
  "composePrompt identifier url promptContext =
     (let place = (if identifier \<noteq> '''' then ''Linear issue '' @ identifier else ''a Linear issue'');
          place = (if url \<noteq> '''' then place @ '' ('' @ url @ '')'' else place)
      in ''This request comes from a mention of @atc in '' @ place
         @ ''. Answer the request in the most recent comment that mentions @atc. ''
         @ ''Your final message is posted back to that Linear issue as the answer, so make it self-contained and readable on its own.''
         @ newline @ newline @ TrimSpace promptContext)"

definition acknowledgement :: string where
  "acknowledgement =
     ''ATC accepted this request and is starting a T3 Code conversation ('' @ profileModel @ '', '' @ profileEffort
     @ '' reasoning effort) in its configured project. ''
     @ ''Links to the conversation follow once it is running; the answer is posted here when the run finishes.''"

definition started_text :: "thread_links \<Rightarrow> string" where
  "started_text links =
     (case links of
        None \<Rightarrow> ''The T3 Code conversation is running. ATC has no link to it; open T3 Code to find it.''
      | Some l \<Rightarrow> ''The T3 Code conversation is running. Open it to follow along, answer questions, approve actions, or stop the run:'' @ linkList l)"

definition waitingForT3 :: string where
  "waitingForT3 =
     ''T3 Code is not connected to ATC right now, so the conversation has not started. ATC starts it as soon as T3 Code is back; nothing else is needed from you.''"

definition waiting_text :: "thread_status \<Rightarrow> thread_links \<Rightarrow> string" where
  "waiting_text st links =
     ''The run is waiting for '' @ (if st = ThreadWaitingForPermission then ''an approval'' else ''input'')
     @ '' in T3 Code. ATC cannot relay that from Linear; open the conversation to continue it. ATC keeps watching and posts the answer here when the run finishes.''
     @ linkLines links"

definition followUpNotSupported :: "thread_links \<Rightarrow> string" where
  "followUpNotSupported links =
     ''Follow-up messages from Linear are not relayed to the agent, so this one was not sent. To continue the conversation, open it in T3 Code.''
     @ linkLines links @ newline @ newline @ ''To start an independent run, mention @atc in a new comment.''"

definition stopNotSupported :: "thread_links \<Rightarrow> string" where
  "stopNotSupported links =
     ''Runs are not stopped from Linear; this one has not been stopped. To stop it, open the conversation in T3 Code. ATC keeps watching and reports how the run ends.''
     @ linkLines links"

definition notTracked :: string where
  "notTracked =
     ''ATC is not tracking a run for this session, so there is nothing to continue or stop here. Mention @atc in a new comment to start one.''"

definition refusedNoContext :: string where
  "refusedNoContext =
     ''ATC found nothing to act on: Linear supplied no context for this mention. Mention @atc with a question in an issue comment.''"

definition refusedNoMention :: string where
  "refusedNoMention =
     ''ATC only starts work from an explicit @atc mention with a question in an issue comment. Delegating the issue does not start a run in this prototype.''"

definition startFailed :: "string \<Rightarrow> string" where
  "startFailed reason =
     ''ATC could not start the T3 Code conversation: '' @ reason @ ''. Nothing is running. Mention @atc again once the cause is fixed.''"

definition uncertain_text :: string where
  "uncertain_text =
     ''ATC could not confirm whether T3 Code accepted the conversation: T3 Code did not answer in time, or ATC restarted while starting it. ''
     @ ''ATC is watching the conversation it recorded and reports what it learns here; nothing is started again automatically.''"

definition responseRejected :: "thread_links \<Rightarrow> string" where
  "responseRejected links =
     ''The run finished, but Linear refused the response ATC tried to post (it may be too long). Open the conversation in T3 Code to read it.''
     @ linkLines links"

definition turnReplaced :: "thread_links \<Rightarrow> string" where
  "turnReplaced links =
     ''A newer turn replaced the one started from this mention before ATC could deliver its answer, so that answer cannot be attributed here. ''
     @ ''Open the conversation in T3 Code to read it.'' @ linkLines links"

definition threadGone :: string where
  "threadGone =
     ''The conversation ATC started from this mention no longer exists in ATC, so its answer cannot be delivered here.''"

definition threadDropped :: "thread_links \<Rightarrow> string" where
  "threadDropped links =
     ''T3 Code no longer reports the conversation started from this mention, so ATC cannot deliver its answer here.'' @ linkLines links"

definition responseMissing :: "thread_links \<Rightarrow> string" where
  "responseMissing links =
     ''The run finished, but ATC could not recover its final response from T3 Code. Open the conversation to read it.'' @ linkLines links"

definition turnFailed :: "string \<Rightarrow> thread_links \<Rightarrow> string" where
  "turnFailed detail links =
     ''The run failed in T3 Code'' @ (if detail \<noteq> '''' then '': '' @ detail else '''') @ ''.'' @ linkLines links"

definition turnInterrupted :: "thread_links \<Rightarrow> string" where
  "turnInterrupted links =
     ''The run was stopped in T3 Code before it finished, so there is no answer to post.'' @ linkLines links"

end
