(* ===== verification/LinearApi.thy ===== *)
theory LinearApi
  imports GoStrings
begin

text \<open>
  \<^verbatim>\<open>internal/integrations/linear/api.go\<close>: what an answer of Linear's endpoints means. The connection and the JSON decoder
  contribute an \<open>http_answer\<close>: no answer at all, or a status with the words of the body and the body decoded, when it
  could be.
\<close>

datatype failure_kind = FailureTransient | FailureAuth | FailurePermanent | FailureDuplicate

text \<open>
  The errors a call meets: no setup, an \<^verbatim>\<open>apiError\<close> (a wrapped one keeps its kind), or any other, with its text.
\<close>

datatype call_error = NotConfigured string | ApiError failure_kind string | OtherError string

fun failure_of :: "call_error \<Rightarrow> failure_kind" where
  "failure_of (ApiError k _) = k"
| "failure_of _ = FailureTransient"

fun error_text :: "call_error \<Rightarrow> string" where
  "error_text (NotConfigured t) = t"
| "error_text (ApiError k t) = t"
| "error_text (OtherError t) = t"

fun wrap :: "string \<Rightarrow> call_error \<Rightarrow> call_error" where
  "wrap prefix (NotConfigured t) = NotConfigured (prefix @ '': '' @ t)"
| "wrap prefix (ApiError k t) = ApiError k (prefix @ '': '' @ t)"
| "wrap prefix (OtherError t) = OtherError (prefix @ '': '' @ t)"

record graphql_error =
  ge_message :: string
  ge_code :: string

datatype 'd answer_data = NoData | Data 'd | BadData string

record 'd envelope =
  en_data :: "'d answer_data"
  en_errors :: "graphql_error list option"

datatype 'd http_answer = NoAnswer string | Answer nat "string list" "'d option"

subsection \<open>Classification\<close>

text \<open>One entry of the errors array: its kind, \<^const>\<open>None\<close> when it is not recognized.\<close>

definition error_kind :: "graphql_error \<Rightarrow> failure_kind option" where
  "error_kind e =
     (let lower = ToLower (ge_message e @ '' '' @ ge_code e); has = Contains lower
      in if has ''authentication'' \<or> has ''unauthenticated'' \<or> has ''invalid token'' \<or> has ''expired'' then Some FailureAuth
         else if has ''already exists'' \<or> has ''duplicate'' then Some FailureDuplicate
         else if has ''ratelimit'' \<or> has ''rate limit'' \<or> has ''internal_error'' \<or> has ''internal server error''
         then Some FailureTransient
         else if has ''invalid_input'' \<or> has ''validation'' \<or> has ''bad_user_input'' \<or> has ''not_found''
           \<or> has ''not found'' \<or> has ''forbidden'' \<or> has ''user_error''
         then Some FailurePermanent
         else None)"

definition verdict_step :: "graphql_error \<Rightarrow> failure_kind \<times> bool \<Rightarrow> failure_kind \<times> bool" where
  "verdict_step e acc =
     (let (v, known) = acc;
          kind = (case error_kind e of Some k \<Rightarrow> k | None \<Rightarrow> FailureTransient)
      in (if kind = FailureAuth \<or> kind = FailureDuplicate \<or> (kind = FailureTransient \<and> v = FailurePermanent) then kind else v,
          known \<or> error_kind e \<noteq> None))"

definition graphqlFailure :: "graphql_error list \<Rightarrow> call_error" where
  "graphqlFailure errs =
     (let (v, known) = fold verdict_step errs (FailurePermanent, False)
      in ApiError (if \<not> known \<and> errs \<noteq> [] then FailureTransient else v) (case errs of [] \<Rightarrow> '''' | e # _ \<Rightarrow> ge_message e))"

definition summarize :: "string list \<Rightarrow> 'd envelope option \<Rightarrow> bool \<Rightarrow> string" where
  "summarize words body structured =
     (let text = join_blank words;
          text = (if structured then (case body of Some b \<Rightarrow> (case en_errors b of Some (e # _) \<Rightarrow> ge_message e | _ \<Rightarrow> text)
                                                | None \<Rightarrow> text)
                  else text)
      in if length text > 200 then take 199 text @ ellipsis else text)"

definition answered :: "nat \<Rightarrow> string \<Rightarrow> string" where
  "answered code message = ''Linear answered '' @ decimal code @ '': '' @ message"

definition with_status :: "nat \<Rightarrow> call_error \<Rightarrow> call_error" where
  "with_status code e = (case e of ApiError k t \<Rightarrow> ApiError k (answered code t) | _ \<Rightarrow> e)"

text \<open>\<^verbatim>\<open>graphql\<close> after the exchange: the decoded data, or the failure.\<close>

definition body_errors :: "'d envelope \<Rightarrow> graphql_error list" where
  "body_errors b = (case en_errors b of None \<Rightarrow> [] | Some es \<Rightarrow> es)"

definition graphql :: "'d envelope http_answer \<Rightarrow> call_error + 'd answer_data" where
  "graphql a =
     (case a of
        NoAnswer t \<Rightarrow> Inl (OtherError t)
      | Answer code words body \<Rightarrow>
          if code = 401 \<or> code = 403
          then Inl (ApiError FailureAuth (answered code (summarize words body
                  (case body of None \<Rightarrow> False | Some b \<Rightarrow> en_errors b \<noteq> None))))
          else if code = 429 \<or> code \<ge> 500 then Inl (ApiError FailureTransient (answered code (summarize words body False)))
          else if code \<ge> 400
          then (case body of
                  Some b \<Rightarrow> if body_errors b \<noteq> [] then Inl (with_status code (graphqlFailure (body_errors b)))
                            else Inl (ApiError FailurePermanent (answered code (summarize words body False)))
                | None \<Rightarrow> Inl (ApiError FailurePermanent (answered code (summarize words body False))))
          else (case body of
                  None \<Rightarrow> Inl (ApiError FailureTransient (answered code ''unreadable response body''))
                | Some b \<Rightarrow>
                    if body_errors b \<noteq> [] then Inl (with_status code (graphqlFailure (body_errors b)))
                    else (case en_data b of BadData t \<Rightarrow> Inl (OtherError t) | d \<Rightarrow> Inr d)))"

text \<open>\<^verbatim>\<open>mutationResult\<close>: the two success flags of the answer.\<close>

record mutation_result =
  mr_activity :: "bool option"
  mr_session :: "bool option"

definition succeeded :: "mutation_result answer_data \<Rightarrow> bool" where
  "succeeded d = (case d of Data r \<Rightarrow> mr_activity r = Some True \<or> mr_session r = Some True | _ \<Rightarrow> False)"

subsection \<open>What a failure means\<close>

lemma verdict_run:
  "fst (fold verdict_step errs (v, known)) = FailurePermanent \<longleftrightarrow>
     v = FailurePermanent \<and> (\<forall>e \<in> set errs. error_kind e = Some FailurePermanent)"
  "snd (fold verdict_step errs (v, known)) \<longleftrightarrow> known \<or> (\<exists>e \<in> set errs. error_kind e \<noteq> None)"
proof (induction errs arbitrary: v known)
  case (Cons e errs)
  { case 1
    show ?case
    proof (cases "error_kind e")
      case None
      then show ?thesis using Cons.IH(1) by (cases v) (auto simp: verdict_step_def)
    next
      case (Some k)
      then show ?thesis using Cons.IH(1) by (cases k; cases v) (auto simp: verdict_step_def)
    qed
  next
    case 2
    show ?case using Cons.IH(2) by (auto simp: verdict_step_def Let_def split: prod.splits)
  }
qed simp_all

text \<open>A refusal is final only when Linear gave nothing but recognized final errors.\<close>

lemma graphqlFailure_final:
  "failure_of (graphqlFailure errs) = FailurePermanent \<longleftrightarrow> (\<forall>e \<in> set errs. error_kind e = Some FailurePermanent)"
proof -
  obtain v known where f: "fold verdict_step errs (FailurePermanent, False) = (v, known)"
    by (cases "fold verdict_step errs (FailurePermanent, False)")
  have v: "v = FailurePermanent \<longleftrightarrow> (\<forall>e \<in> set errs. error_kind e = Some FailurePermanent)"
    and k: "known \<longleftrightarrow> (\<exists>e \<in> set errs. error_kind e \<noteq> None)"
    using verdict_run [of errs FailurePermanent False] by (simp_all add: f)
  have "failure_of (graphqlFailure errs) = (if \<not> known \<and> errs \<noteq> [] then FailureTransient else v)"
    by (simp add: graphqlFailure_def f)
  then show ?thesis using v k by (cases errs) auto
qed

end
