(* ===== verification/Linear.thy ===== *)
theory Linear
  imports LinearMessages Webhooks LinearApi Application Ids
begin

text \<open>
  \<^verbatim>\<open>internal/integrations/linear\<close> and \<^verbatim>\<open>internal/store/linear.go\<close>: sessions, the outbox of owed calls, the processing of
  accepted deliveries, the start and the watch of a session's thread, and the sender. The state extends the one of the
  webhook inbox, which extends the server's.

  What lies outside is \<open>linear_env\<close>: the two hash functions, the decoders, the answers of Linear's endpoints (arbitrary
  functions of the request and the state), the coordinator's parameters, and the text of an error. A goroutine that
  starts a session is cut where another may run: the claim of the row, the coordinator's \<^verbatim>\<open>StartThread\<close>, the record of the
  outcome. The variables its closure captures are \<open>captured\<close>, keyed by the session.
\<close>

subsection \<open>Rows\<close>

datatype session_state = SessAccepted | SessStarting | SessStarted | SessDone

datatype session_outcome =
  OutcomeNone | OutcomeResponded | OutcomeFailed | OutcomeInterrupted | OutcomeRefused | OutcomeUnrecoverable

record linear_session =
  ls_id :: string
  ls_prompt :: string
  ls_state :: session_state
  ls_thread :: string
  ls_turn :: string
  ls_noticed :: thread_status
  ls_completed_seen :: "time option"
  ls_outcome :: session_outcome
  ls_created :: time
  ls_updated :: time

text \<open>An owed call with its input: the row's kind is the constructor, its JSON body the arguments.\<close>

datatype linear_call =
    ActivityCall (act_id: string) (act_session: string) (act_kind: string) (act_body: string)
  | LinksCall (links_session: string) (links_urls: "string \<times> string")

record outbox_row =
  ob_id :: string
  ob_session :: string
  ob_call :: linear_call
  ob_attempts :: int
  ob_next :: time
  ob_sent :: "time option"
  ob_failed :: string
  ob_created :: time

record linear_setup =
  st_organization :: string
  st_client :: string
  st_client_secret :: string
  st_signing_secret :: string
  st_access_token :: string
  st_refresh_token :: string
  st_expires :: time
  st_project :: string

datatype connection_state = IntegrationConnecting | IntegrationConnected | IntegrationUnavailable | IntegrationAuthFailed

record start_locals =
  sl_project :: string
  sl_session :: linear_session

record linear_svc = webhook_svc +
  setup_file :: "call_error + linear_setup"
  config :: "linear_setup option"
  conn_state :: connection_state
  conn_since :: time
  conn_detail :: string
  last_call_failure :: string
  starting :: "string list"
  captured :: "(string \<times> start_locals) list"
  sessions :: "(string \<times> linear_session) list"
  outbox :: "(string \<times> outbox_row) list"

record viewer =
  vw_id :: string
  vw_name :: string
  vw_org_id :: string
  vw_org_name :: string

record token_answer =
  ta_access :: string
  ta_refresh :: string
  ta_expires_in :: int

text \<open>The event a delivery decodes to, and the part of it that verification reads.\<close>

record linear_event =
  ev_kind :: string
  ev_action :: string
  ev_session :: string
  ev_comment :: "string option"
  ev_issue :: "(string \<times> string) option"
  ev_signal :: "string option"
  ev_context :: string

record linear_envelope =
  en_kind :: string
  en_organization :: string
  en_client :: string
  en_stamp :: "int option"

record 'w linear_env =
  le_sha256 :: "string \<Rightarrow> 8 word list"
  le_hmac :: "string \<Rightarrow> string \<Rightarrow> string"
  le_envelope :: "string \<Rightarrow> linear_envelope option"
  le_event :: "string \<Rightarrow> linear_event option"
  le_post :: "string \<Rightarrow> linear_call \<Rightarrow> 'w \<Rightarrow> mutation_result envelope http_answer"
  le_viewer :: "string \<Rightarrow> 'w \<Rightarrow> viewer envelope http_answer"
  le_refresh :: "linear_setup \<Rightarrow> 'w \<Rightarrow> token_answer http_answer"
  le_canon :: "string \<Rightarrow> string option"
  le_linkers :: linkers
  le_resolve :: "string \<Rightarrow> string \<Rightarrow> err + (thread_create_params \<Rightarrow> string \<Rightarrow> 'w \<Rightarrow> (err + 'w prepared_thread) \<times> 'w)"
  le_describe :: "err \<Rightarrow> string"

subsection \<open>The statements\<close>

definition InsertLinearSession ::
  "linear_session \<Rightarrow> (string \<times> linear_session) list \<Rightarrow> nat \<times> (string \<times> linear_session) list" where
  "InsertLinearSession r rows =
     (if has_key rows (ls_id r) then (0, rows) else (1, AList.update (ls_id r) r rows))"

definition UpdateLinearSession ::
  "linear_session \<Rightarrow> (string \<times> linear_session) list \<Rightarrow> nat \<times> (string \<times> linear_session) list" where
  "UpdateLinearSession r rows =
     (case map_of rows (ls_id r) of
        None \<Rightarrow> (0, rows)
      | Some old \<Rightarrow> (1, AList.update (ls_id r) (r\<lparr>ls_created := ls_created old\<rparr>) rows))"

definition InsertLinearOutbox :: "outbox_row \<Rightarrow> (string \<times> outbox_row) list \<Rightarrow> nat \<times> (string \<times> outbox_row) list" where
  "InsertLinearOutbox r rows =
     (if has_key rows (ob_id r) then (0, rows)
      else (1, AList.update (ob_id r) (r\<lparr>ob_attempts := 0, ob_sent := None, ob_failed := ''''\<rparr>) rows))"

definition ListOpenLinearSessions :: "(string \<times> linear_session) list \<Rightarrow> linear_session list" where
  "ListOpenLinearSessions rows =
     sort_key (\<lambda>r. (ls_created r, ls_id r)) (filter (\<lambda>r. ls_state r \<noteq> SessDone) (map snd rows))"

definition owed :: "outbox_row \<Rightarrow> bool" where
  "owed r \<longleftrightarrow> ob_sent r = None \<and> ob_failed r = ''''"

definition ListDueLinearOutbox :: "time \<Rightarrow> nat \<Rightarrow> (string \<times> outbox_row) list \<Rightarrow> outbox_row list" where
  "ListDueLinearOutbox at n rows =
     take n (sort_key (\<lambda>r. (ob_next r, ob_created r, ob_id r))
       (filter (\<lambda>r. owed r \<and> ob_next r \<le> at) (map snd rows)))"

text \<open>The three marks of a row touch it only while it is unsent.\<close>

definition mark_unsent ::
  "string \<Rightarrow> (outbox_row \<Rightarrow> outbox_row) \<Rightarrow> (string \<times> outbox_row) list \<Rightarrow> (string \<times> outbox_row) list" where
  "mark_unsent i f rows =
     (case map_of rows i of
        None \<Rightarrow> rows
      | Some r \<Rightarrow> if ob_sent r = None then AList.update i (f r) rows else rows)"

definition PruneLinearOutbox :: "time \<Rightarrow> (string \<times> outbox_row) list \<Rightarrow> (string \<times> outbox_row) list" where
  "PruneLinearOutbox cutoff rows =
     filter (\<lambda>(i, r). \<not> ((case ob_sent r of None \<Rightarrow> False | Some at \<Rightarrow> at < cutoff)
                         \<or> (ob_failed r \<noteq> '''' \<and> ob_created r < cutoff))) rows"

subsection \<open>The repository\<close>

definition enqueueAll :: "outbox_row list \<Rightarrow> (string \<times> outbox_row) list \<Rightarrow> (string \<times> outbox_row) list" where
  "enqueueAll rs rows = fold (\<lambda>r rows. snd (InsertLinearOutbox r rows)) rs rows"

definition InsertSession ::
  "linear_session \<Rightarrow> outbox_row list \<Rightarrow> 'a linear_svc_scheme \<Rightarrow> (err + bool) \<times> 'a linear_svc_scheme" where
  "InsertSession r rs s =
     (let (failed, s) = io_step s
      in if failed then (Inl ErrIO, s)
         else let (n, rows) = InsertLinearSession r (sessions s)
              in (Inr (n > 0), s\<lparr>sessions := rows, outbox := enqueueAll rs (outbox s)\<rparr>))"

definition UpdateSession ::
  "linear_session \<Rightarrow> outbox_row list \<Rightarrow> 'a linear_svc_scheme \<Rightarrow> (err + bool) \<times> 'a linear_svc_scheme" where
  "UpdateSession r rs s =
     (let (failed, s) = io_step s
      in if failed then (Inl ErrIO, s)
         else let (n, rows) = UpdateLinearSession r (sessions s)
              in if n = 0 then (Inr False, s)
                 else (Inr True, s\<lparr>sessions := rows, outbox := enqueueAll rs (outbox s)\<rparr>))"

definition GetSession :: "string \<Rightarrow> 'a linear_svc_scheme \<Rightarrow> (err + linear_session) \<times> 'a linear_svc_scheme" where
  "GetSession i s =
     (let (failed, s) = io_step s
      in if failed then (Inl ErrIO, s)
         else (case map_of (sessions s) i of None \<Rightarrow> Inl ErrSessionGone | Some r \<Rightarrow> Inr r, s))"

definition OpenSessions :: "'a linear_svc_scheme \<Rightarrow> (err + linear_session list) \<times> 'a linear_svc_scheme" where
  "OpenSessions s =
     (let (failed, s) = io_step s
      in if failed then (Inl ErrIO, s) else (Inr (ListOpenLinearSessions (sessions s)), s))"

definition Enqueue :: "outbox_row \<Rightarrow> 'a linear_svc_scheme \<Rightarrow> (err + bool) \<times> 'a linear_svc_scheme" where
  "Enqueue r s =
     (let (failed, s) = io_step s
      in if failed then (Inl ErrIO, s)
         else let (n, rows) = InsertLinearOutbox r (outbox s) in (Inr (n > 0), s\<lparr>outbox := rows\<rparr>))"

definition Due_calls :: "time \<Rightarrow> nat \<Rightarrow> 'a linear_svc_scheme \<Rightarrow> (err + outbox_row list) \<times> 'a linear_svc_scheme" where
  "Due_calls at n s =
     (let (failed, s) = io_step s
      in if failed then (Inl ErrIO, s) else (Inr (ListDueLinearOutbox at n (outbox s)), s))"

definition mark_call ::
  "string \<Rightarrow> (outbox_row \<Rightarrow> outbox_row) \<Rightarrow> 'a linear_svc_scheme \<Rightarrow> 'a linear_svc_scheme" where
  "mark_call i f s =
     (let (failed, s) = io_step s in if failed then s else s\<lparr>outbox := mark_unsent i f (outbox s)\<rparr>)"

definition Sent :: "string \<Rightarrow> time \<Rightarrow> 'a linear_svc_scheme \<Rightarrow> 'a linear_svc_scheme" where
  "Sent i at s = mark_call i (\<lambda>r. r\<lparr>ob_sent := Some at\<rparr>) s"

definition Failed :: "string \<Rightarrow> int \<Rightarrow> string \<Rightarrow> 'a linear_svc_scheme \<Rightarrow> 'a linear_svc_scheme" where
  "Failed i attempts reason s = mark_call i (\<lambda>r. r\<lparr>ob_failed := reason, ob_attempts := attempts\<rparr>) s"

definition Retry :: "string \<Rightarrow> int \<Rightarrow> time \<Rightarrow> 'a linear_svc_scheme \<Rightarrow> 'a linear_svc_scheme" where
  "Retry i attempts at s = mark_call i (\<lambda>r. r\<lparr>ob_attempts := attempts, ob_next := at\<rparr>) s"

definition Prune_calls :: "time \<Rightarrow> 'a linear_svc_scheme \<Rightarrow> 'a linear_svc_scheme" where
  "Prune_calls cutoff s =
     (let (failed, s) = io_step s in if failed then s else s\<lparr>outbox := PruneLinearOutbox cutoff (outbox s)\<rparr>)"

subsection \<open>Configuration and credential\<close>

definition linear_ID :: string where "linear_ID = ''linear''"
definition RoutePath :: string where "RoutePath = ''/linear''"
definition linear_resource :: string where "linear_resource = ''integration''"

definition probeRetry :: int where "probeRetry = 30 * second"
definition linear_retryBase :: int where "linear_retryBase = 2 * second"
definition linear_retryMax :: int where "linear_retryMax = 300 * second"
definition authRetry :: int where "authRetry = 300 * second"
definition responseGrace :: int where "responseGrace = 120 * second"
definition tokenSlack :: int where "tokenSlack = 300 * second"
definition sendBatch :: nat where "sendBatch = 16"
definition linear_receiptRetention :: int where "linear_receiptRetention = 30 * 24 * 3600 * second"

text \<open>\<^verbatim>\<open>loadSetup\<close> on the decoded file: every key but the refresh token is required.\<close>

definition missing_keys :: "linear_setup \<Rightarrow> string list" where
  "missing_keys c =
     map fst (filter (\<lambda>(k, v). TrimSpace v = '''')
       [(''access_token'', st_access_token c), (''client_id'', st_client c), (''client_secret'', st_client_secret c),
        (''organization_id'', st_organization c), (''project_id'', st_project c),
        (''webhook_signing_secret'', st_signing_secret c)])"

definition join_comma :: "string list \<Rightarrow> string" where
  "join_comma xs = (case xs of [] \<Rightarrow> '''' | x # ys \<Rightarrow> x @ concat (map (\<lambda>y. '', '' @ y) ys))"

definition loadSetup :: "'a linear_svc_scheme \<Rightarrow> call_error + linear_setup" where
  "loadSetup s =
     (case setup_file s of
        Inl e \<Rightarrow> Inl e
      | Inr c \<Rightarrow> if missing_keys c \<noteq> [] then Inl (OtherError (''the setup file is missing '' @ join_comma (missing_keys c)))
                 else Inr c)"

text \<open>\<^verbatim>\<open>setState\<close>: the transition is stamped and published, the detail is always recorded.\<close>

definition setState :: "connection_state \<Rightarrow> string \<Rightarrow> 'a linear_svc_scheme \<Rightarrow> 'a linear_svc_scheme" where
  "setState st detail s =
     (if conn_state s = st then s\<lparr>conn_detail := detail\<rparr>
      else let (at, s) = now s
           in Publish ''integration.updated'' linear_resource linear_ID
                (s\<lparr>conn_state := st, conn_since := at, conn_detail := detail\<rparr>))"

definition reloadSetup :: "'a linear_svc_scheme \<Rightarrow> bool \<times> 'a linear_svc_scheme" where
  "reloadSetup s =
     (case loadSetup s of
        Inl e \<Rightarrow> (False, setState IntegrationUnavailable (error_text e) (s\<lparr>config := None\<rparr>))
      | Inr c \<Rightarrow> (True, s\<lparr>config := Some c\<rparr>))"

definition reportAPIFailure :: "call_error \<Rightarrow> string \<Rightarrow> 'a linear_svc_scheme \<Rightarrow> 'a linear_svc_scheme" where
  "reportAPIFailure e doing s =
     (if failure_of e = FailureAuth
      then setState IntegrationAuthFailed
             (doing @ '': '' @ error_text e
              @ ''; re-authorize the Linear app and update access_token and refresh_token in the setup file'') s
      else setState IntegrationConnecting (doing @ '': '' @ error_text e) s)"

text \<open>
  \<^verbatim>\<open>refresh\<close>: a refused refresh ends the credential; everything else may pass. The answer's lifetime is a count of
  seconds small enough for a duration.
\<close>

definition refresh ::
  "'a linear_svc_scheme linear_env \<Rightarrow> linear_setup \<Rightarrow> time \<Rightarrow> 'a linear_svc_scheme \<Rightarrow> call_error + token_answer \<times> time" where
  "refresh env c at s =
     (if st_refresh_token c = ''''
      then Inl (ApiError FailureAuth ''the setup file has no refresh_token; re-authorize the app and update the file'')
      else case le_refresh env c s of
             NoAnswer t \<Rightarrow> Inl (OtherError t)
           | Answer code words body \<Rightarrow>
               if code = 429 \<or> code \<ge> 500
               then Inl (ApiError FailureTransient (answered code (summarize words (None :: unit envelope option) False)))
               else if code \<ge> 400
               then Inl (ApiError FailureAuth (answered code (''token refresh refused: ''
                      @ summarize words (None :: unit envelope option) False)))
               else (case body of
                       None \<Rightarrow> Inl (ApiError FailureTransient (answered code ''token refresh answered without an access token''))
                     | Some a \<Rightarrow>
                         if ta_access a = ''''
                         then Inl (ApiError FailureTransient (answered code ''token refresh answered without an access token''))
                         else Inr (a, if ta_expires_in a > 0 then at + ta_expires_in a * second else 0)))"

text \<open>\<^verbatim>\<open>saveTokens\<close>: every other field stays as the file has it now.\<close>

definition saveTokens ::
  "token_answer \<Rightarrow> time \<Rightarrow> 'a linear_svc_scheme \<Rightarrow> call_error option \<times> 'a linear_svc_scheme" where
  "saveTokens a expires s =
     (case loadSetup s of
        Inl e \<Rightarrow> (Some e, s)
      | Inr c \<Rightarrow>
          (let (failed, s) = io_step s
           in if failed then (Some (OtherError ''the setup file could not be written''), s)
              else (None, s\<lparr>setup_file := Inr (c\<lparr>st_access_token := ta_access a,
                        st_refresh_token := (if ta_refresh a \<noteq> '''' then ta_refresh a else st_refresh_token c),
                        st_expires := expires\<rparr>)\<rparr>)))"

definition not_configured :: call_error where
  "not_configured = NotConfigured ''the Linear Integration is not configured''"

definition renew ::
  "'a linear_svc_scheme linear_env \<Rightarrow> string \<Rightarrow> 'a linear_svc_scheme \<Rightarrow> call_error option \<times> 'a linear_svc_scheme" where
  "renew env seen s =
     (case config s of
        None \<Rightarrow> (Some not_configured, s)
      | Some c \<Rightarrow>
          if seen \<noteq> '''' \<and> st_access_token c \<noteq> seen then (None, s)
          else let (at, s) = now s
               in case refresh env c at s of
                    Inl e \<Rightarrow> (Some (wrap ''renewing the Linear token'' e), s)
                  | Inr (a, expires) \<Rightarrow>
                      (case saveTokens a expires s of
                         (Some e, s) \<Rightarrow> (Some (wrap ''persisting the renewed Linear token'' e), s)
                       | (None, s) \<Rightarrow> (None, snd (reloadSetup s))))"

text \<open>\<^verbatim>\<open>token\<close>: a token near its recorded end is renewed first. A setup that vanished meanwhile reads as an empty token.\<close>

definition token ::
  "'a linear_svc_scheme linear_env \<Rightarrow> 'a linear_svc_scheme \<Rightarrow> (call_error + string) \<times> 'a linear_svc_scheme" where
  "token env s =
     (case config s of
        None \<Rightarrow> (Inl not_configured, s)
      | Some c \<Rightarrow>
          if is_zero (st_expires c) then (Inr (st_access_token c), s)
          else let (at, s) = now s
               in if \<not> at > st_expires c - tokenSlack then (Inr (st_access_token c), s)
                  else case renew env (st_access_token c) s of
                         (Some e, s) \<Rightarrow> (Inl e, s)
                       | (None, s) \<Rightarrow> (Inr (case config s of None \<Rightarrow> '''' | Some c \<Rightarrow> st_access_token c), s))"

definition fetchViewer ::
  "'a linear_svc_scheme linear_env \<Rightarrow> string \<Rightarrow> 'a linear_svc_scheme \<Rightarrow> call_error + viewer" where
  "fetchViewer env tok s =
     (case graphql (le_viewer env tok s) of
        Inl e \<Rightarrow> Inl e
      | Inr (Data v) \<Rightarrow> if vw_id v = '''' then Inl (ApiError FailurePermanent ''viewer query answered without an id'') else Inr v
      | Inr _ \<Rightarrow> Inl (ApiError FailurePermanent ''viewer query answered without an id''))"

definition verifying :: string where "verifying = ''verifying the Linear credential''"

definition probe ::
  "'a linear_svc_scheme linear_env \<Rightarrow> linear_setup \<Rightarrow> 'a linear_svc_scheme \<Rightarrow> 'a linear_svc_scheme" where
  "probe env c s =
     (case token env s of
        (Inl e, s) \<Rightarrow> reportAPIFailure e verifying s
      | (Inr tok, s) \<Rightarrow>
          (let (who, s) =
                 (case fetchViewer env tok s of
                    Inr v \<Rightarrow> (Inr v, s)
                  | Inl e \<Rightarrow>
                      if failure_of e \<noteq> FailureAuth then (Inl e, s)
                      else case renew env tok s of
                             (Some e', s) \<Rightarrow> (Inl e', s)
                           | (None, s) \<Rightarrow>
                               (case token env s of
                                  (Inl e', s) \<Rightarrow> (Inl e', s)
                                | (Inr tok, s) \<Rightarrow> (fetchViewer env tok s, s)))
           in case who of
                Inl e \<Rightarrow> reportAPIFailure e verifying s
              | Inr v \<Rightarrow>
                  if vw_org_id v \<noteq> st_organization c
                  then setState IntegrationAuthFailed
                         (''the token acts in workspace '' @ vw_org_name v @ '' ('' @ vw_org_id v
                          @ '') but the setup file names organization '' @ st_organization c
                          @ ''; fix organization_id or re-authorize'') s
                  else setState IntegrationConnected
                         (''acting as '' @ vw_name v @ '' in workspace '' @ vw_org_name v) s))"

subsection \<open>Owed calls\<close>

definition contentThought :: string where "contentThought = ''thought''"
definition contentResponse :: string where "contentResponse = ''response''"
definition contentError :: string where "contentError = ''error''"

definition activity_key :: "string \<Rightarrow> string \<Rightarrow> string" where
  "activity_key sid purpose = sid @ ''/'' @ purpose"

definition activity ::
  "'w linear_env \<Rightarrow> string \<Rightarrow> string \<Rightarrow> string \<Rightarrow> string \<Rightarrow> 'a world_scheme \<Rightarrow> outbox_row \<times> 'a world_scheme" where
  "activity env sid purpose kind body s =
     (let key = activity_key sid purpose; (at, s) = now s
      in (\<lparr>ob_id = key, ob_session = sid,
           ob_call = ActivityCall (UUIDFrom (le_sha256 env) (''linear-activity:'' @ key)) sid kind body,
           ob_attempts = 0, ob_next = at, ob_sent = None, ob_failed = '''', ob_created = at\<rparr>, s))"

definition links_row :: "string \<Rightarrow> string \<times> string \<Rightarrow> 'a world_scheme \<Rightarrow> outbox_row \<times> 'a world_scheme" where
  "links_row sid l s =
     (let (at, s) = now s
      in (\<lparr>ob_id = sid @ ''/links'', ob_session = sid, ob_call = LinksCall sid l,
           ob_attempts = 0, ob_next = at, ob_sent = None, ob_failed = '''', ob_created = at\<rparr>, s))"

definition sessionLinks ::
  "'w linear_env \<Rightarrow> string \<Rightarrow> 'a linear_svc_scheme \<Rightarrow> thread_links \<times> 'a linear_svc_scheme" where
  "sessionLinks env sid s =
     (case GetSession sid s of
        (Inl e, s) \<Rightarrow> (None, s)
      | (Inr r, s) \<Rightarrow>
          (if ls_thread r = '''' then None
           else case Get_thread (le_linkers env) (ls_thread r) s of Inl e \<Rightarrow> None | Inr t \<Rightarrow> ah_links t, s))"

subsection \<open>Verification\<close>

definition hex_digit :: "char \<Rightarrow> nat option" where
  "hex_digit c =
     (let n = of_char c
      in if 48 \<le> n \<and> n \<le> 57 then Some (n - 48)
         else if 97 \<le> n \<and> n \<le> 102 then Some (n - 87)
         else if 65 \<le> n \<and> n \<le> 70 then Some (n - 55) else None)"

fun hex_decode :: "string \<Rightarrow> string option" where
  "hex_decode [] = Some []"
| "hex_decode [c] = None"
| "hex_decode (c # d # s) =
     (case (hex_digit c, hex_digit d, hex_decode s) of
        (Some a, Some b, Some r) \<Rightarrow> Some (char_of (16 * a + b) # r)
      | _ \<Rightarrow> None)"

definition signed :: "'w linear_env \<Rightarrow> string \<Rightarrow> string \<Rightarrow> string \<Rightarrow> bool" where
  "signed env body signature secret =
     (if signature = '''' \<or> secret = '''' then False
      else case hex_decode signature of None \<Rightarrow> False | Some presented \<Rightarrow> presented = le_hmac env secret body)"

text \<open>The request as \<^verbatim>\<open>Verify\<close> reads it. A Unix millisecond in the clock's nanoseconds since the zero instant.\<close>

record linear_request =
  rq_method :: string
  rq_signature :: string
  rq_delivery :: string

definition unix_milli :: "int \<Rightarrow> time" where
  "unix_milli ms = (62135596800000 + ms) * 1000000"

definition eventType :: string where "eventType = ''AgentSessionEvent''"
definition freshness :: int where "freshness = 60 * second"

definition Verify_linear ::
  "'w linear_env \<Rightarrow> linear_setup option \<Rightarrow> time \<Rightarrow> linear_request \<Rightarrow> string \<Rightarrow> verification" where
  "Verify_linear env cfg at req body =
     (if rq_method req \<noteq> ''POST'' then Rejection 405 ''deliveries are POSTed''
      else case cfg of
             None \<Rightarrow> Rejection 503 ''Linear is not configured''
           | Some c \<Rightarrow>
               if \<not> signed env body (rq_signature req) (st_signing_secret c) then Rejection 401 ''bad signature''
               else case le_envelope env body of
                      None \<Rightarrow> Rejection 400 ''malformed body''
                    | Some h \<Rightarrow>
                        if en_kind h = '''' then Rejection 400 ''malformed body''
                        else case en_stamp h of
                               None \<Rightarrow> Rejection 400 ''missing webhookTimestamp''
                             | Some ms \<Rightarrow>
                                 (let age = at - unix_milli ms
                                  in if age > freshness \<or> age < - freshness then Rejection 401 ''stale delivery''
                                     else if en_organization h \<noteq> st_organization c
                                     then Rejection 403 ''workspace not authorized''
                                     else if en_kind h = eventType \<and> en_client h \<noteq> st_client c
                                     then Rejection 403 ''app not authorized''
                                     else if rq_delivery req = '''' then Rejection 400 ''missing Linear-Delivery''
                                     else Verified (rq_delivery req) body))"

subsection \<open>Processing a delivery\<close>

text \<open>The row a new session gets and the activity it is owed.\<close>

definition created_session :: "linear_event \<Rightarrow> time \<Rightarrow> linear_session \<times> string \<times> string \<times> string" where
  "created_session e at =
     (let blank = \<lparr>ls_id = ev_session e, ls_prompt = '''', ls_state = SessDone, ls_thread = '''', ls_turn = '''',
                   ls_noticed = ThreadNone, ls_completed_seen = None, ls_outcome = OutcomeRefused,
                   ls_created = at, ls_updated = at\<rparr>;
          (identifier, url) = (case ev_issue e of None \<Rightarrow> ('''', '''') | Some p \<Rightarrow> p);
          mention = (case ev_comment e of None \<Rightarrow> False | Some body \<Rightarrow> TrimSpace body \<noteq> '''')
      in if mention \<and> TrimSpace (ev_context e) \<noteq> ''''
         then (blank\<lparr>ls_state := SessAccepted, ls_outcome := OutcomeNone,
                     ls_prompt := composePrompt identifier url (ev_context e)\<rparr>,
               ''ack'', contentThought, acknowledgement)
         else if mention then (blank, ''refused'', contentError, refusedNoContext)
         else (blank, ''refused'', contentError, refusedNoMention))"

definition created ::
  "'w linear_env \<Rightarrow> linear_event \<Rightarrow> 'a linear_svc_scheme \<Rightarrow> err option \<times> 'a linear_svc_scheme" where
  "created env e s =
     (let (at, s) = now s; (session, purpose, kind, body) = created_session e at;
          (row, s) = activity env (ev_session e) purpose kind body s
      in case InsertSession session [row] s of
           (Inl x, s) \<Rightarrow> (Some (ErrRecording x), s)
         | (Inr _, s) \<Rightarrow> (None, s))"

text \<open>The reply to a message or stop signal; a session that was never recorded gets told so.\<close>

definition reply_body :: "linear_event \<Rightarrow> thread_links \<Rightarrow> bool \<Rightarrow> string" where
  "reply_body e links known =
     (if \<not> known then notTracked
      else if ev_signal e = Some ''stop'' then stopNotSupported links
      else followUpNotSupported links)"

definition enqueue_reply ::
  "'w linear_env \<Rightarrow> string \<Rightarrow> string \<Rightarrow> string \<Rightarrow> 'a linear_svc_scheme \<Rightarrow> err option \<times> 'a linear_svc_scheme" where
  "enqueue_reply env sid delivery body s =
     (let (row, s) = activity env sid (''reply/'' @ delivery) contentThought body s
      in case Enqueue row s of (Inl x, s) \<Rightarrow> (Some (ErrRecording x), s) | (Inr _, s) \<Rightarrow> (None, s))"

definition prompted ::
  "'w linear_env \<Rightarrow> linear_event \<Rightarrow> string \<Rightarrow> 'a linear_svc_scheme \<Rightarrow> err option \<times> 'a linear_svc_scheme" where
  "prompted env e delivery s =
     (let (links, s) = sessionLinks env (ev_session e) s; (r, s) = GetSession (ev_session e) s
      in case r of
           Inl x \<Rightarrow>
             if x \<noteq> ErrSessionGone then (Some x, s)
             else enqueue_reply env (ev_session e) delivery (reply_body e links False) s
         | Inr _ \<Rightarrow> enqueue_reply env (ev_session e) delivery (reply_body e links True) s)"

definition Process_linear ::
  "'w linear_env \<Rightarrow> accepted \<Rightarrow> 'a linear_svc_scheme \<Rightarrow> err option \<times> 'a linear_svc_scheme" where
  "Process_linear env d s =
     (case le_event env (ac_payload d) of
        None \<Rightarrow> (None, s)
      | Some e \<Rightarrow>
          if ev_kind e \<noteq> eventType \<or> ev_session e = '''' then (None, s)
          else if ev_action e = ''created'' then created env e s
          else if ev_action e = ''prompted'' then prompted env e (ac_delivery d) s
          else (None, s))"

subsection \<open>Starting a session's thread\<close>

definition launch :: "string \<Rightarrow> 'a linear_svc_scheme \<Rightarrow> 'a linear_svc_scheme" where
  "launch sid s = (if sid \<in> set (starting s) then s else s\<lparr>starting := sid # starting s\<rparr>)"

definition launch_done :: "string \<Rightarrow> 'a linear_svc_scheme \<Rightarrow> 'a linear_svc_scheme" where
  "launch_done sid s = s\<lparr>starting := removeAll sid (starting s), captured := AList.delete sid (captured s)\<rparr>"

text \<open>The claim: the fresh row decides whether a start is owed, and says so before anything is asked for.\<close>

definition start_claim :: "string \<Rightarrow> 'a linear_svc_scheme \<Rightarrow> bool \<times> 'a linear_svc_scheme" where
  "start_claim sid s =
     (case config s of
        None \<Rightarrow> (False, s)
      | Some c \<Rightarrow>
          (case GetSession sid s of
             (Inl e, s) \<Rightarrow> (False, s)
           | (Inr fresh, s) \<Rightarrow>
               if ls_state fresh \<noteq> SessAccepted \<and> (ls_state fresh \<noteq> SessStarting \<or> ls_thread fresh \<noteq> '''') then (False, s)
               else let (at, s) = now s;
                        session = fresh\<lparr>ls_state := SessStarting, ls_thread := '''', ls_turn := '''', ls_updated := at\<rparr>
                    in (case UpdateSession session [] s of
                          (Inr True, s) \<Rightarrow>
                            (True, s\<lparr>captured := AList.update sid \<lparr>sl_project = st_project c, sl_session = session\<rparr> (captured s)\<rparr>)
                        | (_, s) \<Rightarrow> (False, s))))"

text \<open>The callback \<^verbatim>\<open>StartThread\<close> runs before it dispatches.\<close>

definition record_ids ::
  "string \<Rightarrow> start_locals \<Rightarrow> string \<Rightarrow> string \<Rightarrow> 'a linear_svc_scheme \<Rightarrow> err option \<times> 'a linear_svc_scheme" where
  "record_ids sid l i t s =
     (let (at, s) = now s;
          session = (sl_session l)\<lparr>ls_thread := i, ls_turn := t, ls_updated := at\<rparr>;
          s = s\<lparr>captured := AList.update sid (l\<lparr>sl_session := session\<rparr>) (captured s)\<rparr>
      in case UpdateSession session [] s of
           (Inl e, s) \<Rightarrow> (Some e, s)
         | (Inr updated, s) \<Rightarrow> (if updated then None else Some ErrSessionGone, s))"

definition start_thread ::
  "'a linear_svc_scheme linear_env \<Rightarrow> string \<Rightarrow> start_locals \<Rightarrow> 'a linear_svc_scheme
     \<Rightarrow> (err + api_thread) \<times> 'a linear_svc_scheme" where
  "start_thread env sid l s =
     StartThread (le_canon env) (le_linkers env) (le_resolve env) (Some (record_ids sid l))
       \<lparr>cr_integration = profileIntegration, cr_agent = profileAgent, cr_project = sl_project l,
        cr_prompt = ls_prompt (sl_session l), cr_model = profileModel,
        cr_options = [(''reasoningEffort'', profileEffort)]\<rparr> s"

definition start_finish ::
  "'w linear_env \<Rightarrow> string \<Rightarrow> linear_session \<Rightarrow> err + api_thread \<Rightarrow> 'a linear_svc_scheme \<Rightarrow> 'a linear_svc_scheme" where
  "start_finish env sid session0 res s =
     (let (at, s) = now s; session = session0\<lparr>ls_updated := at\<rparr>;
          (session, rows, s) =
            (case res of
               Inr thread \<Rightarrow>
                 (let (row, s) = activity env sid ''started'' contentThought (started_text (ah_links thread)) s
                  in case ah_links thread of
                       None \<Rightarrow> (session\<lparr>ls_state := SessStarted, ls_prompt := ''''\<rparr>, [row], s)
                     | Some l \<Rightarrow> (let (row', s) = links_row sid l s
                                  in (session\<lparr>ls_state := SessStarted, ls_prompt := ''''\<rparr>, [row, row'], s)))
             | Inl e \<Rightarrow>
                 if e = ErrUncertain
                 then (let (row, s) = activity env sid ''uncertain'' contentThought uncertain_text s
                       in (session\<lparr>ls_state := SessStarted, ls_prompt := ''''\<rparr>, [row], s))
                 else if e = ErrNotConnected
                 then (let (row, s) = activity env sid ''waiting-t3'' contentThought waitingForT3 s
                       in (session\<lparr>ls_state := SessAccepted, ls_thread := '''', ls_turn := ''''\<rparr>, [row], s))
                 else (let (row, s) = activity env sid ''failed'' contentError (startFailed (le_describe env e)) s
                       in (session\<lparr>ls_state := SessDone, ls_prompt := '''', ls_outcome := OutcomeFailed\<rparr>, [row], s)))
      in snd (UpdateSession session rows s))"

text \<open>\<^verbatim>\<open>start\<close>, run without interruption, with the goroutine's last act.\<close>

definition local_of :: "string \<Rightarrow> 'a linear_svc_scheme \<Rightarrow> start_locals option" where
  "local_of sid s = map_of (captured s) sid"

definition start_session ::
  "'a linear_svc_scheme linear_env \<Rightarrow> string \<Rightarrow> 'a linear_svc_scheme \<Rightarrow> 'a linear_svc_scheme" where
  "start_session env sid s =
     launch_done sid
       (case start_claim sid s of
          (False, s) \<Rightarrow> s
        | (True, s) \<Rightarrow>
            (case local_of sid s of
               None \<Rightarrow> s
             | Some l \<Rightarrow>
                 (let (res, s) = start_thread env sid l s
                  in case local_of sid s of None \<Rightarrow> s | Some l' \<Rightarrow> start_finish env sid (sl_session l') res s)))"

subsection \<open>Watching\<close>

record notice =
  nt_purpose :: string
  nt_kind :: string
  nt_body :: string

definition finish_session ::
  "linear_session \<Rightarrow> time \<Rightarrow> session_outcome \<Rightarrow> string \<Rightarrow> string \<Rightarrow> linear_session \<times> notice list \<times> bool" where
  "finish_session r at out kind body =
     (r\<lparr>ls_state := SessDone, ls_outcome := out, ls_updated := at\<rparr>,
      [\<lparr>nt_purpose = ''result'', nt_kind = kind, nt_body = body\<rparr>], True)"

definition waiting_name :: "thread_status \<Rightarrow> string" where
  "waiting_name st = (if st = ThreadWaitingForInput then ''waiting_for_input'' else ''waiting_for_permission'')"

text \<open>A thread that is still at its turn: the announcement of a wait, or the loss of the thread.\<close>

definition evaluate_open ::
  "linear_session \<Rightarrow> api_thread \<Rightarrow> time \<Rightarrow> linear_session \<times> notice list \<times> bool" where
  "evaluate_open r thread at =
     (if ah_archived thread
      then finish_session r at OutcomeUnrecoverable contentError (threadDropped (ah_links thread))
      else if ah_status thread = ThreadWaitingForInput \<or> ah_status thread = ThreadWaitingForPermission
      then (if ls_noticed r = ah_status thread then (r, [], False)
            else (r\<lparr>ls_noticed := ah_status thread, ls_updated := at\<rparr>,
                  [\<lparr>nt_purpose = ''notice/'' @ waiting_name (ah_status thread), nt_kind = contentThought,
                    nt_body = waiting_text (ah_status thread) (ah_links thread)\<rparr>], True))
      else (r, [], False))"

definition evaluate ::
  "linear_session \<Rightarrow> err + api_thread \<Rightarrow> time \<Rightarrow> int \<Rightarrow> linear_session \<times> notice list \<times> bool" where
  "evaluate r read at grace =
     (case read of
        Inl e \<Rightarrow> finish_session r at OutcomeUnrecoverable contentError threadGone
      | Inr thread \<Rightarrow>
          (let links = ah_links thread
           in if (case ah_pending thread of None \<Rightarrow> False | Some (p, _) \<Rightarrow> p = ls_turn r)
              then (if ah_archived thread then finish_session r at OutcomeUnrecoverable contentError (threadDropped links)
                    else (r, [], False))
              else case ah_turn thread of
                     None \<Rightarrow> finish_session r at OutcomeUnrecoverable contentError (turnReplaced links)
                   | Some tn \<Rightarrow>
                       if ath_id tn \<noteq> ls_turn r
                       then finish_session r at OutcomeUnrecoverable contentError (turnReplaced links)
                       else if ath_state tn = TurnCompleted
                       then (if ath_response tn \<noteq> ''''
                             then finish_session r at OutcomeResponded contentResponse (ath_response tn)
                             else case ls_completed_seen r of
                                    None \<Rightarrow> (r\<lparr>ls_completed_seen := Some at, ls_updated := at\<rparr>, [], True)
                                  | Some seen \<Rightarrow>
                                      if at - seen \<ge> grace
                                      then finish_session r at OutcomeUnrecoverable contentError (responseMissing links)
                                      else (r, [], False))
                       else if ath_state tn = TurnFailed
                       then finish_session r at OutcomeFailed contentError (turnFailed (ath_error tn) links)
                       else if ath_state tn = TurnInterrupted
                       then finish_session r at OutcomeInterrupted contentError (turnInterrupted links)
                       else evaluate_open r thread at))"

fun activities ::
  "'w linear_env \<Rightarrow> string \<Rightarrow> notice list \<Rightarrow> 'a world_scheme \<Rightarrow> outbox_row list \<times> 'a world_scheme" where
  "activities env sid [] s = ([], s)"
| "activities env sid (n # ns) s =
     (let (row, s) = activity env sid (nt_purpose n) (nt_kind n) (nt_body n) s; (rows, s) = activities env sid ns s
      in (row # rows, s))"

text \<open>\<^verbatim>\<open>observe\<close>: the read of the thread can only miss it.\<close>

definition observe_session ::
  "'w linear_env \<Rightarrow> linear_session \<Rightarrow> 'a linear_svc_scheme \<Rightarrow> 'a linear_svc_scheme" where
  "observe_session env r s =
     (let read = Get_thread (le_linkers env) (ls_thread r) s; (at, s) = now s;
          (updated, notices, changed) = evaluate r read at responseGrace
      in if \<not> changed then s
         else let (rows, s) = activities env (ls_id r) notices s in snd (UpdateSession updated rows s))"

text \<open>
  The body of \<^verbatim>\<open>reconcile\<close>: one session of the list, whose row may have moved since the list was read; the watched
  threads are collected.
\<close>

definition reconcile_started ::
  "'w linear_env \<Rightarrow> linear_session \<Rightarrow> string list \<times> 'a linear_svc_scheme \<Rightarrow> string list \<times> 'a linear_svc_scheme" where
  "reconcile_started env r acc = (let (watched, s) = acc in (ls_thread r # watched, observe_session env r s))"

definition reconcile_session ::
  "'w linear_env \<Rightarrow> linear_session \<Rightarrow> string list \<times> 'a linear_svc_scheme \<Rightarrow> string list \<times> 'a linear_svc_scheme" where
  "reconcile_session env r acc =
     (let (watched, s) = acc
      in case ls_state r of
           SessAccepted \<Rightarrow> (watched, launch (ls_id r) s)
         | SessStarting \<Rightarrow>
             if ls_id r \<in> set (starting s) then (watched, s)
             else (case GetSession (ls_id r) s of
                     (Inl e, s) \<Rightarrow> (watched, s)
                   | (Inr fresh, s) \<Rightarrow>
                       if ls_state fresh \<noteq> SessStarting
                       then (if ls_state fresh = SessStarted then reconcile_started env fresh (watched, s) else (watched, s))
                       else if ls_thread fresh = '''' then (watched, launch (ls_id fresh) s)
                       else let (at, s) = now s;
                                r' = fresh\<lparr>ls_state := SessStarted, ls_prompt := '''', ls_updated := at\<rparr>;
                                (row, s) = activity env (ls_id r') ''uncertain'' contentThought uncertain_text s
                            in (case UpdateSession r' [row] s of
                                  (Inl e, s) \<Rightarrow> (watched, s)
                                | (Inr _, s) \<Rightarrow> reconcile_started env r' (watched, s)))
         | SessStarted \<Rightarrow> reconcile_started env r (watched, s)
         | SessDone \<Rightarrow> (watched, s))"

definition reconcile_sessions ::
  "'w linear_env \<Rightarrow> string list \<Rightarrow> 'a linear_svc_scheme \<Rightarrow> string list \<times> 'a linear_svc_scheme" where
  "reconcile_sessions env previous s =
     (case OpenSessions s of
        (Inl e, s) \<Rightarrow> (previous, s)
      | (Inr rs, s) \<Rightarrow> fold (reconcile_session env) rs ([], s))"

subsection \<open>Sending\<close>

definition post_call ::
  "'a linear_svc_scheme linear_env \<Rightarrow> string \<Rightarrow> outbox_row \<Rightarrow> 'a linear_svc_scheme \<Rightarrow> call_error option" where
  "post_call env tok row s =
     (case graphql (le_post env tok (ob_call row) s) of
        Inl e \<Rightarrow> Some e
      | Inr d \<Rightarrow> if succeeded d then None else Some (ApiError FailurePermanent ''Linear reported success: false''))"

text \<open>The attempt: an authentication failure earns one renewal and one more try.\<close>

definition try_send ::
  "'a linear_svc_scheme linear_env \<Rightarrow> outbox_row \<Rightarrow> 'a linear_svc_scheme \<Rightarrow> call_error option \<times> 'a linear_svc_scheme" where
  "try_send env row s =
     (case token env s of
        (Inl e, s) \<Rightarrow> (Some e, s)
      | (Inr tok, s) \<Rightarrow>
          (case post_call env tok row s of
             None \<Rightarrow> (None, s)
           | Some e \<Rightarrow>
               if failure_of e \<noteq> FailureAuth then (Some e, s)
               else case renew env tok s of
                      (Some e', s) \<Rightarrow> (Some e', s)
                    | (None, s) \<Rightarrow>
                        (case token env s of
                           (Inl e', s) \<Rightarrow> (Some e', s)
                         | (Inr tok, s) \<Rightarrow> (post_call env tok row s, s))))"

definition call_kind :: "linear_call \<Rightarrow> string" where
  "call_kind c = (case c of ActivityCall _ _ _ _ \<Rightarrow> ''activity'' | LinksCall _ _ \<Rightarrow> ''links'')"

definition noteFailure :: "outbox_row \<Rightarrow> call_error \<Rightarrow> 'a linear_svc_scheme \<Rightarrow> 'a linear_svc_scheme" where
  "noteFailure row e s = s\<lparr>last_call_failure := call_kind (ob_call row) @ '': '' @ error_text e\<rparr>"

definition linear_backoff :: "int \<Rightarrow> int" where
  "linear_backoff attempts = backoff_from linear_retryBase linear_retryMax attempts"

fun not_configured_error :: "call_error \<Rightarrow> bool" where
  "not_configured_error (NotConfigured _) = True"
| "not_configured_error _ = False"

definition record_result ::
  "'w linear_env \<Rightarrow> outbox_row \<Rightarrow> call_error option \<Rightarrow> 'a linear_svc_scheme \<Rightarrow> 'a linear_svc_scheme" where
  "record_result env row result s =
     (let (at, s) = now s; attempts = ob_attempts row + 1
      in case result of
           None \<Rightarrow> Sent (ob_id row) at s
         | Some e \<Rightarrow>
             if failure_of e = FailureDuplicate then Sent (ob_id row) at s
             else if not_configured_error e then Retry (ob_id row) (ob_attempts row) (at + probeRetry) s
             else if failure_of e = FailureAuth
             then Retry (ob_id row) attempts (at + authRetry)
                    (noteFailure row e (reportAPIFailure e ''posting to Linear'' s))
             else if failure_of e = FailurePermanent
             then (let s = Failed (ob_id row) attempts (error_text e) (noteFailure row e s)
                   in if HasSuffix (ob_id row) ''/result''
                      then let (links, s) = sessionLinks env (ob_session row) s;
                               (fallback, s) = activity env (ob_session row) ''result-rejected'' contentError
                                                 (responseRejected links) s
                           in snd (Enqueue fallback s)
                      else s)
             else Retry (ob_id row) attempts (at + linear_backoff attempts) (noteFailure row e s))"

definition send_call ::
  "'a linear_svc_scheme linear_env \<Rightarrow> outbox_row \<Rightarrow> 'a linear_svc_scheme \<Rightarrow> 'a linear_svc_scheme" where
  "send_call env row s = (let (result, s) = try_send env row s in record_result env row result s)"

text \<open>One batch, grouped by session; the groups run one after another here, concurrently in the code.\<close>

definition by_session :: "outbox_row list \<Rightarrow> outbox_row list" where
  "by_session rows =
     concat (map (\<lambda>sid. filter (\<lambda>r. ob_session r = sid) rows) (rev (remdups (rev (map ob_session rows)))))"

definition sendDue ::
  "'a linear_svc_scheme linear_env \<Rightarrow> 'a linear_svc_scheme \<Rightarrow> bool \<times> 'a linear_svc_scheme" where
  "sendDue env s =
     (let (at, s) = now s
      in case Due_calls at sendBatch s of
           (Inl e, s) \<Rightarrow> (False, s)
         | (Inr due, s) \<Rightarrow> (length due = sendBatch, fold (send_call env) (by_session due) s))"

definition prune_calls :: "'a linear_svc_scheme \<Rightarrow> 'a linear_svc_scheme" where
  "prune_calls s = (let (at, s) = now s in Prune_calls (at - linear_receiptRetention) s)"

end
