(* ===== verification/LinearFrame.thy ===== *)
theory LinearFrame
  imports Linear WebhookProps ThreadsInv
begin

text \<open>
  What the operations of the Linear Integration touch: the coordinator leaves its tables alone, and each of its own
  operations moves at most the row of one session.
\<close>

declare map_of_eq_Some_iff [simp del] Some_eq_map_of_iff [simp del]

subsection \<open>What the coordinator leaves alone\<close>

text \<open>Every thread has an id.\<close>

definition named :: "'a thread_svc_scheme \<Rightarrow> bool" where
  "named s \<longleftrightarrow> (\<forall>k r. map_of (view s) k = Some r \<longrightarrow> k \<noteq> '''' \<and> thread_id r \<noteq> '''')"

text \<open>A step of the thread domain: what extends its state stays, and so does \<^const>\<open>named\<close>.\<close>

definition calm :: "'a thread_svc_scheme \<Rightarrow> 'a thread_svc_scheme \<Rightarrow> bool" where
  "calm s s' \<longleftrightarrow> thread_svc.more s' = thread_svc.more s \<and> (named s \<longrightarrow> named s')"

lemma calm_refl [simp]: "calm s s"
  by (simp add: calm_def)

lemma calm_trans [trans]: "calm s s1 \<Longrightarrow> calm s1 s2 \<Longrightarrow> calm s s2"
  by (simp add: calm_def)

lemma calm_same_view: "thread_svc.more s' = thread_svc.more s \<Longrightarrow> view s' = view s \<Longrightarrow> calm s s'"
  by (simp add: calm_def named_def)

lemma calm_world [simp]:
  "calm s (snd (now s))" "calm s (snd (io_step s))" "calm s (snd (newLong p s))" "calm s (Publish a b c s)"
  "calm s (snd (observed_at t s))" "calm s (forgetPrior i s)" "calm s (hold i s)" "calm s (release i s)"
  "calm s (snd (Projects_Get i s))" "calm s (snd (Projects_List s))" "calm s (snd (Get_project i s))"
  "calm s (snd (Threads_Update r s))" "calm s (snd (Threads_Delete i s))" "calm s (snd (Threads_InsertObserved r k s))"
  "calm s (forgetIdentity i s)" "calm s (snd (classify d s))" "calm s (publish_thread ch i s)"
  by (auto intro!: calm_same_view
      simp: now_def io_step_def newLong_def Publish_def observed_at_def forgetPrior_def hold_def release_def
        Projects_Get_def Projects_List_def Get_project_def Threads_Update_def Threads_Delete_def Let_def
        Threads_InsertObserved_def forgetIdentity_def classify_def publish_thread_def
      split: option.splits sum.splits prod.splits)

lemma calm_put_view: "thread_id r \<noteq> '''' \<Longrightarrow> calm s (put_view r s)"
  by (auto simp: calm_def named_def put_view_def)

lemma calm_store_thread: "thread_id r \<noteq> '''' \<Longrightarrow> calm s (snd (store_thread r s))"
proof -
  assume r: "thread_id r \<noteq> ''''"
  obtain x s1 where u: "Threads_Update r s = (x, s1)" by (cases "Threads_Update r s")
  have "calm s s1" using calm_world(12) [of s r] by (simp add: u)
  then show ?thesis using calm_put_view [OF r, of s1] calm_trans by (auto simp: store_thread_def u split: sum.splits)
qed

lemma calm_persist: "thread_id r \<noteq> '''' \<Longrightarrow> calm s (snd (persist r s))"
  using calm_store_thread [of r s] by (auto simp: persist_def split: sum.splits prod.splits)

lemma calm_applyStatus: "applyStatus r st d tobs at act s = (r', c, s') \<Longrightarrow> calm s s' \<and> thread_id r' = thread_id r"
proof -
  assume run: "applyStatus r st d tobs at act s = (r', c, s')"
  obtain fresh s1 where n: "newLong turn_prefix s = (fresh, s1)" by (cases "newLong turn_prefix s")
  have "calm s s1" using calm_world(3) [of s turn_prefix] by (simp add: n)
  moreover obtain x y where "apply_evidence fresh r st d tobs at act = (x, y)" by (cases "apply_evidence fresh r st d tobs at act")
  moreover from this have "thread_id x = thread_id r"
    using apply_evidence_keeps(6) [of fresh r st d tobs at act] by simp
  ultimately show ?thesis
    using run calm_trans [OF _ calm_world(6) [of s1 "thread_id x"], of s]
    by (auto simp: applyStatus_def n split: if_splits)
qed

lemma calm_insert_loop: "calm s (snd (insert_loop tape r key s))"
proof (induction tape arbitrary: r s)
  case Nil
  then show ?case by (auto intro: calm_same_view)
next
  case (Cons sfx rest)
  define r1 where "r1 = r\<lparr>thread_id := thread_prefix @ sfx\<rparr>"
  obtain x s1 where i: "Threads_InsertObserved r1 key (s\<lparr>id_tape := rest\<rparr>) = (x, s1)"
    by (cases "Threads_InsertObserved r1 key (s\<lparr>id_tape := rest\<rparr>)")
  have id: "thread_id r1 \<noteq> ''''" by (simp add: r1_def thread_prefix_def)
  have s1: "calm s s1"
    using calm_trans [OF calm_same_view calm_world(14) [of "s\<lparr>id_tape := rest\<rparr>" r1 key]] by (simp add: i)
  have "calm s1 (s1\<lparr>view := AList.update (thread_id r1) r1 (view s1), identities := a, keys := b\<rparr>)" for a b
    using id by (auto simp: calm_def named_def)
  then show ?case
    using s1 calm_trans [OF s1] Cons.IH [of s1 r1]
    by (simp add: r1_def [symmetric] i split: sum.split)
qed

lemma calm_createExternal: "calm s (snd (createExternal canon obs st at s))"
proof (cases "if eo_directory obs = '''' then None else canon (eo_directory obs)")
  case None
  then show ?thesis by (simp add: createExternal_def)
next
  case (Some canonical)
  obtain x s1 where c: "classify canonical s = (x, s1)" by (cases "classify canonical s")
  have s1: "calm s s1" using calm_world(16) [of s canonical] by (simp add: c)
  show ?thesis
  proof (cases x)
    case (Inl e)
    then show ?thesis using Some s1 by (simp add: createExternal_def c)
  next
    case (Inr p)
    obtain r c' s2 where a: "applyStatus (external_record obs canonical p at) st (eo_detail obs) (eo_turn obs) at True s1 = (r, c', s2)"
      by (cases "applyStatus (external_record obs canonical p at) st (eo_detail obs) (eo_turn obs) at True s1")
    have s2: "calm s s2" using calm_trans [OF s1] calm_applyStatus [OF a] by blast
    obtain y s3 where i: "insert_thread (fst (applyMetadata r (eo_metadata obs))) (eo_integration obs, eo_provider obs) s2 = (y, s3)"
      by (cases "insert_thread (fst (applyMetadata r (eo_metadata obs))) (eo_integration obs, eo_provider obs) s2")
    have "calm s2 s3" using calm_insert_loop [of s2 "id_tape s2"] i unfolding insert_thread_def by (metis snd_conv)
    then have s3: "calm s s3" using calm_trans [OF s2] by blast
    have "calm s (Publish a b c (hold j s3))" for a b c j
      using calm_trans [OF calm_trans [OF s3 calm_world(7)] calm_world(4)] .
    then show ?thesis
      using Some Inr s3 by (auto simp: createExternal_def c a i split: sum.split)
  qed
qed

text \<open>The answer of an observation is empty, or the id of a thread.\<close>

lemma calm_ObserveExternal: "calm s (snd (ObserveExternal canon obs s))"
proof -
  obtain at s1 where o: "observed_at (eo_at obs) s = (at, s1)" by (cases "observed_at (eo_at obs) s")
  have s1: "calm s s1" using calm_world(5) [of s "eo_at obs"] by (simp add: o)
  define st where "st = (if eo_status obs = ThreadNone then ThreadUnknown else eo_status obs)"
  show ?thesis
  proof (cases "map_of (identities s1) (eo_integration obs, eo_provider obs)")
    case None
    then show ?thesis
      using calm_trans [OF s1 calm_createExternal [of s1 canon obs st at]]
      by (simp add: ObserveExternal_def o st_def [symmetric])
  next
    case (Some tid)
    show ?thesis
    proof (cases "map_of (view s1) tid")
      case None
      with Some show ?thesis using s1 by (simp add: ObserveExternal_def o)
    next
      case v: (Some r0)
      obtain r2 c s2 where a: "applyStatus (r0\<lparr>agent_id := eo_agent obs\<rparr>) st (eo_detail obs) (eo_turn obs) at True s1 = (r2, c, s2)"
        by (cases "applyStatus (r0\<lparr>agent_id := eo_agent obs\<rparr>) st (eo_detail obs) (eo_turn obs) at True s1")
      have s2: "calm s1 s2" and id: "thread_id r2 = thread_id r0" using calm_applyStatus [OF a] by simp_all
      obtain r4 m where md: "applyMetadata (track_title (eo_title obs) r2) (eo_metadata obs) = (r4, m)"
        by (cases "applyMetadata (track_title (eo_title obs) r2) (eo_metadata obs)")
      have "thread_id r4 = thread_id r2"
        using applyMetadata_keeps(3) [of "track_title (eo_title obs) r2" "eo_metadata obs"]
        unfolding md by (simp add: track_title_def split: if_splits)
      then have id5: "thread_id (stamp b at (unarchive r4)) = thread_id r0" for b
        by (simp add: id stamp_def unarchive_def)
      define r5 where "r5 = stamp (agent_id r0 \<noteq> eo_agent obs \<or> c \<or> track_title (eo_title obs) r2 \<noteq> r2 \<or> m \<or> archived r4) at (unarchive r4)"
      obtain y s3 where w: "store_thread r5 s2 = (y, s3)" by (cases "store_thread r5 s2")
      have s3: "calm s1 s3"
      proof (cases "named s1")
        case True
        then have "thread_id r5 \<noteq> ''''" using v by (auto simp: r5_def id5 named_def)
        then show ?thesis using calm_trans [OF s2 calm_store_thread [of r5 s2]] by (simp add: w)
      next
        case False
        have "thread_svc.more (snd (store_thread r5 s2)) = thread_svc.more s2"
          using calm_world(12) [of s2 r5]
          by (auto simp: store_thread_def put_view_def calm_def split: sum.splits prod.splits)
        then show ?thesis using s2 False by (simp add: calm_def w)
      qed
      have "calm s (publish_thread b tid (hold tid s3))" for b
        using calm_trans [OF calm_trans [OF calm_trans [OF s1 s3] calm_world(7)] calm_world(17)] .
      then show ?thesis
        using Some v calm_trans [OF s1 s3] w unfolding r5_def
        by (simp add: ObserveExternal_def o st_def [symmetric] a md Let_def split: sum.split)
    qed
  qed
qed

lemma calm_SubmitTurn: "calm s (snd (SubmitTurn i s))"
proof (cases "map_of (view s) i")
  case None
  then show ?thesis by (simp add: SubmitTurn_def)
next
  case (Some r)
  show ?thesis
  proof (cases "pending r")
    case (Some p)
    with \<open>map_of (view s) i = Some r\<close> show ?thesis by (simp add: SubmitTurn_def)
  next
    case None
    obtain r1 s1 where m: "mintPending r s = (r1, s1)" by (cases "mintPending r s")
    have id: "thread_id r1 = thread_id r" and s1: "calm s s1"
      using m by (auto simp: mintPending_def now_def newLong_def intro!: calm_same_view)
    obtain x s2 where p: "persist r1 s1 = (x, s2)" by (cases "persist r1 s1")
    have s2: "calm s s2"
    proof (cases "named s")
      case True
      then have "thread_id r1 \<noteq> ''''" using Some id by (auto simp: named_def)
      then show ?thesis using calm_trans [OF s1 calm_persist [of r1 s1]] by (simp add: p)
    next
      case False
      have "thread_svc.more (snd (persist r1 s1)) = thread_svc.more s1"
        using calm_world(12) [of s1 r1]
        by (auto simp: persist_def store_thread_def put_view_def calm_def split: sum.splits prod.splits)
      then show ?thesis using s1 False by (simp add: calm_def p)
    qed
    show ?thesis
      using Some None s2 calm_trans [OF s2 calm_world(4)] by (simp add: SubmitTurn_def m p split: option.split)
  qed
qed

lemma calm_DiscardExternal: "calm s (snd (DiscardExternal i p s))"
proof -
  have "calm s (snd (remove_thread t s))" for t
  proof -
    obtain x s1 where d: "Threads_Delete t s = (x, s1)" by (cases "Threads_Delete t s")
    have s1: "calm s s1" using calm_world(13) [of s t] by (simp add: d)
    have "calm s1 (s1\<lparr>view := AList.delete t (view s1)\<rparr>)" by (auto simp: calm_def named_def)
    then have "calm s (Publish a b c (forgetPrior t (forgetIdentity t (s1\<lparr>view := AList.delete t (view s1)\<rparr>))))" for a b c
      using calm_trans [OF calm_trans [OF calm_trans [OF calm_trans [OF s1] calm_world(15)] calm_world(6)] calm_world(4)] by blast
    then show ?thesis using s1 by (simp add: remove_thread_def d split: sum.split)
  qed
  then show ?thesis by (auto simp: DiscardExternal_def split: option.split)
qed

lemma calm_discard: "calm s (discard i p s)"
  by (simp add: discard_def calm_DiscardExternal)

text \<open>The errors that decide what becomes of a session come from the program that is asked, not from the thread domain.\<close>

definition own_error :: "err \<Rightarrow> bool" where
  "own_error e \<longleftrightarrow> e \<noteq> ErrUncertain \<and> e \<noteq> ErrNotConnected"

lemma own_error_simps [simp]:
  "own_error ErrIO" "own_error ErrStarved" "own_error ErrNotFound" "own_error ErrForeignKeyViolation"
  "own_error (ErrNoLocalDirectory d)" "own_error (ErrNoRecord d)" "own_error (ErrTurnPending d)" "own_error (ErrIdentityMapped d)"
  "own_error (ErrRecording x)" "own_error ErrThreadCreateInvalid"
  by (simp_all add: own_error_def)

lemma insert_loop_error: "insert_loop tape r key s = (Inl e, s') \<Longrightarrow> own_error e"
proof (induction tape arbitrary: r s)
  case Nil
  then show ?case by (simp add: own_error_def)
next
  case (Cons sfx rest)
  define r1 where "r1 = r\<lparr>thread_id := thread_prefix @ sfx\<rparr>"
  obtain x s1 where i: "Threads_InsertObserved r1 key (s\<lparr>id_tape := rest\<rparr>) = (x, s1)"
    by (cases "Threads_InsertObserved r1 key (s\<lparr>id_tape := rest\<rparr>)")
  show ?case
  proof (cases x)
    case (Inl a)
    then have "own_error a"
      using i by (auto simp: Threads_InsertObserved_def Let_def io_step_def own_error_def split: if_splits)
    then show ?thesis using Cons.prems Inl i by (simp add: r1_def [symmetric])
  next
    case (Inr b)
    then show ?thesis using Cons.prems i Cons.IH by (auto simp: r1_def [symmetric] split: if_splits)
  qed
qed

lemma store_thread_error: "store_thread r s = (Inl e, s') \<Longrightarrow> own_error e"
  by (auto simp: store_thread_def Threads_Update_def Let_def io_step_def own_error_def
      split: sum.splits prod.splits if_splits option.splits)

lemma ObserveExternal_error:
  assumes "ObserveExternal canon obs s = (Inl e, s')"
  shows "own_error e"
proof -
  have "createExternal canon obs st at t = (Inl e, s') \<Longrightarrow> own_error e" for st at t
    by (auto simp: createExternal_def classify_def Projects_List_def Let_def io_step_def insert_thread_def
        dest: insert_loop_error split: option.splits sum.splits prod.splits if_splits)
  then show ?thesis
    using assms
    by (auto simp: ObserveExternal_def Let_def dest: store_thread_error
        split: option.splits sum.splits prod.splits if_splits)
qed

lemma SubmitTurn_error: "SubmitTurn i s = (Inl e, s') \<Longrightarrow> own_error e"
  by (auto simp: SubmitTurn_def persist_def Let_def dest: store_thread_error
      split: option.splits sum.splits prod.splits if_splits)

lemma Get_project_error: "Get_project i s = (Inl e, s') \<Longrightarrow> own_error e"
  by (auto simp: Get_project_def Projects_Get_def Let_def io_step_def own_error_def split: sum.splits option.splits if_splits)

text \<open>
  What is relied on of the program that is asked: until it dispatches, it touches neither the threads' ids nor the
  Integration's own tables, and only a dispatch can be uncertain (\<^verbatim>\<open>ErrThreadCreationUncertain\<close> reports a command that
  went unanswered).
\<close>

definition polite ::
  "(string \<Rightarrow> string \<Rightarrow> err + (thread_create_params \<Rightarrow> string \<Rightarrow> 'a thread_svc_scheme
      \<Rightarrow> (err + 'a thread_svc_scheme prepared_thread) \<times> 'a thread_svc_scheme)) \<Rightarrow> bool" where
  "polite resolve \<longleftrightarrow>
     (\<forall>i a. case resolve i a of
              Inl e \<Rightarrow> e \<noteq> ErrUncertain
            | Inr prepare \<Rightarrow> \<forall>params d s. calm s (snd (prepare params d s)) \<and> fst (prepare params d s) \<noteq> Inl ErrUncertain)"

lemma polite_refuses: "polite resolve \<Longrightarrow> resolve i a = Inl e \<Longrightarrow> e \<noteq> ErrUncertain"
  unfolding polite_def by (drule spec [of _ i], drule spec [of _ a]) simp

lemma polite_prepares:
  "polite resolve \<Longrightarrow> resolve i a = Inr prepare \<Longrightarrow> prepare params d s = (x, s') \<Longrightarrow> calm s s' \<and> x \<noteq> Inl ErrUncertain"
  unfolding polite_def by (drule spec [of _ i], drule spec [of _ a]) (auto dest!: spec [of _ params] spec [of _ d] spec [of _ s])

lemma StartThread_run:
  assumes polite: "polite resolve" and named: "named s"
    and run: "StartThread canon linkers resolve (Some f) params s = (res, s')"
  obtains (early) e where "res = Inl e" "e \<noteq> ErrUncertain" "calm s s'"
  | (unrecorded) i t s1 x s2 where "calm s s1" "f i t s1 = (Some x, s2)" "calm s2 s'" "res = Inl (ErrRecording x)"
  | (dispatched) prepare d sp pt i t s1 s2 e s3 where
      "resolve (cr_integration params) (cr_agent params) = Inr prepare" "fst (prepare params d sp) = Inr pt"
      "i \<noteq> ''''" "calm s s1" "f i t s1 = (None, s2)" "pt_dispatch pt s2 = (e, s3)" "calm s3 s'"
      "case e of Some x \<Rightarrow> res = Inl x | None \<Rightarrow> res = Get_thread linkers i s3"
proof -
  show thesis
  proof (cases "valid_create params")
    case False
    then show thesis using run by (intro early [of ErrThreadCreateInvalid]) (auto simp: StartThread_def)
  next
    case valid: True
    show thesis
    proof (cases "resolve (cr_integration params) (cr_agent params)")
      case (Inl e)
      then have "e \<noteq> ErrUncertain" by (rule polite_refuses [OF polite])
      with Inl show thesis using run valid by (intro early [of e]) (auto simp: StartThread_def)
    next
      case resolved: (Inr prepare)
      obtain g sg where g: "Get_project (cr_project params) s = (g, sg)" by (cases "Get_project (cr_project params) s")
      have sg: "calm s sg" using calm_world(11) [of s "cr_project params"] by (simp add: g)
      show thesis
      proof (cases g)
        case (Inl e)
        moreover have "e \<noteq> ErrUncertain" using Get_project_error [of _ s e sg] g Inl by (auto simp: own_error_def)
        ultimately show thesis using run valid resolved g sg by (intro early [of e]) (auto simp: StartThread_def)
      next
        case p: (Inr p)
        define d where "d = proj_directory p"
        obtain y sp where pr: "prepare params d sg = (y, sp)" by (cases "prepare params d sg")
        have "calm sg sp" and y: "y \<noteq> Inl ErrUncertain"
          using polite_prepares [OF polite resolved pr] by simp_all
        then have sp: "calm s sp" using calm_trans [OF sg] by blast
        show thesis
        proof (cases y)
          case (Inl e)
          then show thesis using run valid resolved g p pr y sp by (intro early [of e]) (auto simp: StartThread_def d_def)
        next
          case pt: (Inr pt)
          define ob where "ob = start_observation params d (pt_provider pt) (pt_title pt)"
          obtain z so where obs: "ObserveExternal canon ob sp = (z, so)" by (cases "ObserveExternal canon ob sp")
          have so: "calm s so" using calm_trans [OF sp calm_ObserveExternal [of sp canon ob]] by (simp add: obs)
          note eq = run [unfolded StartThread_def]
          show thesis
          proof (cases z)
            case (Inl e)
            then have "own_error e" using ObserveExternal_error obs by blast
            then show thesis
              using eq valid resolved g p pr pt obs so Inl
              by (intro early [of e]) (auto simp: d_def ob_def own_error_def)
          next
            case i: (Inr i)
            obtain u su where sub: "SubmitTurn i so = (u, su)" by (cases "SubmitTurn i so")
            have su: "calm s su" using calm_trans [OF so calm_SubmitTurn [of so i]] by (simp add: sub)
            show thesis
            proof (cases u)
              case (Inl e)
              then have "own_error e" using SubmitTurn_error sub by blast
              then show thesis
                using eq valid resolved g p pr pt obs i sub Inl calm_trans [OF su calm_discard]
                by (intro early [of e]) (auto simp: d_def ob_def own_error_def)
            next
              case t: (Inr t)
              have "named so" using so named by (simp add: calm_def)
              moreover obtain r where "map_of (view so) i = Some r"
                using sub t by (cases "map_of (view so) i") (auto simp: SubmitTurn_def)
              ultimately have i_ne: "i \<noteq> ''''" by (auto simp: named_def)
              obtain x s2 where rec: "f i t su = (x, s2)" by (cases "f i t su")
              show thesis
              proof (cases x)
                case (Some e)
                then show thesis
                  using eq valid resolved g p pr pt obs i sub t su rec calm_discard [of s2]
                  by (intro unrecorded [OF su]) (auto simp: d_def ob_def start_recorded_def)
              next
                case None
                obtain e s3 where di: "pt_dispatch pt s2 = (e, s3)" by (cases "pt_dispatch pt s2")
                have "calm s3 s' \<and> (case e of Some x \<Rightarrow> res = Inl x | None \<Rightarrow> res = Get_thread linkers i s3)"
                  using eq valid resolved g p pr pt obs i sub t rec None di calm_discard [of s3]
                  by (auto simp: d_def ob_def start_recorded_def split: option.splits if_splits)
                then show thesis
                  using dispatched [OF resolved _ i_ne su _ di, of d sg t] pr pt rec None by simp
              qed
            qed
          qed
        qed
      qed
    qed
  qed
qed

subsection \<open>What the Integration's own operations touch\<close>

text \<open>\<open>steady\<close>: all but the tables and the outside world; \<open>settled\<close>: the sessions too.\<close>

definition steady :: "'a linear_svc_scheme \<Rightarrow> 'a linear_svc_scheme \<Rightarrow> bool" where
  "steady s s' \<longleftrightarrow>
     view s' = view s \<and> starting s' = starting s \<and> captured s' = captured s \<and> linear_svc.more s' = linear_svc.more s"

definition settled :: "'a linear_svc_scheme \<Rightarrow> 'a linear_svc_scheme \<Rightarrow> bool" where
  "settled s s' \<longleftrightarrow> steady s s' \<and> sessions s' = sessions s"

lemma steady_trans [trans]: "steady s s1 \<Longrightarrow> steady s1 s2 \<Longrightarrow> steady s s2"
  by (simp add: steady_def)

lemma settled_trans [trans]: "settled s s1 \<Longrightarrow> settled s1 s2 \<Longrightarrow> settled s s2"
  by (auto simp: settled_def steady_def)

lemma settled_refl [simp]: "settled s s"
  by (simp add: settled_def steady_def)

lemma calm_tables:
  fixes s :: "'a linear_svc_scheme"
  assumes "calm s s'"
  shows "sessions s' = sessions s" "outbox s' = outbox s" "starting s' = starting s" "captured s' = captured s"
    "linear_svc.more s' = linear_svc.more s"
  using assms by (cases s rule: linear_svc.cases_scheme; cases s' rule: linear_svc.cases_scheme; simp add: calm_def)+

lemma settled_simps [simp]:
  "settled s (snd (now s))" "settled s (snd (io_step s))" "settled s (Publish p1 p2 p3 s)"
  "settled s (setState st d s)" "settled s (snd (reloadSetup s))" "settled s (reportAPIFailure e d s)"
  "settled s (noteFailure row e s)" "settled s (snd (saveTokens a t s))" "settled s (snd (GetSession i s))"
  "settled s (snd (OpenSessions s))" "settled s (snd (sessionLinks env i s))" "settled s (snd (Enqueue row s))"
  "settled s (mark_call i f s)" "settled s (Prune_calls t s)" "settled s (snd (activity env i p k b s))"
  "settled s (snd (links_row i l s))" "settled s (snd (Due_calls t n s))"
  by (simp_all add: settled_def steady_def now_def io_step_def Publish_def setState_def reloadSetup_def reportAPIFailure_def
      noteFailure_def saveTokens_def GetSession_def OpenSessions_def sessionLinks_def Enqueue_def mark_call_def
      Prune_calls_def activity_def links_row_def Due_calls_def Let_def split: sum.split prod.split)

lemma settled_renew: "settled s (snd (renew env seen s))"
proof -
  obtain at s1 where n: "now s = (at, s1)" by (cases "now s")
  have s1: "settled s s1" using settled_simps(1) [of s] by (simp add: n)
  have "settled s s3" if "saveTokens a t s1 = (x, s2)" "s3 = s2 \<or> s3 = snd (reloadSetup s2)" for a t x s2 s3
  proof -
    have "settled s1 s2" using settled_simps(8) [of s1 a t] that(1) by simp
    then have "settled s s2" by (rule settled_trans [OF s1])
    then show ?thesis using that(2) settled_trans [OF _ settled_simps(5)] by blast
  qed
  then show ?thesis using s1 by (simp add: renew_def n split: option.split sum.split prod.split)
qed

lemma settled_token: "settled s (snd (token env s))"
proof -
  obtain at s1 where n: "now s = (at, s1)" by (cases "now s")
  have s1: "settled s s1" using settled_simps(1) [of s] by (simp add: n)
  have "settled s s2" if "renew env t s1 = (x, s2)" for t x s2
    using settled_trans [OF s1 settled_renew [of s1 env t]] by (simp add: that)
  then show ?thesis using s1 by (simp add: token_def n split: option.split prod.split)
qed

lemma settled_try_send: "settled s (snd (try_send env row s))"
proof -
  obtain x s1 where t: "token env s = (x, s1)" by (cases "token env s")
  have s1: "settled s s1" using settled_token [of s env] by (simp add: t)
  have "settled s s2" if "renew env k s1 = (y, s2)" for k y s2
    using settled_trans [OF s1 settled_renew [of s1 env k]] by (simp add: that)
  moreover have "settled s s3" if "renew env k s1 = (y, s2)" "token env s2 = (z, s3)" for k y s2 z s3
  proof -
    have "settled s2 s3" using settled_token [of s2 env] that(2) by simp
    then show ?thesis using settled_trans [OF s1 settled_renew [of s1 env k]] settled_trans that(1) by fastforce
  qed
  ultimately show ?thesis using s1 by (auto simp: try_send_def t split: option.split sum.split prod.split)
qed

lemma settled_record_result: "settled s (record_result env row result s)"
proof -
  obtain at s1 where n: "now s = (at, s1)" by (cases "now s")
  have s1: "settled s s1" using settled_simps(1) [of s] by (simp add: n)
  have mark: "settled s (mark_call i f s2)" if "settled s s2" for i f s2
    using settled_trans [OF that settled_simps(13)] .
  have note_it: "settled s (noteFailure r e s2)" if "settled s s2" for r e s2
    using settled_trans [OF that settled_simps(7)] .
  have report: "settled s (reportAPIFailure e d s2)" if "settled s s2" for e d s2
    using settled_trans [OF that settled_simps(6)] .
  have fall: "settled s (snd (Enqueue r s4))"
    if "settled s s2" "sessionLinks env i s2 = (l, s3)" "activity env a b c d s3 = (r, s4)" for r s2 s3 s4 a b c d i l
  proof -
    have "settled s2 s3" using settled_simps(11) [of s2 env i] that(2) by simp
    moreover have "settled s3 s4" using settled_simps(15) [of s3 env a b c d] that(3) by simp
    ultimately show ?thesis using settled_trans [OF that(1)] settled_trans settled_simps(12) by blast
  qed
  show ?thesis
    using s1
    by (auto simp: record_result_def n Sent_def Retry_def Failed_def Let_def
        intro: mark note_it report fall [OF mark [OF note_it [OF s1]]] split: option.split prod.split)
qed

lemma settled_send_call: "settled s (send_call env row s)"
proof -
  obtain x s1 where t: "try_send env row s = (x, s1)" by (cases "try_send env row s")
  show ?thesis
    using settled_trans [OF settled_try_send [of s env row] settled_record_result [of "snd (try_send env row s)" env row x]]
    by (simp add: send_call_def t)
qed

lemma settled_prune_calls: "settled s (prune_calls s)"
  using settled_trans [OF settled_simps(1) settled_simps(14)] by (simp add: prune_calls_def Let_def case_prod_beta)

text \<open>A write of the session \<open>i\<close>: nothing, or one row for it that satisfies \<open>Q\<close> beside the row it replaces.\<close>

definition moves ::
  "string \<Rightarrow> (linear_session \<Rightarrow> linear_session \<Rightarrow> bool) \<Rightarrow> 'a linear_svc_scheme \<Rightarrow> 'a linear_svc_scheme \<Rightarrow> bool" where
  "moves i Q s s' \<longleftrightarrow> steady s s' \<and>
     (sessions s' = sessions s
      \<or> (\<exists>old r. map_of (sessions s) i = Some old \<and> ls_id r = i \<and> Q old r \<and> sessions s' = AList.update i r (sessions s)))"

lemma moves_settled: "settled s s' \<Longrightarrow> moves i Q s s'"
  by (simp add: moves_def settled_def)

lemma moves_after: "settled s s1 \<Longrightarrow> moves i Q s1 s2 \<Longrightarrow> moves i Q s s2"
  by (auto simp: moves_def settled_def intro: steady_trans)

lemma moves_mono: "moves i Q s s' \<Longrightarrow> (\<And>old r. map_of (sessions s) i = Some old \<Longrightarrow> Q old r \<Longrightarrow> Q' old r) \<Longrightarrow> moves i Q' s s'"
  unfolding moves_def by blast

lemma UpdateSession_run:
  assumes "UpdateSession r rs s = (x, s')"
  shows "steady s s'"
    and "x = Inr True \<Longrightarrow> \<exists>old. map_of (sessions s) (ls_id r) = Some old
           \<and> sessions s' = AList.update (ls_id r) (r\<lparr>ls_created := ls_created old\<rparr>) (sessions s)
           \<and> outbox s' = enqueueAll rs (outbox s)"
    and "x \<noteq> Inr True \<Longrightarrow> settled s s'"
proof -
  show "steady s s'"
    using assms by (auto simp: UpdateSession_def UpdateLinearSession_def Let_def io_step_def steady_def
        split: if_splits option.splits)
  show "x = Inr True \<Longrightarrow> \<exists>old. map_of (sessions s) (ls_id r) = Some old
           \<and> sessions s' = AList.update (ls_id r) (r\<lparr>ls_created := ls_created old\<rparr>) (sessions s)
           \<and> outbox s' = enqueueAll rs (outbox s)"
    using assms by (auto simp: UpdateSession_def UpdateLinearSession_def Let_def io_step_def
        split: if_splits option.splits)
  show "x \<noteq> Inr True \<Longrightarrow> settled s s'"
    using assms by (auto simp: UpdateSession_def UpdateLinearSession_def Let_def io_step_def settled_def steady_def
        split: if_splits option.splits)
qed

lemma moves_UpdateSession:
  assumes "\<And>old. map_of (sessions s) (ls_id r) = Some old \<Longrightarrow> Q old (r\<lparr>ls_created := ls_created old\<rparr>)"
  shows "moves (ls_id r) Q s (snd (UpdateSession r rs s))"
proof -
  obtain x s' where u: "UpdateSession r rs s = (x, s')" by (cases "UpdateSession r rs s")
  note run = UpdateSession_run [OF u]
  show ?thesis
  proof (cases "x = Inr True")
    case True
    then obtain old where "map_of (sessions s) (ls_id r) = Some old"
      "sessions s' = AList.update (ls_id r) (r\<lparr>ls_created := ls_created old\<rparr>) (sessions s)"
      using run(2) by blast
    then show ?thesis
      using run(1) assms unfolding moves_def u snd_conv
      by (intro conjI disjI2 exI [of _ old] exI [of _ "r\<lparr>ls_created := ls_created old\<rparr>"]) simp_all
  next
    case False
    then show ?thesis using run(3) moves_settled by (simp add: u)
  qed
qed

text \<open>What a session may become while it is watched: it keeps its binding, and is done or still started.\<close>

definition watched_on :: "linear_session \<Rightarrow> linear_session \<Rightarrow> bool" where
  "watched_on old r \<longleftrightarrow>
     ls_thread r = ls_thread old \<and> ls_turn r = ls_turn old \<and> (ls_state r = SessStarted \<or> ls_state r = SessDone)"

lemma evaluate_keeps:
  assumes "evaluate r read at grace = (r', ns, ch)"
  shows "ls_id r' = ls_id r" "ls_thread r' = ls_thread r" "ls_turn r' = ls_turn r"
    "ls_state r' = ls_state r \<or> ls_state r' = SessDone" "\<not> ch \<Longrightarrow> r' = r"
  using assms
  by (auto simp: evaluate_def evaluate_open_def finish_session_def Let_def
      split: sum.splits option.splits if_splits prod.splits)

lemma activities_settled: "settled s (snd (activities env i ns s))"
proof (induction ns arbitrary: s)
  case (Cons n ns)
  obtain row s1 where a: "activity env i (nt_purpose n) (nt_kind n) (nt_body n) s = (row, s1)"
    by (cases "activity env i (nt_purpose n) (nt_kind n) (nt_body n) s")
  have "settled s s1" using settled_simps(15) [of s env i "nt_purpose n" "nt_kind n" "nt_body n"] by (simp add: a)
  then show ?case using settled_trans [OF _ Cons.IH [of s1]] by (simp add: a case_prod_beta)
qed simp

lemma observe_moves:
  assumes "ls_state r = SessStarted"
  shows "moves (ls_id r) (\<lambda>old r'. watched_on r r') s (observe_session env r s)"
proof -
  obtain at s1 where n: "now s = (at, s1)" by (cases "now s")
  have s1: "settled s s1" using settled_simps(1) [of s] by (simp add: n)
  define read where "read = Get_thread (le_linkers env) (ls_thread r) s"
  obtain r' ns ch where ev: "evaluate r read at responseGrace = (r', ns, ch)"
    by (cases "evaluate r read at responseGrace")
  note keeps = evaluate_keeps [OF ev]
  show ?thesis
  proof (cases ch)
    case False
    then show ?thesis using moves_settled [OF s1] by (simp add: observe_session_def n ev read_def [symmetric])
  next
    case True
    obtain rows s2 where a: "activities env (ls_id r) ns s1 = (rows, s2)" by (cases "activities env (ls_id r) ns s1")
    have s2: "settled s s2" using settled_trans [OF s1 activities_settled [of s1 env "ls_id r" ns]] by (simp add: a)
    have "moves (ls_id r') (\<lambda>old x. watched_on r x) s2 (snd (UpdateSession r' rows s2))"
      by (rule moves_UpdateSession) (use keeps(2-4) assms in \<open>auto simp: watched_on_def\<close>)
    then show ?thesis
      using moves_after [OF s2] True keeps(1) by (simp add: observe_session_def n ev read_def [symmetric] a)
  qed
qed

text \<open>A delivery adds a session or changes none.\<close>

definition adds :: "'a linear_svc_scheme \<Rightarrow> 'a linear_svc_scheme \<Rightarrow> bool" where
  "adds s s' \<longleftrightarrow> steady s s' \<and>
     (sessions s' = sessions s
      \<or> (\<exists>r. map_of (sessions s) (ls_id r) = None \<and> ls_thread r = '''' \<and> (ls_state r = SessAccepted \<or> ls_state r = SessDone)
          \<and> sessions s' = AList.update (ls_id r) r (sessions s)))"

lemma adds_settled: "settled s s' \<Longrightarrow> adds s s'"
  by (simp add: adds_def settled_def)

lemma adds_after: "settled s s1 \<Longrightarrow> adds s1 s2 \<Longrightarrow> adds s s2"
  by (auto simp: adds_def settled_def intro: steady_trans)

lemma InsertSession_adds:
  "ls_thread r = '''' \<Longrightarrow> ls_state r = SessAccepted \<or> ls_state r = SessDone \<Longrightarrow> adds s (snd (InsertSession r rs s))"
  by (auto simp: InsertSession_def InsertLinearSession_def Let_def io_step_def adds_def steady_def has_key_def)

lemma created_session_shape:
  "created_session e at = (r, p, k, b) \<Longrightarrow>
     ls_id r = ev_session e \<and> ls_thread r = '''' \<and> (ls_state r = SessAccepted \<or> ls_state r = SessDone)"
  by (auto simp: created_session_def Let_def split: prod.splits if_splits)

lemma created_adds: "adds s (snd (created env e s))"
proof -
  obtain at s1 where n: "now s = (at, s1)" by (cases "now s")
  have s1: "settled s s1" using settled_simps(1) [of s] by (simp add: n)
  obtain r p k b where c: "created_session e at = (r, p, k, b)" by (cases "created_session e at")
  obtain row s2 where a: "activity env (ev_session e) p k b s1 = (row, s2)" by (cases "activity env (ev_session e) p k b s1")
  have s2: "settled s s2"
    using settled_trans [OF s1 settled_simps(15) [of s1 env "ev_session e" p k b]] by (simp add: a)
  obtain x s3 where i: "InsertSession r [row] s2 = (x, s3)" by (cases "InsertSession r [row] s2")
  have "adds s2 s3" using InsertSession_adds [of r s2 "[row]"] created_session_shape [OF c] by (simp add: i)
  then show ?thesis using adds_after [OF s2] by (simp add: created_def n c a i split: sum.split)
qed

lemma enqueue_reply_settled: "settled s (snd (enqueue_reply env sid d b s))"
proof -
  define p where "p = ''reply/'' @ d"
  obtain row s1 where a: "activity env sid p contentThought b s = (row, s1)"
    by (cases "activity env sid p contentThought b s")
  have "settled s s1" using settled_simps(15) [of s env sid p contentThought b] by (simp add: a)
  then have "settled s (snd (Enqueue row s1))" using settled_trans settled_simps(12) by blast
  then show ?thesis unfolding enqueue_reply_def p_def [symmetric] by (auto simp: a split: prod.split sum.split)
qed

lemma prompted_settled: "settled s (snd (prompted env e d s))"
proof -
  obtain l s1 where a: "sessionLinks env (ev_session e) s = (l, s1)" by (cases "sessionLinks env (ev_session e) s")
  have s1: "settled s s1" using settled_simps(11) [of s env "ev_session e"] by (simp add: a)
  obtain r s2 where g: "GetSession (ev_session e) s1 = (r, s2)" by (cases "GetSession (ev_session e) s1")
  have s2: "settled s s2" using settled_trans [OF s1 settled_simps(9) [of s1 "ev_session e"]] by (simp add: g)
  have "settled s (snd (enqueue_reply env i d b s2))" for i b
    using settled_trans [OF s2 enqueue_reply_settled] .
  then show ?thesis using s2 by (simp add: prompted_def a g split: sum.split)
qed

lemma Process_adds: "adds s (snd (Process_linear env d s))"
  by (auto simp: Process_linear_def created_adds adds_settled prompted_settled split: option.split)

text \<open>What a claim, the callback and the outcome write.\<close>

definition claimed :: "linear_session \<Rightarrow> linear_session \<Rightarrow> bool" where
  "claimed old r \<longleftrightarrow> (ls_state old = SessAccepted \<or> ls_state old = SessStarting \<and> ls_thread old = '''')
     \<and> ls_state r = SessStarting \<and> ls_thread r = ''''"

lemma start_claim_run:
  assumes "start_claim sid s = (ok, s')" and own: "\<And>r. map_of (sessions s) sid = Some r \<Longrightarrow> ls_id r = sid"
  shows "view s' = view s" "starting s' = starting s" "linear_svc.more s' = linear_svc.more s"
    and "\<not> ok \<Longrightarrow> settled s s'"
    and "ok \<Longrightarrow> \<exists>old r l. map_of (sessions s) sid = Some old \<and> claimed old r \<and> ls_id r = sid
           \<and> sessions s' = AList.update sid r (sessions s)
           \<and> captured s' = AList.update sid l (captured s) \<and> ls_id (sl_session l) = sid \<and> ls_state (sl_session l) = SessStarting"
proof -
  have main: "view s' = view s \<and> starting s' = starting s \<and> linear_svc.more s' = linear_svc.more s
    \<and> (\<not> ok \<longrightarrow> settled s s')
    \<and> (ok \<longrightarrow> (\<exists>old r l. map_of (sessions s) sid = Some old \<and> claimed old r \<and> ls_id r = sid
           \<and> sessions s' = AList.update sid r (sessions s)
           \<and> captured s' = AList.update sid l (captured s) \<and> ls_id (sl_session l) = sid
           \<and> ls_state (sl_session l) = SessStarting))"
  proof (cases "config s")
    case None
    then show ?thesis using assms(1) by (simp add: start_claim_def)
  next
    case (Some c)
    obtain g s1 where g: "GetSession sid s = (g, s1)" by (cases "GetSession sid s")
    have s1: "settled s s1" using settled_simps(9) [of s sid] by (simp add: g)
    show ?thesis
    proof (cases g)
      case (Inl e)
      then show ?thesis using assms(1) Some g s1 by (simp add: start_claim_def settled_def steady_def)
    next
      case (Inr fresh)
      have fresh: "map_of (sessions s) sid = Some fresh"
        using g Inr by (auto simp: GetSession_def Let_def io_step_def split: if_splits option.splits)
      show ?thesis
      proof (cases "ls_state fresh \<noteq> SessAccepted \<and> (ls_state fresh \<noteq> SessStarting \<or> ls_thread fresh \<noteq> '''')")
        case True
        then show ?thesis using assms(1) Some g Inr s1 by (simp add: start_claim_def settled_def steady_def)
      next
        case False
        obtain at s2 where n: "now s1 = (at, s2)" by (cases "now s1")
        have s2: "settled s s2" using settled_trans [OF s1 settled_simps(1) [of s1]] by (simp add: n)
        define r where "r = fresh\<lparr>ls_state := SessStarting, ls_thread := '''', ls_turn := '''', ls_updated := at\<rparr>"
        obtain x s3 where u: "UpdateSession r [] s2 = (x, s3)" by (cases "UpdateSession r [] s2")
        note run = UpdateSession_run [OF u]
        have id: "ls_id r = sid" "ls_state r = SessStarting" using own [OF fresh] by (simp_all add: r_def)
        have eq: "(ok, s') = (case (x, s3) of (Inr True, s) \<Rightarrow> (True, s\<lparr>captured := AList.update sid \<lparr>sl_project = st_project c, sl_session = r\<rparr> (captured s)\<rparr>)
             | (_, s) \<Rightarrow> (False, s))"
          using assms(1) unfolding start_claim_def Some g Inr option.case sum.case prod.case if_not_P [OF False] n Let_def
            r_def [symmetric] u by simp
        show ?thesis
        proof (cases "x = Inr True")
          case True
          then obtain old where old: "map_of (sessions s2) (ls_id r) = Some old"
            "sessions s3 = AList.update (ls_id r) (r\<lparr>ls_created := ls_created old\<rparr>) (sessions s2)"
            using run(2) by blast
          have "old = fresh" using old(1) id fresh s2 by (simp add: settled_def)
          moreover have "claimed fresh (r\<lparr>ls_created := a\<rparr>)" for a using False by (auto simp: claimed_def r_def)
          ultimately show ?thesis
            using eq True old run(1) s2 id fresh
            by (auto simp: settled_def steady_def intro!: exI [of _ "r\<lparr>ls_created := ls_created fresh\<rparr>"])
        next
          case nx: False
          then have "ok = False \<and> s' = s3" using eq by (auto split: sum.splits bool.splits)
          then show ?thesis using settled_trans [OF s2 run(3) [OF nx]] by (simp add: settled_def steady_def)
        qed
      qed
    qed
  qed
  then show "view s' = view s" "starting s' = starting s" "linear_svc.more s' = linear_svc.more s"
    "\<not> ok \<Longrightarrow> settled s s'"
    "ok \<Longrightarrow> \<exists>old r l. map_of (sessions s) sid = Some old \<and> claimed old r \<and> ls_id r = sid
           \<and> sessions s' = AList.update sid r (sessions s)
           \<and> captured s' = AList.update sid l (captured s) \<and> ls_id (sl_session l) = sid \<and> ls_state (sl_session l) = SessStarting"
    by blast+
qed

lemma record_ids_run:
  assumes "record_ids sid l i t s = (x, s')" and id: "ls_id (sl_session l) = sid"
  shows "view s' = view s \<and> starting s' = starting s \<and> linear_svc.more s' = linear_svc.more s
    \<and> (\<exists>r. ls_id r = sid \<and> ls_thread r = i \<and> ls_turn r = t \<and> ls_state r = ls_state (sl_session l)
         \<and> captured s' = AList.update sid (l\<lparr>sl_session := r\<rparr>) (captured s)
         \<and> (if x = None
            then (\<exists>c. map_of (sessions s) sid \<noteq> None \<and> sessions s' = AList.update sid (r\<lparr>ls_created := c\<rparr>) (sessions s))
            else sessions s' = sessions s))"
proof -
  obtain at s1 where n: "now s = (at, s1)" by (cases "now s")
  have s1: "settled s s1" using settled_simps(1) [of s] by (simp add: n)
  define r where "r = (sl_session l)\<lparr>ls_thread := i, ls_turn := t, ls_updated := at\<rparr>"
  define s2 where "s2 = s1\<lparr>captured := AList.update sid (l\<lparr>sl_session := r\<rparr>) (captured s1)\<rparr>"
  obtain y s3 where u: "UpdateSession r [] s2 = (y, s3)" by (cases "UpdateSession r [] s2")
  note run = UpdateSession_run [OF u]
  have rid: "ls_id r = sid" by (simp add: r_def id)
  have r: "ls_thread r = i" "ls_turn r = t" "ls_state r = ls_state (sl_session l)" by (simp_all add: r_def)
  have s2: "view s2 = view s" "starting s2 = starting s" "linear_svc.more s2 = linear_svc.more s" "sessions s2 = sessions s"
    "captured s2 = AList.update sid (l\<lparr>sl_session := r\<rparr>) (captured s)"
    using s1 by (simp_all add: s2_def settled_def steady_def)
  have eq: "(x, s') = (case y of Inl e \<Rightarrow> (Some e, s3) | Inr updated \<Rightarrow> (if updated then None else Some ErrSessionGone, s3))"
    using assms(1) unfolding record_ids_def n Let_def prod.case r_def [symmetric] s2_def [symmetric] u
    by (simp split: sum.split)
  have s': "s' = s3" and x: "x = None \<longleftrightarrow> y = Inr True" using eq by (auto split: sum.splits if_splits)
  have st: "view s3 = view s" "starting s3 = starting s" "linear_svc.more s3 = linear_svc.more s"
    "captured s3 = AList.update sid (l\<lparr>sl_session := r\<rparr>) (captured s)"
    using run(1) s2 by (simp_all add: steady_def)
  have "if x = None
            then (\<exists>c. map_of (sessions s) sid \<noteq> None \<and> sessions s3 = AList.update sid (r\<lparr>ls_created := c\<rparr>) (sessions s))
            else sessions s3 = sessions s"
    using run(2,3) x s2(4) rid by (auto simp: settled_def)
  then show ?thesis using st r rid s' by (cases "x = None") (auto intro!: exI [of _ r])
qed

text \<open>What the session becomes when its start has been answered.\<close>

definition outcome_of :: "linear_session \<Rightarrow> err + api_thread \<Rightarrow> linear_session \<Rightarrow> bool" where
  "outcome_of l res r \<longleftrightarrow>
     (case res of
        Inr _ \<Rightarrow> ls_state r = SessStarted \<and> ls_thread r = ls_thread l \<and> ls_turn r = ls_turn l
      | Inl e \<Rightarrow>
          if e = ErrUncertain then ls_state r = SessStarted \<and> ls_thread r = ls_thread l \<and> ls_turn r = ls_turn l
          else if e = ErrNotConnected then ls_state r = SessAccepted \<and> ls_thread r = '''' \<and> ls_turn r = ''''
          else ls_state r = SessDone \<and> ls_thread r = ls_thread l \<and> ls_turn r = ls_turn l)"

lemma start_finish_moves:
  assumes "ls_id l = sid"
  shows "moves sid (\<lambda>old r. outcome_of l res r) s (start_finish env sid l res s)"
proof -
  obtain at s1 where n: "now s = (at, s1)" by (cases "now s")
  have s1: "settled s s1" using settled_simps(1) [of s] by (simp add: n)
  have act: "settled s s2" if "activity env sid p k b s1 = (row, s2)" for p k b row s2
    using settled_trans [OF s1 settled_simps(15) [of s1 env sid p k b]] by (simp add: that)
  have link: "settled s s3" if "settled s s2" "links_row sid x s2 = (row, s3)" for x s2 row s3
    using settled_trans [OF that(1) settled_simps(16) [of s2 sid x]] by (simp add: that(2))
  have fin: "moves sid (\<lambda>old r. outcome_of l res r) s (snd (UpdateSession r rows s2))"
    if "settled s s2" "ls_id r = sid" "\<And>c. outcome_of l res (r\<lparr>ls_created := c\<rparr>)" for r rows s2
    using moves_after [OF that(1) moves_UpdateSession [of s2 r "\<lambda>old r. outcome_of l res r" rows]] that(2,3) by simp
  show ?thesis
  proof (cases res)
    case (Inl e)
    obtain row s2 where a: "activity env sid ''uncertain'' contentThought uncertain_text s1 = (row, s2)"
      by (cases "activity env sid ''uncertain'' contentThought uncertain_text s1")
    obtain row' s3 where b: "activity env sid ''waiting-t3'' contentThought waitingForT3 s1 = (row', s3)"
      by (cases "activity env sid ''waiting-t3'' contentThought waitingForT3 s1")
    obtain row'' s4 where c: "activity env sid ''failed'' contentError (startFailed (le_describe env e)) s1 = (row'', s4)"
      by (cases "activity env sid ''failed'' contentError (startFailed (le_describe env e)) s1")
    consider "e = ErrUncertain" | "e = ErrNotConnected" | "e \<noteq> ErrUncertain" "e \<noteq> ErrNotConnected" by blast
    then show ?thesis
    proof cases
      case 1
      then show ?thesis unfolding start_finish_def n Inl using a
        by simp (rule fin [unfolded Inl 1]; use act [OF a] assms Inl 1 in \<open>simp add: outcome_of_def\<close>)
    next
      case 2
      then show ?thesis unfolding start_finish_def n Inl using b
        by simp (rule fin [unfolded Inl 2]; use act [OF b] assms Inl 2 in \<open>simp add: outcome_of_def\<close>)
    next
      case 3
      then show ?thesis unfolding start_finish_def n Inl using c
        by simp (rule fin [unfolded Inl]; use act [OF c] assms Inl 3 in \<open>simp add: outcome_of_def\<close>)
    qed
  next
    case (Inr th)
    obtain row s2 where a: "activity env sid ''started'' contentThought (started_text (ah_links th)) s1 = (row, s2)"
      by (cases "activity env sid ''started'' contentThought (started_text (ah_links th)) s1")
    show ?thesis
    proof (cases "ah_links th")
      case None
      show ?thesis
        by (simp add: start_finish_def n Inr a [unfolded None] None)
          (rule fin [unfolded Inr]; use act [OF a] assms Inr in \<open>simp add: outcome_of_def\<close>)
    next
      case (Some x)
      obtain row' s3 where b: "links_row sid x s2 = (row', s3)" by (cases "links_row sid x s2")
      show ?thesis
        by (simp add: start_finish_def n Inr a [unfolded Some] Some b)
          (rule fin [unfolded Inr]; use link [OF act [OF a] b] assms Inr in \<open>simp add: outcome_of_def\<close>)
    qed
  qed
qed

lemma update_update: "AList.update k b (AList.update k a xs) = AList.update k b xs"
  by (induction xs) auto

lemma moves_trans:
  assumes "moves i Q s s1" and "moves i Q s1 s2"
    and chain: "\<And>old r r'. map_of (sessions s) i = Some old \<Longrightarrow> Q old r \<Longrightarrow> Q r r' \<Longrightarrow> Q old r'"
  shows "moves i Q s s2"
proof -
  have "steady s s2" using assms(1,2) steady_trans unfolding moves_def by blast
  moreover have "sessions s2 = sessions s
      \<or> (\<exists>old r. map_of (sessions s) i = Some old \<and> ls_id r = i \<and> Q old r \<and> sessions s2 = AList.update i r (sessions s))"
  proof (cases "sessions s1 = sessions s")
    case True
    then show ?thesis using assms(2) by (auto simp: moves_def)
  next
    case False
    then obtain old r where r: "map_of (sessions s) i = Some old" "ls_id r = i" "Q old r"
        "sessions s1 = AList.update i r (sessions s)"
      using assms(1) unfolding moves_def by blast
    show ?thesis
    proof (cases "sessions s2 = sessions s1")
      case True
      then show ?thesis using r by auto
    next
      case no: False
      then obtain r' where "ls_id r' = i" "Q r r'" "sessions s2 = AList.update i r' (sessions s1)"
        using assms(2) r(4) unfolding moves_def by auto
      then show ?thesis using r chain [OF r(1,3)] by (auto simp: update_update)
    qed
  qed
  ultimately show ?thesis by (simp add: moves_def)
qed

text \<open>A visit of the reconciliation launches the session, or moves it on while it is watched.\<close>

definition launches_only :: "string \<Rightarrow> 'a linear_svc_scheme \<Rightarrow> 'a linear_svc_scheme \<Rightarrow> bool" where
  "launches_only i s s' \<longleftrightarrow>
     view s' = view s \<and> captured s' = captured s \<and> linear_svc.more s' = linear_svc.more s \<and> sessions s' = sessions s
     \<and> (starting s' = starting s \<or> i \<notin> set (starting s) \<and> starting s' = i # starting s)"

definition visited :: "'a linear_svc_scheme \<Rightarrow> linear_session \<Rightarrow> linear_session \<Rightarrow> linear_session \<Rightarrow> bool" where
  "visited s x old r \<longleftrightarrow>
     (if ls_state x = SessStarted then watched_on x r
      else ls_id x \<notin> set (starting s) \<and> watched_on old r
           \<and> (ls_state old = SessStarted \<or> ls_state old = SessStarting \<and> ls_thread old \<noteq> ''''))"

lemma launch_only: "launches_only i s (launch i s)"
  by (simp add: launches_only_def launch_def)

lemma launches_after: "settled s s1 \<Longrightarrow> launches_only i s1 s2 \<Longrightarrow> launches_only i s s2"
  by (auto simp: launches_only_def settled_def steady_def)

lemma GetSession_run: "GetSession i s = (Inr r, s') \<Longrightarrow> map_of (sessions s) i = Some r"
  by (auto simp: GetSession_def Let_def io_step_def split: if_splits option.splits)

lemma visit_run:
  assumes own: "\<And>i r. map_of (sessions s) i = Some r \<Longrightarrow> ls_id r = i"
    and run: "reconcile_session env x (w, s) = (w', s')"
  shows "launches_only (ls_id x) s s' \<or> moves (ls_id x) (visited s x) s s'"
proof (cases "ls_state x")
  case SessAccepted
  then show ?thesis using run launch_only by (auto simp: reconcile_session_def)
next
  case SessStarted
  have "moves (ls_id x) (visited s x) s (observe_session env x s)"
    by (rule moves_mono [OF observe_moves [OF SessStarted]]) (simp add: visited_def SessStarted)
  then show ?thesis using run SessStarted by (auto simp: reconcile_session_def reconcile_started_def)
next
  case SessDone
  then show ?thesis using run by (auto simp: reconcile_session_def launches_only_def)
next
  case SessStarting
  show ?thesis
  proof (cases "ls_id x \<in> set (starting s)")
    case True
    then show ?thesis using run SessStarting by (auto simp: reconcile_session_def launches_only_def)
  next
    case idle: False
    obtain g s1 where g: "GetSession (ls_id x) s = (g, s1)" by (cases "GetSession (ls_id x) s")
    have s1: "settled s s1" using settled_simps(9) [of s "ls_id x"] by (simp add: g)
    show ?thesis
    proof (cases g)
      case (Inl e)
      then show ?thesis using run SessStarting idle g moves_settled [OF s1] by (simp add: reconcile_session_def)
    next
      case (Inr fresh)
      have fresh: "map_of (sessions s) (ls_id x) = Some fresh" using GetSession_run g Inr by blast
      have id: "ls_id fresh = ls_id x" using own [OF fresh] .
      note eq = run [unfolded reconcile_session_def prod.case Let_def SessStarting session_state.case if_not_P [OF idle] g Inr sum.case]
      consider (started) "ls_state fresh = SessStarted" | (other) "ls_state fresh = SessAccepted \<or> ls_state fresh = SessDone"
        | (owed) "ls_state fresh = SessStarting" "ls_thread fresh = ''''"
        | (bound) "ls_state fresh = SessStarting" "ls_thread fresh \<noteq> ''''"
        by (cases "ls_state fresh") auto
      then show ?thesis
      proof cases
        case started
        have "moves (ls_id x) (visited s x) s1 (observe_session env fresh s1)"
          using observe_moves [OF started, of s1 env] unfolding id
          by (rule moves_mono) (use fresh s1 idle started SessStarting in \<open>auto simp: visited_def settled_def\<close>)
        then show ?thesis
          using eq started moves_after [OF s1] by (auto simp: reconcile_started_def)
      next
        case other
        then show ?thesis using eq moves_settled [OF s1] by auto
      next
        case owed
        then show ?thesis using eq launches_after [OF s1 launch_only] id by auto
      next
        case bound
        obtain at s2 where n: "now s1 = (at, s2)" by (cases "now s1")
        have s2: "settled s s2" using settled_trans [OF s1 settled_simps(1) [of s1]] by (simp add: n)
        define r where "r = fresh\<lparr>ls_state := SessStarted, ls_prompt := '''', ls_updated := at\<rparr>"
        obtain row s3 where a: "activity env (ls_id r) ''uncertain'' contentThought uncertain_text s2 = (row, s3)"
          by (cases "activity env (ls_id r) ''uncertain'' contentThought uncertain_text s2")
        have s3: "settled s s3"
          using settled_trans [OF s2 settled_simps(15) [of s2 env "ls_id r" "''uncertain''" contentThought uncertain_text]]
          by (simp add: a)
        obtain y s4 where u: "UpdateSession r [row] s3 = (y, s4)" by (cases "UpdateSession r [row] s3")
        have rid: "ls_id r = ls_id x" and rs: "ls_state r = SessStarted" and rt: "ls_thread r = ls_thread fresh" "ls_turn r = ls_turn fresh"
          by (simp_all add: r_def id)
        define Q where "Q = (\<lambda>(old :: linear_session) r'. watched_on r r' \<and> map_of (sessions s) (ls_id x) = Some fresh)"
        have "moves (ls_id r) (\<lambda>old r'. watched_on r r') s3 s4"
          using moves_UpdateSession [of s3 r "\<lambda>old r'. watched_on r r'" "[row]"] rs by (simp add: u watched_on_def)
        then have first: "moves (ls_id x) Q s s4"
          using moves_after [OF s3, of "ls_id x" Q s4] fresh by (simp add: Q_def rid)
        have "moves (ls_id x) Q s4 (observe_session env r s4)"
          using observe_moves [OF rs, of s4 env] fresh by (simp add: Q_def rid)
        then have second: "moves (ls_id x) Q s (observe_session env r s4)"
          by (rule moves_trans [OF first]) (simp add: Q_def)
        have weaken: "moves (ls_id x) Q s t \<Longrightarrow> moves (ls_id x) (visited s x) s t" for t
          by (erule moves_mono) (use fresh idle bound SessStarting rt in \<open>auto simp: visited_def Q_def watched_on_def\<close>)
        have "s' = s4 \<or> s' = observe_session env r s4"
          using eq bound unfolding n prod.case r_def [symmetric] a u
          by (auto simp: reconcile_started_def split: sum.splits)
        then show ?thesis using weaken [OF first] weaken [OF second] by blast
      qed
    qed
  qed
qed

end
