(* ===== verification/LinearProps.thy ===== *)
theory LinearProps
  imports LinearFrame
begin

text \<open>
  The Linear Integration over whole runs: the session loop with its goroutines, the sender, restarts and the rest of the
  server interleave, and no session gets a second conversation.
\<close>

declare map_of_eq_Some_iff [simp del] Some_eq_map_of_iff [simp del]

subsection \<open>Runs of the session loop and its goroutines\<close>

text \<open>
  The rest of the state of a run: the sessions the current pass has still to visit, the coordinator's answers whose
  outcome is not recorded yet, and, as a ghost, every dispatch of a start with how it ended.
\<close>

record linear_run = linear_svc +
  pass :: "linear_session list"
  answers :: "(string \<times> (err + api_thread)) list"
  dispatches :: "(string \<times> err option) list"

text \<open>The environment with its dispatches traced; nothing else of it changes.\<close>

definition traced_dispatch ::
  "string \<Rightarrow> 'b linear_run_scheme prepared_thread \<Rightarrow> 'b linear_run_scheme \<Rightarrow> err option \<times> 'b linear_run_scheme" where
  "traced_dispatch sid pt s = (let (e, s) = pt_dispatch pt s in (e, s\<lparr>dispatches := (sid, e) # dispatches s\<rparr>))"

definition traced :: "string \<Rightarrow> 'b linear_run_scheme linear_env \<Rightarrow> 'b linear_run_scheme linear_env" where
  "traced sid env = env\<lparr>le_resolve := \<lambda>i a.
     case le_resolve env i a of
       Inl e \<Rightarrow> Inl e
     | Inr prepare \<Rightarrow> Inr (\<lambda>params d s.
         case prepare params d s of
           (Inl e, s) \<Rightarrow> (Inl e, s)
         | (Inr pt, s) \<Rightarrow> (Inr (pt\<lparr>pt_dispatch := traced_dispatch sid pt\<rparr>), s))\<rparr>"

text \<open>Waiting for a dispatch leaves the Integration's tables and the threads' ids alone too.\<close>

definition discreet ::
  "(string \<Rightarrow> string \<Rightarrow> err + (thread_create_params \<Rightarrow> string \<Rightarrow> 'a thread_svc_scheme
      \<Rightarrow> (err + 'a thread_svc_scheme prepared_thread) \<times> 'a thread_svc_scheme)) \<Rightarrow> bool" where
  "discreet resolve \<longleftrightarrow>
     (\<forall>i a prepare params d s pt s'. resolve i a = Inr prepare \<longrightarrow> fst (prepare params d s) = Inr pt
        \<longrightarrow> calm s' (snd (pt_dispatch pt s')))"

definition crashed :: "'b linear_run_scheme \<Rightarrow> 'b linear_run_scheme" where
  "crashed s = s\<lparr>starting := [], captured := [], answers := [], pass := []\<rparr>"

definition same_tables :: "'b linear_run_scheme \<Rightarrow> 'b linear_run_scheme \<Rightarrow> bool" where
  "same_tables s s' \<longleftrightarrow>
     sessions s' = sessions s \<and> starting s' = starting s \<and> captured s' = captured s \<and> pass s' = pass s
     \<and> answers s' = answers s \<and> dispatches s' = dispatches s \<and> (named s \<longrightarrow> named s')"

text \<open>
  One step: a delivery processed; a pass listed, or one of its sessions visited; a start claimed, given up, answered, or
  recorded; a call sent, receipts pruned; the process lost and started again at any moment; or whatever the rest of the
  server does.
\<close>

inductive linear_step :: "'b linear_run_scheme linear_env \<Rightarrow> 'b linear_run_scheme \<Rightarrow> 'b linear_run_scheme \<Rightarrow> bool"
  for env where
  delivers: "linear_step env s (snd (Process_linear env d s))"
| lists: "pass s = [] \<Longrightarrow> OpenSessions s = (Inr rs, s') \<Longrightarrow> linear_step env s (s'\<lparr>pass := rs\<rparr>)"
| visits: "pass s = x # xs \<Longrightarrow> reconcile_session env x (w, s\<lparr>pass := xs\<rparr>) = (w', s') \<Longrightarrow> linear_step env s s'"
| claims: "sid \<in> set (starting s) \<Longrightarrow> local_of sid s = None \<Longrightarrow> start_claim sid s = (True, s') \<Longrightarrow> linear_step env s s'"
| gives_up: "sid \<in> set (starting s) \<Longrightarrow> local_of sid s = None \<Longrightarrow> start_claim sid s = (False, s')
    \<Longrightarrow> linear_step env s (launch_done sid s')"
| starts: "local_of sid s = Some l \<Longrightarrow> map_of (answers s) sid = None \<Longrightarrow> start_thread (traced sid env) sid l s = (res, s')
    \<Longrightarrow> linear_step env s (s'\<lparr>answers := AList.update sid res (answers s')\<rparr>)"
| finishes: "local_of sid s = Some l \<Longrightarrow> map_of (answers s) sid = Some res
    \<Longrightarrow> start_finish env sid (sl_session l) res s = s'
    \<Longrightarrow> linear_step env s (launch_done sid (s'\<lparr>answers := AList.delete sid (answers s')\<rparr>))"
| sends: "linear_step env s (send_call env row s)"
| prunes: "linear_step env s (prune_calls s)"
| restarts: "linear_step env s (crashed s)"
| others: "same_tables s s' \<Longrightarrow> linear_step env s s'"

inductive_cases linear_stepE: "linear_step env s s'"

text \<open>The dispatches of a session that may have created its conversation: all but those that found T3 Code gone.\<close>

definition counted :: "'b linear_run_scheme \<Rightarrow> string \<Rightarrow> (string \<times> err option) list" where
  "counted s sid = filter (\<lambda>(i, e). i = sid \<and> e \<noteq> Some ErrNotConnected) (dispatches s)"

text \<open>A start in flight: its row, its captured variables, and the answer it has got.\<close>

definition flight :: "linear_session \<Rightarrow> linear_session \<Rightarrow> (err + api_thread) option \<Rightarrow> bool" where
  "flight r l a \<longleftrightarrow> ls_state r = SessStarting \<and> ls_state l = SessStarting \<and>
     (case a of
        None \<Rightarrow> ls_thread r = ''''
      | Some res \<Rightarrow>
          (ls_thread r \<noteq> '''' \<longrightarrow> ls_thread l = ls_thread r \<and> ls_turn l = ls_turn r)
          \<and> ((\<exists>t. res = Inr t) \<or> res = Inl ErrUncertain \<longrightarrow> ls_thread r \<noteq> ''''))"

definition bound :: "linear_session \<Rightarrow> bool" where
  "bound r \<longleftrightarrow> ls_state r = SessStarted \<or> ls_state r = SessDone \<or> ls_state r = SessStarting \<and> ls_thread r \<noteq> ''''"

definition rows_ok :: "'b linear_run_scheme \<Rightarrow> bool" where
  "rows_ok s \<longleftrightarrow> distinct (map fst (sessions s))
     \<and> (\<forall>i r. map_of (sessions s) i = Some r \<longrightarrow> ls_id r = i \<and> (ls_state r = SessAccepted \<longrightarrow> ls_thread r = ''''))"

definition flights_ok :: "'b linear_run_scheme \<Rightarrow> bool" where
  "flights_ok s \<longleftrightarrow>
     (\<forall>i l. map_of (captured s) i = Some l \<longrightarrow> i \<in> set (starting s) \<and> ls_id (sl_session l) = i
        \<and> (\<exists>r. map_of (sessions s) i = Some r \<and> flight r (sl_session l) (map_of (answers s) i)))
     \<and> (\<forall>i. map_of (answers s) i \<noteq> None \<longrightarrow> map_of (captured s) i \<noteq> None)"

definition pass_ok :: "'b linear_run_scheme \<Rightarrow> bool" where
  "pass_ok s \<longleftrightarrow> distinct (map ls_id (pass s))
     \<and> (\<forall>x \<in> set (pass s). ls_state x \<noteq> SessDone \<and> (ls_state x = SessStarted \<longrightarrow> map_of (sessions s) (ls_id x) = Some x))"

definition counts_ok :: "'b linear_run_scheme \<Rightarrow> bool" where
  "counts_ok s \<longleftrightarrow>
     (\<forall>i. length (counted s i) \<le> 1
        \<and> (counted s i \<noteq> [] \<longrightarrow> (\<exists>r. map_of (sessions s) i = Some r \<and> bound r) \<and> map_of (answers s) i \<noteq> Some (Inl ErrNotConnected)))"

definition linear_inv :: "'b linear_run_scheme \<Rightarrow> bool" where
  "linear_inv s \<longleftrightarrow> named s \<and> rows_ok s \<and> flights_ok s \<and> pass_ok s \<and> counts_ok s"

subsection \<open>The invariant\<close>

lemma run_more:
  fixes s :: "'b linear_run_scheme"
  assumes "linear_svc.more s' = linear_svc.more s"
  shows "pass s' = pass s" "answers s' = answers s" "dispatches s' = dispatches s"
  using assms by (cases s rule: linear_run.cases_scheme; cases s' rule: linear_run.cases_scheme; simp)+

lemma named_view: "view s' = view s \<Longrightarrow> named s' \<longleftrightarrow> named s"
  by (simp add: named_def)

lemma settled_tables: "settled s s' \<Longrightarrow> same_tables s s'" for s :: "'b linear_run_scheme"
  using run_more [of s' s] named_view [of s' s] by (simp add: same_tables_def settled_def steady_def)

lemma calm_same_tables: "calm s s' \<Longrightarrow> same_tables s s'" for s :: "'b linear_run_scheme"
  using run_more [of s' s] calm_tables [of s s'] by (simp add: same_tables_def calm_def)

lemma inv_same: "same_tables s s' \<Longrightarrow> linear_inv s \<Longrightarrow> linear_inv s'"
  by (simp add: same_tables_def linear_inv_def rows_ok_def flights_ok_def pass_ok_def counts_ok_def counted_def)

text \<open>One row is written: that of a session no start is in flight for and that the pass will not visit.\<close>

lemma inv_write:
  fixes s :: "'b linear_run_scheme"
  assumes inv: "linear_inv s" and row: "ls_id r = i" "ls_state r = SessAccepted \<Longrightarrow> ls_thread r = ''''"
    and free: "map_of (captured s) i = None"
    and pass: "\<And>x. x \<in> set (pass s) \<Longrightarrow> ls_id x = i \<Longrightarrow> ls_state x \<noteq> SessStarted"
    and count: "counted s i = [] \<or> bound r"
    and s': "view s' = view s" "starting s' = starting s" "captured s' = captured s" "linear_svc.more s' = linear_svc.more s"
      "sessions s' = AList.update i r (sessions s)"
  shows "linear_inv s'"
proof -
  note more = run_more [OF s'(4)]
  have "rows_ok s'"
    using inv row by (auto simp: linear_inv_def rows_ok_def s')
  moreover have "flights_ok s'"
    using inv free by (auto simp: linear_inv_def flights_ok_def s' more)
  moreover have "pass_ok s'"
    using inv pass by (auto simp: linear_inv_def pass_ok_def s' more)
  moreover have "counts_ok s'"
    using inv count unfolding linear_inv_def counts_ok_def counted_def s' more by auto
  ultimately show ?thesis using inv named_view [OF s'(1)] by (simp add: linear_inv_def)
qed

lemma inv_own: "linear_inv s \<Longrightarrow> map_of (sessions s) i = Some r \<Longrightarrow> ls_id r = i"
  by (simp add: linear_inv_def rows_ok_def)

lemma inv_row_key: "linear_inv s \<Longrightarrow> map_of (sessions s) i = None \<Longrightarrow> counted s i = [] \<and> map_of (captured s) i = None"
  by (auto simp: linear_inv_def counts_ok_def flights_ok_def) (metis option.distinct(1) option.exhaust)+

lemma inv_unbound: "linear_inv s \<Longrightarrow> map_of (sessions s) i = Some r \<Longrightarrow> \<not> bound r \<Longrightarrow> counted s i = []"
  unfolding linear_inv_def counts_ok_def by fastforce

lemma inv_adds:
  fixes s :: "'b linear_run_scheme"
  assumes inv: "linear_inv s" and a: "adds s s'"
  shows "linear_inv s'"
proof (cases "sessions s' = sessions s")
  case True
  then have "settled s s'" using a by (simp add: adds_def settled_def)
  then show ?thesis using inv_same settled_tables inv by blast
next
  case False
  then obtain r where r: "map_of (sessions s) (ls_id r) = None" "ls_thread r = ''''"
      "sessions s' = AList.update (ls_id r) r (sessions s)" and st: "steady s s'"
    using a by (auto simp: adds_def)
  note k = inv_row_key [OF inv r(1)]
  have "ls_state x \<noteq> SessStarted" if "x \<in> set (pass s)" "ls_id x = ls_id r" for x
    using inv that r(1) by (auto simp: linear_inv_def pass_ok_def)
  then show ?thesis
    using inv_write [OF inv, of r "ls_id r" s'] k r st by (simp add: steady_def)
qed

lemma inv_moves:
  fixes s :: "'b linear_run_scheme"
  assumes inv: "linear_inv s" and m: "moves i Q s s'"
    and Q: "\<And>old r. map_of (sessions s) i = Some old \<Longrightarrow> Q old r \<Longrightarrow> bound r"
    and free: "\<And>old r. map_of (sessions s) i = Some old \<Longrightarrow> Q old r \<Longrightarrow> map_of (captured s) i = None"
    and pass: "i \<notin> ls_id ` set (pass s)"
  shows "linear_inv s'"
proof (cases "sessions s' = sessions s")
  case True
  then have "settled s s'" using m by (simp add: moves_def settled_def)
  then show ?thesis using inv_same settled_tables inv by blast
next
  case False
  then obtain old r where r: "map_of (sessions s) i = Some old" "ls_id r = i" "Q old r"
      "sessions s' = AList.update i r (sessions s)" and st: "steady s s'"
    using m unfolding moves_def by blast
  have b: "bound r" "map_of (captured s) i = None" using Q [OF r(1,3)] free [OF r(1,3)] by auto
  then show ?thesis
    using inv_write [OF inv r(2)] r(4) st pass by (force simp: steady_def bound_def)
qed

lemma inv_lists:
  fixes s :: "'b linear_run_scheme"
  assumes inv: "linear_inv s" and "OpenSessions s = (Inr rs, s')"
  shows "linear_inv (s'\<lparr>pass := rs\<rparr>)"
proof -
  have s': "linear_inv s'" using inv_same [OF settled_tables inv] settled_simps(10) [of s] assms(2) by simp
  have rs: "rs = ListOpenLinearSessions (sessions s')"
    using assms(2) by (auto simp: OpenSessions_def Let_def io_step_def split: if_splits)
  have keys: "distinct (map fst (sessions s'))" and ids: "\<And>i r. map_of (sessions s') i = Some r \<Longrightarrow> ls_id r = i"
    using s' by (simp_all add: linear_inv_def rows_ok_def)
  have row: "map_of (sessions s') (ls_id r) = Some r" if "r \<in> snd ` set (sessions s')" for r
    using that keys ids by (auto simp: map_of_eq_Some_iff)
  have "map ls_id (map snd (sessions s')) = map fst (sessions s')"
    using keys ids by (auto simp: map_of_eq_Some_iff)
  then have "distinct (map ls_id (filter P (map snd (sessions s'))))" for P
    using keys distinct_map_filter by metis
  then have d: "distinct (map ls_id rs)"
    unfolding rs ListOpenLinearSessions_def by (simp add: distinct_map)
  have "ls_state x \<noteq> SessDone \<and> map_of (sessions s') (ls_id x) = Some x" if "x \<in> set rs" for x
    using that row by (auto simp: rs ListOpenLinearSessions_def)
  then show ?thesis
    using s' d by (simp add: linear_inv_def rows_ok_def flights_ok_def pass_ok_def counts_ok_def counted_def named_def)
qed

lemma inv_launches:
  fixes s :: "'b linear_run_scheme"
  assumes inv: "linear_inv s" and l: "launches_only i s s'"
  shows "linear_inv s'"
  using inv l run_more [of s' s] named_view [of s' s]
  by (auto simp: launches_only_def linear_inv_def rows_ok_def flights_ok_def pass_ok_def counts_ok_def counted_def)

lemma flight_starting:
  "linear_inv s \<Longrightarrow> map_of (captured s) i = Some l \<Longrightarrow>
     i \<in> set (starting s) \<and> (\<exists>r. map_of (sessions s) i = Some r \<and> ls_state r = SessStarting)"
  unfolding linear_inv_def flights_ok_def flight_def by blast

lemma inv_visits:
  fixes s :: "'b linear_run_scheme"
  assumes inv: "linear_inv s" and p: "pass s = x # xs"
    and run: "reconcile_session env x (w, s\<lparr>pass := xs\<rparr>) = (w', s')"
  shows "linear_inv s'"
proof -
  define s0 where "s0 = s\<lparr>pass := xs\<rparr>"
  have inv0: "linear_inv s0" and x: "ls_id x \<notin> ls_id ` set xs"
      "ls_state x = SessStarted \<Longrightarrow> map_of (sessions s0) (ls_id x) = Some x"
    using inv p by (auto simp: s0_def linear_inv_def rows_ok_def flights_ok_def pass_ok_def counts_ok_def counted_def named_def)
  have "launches_only (ls_id x) s0 s' \<or> moves (ls_id x) (visited s0 x) s0 s'"
    by (rule visit_run [OF inv_own [OF inv0] run [folded s0_def]])
  then show ?thesis
  proof
    assume "launches_only (ls_id x) s0 s'"
    then show ?thesis by (rule inv_launches [OF inv0])
  next
    assume m: "moves (ls_id x) (visited s0 x) s0 s'"
    show ?thesis
    proof (rule inv_moves [OF inv0 m])
      fix old r assume "map_of (sessions s0) (ls_id x) = Some old" "visited s0 x old r"
      then show "bound r" by (auto simp: visited_def watched_on_def bound_def split: if_splits)
    next
      fix old r assume a: "map_of (sessions s0) (ls_id x) = Some old" "visited s0 x old r"
      show "map_of (captured s0) (ls_id x) = None"
      proof (rule ccontr)
        assume "map_of (captured s0) (ls_id x) \<noteq> None"
        then have "ls_id x \<in> set (starting s0)" "ls_state old = SessStarting"
          using flight_starting [OF inv0, of "ls_id x"] a(1) by auto
        then show False using a x(2) by (auto simp: visited_def split: if_splits)
      qed
    next
      show "ls_id x \<notin> ls_id ` set (pass s0)" using x(1) by (simp add: s0_def)
    qed
  qed
qed

lemma inv_claims:
  fixes s :: "'b linear_run_scheme"
  assumes inv: "linear_inv s" and sid: "sid \<in> set (starting s)" "local_of sid s = None"
    and run: "start_claim sid s = (True, s')"
  shows "linear_inv s'"
proof -
  note c = start_claim_run [OF run inv_own [OF inv]]
  obtain old r l where o: "map_of (sessions s) sid = Some old" "claimed old r" "ls_id r = sid"
      "sessions s' = AList.update sid r (sessions s)" "captured s' = AList.update sid l (captured s)"
      "ls_id (sl_session l) = sid" "ls_state (sl_session l) = SessStarting"
    using c(5) by blast
  define s0 where "s0 = s'\<lparr>captured := captured s\<rparr>"
  have none: "map_of (captured s) sid = None" "map_of (answers s) sid = None"
    using sid(2) inv by (auto simp: local_of_def linear_inv_def flights_ok_def) 
  have "counted s sid = []"
    by (rule inv_unbound [OF inv o(1)]) (use o(2) in \<open>auto simp: claimed_def bound_def\<close>)
  moreover have "ls_state x \<noteq> SessStarted" if "x \<in> set (pass s)" "ls_id x = sid" for x
    using inv that o(1,2) by (auto simp: linear_inv_def pass_ok_def claimed_def)
  ultimately have inv0: "linear_inv s0"
    using inv_write [OF inv o(3) _ none(1), of s0] o(2,4) c(1-3) by (simp add: s0_def claimed_def)
  have s': "s' = s0\<lparr>captured := AList.update sid l (captured s0)\<rparr>" by (simp add: s0_def o(5))
  have "map_of (answers s0) sid = None" using none(2) run_more [OF c(3)] by (simp add: s0_def)
  moreover have "map_of (sessions s0) sid = Some r" by (simp add: s0_def o(4))
  moreover have "sid \<in> set (starting s0)" using sid(1) c(2) by (simp add: s0_def)
  ultimately show ?thesis
    using inv0 o(2,6,7) unfolding s'
    by (auto simp: linear_inv_def rows_ok_def flights_ok_def pass_ok_def counts_ok_def counted_def named_def flight_def claimed_def)
qed

lemma inv_launch_done:
  assumes "linear_inv s" and "map_of (answers s) sid = None"
  shows "linear_inv (launch_done sid s)"
  using assms
  by (auto simp: launch_done_def linear_inv_def rows_ok_def flights_ok_def pass_ok_def counts_ok_def counted_def named_def)

lemma inv_gives_up:
  fixes s :: "'b linear_run_scheme"
  assumes inv: "linear_inv s" and sid: "local_of sid s = None" and run: "start_claim sid s = (False, s')"
  shows "linear_inv (launch_done sid s')"
proof -
  have "same_tables s s'" using start_claim_run(4) [OF run inv_own [OF inv]] settled_tables by blast
  moreover from this have "map_of (answers s') sid = None"
    using inv sid by (auto simp: same_tables_def local_of_def linear_inv_def flights_ok_def)
  ultimately show ?thesis using inv_launch_done inv_same inv by blast
qed

lemma polite_traced: "polite (le_resolve env) \<Longrightarrow> polite (le_resolve (traced sid env))"
proof -
  assume p: "polite (le_resolve env)"
  have "(case le_resolve (traced sid env) i a of
              Inl e \<Rightarrow> e \<noteq> ErrUncertain
            | Inr prepare \<Rightarrow> \<forall>params d s. calm s (snd (prepare params d s)) \<and> fst (prepare params d s) \<noteq> Inl ErrUncertain)" for i a
  proof (cases "le_resolve env i a")
    case (Inl e)
    then show ?thesis using polite_refuses [OF p Inl] by (simp add: traced_def)
  next
    case (Inr prepare)
    show ?thesis
      using polite_prepares [OF p Inr]
      by (simp add: traced_def Inr split: prod.split sum.split) blast
  qed
  then show ?thesis by (simp add: polite_def)
qed

text \<open>A dispatch of a traced environment is one of the environment, noted.\<close>

lemma traced_dispatches:
  assumes d: "discreet (le_resolve env)"
    and r: "le_resolve (traced sid env) i a = Inr prepare" "fst (prepare params dir sp) = Inr pt"
    and run: "pt_dispatch pt s = (e, s')"
  shows "\<exists>s1. calm s s1 \<and> s' = s1\<lparr>dispatches := (sid, e) # dispatches s1\<rparr>"
proof -
  obtain raw where raw: "le_resolve env i a = Inr raw"
      "prepare = (\<lambda>params d s. case raw params d s of (Inl e, s) \<Rightarrow> (Inl e, s)
         | (Inr pt, s) \<Rightarrow> (Inr (pt\<lparr>pt_dispatch := traced_dispatch sid pt\<rparr>), s))"
    using r(1) by (auto simp: traced_def split: sum.splits)
  obtain y sq where y: "raw params dir sp = (y, sq)" by (cases "raw params dir sp")
  obtain pt0 where pt0: "y = Inr pt0" "pt = pt0\<lparr>pt_dispatch := traced_dispatch sid pt0\<rparr>"
    using r(2) raw(2) y by (cases y) auto
  obtain e0 s1 where di: "pt_dispatch pt0 s = (e0, s1)" by (cases "pt_dispatch pt0 s")
  have "calm s s1"
    using d raw(1) y pt0(1) di unfolding discreet_def by (metis fst_conv snd_conv)
  moreover have "e0 = e \<and> s' = s1\<lparr>dispatches := (sid, e) # dispatches s1\<rparr>"
    using run di by (auto simp: pt0(2) traced_dispatch_def)
  ultimately show ?thesis by blast
qed

lemma inv_answered:
  fixes s :: "'b linear_run_scheme"
  assumes inv: "linear_inv s" and l: "map_of (captured s) sid = Some l" and a: "map_of (answers s) sid = None"
    and n: "named s'" and same: "starting s' = starting s" "pass s' = pass s" "answers s' = answers s"
    and l': "map_of (captured s') = (map_of (captured s))(sid \<mapsto> l')" "ls_id (sl_session l') = sid"
    and r: "distinct (map fst (sessions s'))" "map_of (sessions s') = (map_of (sessions s))(sid \<mapsto> r)" "ls_id r = sid"
      "flight r (sl_session l') (Some res)"
    and ds: "dispatches s' = dispatches s
      \<or> (\<exists>e. dispatches s' = (sid, e) # dispatches s
            \<and> (e \<noteq> Some ErrNotConnected \<longrightarrow> ls_thread r \<noteq> '''' \<and> res \<noteq> Inl ErrNotConnected))"
  shows "linear_inv (s'\<lparr>answers := AList.update sid res (answers s')\<rparr>)"
proof -
  obtain r0 where r0: "map_of (sessions s) sid = Some r0" "flight r0 (sl_session l) None" and st: "sid \<in> set (starting s)"
    using inv l a unfolding linear_inv_def flights_ok_def by metis
  have c0: "counted s sid = []"
    by (rule inv_unbound [OF inv r0(1)]) (use r0(2) in \<open>auto simp: flight_def bound_def\<close>)
  have rs: "ls_state r = SessStarting" using r(4) by (simp add: flight_def)
  have "rows_ok s'" using inv r(1,2,3) rs by (auto simp: linear_inv_def rows_ok_def)
  moreover have "flights_ok (s'\<lparr>answers := AList.update sid res (answers s')\<rparr>)"
    using inv l' r(2,4) st same unfolding linear_inv_def flights_ok_def by auto
  moreover have "pass_ok s'"
  proof -
    have "ls_state x \<noteq> SessStarted" if "x \<in> set (pass s)" "ls_id x = sid" for x
      using inv that r0 by (auto simp: linear_inv_def pass_ok_def flight_def)
    then show ?thesis using inv same(2) r(2) by (auto simp: linear_inv_def pass_ok_def)
  qed
  moreover have "counts_ok (s'\<lparr>answers := AList.update sid res (answers s')\<rparr>)"
  proof -
    have other: "counted s' i = counted s i" if "i \<noteq> sid" for i using ds that by (auto simp: counted_def)
    have own: "counted s' sid = [] \<or> length (counted s' sid) = 1 \<and> ls_thread r \<noteq> '''' \<and> res \<noteq> Inl ErrNotConnected"
      using ds c0 by (auto simp: counted_def)
    have b: "ls_thread r \<noteq> '''' \<Longrightarrow> bound r" using rs by (simp add: bound_def)
    have "length (counted s' i) \<le> 1
        \<and> (counted s' i \<noteq> [] \<longrightarrow> (\<exists>r. map_of (sessions s') i = Some r \<and> bound r)
             \<and> map_of (AList.update sid res (answers s')) i \<noteq> Some (Inl ErrNotConnected))" for i
    proof (cases "i = sid")
      case True
      then show ?thesis using own b r(2) by auto
    next
      case False
      then show ?thesis using inv other r(2) same(3) by (auto simp: linear_inv_def counts_ok_def)
    qed
    then show ?thesis by (simp add: counts_ok_def counted_def)
  qed
  ultimately show ?thesis
    using n by (simp add: linear_inv_def rows_ok_def pass_ok_def named_def)
qed

lemma inv_starts:
  fixes s :: "'b linear_run_scheme"
  assumes inv: "linear_inv s" and pol: "polite (le_resolve env)" and dis: "discreet (le_resolve env)"
    and l: "local_of sid s = Some l" and a: "map_of (answers s) sid = None"
    and run: "start_thread (traced sid env) sid l s = (res, s')"
  shows "linear_inv (s'\<lparr>answers := AList.update sid res (answers s')\<rparr>)"
proof -
  have l: "map_of (captured s) sid = Some l" using l by (simp add: local_of_def)
  obtain r0 where r0: "map_of (sessions s) sid = Some r0" "ls_state r0 = SessStarting" "ls_thread r0 = ''''"
      and lid: "ls_id (sl_session l) = sid" and lst: "ls_state (sl_session l) = SessStarting"
    using inv l a unfolding linear_inv_def flights_ok_def flight_def by fastforce
  have id0: "ls_id r0 = sid" by (rule inv_own [OF inv r0(1)])
  have named: "named s" and dist: "distinct (map fst (sessions s))" using inv by (simp_all add: linear_inv_def rows_ok_def)
  have triv: "map_of (captured s) = (map_of (captured s))(sid \<mapsto> l)" "map_of (sessions s) = (map_of (sessions s))(sid \<mapsto> r0)"
    using l r0(1) by auto
  show ?thesis
  proof (cases rule: StartThread_run [OF polite_traced [OF pol] named run [unfolded start_thread_def],
      case_names early unrecorded dispatched])
    case (early e)
    note t = calm_same_tables [OF early(3)]
    show ?thesis
      by (rule inv_answered [OF inv l a, of s' l r0]; (use t triv id0 lid lst r0 early(1,2) dist named in
            \<open>simp add: same_tables_def flight_def\<close>)?)
  next
    case (unrecorded i t s1 x s2)
    note t1 = calm_same_tables [OF unrecorded(1)] and t2 = calm_same_tables [OF unrecorded(3)]
    obtain r where rec: "view s2 = view s1" "starting s2 = starting s1" "linear_svc.more s2 = linear_svc.more s1"
        "ls_id r = sid" "ls_state r = ls_state (sl_session l)" "captured s2 = AList.update sid (l\<lparr>sl_session := r\<rparr>) (captured s1)" "sessions s2 = sessions s1"
      using record_ids_run [OF unrecorded(2) lid] by auto
    show ?thesis
      by (rule inv_answered [OF inv l a, of s' "l\<lparr>sl_session := r\<rparr>" r0];
          (use t1 t2 rec run_more [OF rec(3)] named_view [OF rec(1)] triv id0 lid lst r0 unrecorded(4) dist named in
            \<open>simp add: same_tables_def flight_def\<close>)?)
  next
    case (dispatched prepare d sp pt i t s1 s2 e s3)
    note t1 = calm_same_tables [OF dispatched(4)] and t2 = calm_same_tables [OF dispatched(7)]
    obtain r c where rec: "view s2 = view s1" "starting s2 = starting s1" "linear_svc.more s2 = linear_svc.more s1"
        "ls_id r = sid" "captured s2 = AList.update sid (l\<lparr>sl_session := r\<rparr>) (captured s1)"
        "ls_thread r = i" "ls_turn r = t" "ls_state r = ls_state (sl_session l)"
        "sessions s2 = AList.update sid (r\<lparr>ls_created := c\<rparr>) (sessions s1)"
      using record_ids_run [OF dispatched(5) lid] by auto
    obtain s2' where s3: "calm s2 s2'" "s3 = s2'\<lparr>dispatches := (sid, e) # dispatches s2'\<rparr>"
      using traced_dispatches [OF dis dispatched(1,2,6)] by blast
    note t3 = calm_same_tables [OF s3(1)]

    have res: "e \<noteq> Some ErrNotConnected \<longrightarrow> res \<noteq> Inl ErrNotConnected"
      using dispatched(8) by (auto simp: Get_thread_def split: option.splits)
    note more = run_more [OF rec(3)]
    have eqs: "starting s' = starting s" "pass s' = pass s" "answers s' = answers s"
      "captured s' = AList.update sid (l\<lparr>sl_session := r\<rparr>) (captured s)"
      "sessions s' = AList.update sid (r\<lparr>ls_created := c\<rparr>) (sessions s)" "dispatches s' = (sid, e) # dispatches s"
      using t1 t2 t3 unfolding same_tables_def s3(2) by (simp_all add: rec(2,5,9) more)
    have "named s2" using t1 named named_view [OF rec(1)] by (simp add: same_tables_def)
    then have "named s3" using t3 named_view [of s3 s2'] by (simp add: same_tables_def s3(2))
    then have n': "named s'" using t2 by (simp add: same_tables_def)
    have fl: "flight (r\<lparr>ls_created := c\<rparr>) (sl_session (l\<lparr>sl_session := r\<rparr>)) (Some res)"
      using rec(6,8) lst dispatched(3) by (simp add: flight_def)
    have ds: "dispatches s' = dispatches s
      \<or> (\<exists>e. dispatches s' = (sid, e) # dispatches s
            \<and> (e \<noteq> Some ErrNotConnected \<longrightarrow> ls_thread (r\<lparr>ls_created := c\<rparr>) \<noteq> '''' \<and> res \<noteq> Inl ErrNotConnected))"
      using eqs(6) rec(6) dispatched(3) res by auto
    show ?thesis
      by (rule inv_answered [OF inv l a n' eqs(1-3) _ _ _ _ _ fl ds]) (simp_all add: eqs rec(4) dist)
  qed
qed

lemma inv_finishes:
  fixes s :: "'b linear_run_scheme"
  assumes inv: "linear_inv s" and l: "local_of sid s = Some l" and a: "map_of (answers s) sid = Some res"
    and run: "start_finish env sid (sl_session l) res s = s'"
  shows "linear_inv (launch_done sid (s'\<lparr>answers := AList.delete sid (answers s')\<rparr>))"
proof -
  have l: "map_of (captured s) sid = Some l" using l by (simp add: local_of_def)
  obtain r0 where r0: "map_of (sessions s) sid = Some r0" "ls_state r0 = SessStarting"
      and lid: "ls_id (sl_session l) = sid"
    using inv l a unfolding linear_inv_def flights_ok_def flight_def by fastforce
  define s0 where "s0 = launch_done sid (s\<lparr>answers := AList.delete sid (answers s)\<rparr>)"
  define t where "t = launch_done sid (s'\<lparr>answers := AList.delete sid (answers s')\<rparr>)"
  have inv0: "linear_inv s0"
    using inv by (auto simp: s0_def launch_done_def linear_inv_def rows_ok_def flights_ok_def pass_ok_def counts_ok_def
        counted_def named_def)
  have m: "moves sid (\<lambda>old r. outcome_of (sl_session l) res r) s s'"
    using start_finish_moves [OF lid, of res s env] run by simp
  then have st: "view s' = view s" "starting s' = starting s" "captured s' = captured s" "linear_svc.more s' = linear_svc.more s"
    by (simp_all add: moves_def steady_def)
  note more = run_more [OF st(4)]
  have t: "view t = view s0" "starting t = starting s0" "captured t = captured s0" "pass t = pass s0" "answers t = answers s0"
    "dispatches t = dispatches s0" "sessions t = sessions s'" "sessions s0 = sessions s"
    using st more by (simp_all add: t_def s0_def launch_done_def)
  have "linear_inv t"
  proof (cases "sessions s' = sessions s")
    case True
    then have "same_tables s0 t" using t named_view [of t s0] by (simp add: same_tables_def)
    then show ?thesis using inv_same inv0 by blast
  next
    case False
    then obtain r where r: "ls_id r = sid" "outcome_of (sl_session l) res r" "sessions s' = AList.update sid r (sessions s)"
      using m unfolding moves_def by blast
    have pass: "ls_state x \<noteq> SessStarted" if "x \<in> set (pass s0)" "ls_id x = sid" for x
      using inv0 that r0 t(8) by (auto simp: linear_inv_def pass_ok_def)
    have count: "counted s0 sid = [] \<or> bound r"
    proof (cases "res = Inl ErrNotConnected")
      case True
      then have "counted s sid = []" using inv a by (auto simp: linear_inv_def counts_ok_def)
      then show ?thesis by (simp add: counted_def s0_def launch_done_def)
    next
      case False
      then show ?thesis using r(2) by (auto simp: outcome_of_def bound_def split: sum.splits if_splits)
    qed
    have acc: "ls_state r = SessAccepted \<Longrightarrow> ls_thread r = ''''"
      using r(2) by (auto simp: outcome_of_def split: sum.splits if_splits)
    define w where "w = s0\<lparr>sessions := AList.update sid r (sessions s0)\<rparr>"
    have "linear_inv w"
      by (rule inv_write [OF inv0 r(1) acc _ pass count]) (simp_all add: w_def s0_def launch_done_def)
    moreover have "same_tables w t" using t r(3) named_view [of t w] by (simp add: same_tables_def w_def)
    ultimately show ?thesis using inv_same by blast
  qed
  then show ?thesis by (simp add: t_def)
qed

lemma inv_crashed: "linear_inv s \<Longrightarrow> linear_inv (crashed s)"
  by (auto simp: crashed_def linear_inv_def rows_ok_def flights_ok_def pass_ok_def counts_ok_def counted_def named_def)

lemma linear_step_inv:
  fixes s :: "'b linear_run_scheme"
  assumes "polite (le_resolve env)" and "discreet (le_resolve env)" and "linear_step env s s'" and inv: "linear_inv s"
  shows "linear_inv s'"
  using assms(3)
proof cases
  case (delivers d)
  then show ?thesis using inv_adds [OF inv Process_adds] by simp
next
  case (lists rs s1)
  then show ?thesis using inv_lists inv by blast
next
  case (visits x xs w w')
  then show ?thesis using inv_visits inv by blast
next
  case (claims sid)
  then show ?thesis using inv_claims inv by blast
next
  case (gives_up sid s1)
  then show ?thesis using inv_gives_up inv by blast
next
  case (starts sid l res s1)
  then show ?thesis using inv_starts inv assms(1,2) by blast
next
  case (finishes sid l res s1)
  then show ?thesis using inv_finishes inv by blast
next
  case (sends row)
  then show ?thesis using inv_same [OF settled_tables [OF settled_send_call] inv] by simp
next
  case prunes
  then show ?thesis using inv_same [OF settled_tables [OF settled_prune_calls] inv] by simp
next
  case restarts
  then show ?thesis using inv_crashed inv by blast
next
  case others
  then show ?thesis using inv_same inv by blast
qed

definition fresh_run :: "'b linear_run_scheme \<Rightarrow> bool" where
  "fresh_run s \<longleftrightarrow> named s \<and> sessions s = [] \<and> starting s = [] \<and> captured s = [] \<and> answers s = [] \<and> pass s = []
     \<and> dispatches s = []"

lemma fresh_run_inv: "fresh_run s \<Longrightarrow> linear_inv s"
  by (simp add: fresh_run_def linear_inv_def rows_ok_def flights_ok_def pass_ok_def counts_ok_def counted_def)

text \<open>What is relied on of the coordinator's parameters, as one hypothesis.\<close>

definition well_behaved :: "'b linear_run_scheme linear_env \<Rightarrow> bool" where
  "well_behaved env \<longleftrightarrow> polite (le_resolve env) \<and> discreet (le_resolve env)"

interpretation sessions: machine fresh_run "\<lambda>s s'. well_behaved env \<and> linear_step env s s'" linear_inv
  for env :: "'b linear_run_scheme linear_env"
  by unfold_locales (auto simp: well_behaved_def intro: fresh_run_inv linear_step_inv)

lemma linear_run_inv:
  assumes "well_behaved env" and "fresh_run s0" and "(linear_step env)\<^sup>*\<^sup>* s0 s"
  shows "linear_inv s"
proof -
  have "(\<lambda>s s'. well_behaved env \<and> linear_step env s s')\<^sup>*\<^sup>* s0 s" using assms(1,3) by simp
  then show ?thesis using sessions.reach_inv assms(2) by blast
qed

text \<open>
  C29. One conversation per mention: however deliveries, passes, goroutines, sends and restarts interleave, at most one
  dispatch of a session's start may have reached T3 Code, and from then on no start of that session is owed.
\<close>

theorem one_conversation_per_session:
  assumes "well_behaved env" and "fresh_run s0" and "(linear_step env)\<^sup>*\<^sup>* s0 s"
  shows "length (filter (\<lambda>(i, e). i = sid \<and> e \<noteq> Some ErrNotConnected) (dispatches s)) \<le> 1
    \<and> ((\<exists>e. (sid, e) \<in> set (dispatches s) \<and> e \<noteq> Some ErrNotConnected) \<longrightarrow>
        (\<exists>r. map_of (sessions s) sid = Some r \<and> ls_state r \<noteq> SessAccepted \<and> (ls_state r = SessStarting \<longrightarrow> ls_thread r \<noteq> '''')))"
proof -
  have inv: "linear_inv s" by (rule linear_run_inv [OF assms])
  have "counted s sid \<noteq> []" if "(sid, e) \<in> set (dispatches s)" "e \<noteq> Some ErrNotConnected" for e
    using that by (auto simp: counted_def filter_empty_conv)
  then show ?thesis
    using inv unfolding linear_inv_def counts_ok_def bound_def counted_def by fastforce
qed

subsection \<open>A concrete run\<close>

text \<open>A configured Integration, and a program that prepares every thread and accepts every command.\<close>

definition sample_env :: "linear_run linear_env" where
  "sample_env =
     \<lparr>le_sha256 = (\<lambda>k. replicate 16 0), le_hmac = (\<lambda>k b. k), le_envelope = (\<lambda>b. None),
      le_event = (\<lambda>b. Some \<lparr>ev_kind = eventType, ev_action = ''created'', ev_session = ''s-1'', ev_comment = Some ''hi'',
                            ev_issue = None, ev_signal = None, ev_context = ''ctx''\<rparr>),
      le_post = (\<lambda>t c s. NoAnswer ''down''), le_viewer = (\<lambda>t s. NoAnswer ''down''), le_refresh = (\<lambda>c s. NoAnswer ''down''),
      le_canon = Some, le_linkers = (\<lambda>i. None),
      le_resolve = (\<lambda>i a. Inr (\<lambda>params d s. (Inr \<lparr>pt_provider = ''conv'', pt_title = ''t'', pt_dispatch = (\<lambda>s. (None, s))\<rparr>, s))),
      le_describe = (\<lambda>e. ''failed'')\<rparr>"

definition sample_run :: linear_run where
  "sample_run =
     \<lparr>clock = (\<lambda>n. 100 + int n), ticks = 0, fault = (\<lambda>n. False), io_ops = 0, id_tape = [''aaaaa''],
      long_suffix = (\<lambda>n. replicate (Suc n) (CHR ''z'')), longs = 0, events_log = [], thread_rows = [], identity_rows = [],
      terminal_rows = [], space_rows = [],
      project_rows = [(''proj-1'', \<lparr>proj_id = ''proj-1'', proj_name = ''w'', proj_directory = ''/w'', proj_created_at = 1,
                                    proj_updated_at = 1\<rparr>)],
      term_view = [], settling = [], space_view = [],
      default_space = '''', deleting_spaces = [], home_dir = '''', reports = (\<lambda>i. NoReport), view = [], identities = [],
      keys = [], active = [], held = [], prior_status = [], in_flight = [], inbox = [], routes = [], capacity = 1,
      inflight = 0, rejected = 0, last_rejection = '''', failures = 0, last_failure = '''', storage_failing = False,
      setup_file = Inl not_configured,
      config = Some \<lparr>st_organization = ''o'', st_client = ''c'', st_client_secret = ''x'', st_signing_secret = ''k'',
                     st_access_token = ''t'', st_refresh_token = '''', st_expires = 0, st_project = ''proj-1''\<rparr>,
      conn_state = IntegrationConnecting, conn_since = 0, conn_detail = '''', last_call_failure = '''',
      starting = [], captured = [], sessions = [], outbox = [], pass = [], answers = [], dispatches = []\<rparr>"

definition sample_delivery :: accepted where
  "sample_delivery = \<lparr>ac_id = ''whk-1'', ac_delivery = ''d-1'', ac_payload = ''{}'', ac_attempts = 0\<rparr>"

definition run1 :: linear_run where "run1 = snd (Process_linear sample_env sample_delivery sample_run)"
definition run2 :: linear_run where
  "run2 = (snd (OpenSessions run1))\<lparr>pass := (case fst (OpenSessions run1) of Inl e \<Rightarrow> [] | Inr rs \<Rightarrow> rs)\<rparr>"
definition run3 :: linear_run where
  "run3 = snd (reconcile_session sample_env (hd (pass run2)) ([], run2\<lparr>pass := tl (pass run2)\<rparr>))"
definition run4 :: linear_run where "run4 = snd (start_claim ''s-1'' run3)"
definition started_run :: "(err + api_thread) \<times> linear_run" where
  "started_run = start_thread (traced ''s-1'' sample_env) ''s-1'' (the (local_of ''s-1'' run4)) run4"
definition run5 :: linear_run where
  "run5 = (snd started_run)\<lparr>answers := AList.update ''s-1'' (fst started_run) (answers (snd started_run))\<rparr>"

lemma sample_env_behaves: "well_behaved sample_env"
  by (simp add: well_behaved_def polite_def discreet_def sample_env_def)

lemma sample_run_fresh: "fresh_run sample_run"
  by (simp add: fresh_run_def sample_run_def named_def)

lemma run_facts:
  "pass run1 = []" "isl (fst (OpenSessions run1)) = False"
  by code_simp+
lemma run_facts2:
  "pass run2 \<noteq> []" 
  by code_simp+
lemma run_facts3:
  "''s-1'' \<in> set (starting run3)" "local_of ''s-1'' run3 = None" "fst (start_claim ''s-1'' run3) = True"
  by code_simp+
lemma run_facts4:
  "local_of ''s-1'' run4 \<noteq> None" "map_of (answers run4) ''s-1'' = None"
  by code_simp+
lemma run_facts5:
  "dispatches run5 = [(''s-1'', None)]" 
  by code_simp+

lemma step_before:
  "linear_step env s t \<Longrightarrow> (linear_step env)\<^sup>*\<^sup>* t u \<Longrightarrow> (linear_step env)\<^sup>*\<^sup>* s u"
  by (rule converse_rtranclp_into_rtranclp)

lemma sample_run_reached: "(linear_step sample_env)\<^sup>*\<^sup>* sample_run run5"
proof -
  have d: "linear_step sample_env sample_run run1" unfolding run1_def by (rule delivers)
  obtain rs s2 where o2: "OpenSessions run1 = (Inr rs, s2)"
    using run_facts(2) by (cases "OpenSessions run1"; cases "fst (OpenSessions run1)") auto
  have l: "linear_step sample_env run1 run2"
    using lists [OF run_facts(1) o2, of sample_env] by (simp add: run2_def o2)
  obtain x xs where p: "pass run2 = x # xs" using run_facts2 by (cases "pass run2") auto
  obtain w s3 where v: "reconcile_session sample_env x ([], run2\<lparr>pass := xs\<rparr>) = (w, s3)"
    by (cases "reconcile_session sample_env x ([], run2\<lparr>pass := xs\<rparr>)")
  have r: "linear_step sample_env run2 run3" using visits [OF p v] by (simp add: run3_def p v)
  have "start_claim ''s-1'' run3 = (True, run4)" unfolding run4_def using run_facts3(3) by (metis prod.collapse)
  then have c: "linear_step sample_env run3 run4" by (rule claims [OF run_facts3(1,2)])
  obtain lc where lc: "local_of ''s-1'' run4 = Some lc" using run_facts4(1) by blast
  obtain res s5 where st: "start_thread (traced ''s-1'' sample_env) ''s-1'' lc run4 = (res, s5)"
    by (cases "start_thread (traced ''s-1'' sample_env) ''s-1'' lc run4")
  have "linear_step sample_env run4 run5"
    using starts [OF lc run_facts4(2) st] by (simp add: run5_def started_run_def lc st)
  then show ?thesis
    by (intro step_before [OF d] step_before [OF l] step_before [OF r] step_before [OF c]) (rule r_into_rtranclp)
qed

theorem one_conversation_per_session_witness:
  "length (filter (\<lambda>(i, e). i = ''s-1'' \<and> e \<noteq> Some ErrNotConnected) (dispatches run5)) \<le> 1
    \<and> dispatches run5 = [(''s-1'', None)]
    \<and> (\<exists>r. map_of (sessions run5) ''s-1'' = Some r \<and> ls_state r \<noteq> SessAccepted)"
  using one_conversation_per_session [OF sample_env_behaves sample_run_fresh sample_run_reached, of "''s-1''"] run_facts5 by auto

end
