(* ===== verification/LinearOwed.thy ===== *)
theory LinearOwed
  imports LinearProps
begin

text \<open>
  What the Integration owes Linear: a call stays owed, as it was written, until Linear has taken or refused it for good;
  and the processing of a delivery is absorbed when it is repeated.
\<close>

declare map_of_eq_Some_iff [simp del] Some_eq_map_of_iff [simp del]

subsection \<open>What leaves the outbox alone\<close>

lemma has_key_InsertLinearOutbox [simp]:
  "has_key (snd (InsertLinearOutbox r rows)) k \<longleftrightarrow> k = ob_id r \<or> has_key rows k"
  by (auto simp: InsertLinearOutbox_def has_key_def update_conv')

lemma has_key_enqueueAll: "has_key (enqueueAll rs rows) k \<longleftrightarrow> k \<in> ob_id ` set rs \<or> has_key rows k"
  by (induction rs arbitrary: rows) (auto simp: enqueueAll_def)

lemma activity_id: "activity env i p k b s = (row, s') \<Longrightarrow> ob_id row = activity_key i p"
  by (auto simp: activity_def Let_def split: prod.splits)

lemma outbox_world [simp]:
  "outbox (snd (now s)) = outbox s" "outbox (snd (io_step s)) = outbox s" "outbox (Publish p1 p2 p3 s) = outbox s"
  "outbox (setState st d s) = outbox s" "outbox (snd (reloadSetup s)) = outbox s" "outbox (reportAPIFailure e d s) = outbox s"
  "outbox (noteFailure row e s) = outbox s" "outbox (snd (saveTokens a t s)) = outbox s" "outbox (snd (GetSession i s)) = outbox s"
  "outbox (snd (sessionLinks env i s)) = outbox s" "outbox (snd (activity env i p k b s)) = outbox s"
  by (simp_all add: now_def io_step_def Publish_def setState_def reloadSetup_def reportAPIFailure_def noteFailure_def
      saveTokens_def GetSession_def sessionLinks_def activity_def Let_def split: sum.split prod.split option.split)

lemma outbox_renew [simp]: "outbox (snd (renew env seen s)) = outbox s"
proof -
  obtain at s1 where n: "now s = (at, s1)" by (cases "now s")
  have s1: "outbox s1 = outbox s" using outbox_world(1) [of s] by (simp add: n)
  have "outbox s2 = outbox s1" if "saveTokens a t s1 = (x, s2)" for a t x s2
    using outbox_world(8) [of a t s1] by (simp add: that)
  then show ?thesis using s1 by (auto simp: renew_def n split: option.split sum.split prod.split)
qed

lemma outbox_token [simp]: "outbox (snd (token env s)) = outbox s"
proof -
  obtain at s1 where n: "now s = (at, s1)" by (cases "now s")
  have s1: "outbox s1 = outbox s" using outbox_world(1) [of s] by (simp add: n)
  have "outbox s2 = outbox s1" if "renew env t s1 = (x, s2)" for t x s2
    using outbox_renew [of env t s1] by (simp add: that)
  then show ?thesis using s1 by (auto simp: token_def n split: option.split prod.split)
qed

lemma outbox_try_send [simp]: "outbox (snd (try_send env row s)) = outbox s"
proof -
  obtain x s1 where t: "token env s = (x, s1)" by (cases "token env s")
  have s1: "outbox s1 = outbox s" using outbox_token [of env s] by (simp add: t)
  show ?thesis
  proof (cases x)
    case (Inl e)
    then show ?thesis using s1 by (simp add: try_send_def t)
  next
    case (Inr k)
    obtain y s2 where r: "renew env k s1 = (y, s2)" by (cases "renew env k s1")
    have s2: "outbox s2 = outbox s" using outbox_renew [of env k s1] s1 by (simp add: r)
    obtain z s3 where t2: "token env s2 = (z, s3)" by (cases "token env s2")
    have "outbox s3 = outbox s" using outbox_token [of env s2] s2 by (simp add: t2)
    then show ?thesis using s1 s2 Inr by (simp add: try_send_def t r t2 split: sum.split option.split)
  qed
qed

subsection \<open>The marks of a call\<close>

text \<open>The fate of an owed row: it stays owed, or is receipted as sent, or as refused for good.\<close>

definition same_call :: "outbox_row \<Rightarrow> outbox_row \<Rightarrow> bool" where
  "same_call r r' \<longleftrightarrow> ob_id r' = ob_id r \<and> ob_session r' = ob_session r \<and> ob_call r' = ob_call r \<and> ob_created r' = ob_created r"

definition fate :: "call_error option \<Rightarrow> outbox_row \<Rightarrow> outbox_row \<Rightarrow> bool" where
  "fate result r r' \<longleftrightarrow> same_call r r' \<and>
     (owed r'
      \<or> (case result of
           None \<Rightarrow> ob_sent r' \<noteq> None
         | Some e \<Rightarrow> failure_of e = FailureDuplicate \<and> ob_sent r' \<noteq> None
                     \<or> failure_of e = FailurePermanent \<and> ob_sent r' = None \<and> ob_failed r' = error_text e))"

lemma mark_call_row:
  assumes "map_of (outbox s) k = Some r" and "owed r"
  shows "map_of (outbox (mark_call i f s)) k \<in> {Some r, Some (if k = i then f r else r)}"
  using assms by (auto simp: mark_call_def mark_unsent_def io_step_def Let_def owed_def update_conv' split: option.split)

lemma Enqueue_row: "map_of (outbox s) k = Some r \<Longrightarrow> map_of (outbox (snd (Enqueue x s))) k = Some r"
  by (auto simp: Enqueue_def InsertLinearOutbox_def io_step_def Let_def has_key_def update_conv')

lemma record_result_fate:
  assumes "map_of (outbox s) k = Some r" and "owed r"
  shows "\<exists>r'. map_of (outbox (record_result env x result s)) k = Some r' \<and> (r' = r \<or> k = ob_id x \<and> fate result r r')"
proof -
  obtain at s1 where n: "now s = (at, s1)" by (cases "now s")
  have s1: "outbox s1 = outbox s" using outbox_world(1) [of s] by (simp add: n)
  have mark: "\<exists>r'. map_of (outbox (mark_call (ob_id x) f t)) k = Some r' \<and> (r' = r \<or> k = ob_id x \<and> fate result r r')"
    if "outbox t = outbox s" "fate result r (f r)" for f and t :: "'a linear_svc_scheme"
    using mark_call_row [of t k r "ob_id x" f] that assms by auto
  show ?thesis
  proof (cases result)
    case None
    then show ?thesis
      by (simp add: record_result_def n Sent_def) (rule mark [unfolded None]; simp add: s1 None fate_def same_call_def)
  next
    case (Some e)
    consider (dup) "failure_of e = FailureDuplicate"
      | (unset) "failure_of e \<noteq> FailureDuplicate" "not_configured_error e"
      | (auth) "\<not> not_configured_error e" "failure_of e = FailureAuth"
      | (perm) "\<not> not_configured_error e" "failure_of e = FailurePermanent"
      | (later) "\<not> not_configured_error e" "failure_of e = FailureTransient"
      by (cases "failure_of e") auto
    then show ?thesis
    proof cases
      case dup
      then show ?thesis
        by (simp add: record_result_def n Sent_def Some) (rule mark [unfolded Some]; simp add: s1 Some fate_def same_call_def dup)
    next
      case unset
      then show ?thesis
        by (simp add: record_result_def n Retry_def Some)
          (rule mark [unfolded Some]; use assms(2) in \<open>simp add: s1 Some fate_def same_call_def owed_def\<close>)
    next
      case auth
      then show ?thesis
        by (simp add: record_result_def n Retry_def Some)
          (rule mark [unfolded Some]; use assms(2) in \<open>simp add: s1 Some fate_def same_call_def owed_def\<close>)
    next
      case later
      then show ?thesis
        by (simp add: record_result_def n Retry_def Some Let_def)
          (rule mark [unfolded Some]; use assms(2) in \<open>simp add: s1 Some fate_def same_call_def owed_def\<close>)
    next
      case perm
      define t where "t = Failed (ob_id x) (ob_attempts x + 1) (error_text e) (noteFailure x e s1)"
      have t: "\<exists>r'. map_of (outbox t) k = Some r' \<and> (r' = r \<or> k = ob_id x \<and> fate result r r')"
        unfolding t_def Failed_def
        by (rule mark) (use assms(2) perm in \<open>simp_all add: s1 Some fate_def same_call_def owed_def\<close>)
      obtain l t1 where l: "sessionLinks env (ob_session x) t = (l, t1)" by (cases "sessionLinks env (ob_session x) t")
      obtain row t2 where a: "activity env (ob_session x) ''result-rejected'' contentError (responseRejected l) t1 = (row, t2)"
        by (cases "activity env (ob_session x) ''result-rejected'' contentError (responseRejected l) t1")
      have t2: "outbox t2 = outbox t"
        using outbox_world(10) [of env "ob_session x" t]
          outbox_world(11) [of env "ob_session x" "''result-rejected''" contentError "responseRejected l" t1]
        by (simp add: l a)
      have "record_result env x result s = (if HasSuffix (ob_id x) ''/result'' then snd (Enqueue row t2) else t)"
        using perm by (simp add: record_result_def n Some t_def [symmetric] l a)
      then show ?thesis using t t2 Enqueue_row by (metis (no_types, lifting))
    qed
  qed
qed

subsection \<open>What Linear said\<close>

text \<open>
  The credentials one attempt posts a call with: the one the holder has, and, when Linear refused that one, the renewed one,
  each with the state the post is made in. \<open>said\<close>: an answer Linear gave to a post of the call in this attempt.
\<close>

definition post_answer ::
  "'a linear_svc_scheme linear_env \<Rightarrow> string \<Rightarrow> outbox_row \<Rightarrow> 'a linear_svc_scheme \<Rightarrow> call_error + mutation_result answer_data" where
  "post_answer env tok x t = graphql (le_post env tok (ob_call x) t)"

definition posts_with ::
  "'a linear_svc_scheme linear_env \<Rightarrow> outbox_row \<Rightarrow> 'a linear_svc_scheme \<Rightarrow> string \<Rightarrow> 'a linear_svc_scheme \<Rightarrow> bool" where
  "posts_with env x s tok t \<longleftrightarrow>
     token env s = (Inr tok, t)
     \<or> (\<exists>old s1 e s2. token env s = (Inr old, s1) \<and> post_answer env old x s1 = Inl e \<and> failure_of e = FailureAuth
          \<and> renew env old s1 = (None, s2) \<and> token env s2 = (Inr tok, t))"

definition said ::
  "'a linear_svc_scheme linear_env \<Rightarrow> outbox_row \<Rightarrow> 'a linear_svc_scheme \<Rightarrow> call_error + mutation_result answer_data \<Rightarrow> bool" where
  "said env x s a \<longleftrightarrow> (\<exists>tok t. posts_with env x s tok t \<and> post_answer env tok x t = a)"

text \<open>An answer that takes the call: success, or that Linear has it already. The reason of one that refuses it for good.\<close>

definition took :: "call_error + mutation_result answer_data \<Rightarrow> bool" where
  "took a = (case a of Inl e \<Rightarrow> failure_of e = FailureDuplicate | Inr d \<Rightarrow> succeeded d)"

definition refusal_reason :: "call_error + mutation_result answer_data \<Rightarrow> string option" where
  "refusal_reason a =
     (case a of
        Inl e \<Rightarrow> if failure_of e = FailurePermanent then Some (error_text e) else None
      | Inr d \<Rightarrow> if succeeded d then None else Some ''Linear reported success: false'')"

text \<open>A setup file that cannot be loaded is no word of the API; neither is a renewal that fails.\<close>

definition file_errors_local :: "'a linear_svc_scheme \<Rightarrow> bool" where
  "file_errors_local s \<longleftrightarrow> (\<forall>k t. setup_file s \<noteq> Inl (ApiError k t))"

definition passing :: "call_error \<Rightarrow> bool" where
  "passing e \<longleftrightarrow> failure_of e = FailureTransient \<or> failure_of e = FailureAuth"

lemma passing_wrap [simp]: "passing (wrap p e) = passing e"
  by (cases e) (simp_all add: passing_def)

lemma refresh_passing: "refresh env c at s = Inl e \<Longrightarrow> passing e"
  by (auto simp: refresh_def passing_def split: if_splits option.splits http_answer.splits)

lemma loadSetup_passing: "file_errors_local s \<Longrightarrow> loadSetup s = Inl e \<Longrightarrow> passing e"
  by (cases e) (auto simp: loadSetup_def file_errors_local_def passing_def split: sum.splits if_splits)

lemma renew_passing:
  assumes "file_errors_local s" and "renew env seen s = (x, s')"
  shows "file_errors_local s' \<and> (x = None \<or> (\<exists>e. x = Some e \<and> passing e))"
proof -
  obtain at s1 where n: "now s = (at, s1)" by (cases "now s")
  have s1: "file_errors_local s1" using assms(1) n by (auto simp: now_def file_errors_local_def)
  have nc: "passing not_configured" by (simp add: passing_def not_configured_def)
  have save: "file_errors_local s2 \<and> (y = None \<or> (\<exists>e. y = Some e \<and> passing e))" if "saveTokens a k s1 = (y, s2)" for a k y s2
    using that s1 loadSetup_passing [OF s1]
    by (auto simp: saveTokens_def Let_def io_step_def file_errors_local_def passing_def split: sum.splits if_splits)
  have reload: "file_errors_local (snd (reloadSetup t)) = file_errors_local t" for t :: "'a linear_svc_scheme"
    by (simp add: reloadSetup_def setState_def file_errors_local_def now_def Publish_def Let_def split: sum.split)
  show ?thesis
  proof (cases "config s")
    case None
    then show ?thesis using assms nc by (simp add: renew_def) auto
  next
    case (Some c)
    show ?thesis
    proof (cases "seen \<noteq> '''' \<and> st_access_token c \<noteq> seen")
      case True
      then show ?thesis using assms Some by (simp add: renew_def)
    next
      case False
      show ?thesis
      proof (cases "refresh env c at s1")
        case (Inl e)
        then have "x = Some (wrap ''renewing the Linear token'' e)" "s' = s1"
          using assms(2) Some False by (auto simp: renew_def n)
        then show ?thesis using refresh_passing [OF Inl] s1 by simp
      next
        case (Inr r)
        obtain a k where r: "r = (a, k)" by (cases r)
        obtain y s2 where sv: "saveTokens a k s1 = (y, s2)" by (cases "saveTokens a k s1")
        have "renew env seen s = (case y of Some e \<Rightarrow> (Some (wrap ''persisting the renewed Linear token'' e), s2)
            | None \<Rightarrow> (None, snd (reloadSetup s2)))"
          using Some False Inr by (auto simp: renew_def n r sv split: option.split)
        then show ?thesis using save [OF sv] assms(2) reload [of s2] by (cases y) auto
      qed
    qed
  qed
qed

lemma token_passing:
  assumes "file_errors_local s" and "token env s = (x, s')"
  shows "file_errors_local s' \<and> (\<forall>e. x = Inl e \<longrightarrow> passing e)"
proof -
  obtain at s1 where n: "now s = (at, s1)" by (cases "now s")
  have s1: "file_errors_local s1" using assms(1) n by (auto simp: now_def file_errors_local_def)
  have nc: "passing not_configured" by (simp add: passing_def not_configured_def)
  have ren: "file_errors_local s2 \<and> (y = None \<or> (\<exists>e. y = Some e \<and> passing e))" if "renew env k s1 = (y, s2)" for k y s2
    using renew_passing [OF s1 that] .
  show ?thesis
    using assms nc s1 by (auto simp: token_def n dest: ren split: option.splits if_splits prod.splits)
qed

text \<open>What a post amounts to, and the result of an attempt: a result that settles the call is Linear's.\<close>

lemma post_call_word:
  "case post_call env tok x t of
     None \<Rightarrow> took (post_answer env tok x t)
   | Some e \<Rightarrow> (failure_of e = FailureDuplicate \<longrightarrow> took (post_answer env tok x t))
             \<and> (failure_of e = FailurePermanent \<longrightarrow> refusal_reason (post_answer env tok x t) = Some (error_text e))"
  by (auto simp: post_call_def post_answer_def took_def refusal_reason_def split: sum.splits)

definition settles :: "'a linear_svc_scheme linear_env \<Rightarrow> outbox_row \<Rightarrow> 'a linear_svc_scheme \<Rightarrow> call_error option \<Rightarrow> bool" where
  "settles env x s result =
     (case result of
        None \<Rightarrow> (\<exists>a. said env x s a \<and> took a)
      | Some e \<Rightarrow> (failure_of e = FailureDuplicate \<longrightarrow> (\<exists>a. said env x s a \<and> took a))
                \<and> (failure_of e = FailurePermanent \<longrightarrow> (\<exists>a. said env x s a \<and> refusal_reason a = Some (error_text e))))"

lemma settles_post: "posts_with env x s tok t \<Longrightarrow> settles env x s (post_call env tok x t)"
  using post_call_word [of env tok x t] by (auto simp: settles_def said_def split: option.splits)

lemma settles_passing: "passing e \<Longrightarrow> settles env x s (Some e)"
  by (auto simp: settles_def passing_def)

lemma try_send_settles:
  assumes "file_errors_local s"
  shows "settles env x s (fst (try_send env x s))"
proof -
  obtain k s1 where t: "token env s = (k, s1)" by (cases "token env s")
  note t1 = token_passing [OF assms t]
  show ?thesis
  proof (cases k)
    case (Inl e)
    then show ?thesis using t1 t by (simp add: try_send_def settles_passing)
  next
    case (Inr tok)
    have first: "posts_with env x s tok s1" using t Inr by (simp add: posts_with_def)
    show ?thesis
    proof (cases "\<exists>e. post_call env tok x s1 = Some e \<and> failure_of e = FailureAuth")
      case False
      then have "fst (try_send env x s) = post_call env tok x s1"
        using t Inr by (auto simp: try_send_def split: option.split)
      then show ?thesis using settles_post [OF first] by simp
    next
      case True
      then obtain e where e: "post_call env tok x s1 = Some e" "failure_of e = FailureAuth" by blast
      then have refused: "post_answer env tok x s1 = Inl e"
        by (auto simp: post_call_def post_answer_def split: sum.splits if_splits)
      obtain y s2 where r: "renew env tok s1 = (y, s2)" by (cases "renew env tok s1")
      note r1 = renew_passing [OF conjunct1 [OF t1] r]
      obtain k2 s3 where t2: "token env s2 = (k2, s3)" by (cases "token env s2")
      note t3 = token_passing [OF conjunct1 [OF r1] t2]
      have run: "fst (try_send env x s) = (case y of Some e' \<Rightarrow> Some e'
          | None \<Rightarrow> (case k2 of Inl e' \<Rightarrow> Some e' | Inr tok2 \<Rightarrow> post_call env tok2 x s3))"
        using t Inr e r t2 by (simp add: try_send_def split: option.split sum.split)
      show ?thesis
      proof (cases y)
        case (Some e')
        then show ?thesis using r1 run by (auto intro: settles_passing)
      next
        case None
        show ?thesis
        proof (cases k2)
          case (Inl e')
          then show ?thesis using t3 run None by (auto intro: settles_passing)
        next
          case (Inr tok2)
          have "posts_with env x s tok2 s3"
            unfolding posts_with_def using t \<open>k = Inr tok\<close> refused e(2) r None t2 Inr by blast
          then show ?thesis using settles_post run None Inr by simp
        qed
      qed
    qed
  qed
qed

text \<open>
  C32. Nothing owed is dropped: sending any call leaves every owed call in the outbox with its content, and only the call
  that was sent may cease to be owed, exactly by Linear's word. It is marked sent only when, in this attempt, Linear answered
  a post of it, made with a credential the holder had, by taking it or by saying it has it already; it is marked failed only
  when Linear answered one by refusing it for good, and then with the reason Linear gave. No credential, a failed renewal and
  no answer leave it owed. Pruning the receipts touches no owed call. An error of the setup file is assumed to be none of
  the API's.
\<close>

theorem owed_call_is_kept:
  assumes "map_of (outbox s) k = Some row" and "owed row" and "file_errors_local s"
  shows "(\<exists>row'. map_of (outbox (send_call env x s)) k = Some row' \<and> same_call row row'
            \<and> (row' = row
               \<or> k = ob_id x
                 \<and> (owed row'
                    \<or> ob_sent row' \<noteq> None \<and> (\<exists>a. said env x s a \<and> took a)
                    \<or> ob_sent row' = None \<and> (\<exists>a. said env x s a \<and> refusal_reason a = Some (ob_failed row')))))
    \<and> map_of (outbox (prune_calls s)) k = Some row"
proof
  obtain result s1 where t: "try_send env x s = (result, s1)" by (cases "try_send env x s")
  have "outbox s1 = outbox s" using outbox_try_send [of env x s] by (simp add: t)
  then obtain row' where row': "map_of (outbox (send_call env x s)) k = Some row'" "row' = row \<or> k = ob_id x \<and> fate result row row'"
    using record_result_fate [of s1 k row env x result] assms(1,2) by (auto simp: send_call_def t)
  moreover have "same_call row row'" using row'(2) by (auto simp: fate_def same_call_def)
  moreover have "settles env x s result" using try_send_settles [OF assms(3), of env x] by (simp add: t)
  then have "fate result row row' \<Longrightarrow> owed row' \<or> ob_sent row' \<noteq> None \<and> (\<exists>a. said env x s a \<and> took a)
      \<or> ob_sent row' = None \<and> (\<exists>a. said env x s a \<and> refusal_reason a = Some (ob_failed row'))"
    by (auto simp: fate_def settles_def split: option.splits)
  ultimately show "\<exists>row'. map_of (outbox (send_call env x s)) k = Some row' \<and> same_call row row'
            \<and> (row' = row
               \<or> k = ob_id x
                 \<and> (owed row'
                    \<or> ob_sent row' \<noteq> None \<and> (\<exists>a. said env x s a \<and> took a)
                    \<or> ob_sent row' = None \<and> (\<exists>a. said env x s a \<and> refusal_reason a = Some (ob_failed row'))))"
    by blast
  have "map_of (filter P rows) k = Some row" if "map_of rows k = Some row" "P (k, row)" for P and rows :: "(string \<times> outbox_row) list"
    using that by (induction rows) auto
  then show "map_of (outbox (prune_calls s)) k = Some row"
    using assms by (auto simp: prune_calls_def Prune_calls_def PruneLinearOutbox_def now_def io_step_def Let_def owed_def)
qed

text \<open>The acknowledgement of the sample delivery is owed; Linear takes it, or gives no answer and it is kept.\<close>

definition taking_env :: "linear_run linear_env" where
  "taking_env = sample_env\<lparr>le_post := \<lambda>t c s.
     Answer 200 [] (Some \<lparr>en_data = Data \<lparr>mr_activity = Some True, mr_session = None\<rparr>, en_errors = None\<rparr>)\<rparr>"

definition owed_ack :: "linear_run \<Rightarrow> bool" where
  "owed_ack s \<longleftrightarrow> (case map_of (outbox s) ''s-1/ack'' of None \<Rightarrow> False | Some row \<Rightarrow> owed row)"

definition sent_ack :: "linear_run \<Rightarrow> bool" where
  "sent_ack s \<longleftrightarrow> (case map_of (outbox s) ''s-1/ack'' of None \<Rightarrow> False | Some row \<Rightarrow> ob_sent row \<noteq> None)"

lemma run1_owes: "owed_ack run1"
  by code_simp

lemma run1_taken: "sent_ack (send_call taking_env (the (map_of (outbox run1) ''s-1/ack'')) run1)"
  by code_simp

lemma run1_file: "(case setup_file run1 of Inl (ApiError k t) \<Rightarrow> False | _ \<Rightarrow> True)"
  by code_simp

theorem owed_call_is_kept_witness:
  "\<exists>row row' kept a. map_of (outbox run1) ''s-1/ack'' = Some row
     \<and> map_of (outbox (send_call taking_env row run1)) ''s-1/ack'' = Some row' \<and> ob_call row' = ob_call row
     \<and> ob_sent row' \<noteq> None \<and> said taking_env row run1 a \<and> took a
     \<and> map_of (outbox (send_call sample_env row run1)) ''s-1/ack'' = Some kept \<and> ob_call kept = ob_call row"
proof -
  obtain row where row: "map_of (outbox run1) ''s-1/ack'' = Some row" "owed row"
    using run1_owes by (auto simp: owed_ack_def split: option.splits)
  have fel: "file_errors_local run1" using run1_file by (auto simp: file_errors_local_def)
  obtain row' where row': "map_of (outbox (send_call taking_env row run1)) ''s-1/ack'' = Some row'" "same_call row row'"
    "row' = row \<or> owed row' \<or> ob_sent row' \<noteq> None \<and> (\<exists>a. said taking_env row run1 a \<and> took a) \<or> ob_sent row' = None"
    using owed_call_is_kept [OF row fel, of taking_env row] by blast
  have sent: "ob_sent row' \<noteq> None" using run1_taken row(1) row'(1) by (simp add: sent_ack_def)
  then obtain a where "said taking_env row run1 a" "took a" using row'(3) row(2) by (auto simp: owed_def)
  moreover obtain kept where "map_of (outbox (send_call sample_env row run1)) ''s-1/ack'' = Some kept" "same_call row kept"
    using owed_call_is_kept [OF row fel, of sample_env row] by blast
  ultimately show ?thesis using row(1) row'(1,2) sent unfolding same_call_def by metis
qed

subsection \<open>Processing twice\<close>

lemma enqueueAll_present: "has_key rows (ob_id row) \<Longrightarrow> enqueueAll [row] rows = rows"
  by (simp add: enqueueAll_def InsertLinearOutbox_def)

lemma activity_run:
  "activity env i p k b s = (row, s') \<Longrightarrow> ob_id row = activity_key i p \<and> sessions s' = sessions s \<and> outbox s' = outbox s"
  for s :: "'a linear_svc_scheme"
  by (auto simp: activity_def now_def Let_def)

text \<open>What a session's rows hold when one delivery of its event has been processed.\<close>

lemma has_key_update: "has_key (AList.update k v rows) i \<longleftrightarrow> i = k \<or> has_key rows i"
  by (auto simp: has_key_def update_conv')

lemma created_run:
  assumes "created env e s = (x, s')"
  shows "x = None \<Longrightarrow> has_key (sessions s') (ev_session e)
      \<and> has_key (outbox s') (activity_key (ev_session e) (fst (snd (created_session e 0))))"
    and "has_key (sessions s) (ev_session e) \<Longrightarrow>
      has_key (outbox s) (activity_key (ev_session e) (fst (snd (created_session e 0)))) \<Longrightarrow>
      sessions s' = sessions s \<and> outbox s' = outbox s"
proof -
  obtain at s1 where n: "now s = (at, s1)" by (cases "now s")
  have s1: "sessions s1 = sessions s" "outbox s1 = outbox s" using n by (auto simp: now_def)
  obtain r p k b where c: "created_session e at = (r, p, k, b)" by (cases "created_session e at")
  have p: "p = fst (snd (created_session e 0))" and rid: "ls_id r = ev_session e"
    using c by (auto simp: created_session_def Let_def split: prod.splits if_splits)
  obtain row s2 where a: "activity env (ev_session e) p k b s1 = (row, s2)" by (cases "activity env (ev_session e) p k b s1")
  note act = activity_run [OF a]
  obtain y s3 where i: "InsertSession r [row] s2 = (y, s3)" by (cases "InsertSession r [row] s2")
  have out: "s' = s3 \<and> (x = None \<longrightarrow> (\<exists>b. y = Inr b))"
    using assms by (auto simp: created_def n c a i split: sum.splits)
  show "x = None \<Longrightarrow> has_key (sessions s') (ev_session e)
      \<and> has_key (outbox s') (activity_key (ev_session e) (fst (snd (created_session e 0))))"
    using i out act rid
    by (auto simp: p [symmetric] InsertSession_def InsertLinearSession_def Let_def io_step_def has_key_enqueueAll
        has_key_update split: if_splits prod.splits)
  assume "has_key (sessions s) (ev_session e)"
    and "has_key (outbox s) (activity_key (ev_session e) (fst (snd (created_session e 0))))"
  then show "sessions s' = sessions s \<and> outbox s' = outbox s"
    using i out act rid s1
    by (auto simp: p [symmetric] InsertSession_def InsertLinearSession_def Let_def io_step_def enqueueAll_present
        split: if_splits prod.splits)
qed

lemma enqueue_reply_run:
  assumes "enqueue_reply env sid d b s = (x, s')"
  shows "sessions s' = sessions s"
    and "x = None \<Longrightarrow> has_key (outbox s') (activity_key sid (''reply/'' @ d))"
    and "has_key (outbox s) (activity_key sid (''reply/'' @ d)) \<Longrightarrow> outbox s' = outbox s"
proof -
  define p where "p = ''reply/'' @ d"
  obtain row s1 where a: "activity env sid p contentThought b s = (row, s1)"
    by (cases "activity env sid p contentThought b s")
  note act = activity_run [OF a]
  have "sessions s' = sessions s \<and> (x = None \<longrightarrow> has_key (outbox s') (activity_key sid p))
      \<and> (has_key (outbox s) (activity_key sid p) \<longrightarrow> outbox s' = outbox s)"
    using assms [unfolded enqueue_reply_def p_def [symmetric] a Let_def prod.case] act
    by (auto simp: Enqueue_def InsertLinearOutbox_def Let_def io_step_def has_key_def
        update_conv' split: sum.splits if_splits prod.splits)
  then show "sessions s' = sessions s" "x = None \<Longrightarrow> has_key (outbox s') (activity_key sid (''reply/'' @ d))"
    "has_key (outbox s) (activity_key sid (''reply/'' @ d)) \<Longrightarrow> outbox s' = outbox s"
    by (simp_all add: p_def)
qed

lemma prompted_run:
  assumes "prompted env e d s = (x, s')"
  shows "sessions s' = sessions s
    \<and> (x = None \<longrightarrow> has_key (outbox s') (activity_key (ev_session e) (''reply/'' @ d)))
    \<and> (has_key (outbox s) (activity_key (ev_session e) (''reply/'' @ d)) \<longrightarrow> outbox s' = outbox s)"
proof -
  obtain l s1 where a: "sessionLinks env (ev_session e) s = (l, s1)" by (cases "sessionLinks env (ev_session e) s")
  have s1: "sessions s1 = sessions s" "outbox s1 = outbox s"
    using settled_simps(11) [of s env "ev_session e"] outbox_world(10) [of env "ev_session e" s] by (simp_all add: a settled_def)
  obtain r s2 where g: "GetSession (ev_session e) s1 = (r, s2)" by (cases "GetSession (ev_session e) s1")
  have s2: "sessions s2 = sessions s" "outbox s2 = outbox s"
    using settled_simps(9) [of s1 "ev_session e"] outbox_world(9) [of "ev_session e" s1] s1 by (simp_all add: g settled_def)
  consider e' where "x = Some e'" "s' = s2" | b where "enqueue_reply env (ev_session e) d b s2 = (x, s')"
    using assms by (auto simp: prompted_def a g split: sum.splits if_splits)
  then show ?thesis
  proof cases
    case 2
    then show ?thesis using enqueue_reply_run [OF 2] s2 by auto
  qed (simp add: s2)
qed

text \<open>
  Processing is absorbed when repeated: a delivery that has been processed without error, and is processed again (the
  process was lost before the inbox row was marked done, or Linear delivered the event anew), changes no session and owes
  no second call.
\<close>

theorem processing_twice_owes_once:
  assumes "Process_linear env d s = (None, s1)"
  shows "sessions (snd (Process_linear env d s1)) = sessions s1 \<and> outbox (snd (Process_linear env d s1)) = outbox s1"
proof -
  have new: "sessions (snd (created env e s1)) = sessions s1 \<and> outbox (snd (created env e s1)) = outbox s1"
    if "created env e s = (None, s1)" for e
  proof -
    obtain x s2 where "created env e s1 = (x, s2)" by (cases "created env e s1")
    then show ?thesis using created_run(1) [OF that] created_run(2) [of env e s1 x s2] by simp
  qed
  have reply: "sessions (snd (prompted env e k s1)) = sessions s1 \<and> outbox (snd (prompted env e k s1)) = outbox s1"
    if "prompted env e k s = (None, s1)" for e k
  proof -
    obtain x s2 where "prompted env e k s1 = (x, s2)" by (cases "prompted env e k s1")
    then show ?thesis using prompted_run [OF that] prompted_run [of env e k s1 x s2] by simp
  qed
  show ?thesis
  proof (cases "le_event env (ac_payload d)")
    case None
    then show ?thesis by (simp add: Process_linear_def)
  next
    case (Some e)
    then show ?thesis using assms new [of e] reply [of e "ac_delivery d"] by (auto simp: Process_linear_def split: if_splits)
  qed
qed

lemma run1_processed: "fst (Process_linear sample_env sample_delivery sample_run) = None"
  by code_simp

theorem processing_twice_owes_once_witness:
  "sessions (snd (Process_linear sample_env sample_delivery run1)) = sessions run1
   \<and> outbox (snd (Process_linear sample_env sample_delivery run1)) = outbox run1"
  using processing_twice_owes_once [of sample_env sample_delivery sample_run run1] run1_processed
  by (metis run1_def prod.collapse)

subsection \<open>From the inbox to the session\<close>

text \<open>The processing of a delivery keeps to its side of the inbox's contract.\<close>

lemma Process_linear_quiet: "same_inbox s (snd (Process_linear env d s))"
proof -
  have act: "same_inbox t (snd (activity env i p k b t))" for i p k b and t :: "'a linear_svc_scheme"
    by (simp add: activity_def now_def Let_def same_inbox_def)
  have c: "same_inbox s (snd (created env e s))" for e
  proof -
    obtain at s1 where n: "now s = (at, s1)" by (cases "now s")
    obtain r p k b where cs: "created_session e at = (r, p, k, b)" by (cases "created_session e at")
    obtain row s2 where a: "activity env (ev_session e) p k b s1 = (row, s2)" by (cases "activity env (ev_session e) p k b s1")
    have "same_inbox s s1" using same_inbox_simps(2) [of s] by (simp add: n)
    moreover have "same_inbox s1 s2" using act [of s1 "ev_session e" p k b] by (simp add: a)
    ultimately have "same_inbox s s2" by (rule same_inbox_trans)
    moreover have "same_inbox s2 (snd (InsertSession r [row] s2))"
      by (simp add: InsertSession_def InsertLinearSession_def io_step_def Let_def same_inbox_def)
    ultimately have "same_inbox s (snd (InsertSession r [row] s2))" by (rule same_inbox_trans)
    then show ?thesis
      by (cases "InsertSession r [row] s2") (simp add: created_def n cs a split: sum.split)
  qed
  have r: "same_inbox t (snd (enqueue_reply env i k b t))" for i k b and t :: "'a linear_svc_scheme"
  proof -
    define p where "p = ''reply/'' @ k"
    obtain row s1 where a: "activity env i p contentThought b t = (row, s1)" by (cases "activity env i p contentThought b t")
    have s1: "same_inbox t s1" using act [of t i p contentThought b] by (simp add: a)
    have "same_inbox s1 (snd (Enqueue row s1))"
      by (simp add: Enqueue_def InsertLinearOutbox_def io_step_def Let_def same_inbox_def)
    then have "same_inbox t (snd (Enqueue row s1))" using s1 same_inbox_trans by blast
    then show ?thesis
      unfolding enqueue_reply_def p_def [symmetric] a Let_def prod.case
      by (cases "Enqueue row s1") (simp split: sum.split)
  qed
  have get: "same_inbox t (snd (GetSession i t))" for i and t :: "'a linear_svc_scheme"
    by (simp add: GetSession_def io_step_def Let_def same_inbox_def)
  have p: "same_inbox s (snd (prompted env e k s))" for e k
  proof -
    obtain l s1 where a: "sessionLinks env (ev_session e) s = (l, s1)" by (cases "sessionLinks env (ev_session e) s")
    have "s1 = snd (GetSession (ev_session e) s)"
      using a by (cases "GetSession (ev_session e) s") (auto simp: sessionLinks_def split: sum.splits)
    then have s1: "same_inbox s s1" using get by simp
    obtain x s2 where g: "GetSession (ev_session e) s1 = (x, s2)" by (cases "GetSession (ev_session e) s1")
    have s2: "same_inbox s s2" using same_inbox_trans [OF s1 get [of s1 "ev_session e"]] by (simp add: g)
    show ?thesis using s2 same_inbox_trans [OF s2 r] by (auto simp: prompted_def a g split: sum.split)
  qed
  show ?thesis by (auto simp: Process_linear_def c p split: option.split)
qed

lemma process_delivery_tables:
  fixes s :: "'a linear_svc_scheme"
  assumes "attempt handlers d s = (x, s1)"
  shows "sessions (process_delivery describe handlers d s) = sessions s1"
    "outbox (process_delivery describe handlers d s) = outbox s1"
  by (simp_all add: process_delivery_def assms Let_def now_def Fail_def Complete_def io_step_def recordFailure_def
      setStorageFailing_def FailWebhookDelivery_def CompleteWebhookDelivery_def split: option.split)

text \<open>
  C34. A mention reaches its session: when the worker processes a pending delivery of a mention, the delivery stays pending
  with its payload, or it is done and by then the session is recorded and owed its acknowledgement or refusal.
\<close>

theorem mention_reaches_its_session:
  assumes "quiet handlers" and "handlers linear_ID = Process_linear env"
    and "map_of (inbox s) (wd_id d) = Some d" and "\<not> wd_done d" and "wd_integration d = linear_ID"
    and "le_event env (ac_payload (accepted_of d)) = Some e"
    and "ev_kind e = eventType" and "ev_session e \<noteq> ''''" and "ev_action e = ''created''"
  shows "\<exists>d'. map_of (inbox (process_delivery describe handlers d s)) (wd_id d) = Some d'
    \<and> (if wd_done d'
       then has_key (sessions (process_delivery describe handlers d s)) (ev_session e)
            \<and> (\<exists>p \<in> {''ack'', ''refused''}. has_key (outbox (process_delivery describe handlers d s)) (activity_key (ev_session e) p))
       else wd_payload d' = wd_payload d)"
proof -
  obtain x s1 where a: "attempt handlers d s = (x, s1)" by (cases "attempt handlers d s")
  note run = process_run [OF assms(1,3,4) refl, of describe]
  have rec: "has_key (sessions s1) (ev_session e) \<and> (\<exists>p \<in> {''ack'', ''refused''}. has_key (outbox s1) (activity_key (ev_session e) p))"
    if "x = None"
  proof -
    have "created env e s = (None, s1)"
      using a that assms(2,5-9) by (auto simp: attempt_def Process_linear_def split: option.splits if_splits)
    then have "has_key (sessions s1) (ev_session e)
        \<and> has_key (outbox s1) (activity_key (ev_session e) (fst (snd (created_session e 0))))"
      using created_run(1) by blast
    moreover have "fst (snd (created_session e 0)) \<in> {''ack'', ''refused''}"
      by (auto simp: created_session_def Let_def split: prod.split)
    ultimately show ?thesis by blast
  qed
  show ?thesis
    using run rec assms(3,4) unfolding process_delivery_tables [OF a] a by (auto simp: wd_done_def)
qed

text \<open>The sample run with the first delivery in its inbox.\<close>

definition inbox_run :: linear_run where
  "inbox_run = sample_run\<lparr>inbox := [(''whk-z'', delivery1)],
     routes := [(''/linear'', \<lparr>rt_integration = ''linear'', rt_path = ''/linear''\<rparr>)]\<rparr>"

definition linear_handlers :: "linear_run handlers" where
  "linear_handlers = (\<lambda>i. Process_linear sample_env)"

definition processed_run :: linear_run where
  "processed_run = process_delivery (\<lambda>e. ''failed'') linear_handlers delivery1 inbox_run"

definition processed_facts :: "linear_run \<Rightarrow> bool" where
  "processed_facts s \<longleftrightarrow> (case map_of (inbox s) ''whk-z'' of None \<Rightarrow> False | Some d \<Rightarrow> wd_done d)"

lemma processed_run_facts: "processed_facts processed_run"
  by code_simp

theorem mention_reaches_its_session_witness:
  "has_key (sessions processed_run) ''s-1'' \<and>
    (\<exists>p \<in> {''ack'', ''refused''}. has_key (outbox processed_run) (activity_key ''s-1'' p))"
proof -
  define e where "e = \<lparr>ev_kind = eventType, ev_action = ''created'', ev_session = ''s-1'', ev_comment = Some ''hi'',
                            ev_issue = None, ev_signal = None, ev_context = ''ctx''\<rparr>"
  have "quiet linear_handlers" by (simp add: quiet_def linear_handlers_def Process_linear_quiet)
  moreover have "linear_handlers linear_ID = Process_linear sample_env" by (simp add: linear_handlers_def)
  moreover have "map_of (inbox inbox_run) (wd_id delivery1) = Some delivery1" "\<not> wd_done delivery1"
      "wd_integration delivery1 = linear_ID"
    by (simp_all add: inbox_run_def delivery1_def wd_done_def linear_ID_def)
  moreover have "le_event sample_env (ac_payload (accepted_of delivery1)) = Some e" by (simp add: sample_env_def e_def)
  moreover have "ev_kind e = eventType" "ev_session e \<noteq> ''''" "ev_action e = ''created''" "ev_session e = ''s-1''"
    by (simp_all add: e_def)
  ultimately show ?thesis
    using mention_reaches_its_session [of linear_handlers sample_env inbox_run delivery1 e "\<lambda>e. ''failed''"] processed_run_facts
    by (auto simp: processed_run_def processed_facts_def delivery1_def split: option.splits)
qed

end
