(* ===== verification/LinearOutcome.thy ===== *)
theory LinearOutcome
  imports LinearOwed TurnProps
begin

text \<open>
  What becomes of a mention: the states its session passes through, the activity that reports its end, and the calls the
  Integration owes Linear until Linear has answered them.
\<close>

declare map_of_eq_Some_iff [simp del] Some_eq_map_of_iff [simp del]

subsection \<open>The ends of a session\<close>

lemma activities_ids:
  "activities env i ns s = (rows, s') \<Longrightarrow> map ob_id rows = map (\<lambda>n. activity_key i (nt_purpose n)) ns"
  by (induction ns arbitrary: s rows s') (auto simp: Let_def dest: activity_id split: prod.splits)

text \<open>The three ways a session's end is said in Linear, and the writes that end one.\<close>

definition verdict_purposes :: "string list" where
  "verdict_purposes = [''result'', ''failed'', ''refused'']"

definition told :: "string \<Rightarrow> 'a linear_svc_scheme \<Rightarrow> bool" where
  "told i s \<longleftrightarrow> (\<exists>p \<in> set verdict_purposes. has_key (outbox s) (activity_key i p))"

definition over :: "string \<Rightarrow> 'a linear_svc_scheme \<Rightarrow> bool" where
  "over i s \<longleftrightarrow> (\<exists>r. map_of (sessions s) i = Some r \<and> ls_state r = SessDone)"

definition closes :: "'a linear_svc_scheme \<Rightarrow> 'a linear_svc_scheme \<Rightarrow> bool" where
  "closes s s' \<longleftrightarrow> (\<forall>i. over i s' \<longrightarrow> over i s \<or> told i s')"

lemma closes_same: "sessions s' = sessions s \<Longrightarrow> closes s s'"
  by (simp add: closes_def over_def)

lemma closes_settled: "settled s s' \<Longrightarrow> closes s s'"
  by (rule closes_same) (simp add: settled_def)

lemma closes_after: "(\<And>i. over i s1 \<Longrightarrow> over i s) \<Longrightarrow> closes s1 s2 \<Longrightarrow> closes s s2"
  by (auto simp: closes_def)

lemma over_settled: "settled s s1 \<Longrightarrow> over i s1 \<longleftrightarrow> over i s"
  by (simp add: over_def settled_def)

lemma over_update:
  "sessions s' = AList.update k r (sessions s) \<Longrightarrow> over i s' \<Longrightarrow> over i s \<or> i = k \<and> ls_state r = SessDone"
  by (auto simp: over_def update_conv' split: if_splits)

lemma over_UpdateSession:
  assumes "UpdateSession r rs s = (x, s')" and "over i s'"
  shows "over i s \<or> i = ls_id r \<and> ls_state r = SessDone \<and> outbox s' = enqueueAll rs (outbox s)"
proof (cases "x = Inr True")
  case True
  then obtain old :: linear_session where "sessions s' = AList.update (ls_id r) (r\<lparr>ls_created := ls_created old\<rparr>) (sessions s)"
      "outbox s' = enqueueAll rs (outbox s)"
    using UpdateSession_run(2) [OF assms(1) True] by auto
  then show ?thesis using over_update assms(2) by fastforce
next
  case False
  then show ?thesis using UpdateSession_run(3) [OF assms(1)] over_settled assms(2) by blast
qed

lemma closes_UpdateSession:
  assumes "ls_state r = SessDone \<Longrightarrow> \<exists>row \<in> set rs. \<exists>p \<in> set verdict_purposes. ob_id row = activity_key (ls_id r) p"
  shows "closes s (snd (UpdateSession r rs s))"
proof -
  obtain x s' where u: "UpdateSession r rs s = (x, s')" by (cases "UpdateSession r rs s")
  have "over i s \<or> told i s'" if "over i s'" for i
  proof (cases "over i s")
    case False
    then have e: "i = ls_id r" "ls_state r = SessDone" "outbox s' = enqueueAll rs (outbox s)"
      using over_UpdateSession [OF u that] by auto
    then obtain row p where "row \<in> set rs" "p \<in> set verdict_purposes" "ob_id row = activity_key (ls_id r) p"
      using assms by auto
    then show ?thesis unfolding told_def e has_key_enqueueAll by (metis imageI)
  qed simp
  then show ?thesis by (simp add: closes_def u)
qed

subsection \<open>Every end is reported\<close>

lemma closes_Process: "closes s (snd (Process_linear env d s))"
proof -
  have "closes s (snd (created env e s))" for e
  proof -
    obtain at s1 where n: "now s = (at, s1)" by (cases "now s")
    have s1: "settled s s1" using settled_simps(1) [of s] by (simp add: n)
    obtain r p k b where c: "created_session e at = (r, p, k, b)" by (cases "created_session e at")
    have p: "ls_state r = SessDone \<Longrightarrow> p = ''refused''" "ls_id r = ev_session e"
      using c by (auto simp: created_session_def Let_def split: prod.splits if_splits)
    obtain row s2 where a: "activity env (ev_session e) p k b s1 = (row, s2)" by (cases "activity env (ev_session e) p k b s1")
    have s2: "settled s s2" using settled_trans [OF s1 settled_simps(15) [of s1 env "ev_session e" p k b]] by (simp add: a)
    obtain x s3 where i: "InsertSession r [row] s2 = (x, s3)" by (cases "InsertSession r [row] s2")
    have "over j s2 \<or> told j s3" if "over j s3" for j
      using i that p activity_id [OF a]
      by (auto simp: InsertSession_def InsertLinearSession_def Let_def io_step_def over_def told_def verdict_purposes_def
          has_key_enqueueAll update_conv' split: if_splits prod.splits)
    then have "closes s s3" using over_settled [OF s2] by (auto simp: closes_def)
    moreover have "snd (created env e s) = s3"
      by (simp add: created_def n c a i split: sum.split)
    ultimately show ?thesis by simp
  qed
  then show ?thesis
    using closes_settled [OF prompted_settled]
    by (auto simp: Process_linear_def closes_same split: option.split)
qed

lemma evaluate_result:
  assumes "evaluate r read at grace = (r', ns, ch)" and "ls_state r \<noteq> SessDone" and "ls_state r' = SessDone"
  shows "''result'' \<in> nt_purpose ` set ns"
  using assms
  by (auto simp: evaluate_def evaluate_open_def finish_session_def Let_def
      split: sum.splits option.splits if_splits prod.splits)

lemma closes_observe:
  assumes "ls_state r = SessStarted"
  shows "closes s (observe_session env r s)"
proof -
  obtain at s1 where n: "now s = (at, s1)" by (cases "now s")
  have s1: "settled s s1" using settled_simps(1) [of s] by (simp add: n)
  define read where "read = Get_thread (le_linkers env) (ls_thread r) s"
  obtain r' ns ch where ev: "evaluate r read at responseGrace = (r', ns, ch)"
    by (cases "evaluate r read at responseGrace")
  obtain rows s2 where a: "activities env (ls_id r) ns s1 = (rows, s2)" by (cases "activities env (ls_id r) ns s1")
  have s2: "settled s s2" using settled_trans [OF s1 activities_settled [of s1 env "ls_id r" ns]] by (simp add: a)
  have "\<exists>row \<in> set rows. \<exists>p \<in> set verdict_purposes. ob_id row = activity_key (ls_id r') p" if "ls_state r' = SessDone"
  proof -
    have "''result'' \<in> nt_purpose ` set ns" using evaluate_result [OF ev] assms that by simp
    then have "activity_key (ls_id r) ''result'' \<in> set (map ob_id rows)"
      unfolding activities_ids [OF a] by auto
    then show ?thesis using evaluate_keeps(1) [OF ev] by (fastforce simp: verdict_purposes_def)
  qed
  then have "closes s2 (snd (UpdateSession r' rows s2))" by (rule closes_UpdateSession)
  then have "closes s (snd (UpdateSession r' rows s2))" using closes_after over_settled [OF s2] by blast
  then show ?thesis
    using closes_settled [OF s1] by (simp add: observe_session_def n ev read_def [symmetric] a)
qed

lemma closes_start_finish:
  assumes "ls_id l = sid"
  shows "closes s (start_finish env sid l res s)"
proof -
  obtain at s1 where n: "now s = (at, s1)" by (cases "now s")
  have s1: "settled s s1" using settled_simps(1) [of s] by (simp add: n)
  have act: "settled s s2" if "activity env sid p k b s1 = (row, s2)" for p k b row s2
    using settled_trans [OF s1 settled_simps(15) [of s1 env sid p k b]] by (simp add: that)
  have link: "settled s s3" if "settled s s2" "links_row sid x s2 = (row, s3)" for x s2 row s3
    using settled_trans [OF that(1) settled_simps(16) [of s2 sid x]] by (simp add: that(2))
  have fin: "closes s (snd (UpdateSession r rows s2))"
    if "settled s s2" "ls_id r = sid"
      "ls_state r \<noteq> SessDone \<or> (\<exists>row \<in> set rows. ob_id row = activity_key sid ''failed'')" for r rows s2
    by (rule closes_after [OF _ closes_UpdateSession])
      (use over_settled [OF that(1)] that(2,3) in \<open>auto simp: verdict_purposes_def\<close>)
  show ?thesis
  proof (cases res)
    case (Inl e)
    obtain row s2 where a: "activity env sid ''uncertain'' contentThought uncertain_text s1 = (row, s2)"
      by (cases "activity env sid ''uncertain'' contentThought uncertain_text s1")
    obtain row' s3 where b: "activity env sid ''waiting-t3'' contentThought waitingForT3 s1 = (row', s3)"
      by (cases "activity env sid ''waiting-t3'' contentThought waitingForT3 s1")
    obtain row'' s4 where c: "activity env sid ''failed'' contentError (startFailed (le_describe env e)) s1 = (row'', s4)"
      by (cases "activity env sid ''failed'' contentError (startFailed (le_describe env e)) s1")
    consider "e = ErrUncertain" | "e = ErrNotConnected" | "e \<noteq> ErrUncertain" "e \<noteq> ErrNotConnected" by blast
    then show ?thesis
    proof cases
      case 1
      then show ?thesis unfolding start_finish_def n Inl using a by simp (rule fin; use act [OF a] assms in simp)
    next
      case 2
      then show ?thesis unfolding start_finish_def n Inl using b by simp (rule fin; use act [OF b] assms in simp)
    next
      case 3
      then show ?thesis unfolding start_finish_def n Inl using c
        by simp (rule fin; use act [OF c] activity_id [OF c] assms in simp)
    qed
  next
    case (Inr th)
    obtain row s2 where a: "activity env sid ''started'' contentThought (started_text (ah_links th)) s1 = (row, s2)"
      by (cases "activity env sid ''started'' contentThought (started_text (ah_links th)) s1")
    show ?thesis
    proof (cases "ah_links th")
      case None
      show ?thesis
        by (simp add: start_finish_def n Inr a [unfolded None] None) (rule fin; use act [OF a] assms in simp)
    next
      case (Some x)
      obtain row' s3 where b: "links_row sid x s2 = (row', s3)" by (cases "links_row sid x s2")
      show ?thesis
        by (simp add: start_finish_def n Inr a [unfolded Some] Some b) (rule fin; use link [OF act [OF a] b] assms in simp)
    qed
  qed
qed

lemma closes_visit:
  assumes own: "\<And>i r. map_of (sessions s) i = Some r \<Longrightarrow> ls_id r = i"
    and run: "reconcile_session env x (w, s) = (w', s')"
  shows "closes s s'"
proof (cases "ls_state x")
  case SessStarting
  show ?thesis
  proof (cases "ls_id x \<in> set (starting s)")
    case True
    then show ?thesis using run SessStarting by (auto simp: reconcile_session_def closes_def)
  next
    case idle: False
    obtain g s1 where g: "GetSession (ls_id x) s = (g, s1)" by (cases "GetSession (ls_id x) s")
    have s1: "settled s s1" using settled_simps(9) [of s "ls_id x"] by (simp add: g)
    show ?thesis
    proof (cases g)
      case (Inl e)
      then show ?thesis using run SessStarting idle g closes_settled [OF s1] by (simp add: reconcile_session_def)
    next
      case (Inr fresh)
      note eq = run [unfolded reconcile_session_def prod.case Let_def SessStarting session_state.case if_not_P [OF idle] g Inr sum.case]
      consider (started) "ls_state fresh = SessStarted" | (other) "ls_state fresh = SessAccepted \<or> ls_state fresh = SessDone"
        | (owed) "ls_state fresh = SessStarting" "ls_thread fresh = ''''"
        | (bound) "ls_state fresh = SessStarting" "ls_thread fresh \<noteq> ''''"
        by (cases "ls_state fresh") auto
      then show ?thesis
      proof cases
        case started
        then show ?thesis using eq closes_after [OF _ closes_observe [OF started]] over_settled [OF s1]
          by (auto simp: reconcile_started_def)
      next
        case other
        then show ?thesis using eq closes_settled [OF s1] by auto
      next
        case owed
        then show ?thesis using eq s1 by (auto simp: launch_def settled_def intro!: closes_same)
      next
        case bound
        obtain at s2 where n: "now s1 = (at, s2)" by (cases "now s1")
        define r where "r = fresh\<lparr>ls_state := SessStarted, ls_prompt := '''', ls_updated := at\<rparr>"
        obtain row s3 where a: "activity env (ls_id r) ''uncertain'' contentThought uncertain_text s2 = (row, s3)"
          by (cases "activity env (ls_id r) ''uncertain'' contentThought uncertain_text s2")
        have s2: "settled s s2" using settled_trans [OF s1 settled_simps(1) [of s1]] by (simp add: n)
        have s3: "settled s s3"
          using settled_trans [OF s2 settled_simps(15) [of s2 env "ls_id r" "''uncertain''" contentThought uncertain_text]]
          by (simp add: a)
        obtain y s4 where u: "UpdateSession r [row] s3 = (y, s4)" by (cases "UpdateSession r [row] s3")
        have rs: "ls_state r = SessStarted" by (simp add: r_def)
        have earlier: "over i s" if "over i s4" for i
          using over_UpdateSession [OF u that] rs over_settled [OF s3] by simp
        have "s' = s4 \<or> s' = observe_session env r s4"
          using eq bound unfolding n prod.case r_def [symmetric] a u
          by (auto simp: reconcile_started_def split: sum.splits)
        then show ?thesis
          using earlier closes_after [OF earlier closes_observe [OF rs]] by (auto simp: closes_def)
      qed
    qed
  qed
next
  case SessStarted
  then show ?thesis using run closes_observe [OF SessStarted] by (auto simp: reconcile_session_def reconcile_started_def)
qed (use run in \<open>auto simp: reconcile_session_def launch_def intro!: closes_same\<close>)

subsection \<open>The states of a session\<close>

text \<open>
  The moves of a session's row. A start that names its thread is never asked for again, unless T3 Code was found gone;
  from there to the end the row keeps its thread and turn.
\<close>

definition lifecycle :: "linear_session \<Rightarrow> linear_session \<Rightarrow> bool" where
  "lifecycle r r' \<longleftrightarrow>
     (case ls_state r of
        SessAccepted \<Rightarrow> ls_state r' = SessStarting \<and> ls_thread r' = ''''
      | SessStarting \<Rightarrow>
          if ls_thread r = ''''
          then ls_state r' \<noteq> SessStarted \<and> (ls_state r' = SessAccepted \<longrightarrow> ls_thread r' = '''')
          else ls_state r' = SessAccepted \<and> ls_thread r' = ''''
               \<or> (ls_state r' = SessStarted \<or> ls_state r' = SessDone) \<and> ls_thread r' = ls_thread r \<and> ls_turn r' = ls_turn r
      | SessStarted \<Rightarrow> (ls_state r' = SessStarted \<or> ls_state r' = SessDone) \<and> ls_thread r' = ls_thread r \<and> ls_turn r' = ls_turn r
      | SessDone \<Rightarrow> False)"

definition row_moves :: "'a linear_svc_scheme \<Rightarrow> 'a linear_svc_scheme \<Rightarrow> bool" where
  "row_moves s s' \<longleftrightarrow>
     (\<forall>i r. map_of (sessions s) i = Some r \<longrightarrow>
        (\<exists>r'. map_of (sessions s') i = Some r' \<and> (r' = r \<or> lifecycle r r')))"

lemma row_moves_same: "sessions s' = sessions s \<Longrightarrow> row_moves s s'"
  by (simp add: row_moves_def)

lemma row_moves_update:
  assumes "sessions s' = AList.update i r' (sessions s)" and "\<And>r. map_of (sessions s) i = Some r \<Longrightarrow> lifecycle r r'"
  shows "row_moves s s'"
  using assms by (auto simp: row_moves_def update_conv')

lemma row_moves_adds: "adds s s' \<Longrightarrow> row_moves s s'"
  by (auto simp: row_moves_def adds_def update_conv')

lemma row_moves_moves:
  assumes "moves i Q s s'" and "\<And>old r. map_of (sessions s) i = Some old \<Longrightarrow> Q old r \<Longrightarrow> lifecycle old r"
  shows "row_moves s s'"
  using assms unfolding moves_def by (auto intro: row_moves_same row_moves_update)

lemma row_moves_starts:
  fixes s :: "'b linear_run_scheme"
  assumes inv: "linear_inv s" and pol: "polite (le_resolve env)" and dis: "discreet (le_resolve env)"
    and l: "local_of sid s = Some l" and a: "map_of (answers s) sid = None"
    and run: "start_thread (traced sid env) sid l s = (res, s')"
  shows "row_moves s s' \<and> closes s s'"
proof -
  have l: "map_of (captured s) sid = Some l" using l by (simp add: local_of_def)
  obtain r0 where r0: "map_of (sessions s) sid = Some r0" "ls_state r0 = SessStarting" "ls_thread r0 = ''''"
      and lid: "ls_id (sl_session l) = sid" and lst: "ls_state (sl_session l) = SessStarting"
    using inv l a unfolding linear_inv_def flights_ok_def flight_def by fastforce
  have named: "named s" using inv by (simp add: linear_inv_def)
  have "sessions s' = sessions s \<or> (\<exists>r. ls_state r = SessStarting \<and> sessions s' = AList.update sid r (sessions s))"
  proof (cases rule: StartThread_run [OF polite_traced [OF pol] named run [unfolded start_thread_def],
      case_names early unrecorded dispatched])
    case (early e)
    then show ?thesis using calm_tables(1) by blast
  next
    case (unrecorded i t s1 x s2)
    then show ?thesis
      using record_ids_run [OF unrecorded(2) lid] calm_tables(1) [OF unrecorded(1)] calm_tables(1) [OF unrecorded(3)] by auto
  next
    case (dispatched prepare d sp pt i t s1 s2 e s3)
    obtain s2' where s3: "calm s2 s2'" "s3 = s2'\<lparr>dispatches := (sid, e) # dispatches s2'\<rparr>"
      using traced_dispatches [OF dis dispatched(1,2,6)] by blast
    have "sessions s' = sessions s2" using calm_tables(1) [OF dispatched(7)] calm_tables(1) [OF s3(1)] by (simp add: s3(2))
    moreover obtain r c where "ls_state r = ls_state (sl_session l)"
        "sessions s2 = AList.update sid (r\<lparr>ls_created := c\<rparr>) (sessions s1)"
      using record_ids_run [OF dispatched(5) lid] by auto
    ultimately show ?thesis
      using calm_tables(1) [OF dispatched(4)] lst by (intro disjI2 exI [of _ "r\<lparr>ls_created := c\<rparr>"]) simp
  qed
  then show ?thesis
  proof
    assume "\<exists>r. ls_state r = SessStarting \<and> sessions s' = AList.update sid r (sessions s)"
    then obtain r where r: "ls_state r = SessStarting" "sessions s' = AList.update sid r (sessions s)" by blast
    have "row_moves s s'" using r r0 by (intro row_moves_update [OF r(2)]) (simp add: lifecycle_def)
    moreover have "closes s s'" using over_update [OF r(2)] r(1) by (auto simp: closes_def)
    ultimately show ?thesis by simp
  qed (auto intro: row_moves_same closes_same)
qed

lemma row_moves_finishes:
  fixes s :: "'b linear_run_scheme"
  assumes inv: "linear_inv s" and l: "local_of sid s = Some l" and a: "map_of (answers s) sid = Some res"
  shows "row_moves s (start_finish env sid (sl_session l) res s) \<and> closes s (start_finish env sid (sl_session l) res s)"
proof -
  have l: "map_of (captured s) sid = Some l" using l by (simp add: local_of_def)
  obtain r0 where r0: "map_of (sessions s) sid = Some r0" "flight r0 (sl_session l) (Some res)"
      and lid: "ls_id (sl_session l) = sid"
    using inv l a unfolding linear_inv_def flights_ok_def by fastforce
  have "row_moves s (start_finish env sid (sl_session l) res s)"
    by (rule row_moves_moves [OF start_finish_moves [OF lid]])
      (use r0 in \<open>auto simp: outcome_of_def flight_def lifecycle_def split: sum.splits if_splits\<close>)
  then show ?thesis using closes_start_finish [OF lid] by blast
qed

lemma row_moves_launch_done:
  "row_moves s (launch_done sid t) \<longleftrightarrow> row_moves s t" "closes s (launch_done sid t) \<longleftrightarrow> closes s t"
  by (simp_all add: row_moves_def closes_def over_def told_def launch_done_def)

lemma row_moves_tables:
  fixes t :: "'b linear_run_scheme"
  shows "row_moves s (t\<lparr>answers := a\<rparr>) \<longleftrightarrow> row_moves s t" "closes s (t\<lparr>answers := a\<rparr>) \<longleftrightarrow> closes s t"
    "row_moves s (t\<lparr>pass := p\<rparr>) \<longleftrightarrow> row_moves s t" "closes s (t\<lparr>pass := p\<rparr>) \<longleftrightarrow> closes s t"
    "row_moves (s'\<lparr>pass := p\<rparr>) t \<longleftrightarrow> row_moves s' t" "closes (s'\<lparr>pass := p\<rparr>) t \<longleftrightarrow> closes s' t"
  by (simp_all add: row_moves_def closes_def over_def told_def)

lemma row_moves_visits:
  fixes s :: "'b linear_run_scheme"
  assumes inv: "linear_inv s" and p: "pass s = x # xs"
    and run: "reconcile_session env x (w, s\<lparr>pass := xs\<rparr>) = (w', s')"
  shows "row_moves s s' \<and> closes s s'"
proof -
  have own: "\<And>i r. map_of (sessions (s\<lparr>pass := xs\<rparr>)) i = Some r \<Longrightarrow> ls_id r = i"
    using inv by (simp add: linear_inv_def rows_ok_def)
  have listed: "ls_state x = SessStarted \<Longrightarrow> map_of (sessions s) (ls_id x) = Some x"
    using inv p by (simp add: linear_inv_def pass_ok_def)
  have "row_moves (s\<lparr>pass := xs\<rparr>) s'"
    using visit_run [OF own run]
  proof
    assume "moves (ls_id x) (visited (s\<lparr>pass := xs\<rparr>) x) (s\<lparr>pass := xs\<rparr>) s'"
    then show ?thesis
      by (rule row_moves_moves)
        (use listed in \<open>auto simp: visited_def watched_on_def lifecycle_def split: if_splits session_state.splits\<close>)
  qed (auto simp: launches_only_def intro: row_moves_same)
  then show ?thesis using closes_visit [OF own run] by (simp add: row_moves_tables)
qed

lemma linear_step_rows:
  fixes s :: "'b linear_run_scheme"
  assumes pol: "polite (le_resolve env)" and dis: "discreet (le_resolve env)" and step: "linear_step env s s'"
    and inv: "linear_inv s"
  shows "row_moves s s' \<and> closes s s'"
  using step
proof cases
  case (delivers d)
  then show ?thesis using row_moves_adds [OF Process_adds] closes_Process by blast
next
  case (lists rs s1)
  have "settled s s1" using settled_simps(10) [of s] lists(3) by simp
  then show ?thesis unfolding lists(1) row_moves_tables
    by (auto simp: settled_def intro: row_moves_same closes_same)
next
  case (visits x xs w w')
  then show ?thesis using row_moves_visits inv by blast
next
  case (claims sid)
  have own: "\<And>r. map_of (sessions s) sid = Some r \<Longrightarrow> ls_id r = sid" using inv_own [OF inv] .
  obtain old r where r: "map_of (sessions s) sid = Some old" "claimed old r" "sessions s' = AList.update sid r (sessions s)"
    using start_claim_run(5) [OF claims(3) own] by auto
  have "row_moves s s'"
    by (rule row_moves_update [OF r(3)]) (use r(1,2) in \<open>auto simp: claimed_def lifecycle_def\<close>)
  moreover have "closes s s'" using over_update [OF r(3)] r(2) by (auto simp: closes_def claimed_def)
  ultimately show ?thesis by blast
next
  case (gives_up sid s1)
  have own: "\<And>r. map_of (sessions s) sid = Some r \<Longrightarrow> ls_id r = sid" using inv_own [OF inv] .
  have "settled s s1" using start_claim_run(4) [OF gives_up(4) own] by simp
  then show ?thesis unfolding gives_up(1) row_moves_launch_done
    by (auto simp: settled_def intro: row_moves_same closes_same)
next
  case (starts sid l res s1)
  then show ?thesis using row_moves_starts [OF inv pol dis] by (simp add: row_moves_tables)
next
  case (finishes sid l res s1)
  then show ?thesis using row_moves_finishes [OF inv] by (auto simp: row_moves_tables row_moves_launch_done)
next
  case (sends row)
  then show ?thesis using settled_send_call [of s env row] by (auto simp: settled_def intro: row_moves_same closes_same)
next
  case prunes
  then show ?thesis using settled_prune_calls [of s] by (auto simp: settled_def intro: row_moves_same closes_same)
next
  case restarts
  then show ?thesis by (simp add: crashed_def row_moves_same closes_same)
next
  case others
  then show ?thesis by (simp add: same_tables_def row_moves_same closes_same)
qed

text \<open>
  C30. The life of a mention: in every step of every run a session's row stays as it is or moves along its state machine
  (an end is final, a start that is under way is not asked for again unless T3 Code was gone, and a binding to a thread and
  turn lasts to the end), and a session that ends is owed the activity that says so.
\<close>

theorem session_lifecycle:
  assumes "well_behaved env" and "fresh_run s0" and "(linear_step env)\<^sup>*\<^sup>* s0 s" and "linear_step env s s'"
    and "map_of (sessions s) sid = Some r"
  shows "\<exists>r'. map_of (sessions s') sid = Some r' \<and> (r' = r \<or> lifecycle r r')
    \<and> (ls_state r' = SessDone \<and> ls_state r \<noteq> SessDone \<longrightarrow>
        (\<exists>p \<in> set verdict_purposes. has_key (outbox s') (activity_key sid p)))"
proof -
  have "linear_inv s" by (rule linear_run_inv [OF assms(1-3)])
  then have "row_moves s s' \<and> closes s s'"
    using linear_step_rows [OF _ _ assms(4)] assms(1) by (simp add: well_behaved_def)
  then show ?thesis
    using assms(5) unfolding row_moves_def closes_def over_def told_def by fastforce
qed

subsection \<open>The answer is the turn's\<close>

text \<open>The one reading of a thread that answers a session: its own turn, complete, with its response.\<close>

definition answers_turn :: "linear_session \<Rightarrow> err + api_thread \<Rightarrow> string \<Rightarrow> bool" where
  "answers_turn r read text \<longleftrightarrow>
     (\<exists>t tn. read = Inr t \<and> ah_turn t = Some tn \<and> ath_id tn = ls_turn r \<and> ath_state tn = TurnCompleted
        \<and> ath_response tn = text \<and> text \<noteq> '''' \<and> (\<forall>p x. ah_pending t = Some (p, x) \<longrightarrow> p \<noteq> ls_turn r))"

lemma evaluate_answers:
  assumes "answers_turn r read text"
  shows "evaluate r read at grace = finish_session r at OutcomeResponded contentResponse text"
  using assms by (auto simp: answers_turn_def evaluate_def Let_def split: option.split)

lemma evaluate_responded:
  assumes "evaluate r read at grace = (r', ns, ch)" and "ls_outcome r \<noteq> OutcomeResponded" and "ls_outcome r' = OutcomeResponded"
  shows "\<exists>text. answers_turn r read text"
  using assms
  by (auto simp: answers_turn_def evaluate_def evaluate_open_def finish_session_def Let_def
      split: sum.splits option.splits if_splits prod.splits)

lemma map_of_enqueue_one:
  "map_of (enqueueAll [row] rows) (ob_id row) =
     (case map_of rows (ob_id row) of None \<Rightarrow> Some (row\<lparr>ob_attempts := 0, ob_sent := None, ob_failed := ''''\<rparr>) | Some x \<Rightarrow> Some x)"
  by (auto simp: enqueueAll_def InsertLinearOutbox_def has_key_def split: option.split)

text \<open>
  C31. Only the exact turn answers: watching a started session makes it answered precisely when its thread shows the turn
  the session was started for, completed with a response and no longer pending (and the database takes the write); then
  the response itself is owed to Linear, under an id that depends on the session alone.
\<close>

theorem only_the_exact_turn_answers:
  assumes "map_of (sessions s) (ls_id r) = Some r" and "ls_state r = SessStarted" and "ls_outcome r \<noteq> OutcomeResponded"
  shows "((\<exists>r'. map_of (sessions (observe_session env r s)) (ls_id r) = Some r' \<and> ls_outcome r' = OutcomeResponded)
      \<longleftrightarrow> \<not> fault s (io_ops s) \<and> (\<exists>msg. answers_turn r (Get_thread (le_linkers env) (ls_thread r) s) msg))
    \<and> (\<forall>msg. \<not> fault s (io_ops s) \<longrightarrow> answers_turn r (Get_thread (le_linkers env) (ls_thread r) s) msg
        \<longrightarrow> \<not> has_key (outbox s) (activity_key (ls_id r) ''result'')
        \<longrightarrow> (\<exists>row. map_of (outbox (observe_session env r s)) (activity_key (ls_id r) ''result'') = Some row \<and> owed row
              \<and> ob_call row = ActivityCall (UUIDFrom (le_sha256 env) (''linear-activity:'' @ activity_key (ls_id r) ''result''))
                                (ls_id r) contentResponse msg))"
proof -
  define read where "read = Get_thread (le_linkers env) (ls_thread r) s"
  define s1 where "s1 = s\<lparr>ticks := Suc (ticks s)\<rparr>"
  have n: "now s = (clock s (ticks s), s1)" by (simp add: now_def s1_def)
  define tm where "tm = clock s (ticks s)"
  obtain r' ns ch where ev: "evaluate r read tm responseGrace = (r', ns, ch)"
    by (cases "evaluate r read tm responseGrace")
  obtain rows s2 where a: "activities env (ls_id r) ns s1 = (rows, s2)" by (cases "activities env (ls_id r) ns s1")
  have obs: "observe_session env r s = (if \<not> ch then s1 else snd (UpdateSession r' rows s2))"
    by (simp add: observe_session_def n read_def [symmetric] tm_def [symmetric] ev a)
  have frame: "activities env i ns t = (rows, t') \<Longrightarrow>
      sessions t' = sessions t \<and> outbox t' = outbox t \<and> fault t' = fault t \<and> io_ops t' = io_ops t"
    for i ns rows and t t' :: "'a linear_svc_scheme"
    by (induction ns arbitrary: t rows t') (auto simp: activity_def now_def Let_def split: prod.splits)
  have s2: "sessions s2 = sessions s" "outbox s2 = outbox s" "fault s2 = fault s" "io_ops s2 = io_ops s"
    using frame [OF a] by (simp_all add: s1_def)
  show ?thesis
  proof (cases "\<exists>msg. answers_turn r read msg")
    case True
    then obtain msg where msg: "answers_turn r read msg" by blast
    have ev': "r' = r\<lparr>ls_state := SessDone, ls_outcome := OutcomeResponded, ls_updated := tm\<rparr>"
      "ns = [\<lparr>nt_purpose = ''result'', nt_kind = contentResponse, nt_body = msg\<rparr>]" "ch"
      using ev evaluate_answers [OF msg] by (auto simp: finish_session_def)
    obtain row where row: "rows = [row]" "ob_id row = activity_key (ls_id r) ''result''"
        "ob_call row = ActivityCall (UUIDFrom (le_sha256 env) (''linear-activity:'' @ activity_key (ls_id r) ''result''))
                         (ls_id r) contentResponse msg"
      using a unfolding ev'(2) by (auto simp: activity_def now_def Let_def)
    have other: "msg' = msg" if "answers_turn r read msg'" for msg'
      using that msg by (auto simp: answers_turn_def)
    show ?thesis
    proof (cases "fault s (io_ops s)")
      case True
      then have "sessions (observe_session env r s) = sessions s"
        using ev'(3) s2 by (simp add: obs UpdateSession_def io_step_def)
      then show ?thesis using True assms by simp
    next
      case False
      then have o: "sessions (observe_session env r s) = AList.update (ls_id r) (r'\<lparr>ls_created := ls_created r\<rparr>) (sessions s)"
          "outbox (observe_session env r s) = enqueueAll rows (outbox s)"
        using ev'(3) s2 assms(1) by (simp_all add: obs UpdateSession_def UpdateLinearSession_def io_step_def ev'(1))
      have "\<exists>x. map_of (outbox (observe_session env r s)) (activity_key (ls_id r) ''result'') = Some x \<and> owed x
              \<and> ob_call x = ob_call row" if "\<not> has_key (outbox s) (activity_key (ls_id r) ''result'')"
        using that map_of_enqueue_one [of row "outbox s"] unfolding o(2) row(1,2) by (simp add: has_key_def owed_def)
      moreover have "\<exists>r'. map_of (sessions (observe_session env r s)) (ls_id r) = Some r' \<and> ls_outcome r' = OutcomeResponded"
        unfolding o(1) by (simp add: ev'(1) update_conv')
      ultimately show ?thesis
        using False True unfolding read_def [symmetric] row(3) by (metis other)
    qed
  next
    case False
    have "ls_outcome r' \<noteq> OutcomeResponded" using evaluate_responded [OF ev assms(3)] False by blast
    moreover have "map_of (sessions (observe_session env r s)) (ls_id r)
        \<in> {Some r, Some (r'\<lparr>ls_created := ls_created r\<rparr>)}"
      using s2 assms(1) evaluate_keeps(1) [OF ev]
      by (auto simp: obs UpdateSession_def UpdateLinearSession_def io_step_def Let_def s1_def)
    ultimately show ?thesis using False assms(3) by (auto simp: read_def [symmetric])
  qed
qed

text \<open>A started session whose thread shows its turn complete.\<close>

definition sample_started :: linear_session where
  "sample_started =
     \<lparr>ls_id = ''s-1'', ls_prompt = '''', ls_state = SessStarted, ls_thread = ''thrd-aaaaa'', ls_turn = ''turn-a'',
      ls_noticed = ThreadNone, ls_completed_seen = None, ls_outcome = OutcomeNone, ls_created = 1, ls_updated = 1\<rparr>"

definition answered_run :: linear_run where
  "answered_run = sample_run\<lparr>sessions := [(''s-1'', sample_started)], view := [(''thrd-aaaaa'', sample_record)]\<rparr>"

lemma answered_run_facts:
  "map_of (sessions answered_run) (ls_id sample_started) = Some sample_started" "ls_state sample_started = SessStarted"
  "ls_outcome sample_started \<noteq> OutcomeResponded" "\<not> fault answered_run (io_ops answered_run)"
  "\<not> has_key (outbox answered_run) (activity_key (ls_id sample_started) ''result'')"
  by code_simp+

lemma answered_run_answers:
  "answers_turn sample_started (Get_thread (le_linkers sample_env) (ls_thread sample_started) answered_run) ''done''"
  by (simp add: answers_turn_def Get_thread_def thread_wire_def threadFrom_def answered_run_def sample_started_def sample_run_def
      sample_record_def sample_turn_def sample_env_def Let_def)

theorem only_the_exact_turn_answers_witness:
  "(\<exists>r'. map_of (sessions (observe_session sample_env sample_started answered_run)) ''s-1'' = Some r'
      \<and> ls_outcome r' = OutcomeResponded)
   \<and> (\<exists>row. map_of (outbox (observe_session sample_env sample_started answered_run)) ''s-1/result'' = Some row \<and> owed row)"
  using only_the_exact_turn_answers [OF answered_run_facts(1-3), of sample_env] answered_run_facts(4,5) answered_run_answers
  unfolding sample_started_def activity_key_def by auto

text \<open>The start of the sample run, recorded.\<close>

definition finish_outcome :: "linear_run \<Rightarrow> linear_run" where
  "finish_outcome s =
     start_finish sample_env ''s-1'' (sl_session (the (local_of ''s-1'' s))) (the (map_of (answers s) ''s-1'')) s"
definition finish_sample :: "linear_run \<Rightarrow> linear_run" where
  "finish_sample s = launch_done ''s-1'' ((finish_outcome s)\<lparr>answers := AList.delete ''s-1'' (answers (finish_outcome s))\<rparr>)"
definition finish_facts :: "linear_run \<Rightarrow> bool" where
  "finish_facts s \<longleftrightarrow> local_of ''s-1'' s \<noteq> None \<and> map_of (answers s) ''s-1'' \<noteq> None
   \<and> map_option ls_state (map_of (sessions s) ''s-1'') = Some SessStarting
   \<and> map_option ls_state (map_of (sessions (finish_sample s)) ''s-1'') = Some SessStarted"

lemma run_facts6: "finish_facts run5"
  by code_simp

abbreviation run7 :: linear_run where "run7 \<equiv> finish_sample run5"

theorem session_lifecycle_witness:
  "\<exists>r r'. map_of (sessions run5) ''s-1'' = Some r \<and> map_of (sessions run7) ''s-1'' = Some r' \<and> ls_state r' = SessStarted
     \<and> lifecycle r r' \<and> ls_thread r' = ls_thread r"
proof -
  obtain l res where l: "local_of ''s-1'' run5 = Some l" and a: "map_of (answers run5) ''s-1'' = Some res"
    using run_facts6 by (auto simp: finish_facts_def)
  have "linear_step sample_env run5 run7"
    using finishes [OF l a, of sample_env "finish_outcome run5"] by (simp add: finish_sample_def finish_outcome_def l a)
  note step = session_lifecycle [OF sample_env_behaves sample_run_fresh sample_run_reached this]
  obtain r where r: "map_of (sessions run5) ''s-1'' = Some r" "ls_state r = SessStarting"
    using run_facts6 by (auto simp: finish_facts_def)
  obtain r' where r': "map_of (sessions run7) ''s-1'' = Some r'" "r' = r \<or> lifecycle r r'" using step [OF r(1)] by blast
  moreover have "ls_state r' = SessStarted" using run_facts6 r'(1) by (simp add: finish_facts_def)
  ultimately show ?thesis using r by (auto simp: lifecycle_def split: if_splits)
qed

end
