(* ===== verification/LinearDrain.thy ===== *)
theory LinearDrain
  imports LinearOwed "HOL-Library.Multiset"
begin

text \<open>
  The outbox drains: while Linear takes the calls and the database takes the marks, each batch of the sender sends the
  calls that are due, sixteen at a time.
\<close>

declare map_of_eq_Some_iff [simp del] Some_eq_map_of_iff [simp del]

text \<open>Linear takes every call; a credential without a recorded end; no driver failure; rows under their own ids.\<close>

definition takes_calls :: "'a linear_svc_scheme linear_env \<Rightarrow> bool" where
  "takes_calls env \<longleftrightarrow> (\<forall>tok row s. post_call env tok row s = None)"

definition outbox_ok :: "'a linear_svc_scheme \<Rightarrow> bool" where
  "outbox_ok s \<longleftrightarrow> distinct (map fst (outbox s)) \<and> (\<forall>(k, r) \<in> set (outbox s). ob_id r = k)"

definition in_service :: "'a linear_svc_scheme \<Rightarrow> bool" where
  "in_service s \<longleftrightarrow> (\<exists>c. config s = Some c \<and> is_zero (st_expires c)) \<and> (\<forall>n. \<not> fault s n) \<and> outbox_ok s
     \<and> (\<forall>(k, r) \<in> set (outbox s). owed r \<longrightarrow> (\<forall>n \<ge> ticks s. ob_next r \<le> clock s n))"

definition owed_keys :: "'a linear_svc_scheme \<Rightarrow> string set" where
  "owed_keys s = {k. \<exists>r. map_of (outbox s) k = Some r \<and> owed r}"

lemma finite_owed_keys: "finite (owed_keys s)"
proof -
  have "owed_keys s \<subseteq> fst ` set (outbox s)" by (force simp: owed_keys_def dest!: map_of_SomeD)
  then show ?thesis using finite_subset by blast
qed

subsection \<open>One call\<close>

lemma send_call_taken:
  assumes "takes_calls env" and "in_service s"
  shows "send_call env row s = s\<lparr>ticks := Suc (ticks s), io_ops := Suc (io_ops s),
           outbox := mark_unsent (ob_id row) (\<lambda>r. r\<lparr>ob_sent := Some (clock s (ticks s))\<rparr>) (outbox s)\<rparr>"
proof -
  obtain c where c: "config s = Some c" "is_zero (st_expires c)" using assms(2) by (auto simp: in_service_def)
  have "try_send env row s = (None, s)"
    using assms(1) c by (simp add: try_send_def token_def takes_calls_def)
  then show ?thesis
    using assms(2) by (simp add: send_call_def record_result_def now_def Sent_def mark_call_def io_step_def Let_def in_service_def)
qed

lemma mark_unsent_rows:
  assumes "distinct (map fst rows)" and "\<forall>(k, r) \<in> set rows. ob_id r = k" and "\<And>r. ob_id (f r) = ob_id r"
  shows "distinct (map fst (mark_unsent i f rows))" "\<forall>(k, r) \<in> set (mark_unsent i f rows). ob_id r = k"
    and "(k, r) \<in> set (mark_unsent i f rows) \<Longrightarrow> (k, r) \<in> set rows \<or> (\<exists>x. map_of rows k = Some x \<and> k = i \<and> r = f x)"
proof -
  have in_update: "(k, r) \<in> set (AList.update i v rows) \<Longrightarrow> (k, r) \<in> set rows \<or> k = i \<and> r = v" for k r v
    by (induction rows) (auto split: if_splits)
  show "distinct (map fst (mark_unsent i f rows))"
    using assms(1) by (simp add: mark_unsent_def distinct_update split: option.split)
  have own: "map_of rows i = Some x \<Longrightarrow> ob_id x = i" for x using assms(2) by (auto dest!: map_of_SomeD)
  show "\<forall>(k, r) \<in> set (mark_unsent i f rows). ob_id r = k"
  proof (cases "map_of rows i")
    case None
    then show ?thesis using assms(2) by (simp add: mark_unsent_def)
  next
    case (Some x)
    have "ob_id y = k" if "(k, y) \<in> set (AList.update i (f x) rows)" for k y
      using in_update [OF that] assms(2,3) own [OF Some] by auto
    then show ?thesis using Some assms(2) by (auto simp: mark_unsent_def)
  qed
  show "(k, r) \<in> set (mark_unsent i f rows) \<Longrightarrow> (k, r) \<in> set rows \<or> (\<exists>x. map_of rows k = Some x \<and> k = i \<and> r = f x)"
    using in_update by (auto simp: mark_unsent_def split: option.splits if_splits)
qed

lemma send_call_in_service:
  assumes "takes_calls env" and s: "in_service s"
  shows "in_service (send_call env row s)" "owed_keys (send_call env row s) = owed_keys s - {ob_id row}"
proof -
  define f where "f = (\<lambda>r :: outbox_row. r\<lparr>ob_sent := Some (clock s (ticks s))\<rparr>)"
  define rows where "rows = mark_unsent (ob_id row) f (outbox s)"
  have t: "send_call env row s = s\<lparr>ticks := Suc (ticks s), io_ops := Suc (io_ops s), outbox := rows\<rparr>"
    using send_call_taken [OF assms] by (simp add: f_def rows_def)
  have ok: "distinct (map fst (outbox s))" "\<forall>(k, r) \<in> set (outbox s). ob_id r = k" using s by (auto simp: in_service_def outbox_ok_def)
  have f: "ob_id (f r) = ob_id r" "\<not> owed (f r)" for r by (simp_all add: f_def owed_def)
  have m: "distinct (map fst rows)" "\<forall>(k, r) \<in> set rows. ob_id r = k"
    unfolding rows_def using mark_unsent_rows(1,2) [OF ok f(1)] by blast+
  have m3: "(k, r) \<in> set rows \<Longrightarrow> (k, r) \<in> set (outbox s) \<or> (\<exists>x. map_of (outbox s) k = Some x \<and> k = ob_id row \<and> r = f x)" for k r
    unfolding rows_def by (rule mark_unsent_rows(3) [OF ok f(1)])
  have due: "ob_next r \<le> clock s n" if "(k, r) \<in> set rows" "owed r" "n \<ge> Suc (ticks s)" for k r n
    using m3 [OF that(1)] that(2,3) f(2) s by (fastforce simp: in_service_def)
  show "in_service (send_call env row s)"
    using m(1,2) due s by (fastforce simp: t in_service_def outbox_ok_def)
  show "owed_keys (send_call env row s) = owed_keys s - {ob_id row}"
    by (auto simp: t owed_keys_def rows_def mark_unsent_def owed_def f_def update_conv' split: option.splits if_splits)
qed

lemma send_calls_in_service:
  assumes "takes_calls env" and "in_service s"
  shows "in_service (fold (send_call env) rows s) \<and> owed_keys (fold (send_call env) rows s) = owed_keys s - ob_id ` set rows"
  using assms(2)
proof (induction rows arbitrary: s)
  case (Cons r rows)
  then show ?case using send_call_in_service [OF assms(1) Cons.prems, of r] Cons.IH by auto
qed simp

subsection \<open>One batch\<close>

lemma set_by_session: "set (by_session rows) = set rows"
  by (auto simp: by_session_def)

lemma due_calls:
  assumes "in_service s" and "n \<ge> ticks s"
  shows "card (ob_id ` set (ListDueLinearOutbox (clock s n) k (outbox s))) = min k (card (owed_keys s))"
    and "ob_id ` set (ListDueLinearOutbox (clock s n) k (outbox s)) \<subseteq> owed_keys s"
proof -
  define due where "due = filter (\<lambda>r. owed r \<and> ob_next r \<le> clock s n) (map snd (outbox s))"
  have ok: "distinct (map fst (outbox s))" "\<forall>(k, r) \<in> set (outbox s). ob_id r = k" using assms(1) by (auto simp: in_service_def outbox_ok_def)
  have all: "due = filter owed (map snd (outbox s))"
    unfolding due_def using assms by (intro filter_cong) (fastforce simp: in_service_def)+
  have ids: "map ob_id (map snd (outbox s)) = map fst (outbox s)" using ok(2) by auto
  then have dist: "distinct (map ob_id due)" unfolding due_def using ok(1) by (metis distinct_map_filter)
  have keys: "ob_id ` set due = owed_keys s"
    using ok by (force simp: all owed_keys_def map_of_eq_Some_iff)
  define sorted where "sorted = sort_key (\<lambda>r. (ob_next r, ob_created r, ob_id r)) due"
  have l: "ListDueLinearOutbox (clock s n) k (outbox s) = take k sorted" by (simp add: ListDueLinearOutbox_def due_def sorted_def)
  have "mset (map ob_id sorted) = mset (map ob_id due)"
    by (simp add: sorted_def)
  then have d: "distinct (map ob_id sorted)" "set (map ob_id sorted) = owed_keys s"
    using dist keys mset_eq_setD mset_eq_imp_distinct_iff by (metis, metis set_map)
  have "card (set (take k (map ob_id sorted))) = min k (card (owed_keys s))"
    using d distinct_card [OF distinct_take [OF d(1)], of k] distinct_card [OF d(1)] by (simp add: min.commute)
  then show "card (ob_id ` set (ListDueLinearOutbox (clock s n) k (outbox s))) = min k (card (owed_keys s))"
    unfolding l by (simp add: take_map)
  show "ob_id ` set (ListDueLinearOutbox (clock s n) k (outbox s)) \<subseteq> owed_keys s"
    unfolding l using d(2) by (auto dest: in_set_takeD)
qed

lemma sendDue_in_service:
  assumes "takes_calls env" and "in_service s"
  shows "in_service (snd (sendDue env s)) \<and> card (owed_keys (snd (sendDue env s))) = card (owed_keys s) - sendBatch"
proof -
  define s1 where "s1 = s\<lparr>ticks := Suc (ticks s), io_ops := Suc (io_ops s)\<rparr>"
  define due where "due = ListDueLinearOutbox (clock s (ticks s)) sendBatch (outbox s)"
  have run: "snd (sendDue env s) = fold (send_call env) (by_session due) s1"
    using assms(2) by (simp add: sendDue_def now_def Due_calls_def io_step_def Let_def in_service_def s1_def due_def)
  have s1: "in_service s1" using assms(2) by (fastforce simp: in_service_def outbox_ok_def s1_def)
  have "card (owed_keys s1 - ob_id ` set due) = card (owed_keys s) - sendBatch"
    using due_calls [OF assms(2), of "ticks s" sendBatch] finite_owed_keys [of s]
    by (simp add: due_def card_Diff_subset s1_def owed_keys_def)
  then show ?thesis
    using send_calls_in_service [OF assms(1) s1, of "by_session due"] by (simp add: run set_by_session)
qed

text \<open>
  C33. The outbox drains: while Linear takes the calls, the credential lasts and the database does not fail, every batch
  sends sixteen of the calls that are owed and due, or all that are left; after enough batches nothing is owed.
\<close>

theorem owed_calls_drain:
  assumes "takes_calls env" and "in_service s"
  shows "card (owed_keys (((\<lambda>s. snd (sendDue env s)) ^^ n) s)) = card (owed_keys s) - 16 * n
    \<and> (card (owed_keys s) \<le> 16 * n \<longrightarrow> owed_keys (((\<lambda>s. snd (sendDue env s)) ^^ n) s) = {})"
proof -
  have "in_service (((\<lambda>s. snd (sendDue env s)) ^^ n) s)
      \<and> card (owed_keys (((\<lambda>s. snd (sendDue env s)) ^^ n) s)) = card (owed_keys s) - 16 * n"
  proof (induction n)
    case (Suc n)
    then show ?case using sendDue_in_service [OF assms(1)] by (simp add: sendBatch_def)
  qed (simp add: assms(2))
  then show ?thesis using finite_owed_keys by (metis card_0_eq diff_is_0_eq)
qed

text \<open>One thought owed, to a Linear that takes every call.\<close>

definition owing_run :: linear_run where
  "owing_run = sample_run\<lparr>outbox := [(''s-1/ack'',
     \<lparr>ob_id = ''s-1/ack'', ob_session = ''s-1'', ob_call = ActivityCall ''u'' ''s-1'' contentThought ''hi'', ob_attempts = 0,
      ob_next = 7, ob_sent = None, ob_failed = '''', ob_created = 7\<rparr>)]\<rparr>"

theorem owed_calls_drain_witness: "owed_keys (snd (sendDue taking_env owing_run)) = {}"
proof -
  have "takes_calls taking_env"
    by (simp add: takes_calls_def taking_env_def post_call_def graphql_def succeeded_def body_errors_def)
  moreover have "in_service owing_run"
    by (simp add: in_service_def owing_run_def sample_run_def is_zero_def outbox_ok_def)
  moreover have "owed_keys owing_run \<subseteq> {''s-1/ack''}"
    by (auto simp: owed_keys_def owing_run_def split: if_splits)
  then have "card (owed_keys owing_run) \<le> 1" using card_mono [of "{''s-1/ack''}"] by simp
  ultimately show ?thesis using owed_calls_drain [of taking_env owing_run 1] by simp
qed

end
