(* ===== verification/Archives.thy ===== *)
theory Archives
  imports GoStrings
begin

text \<open>
  \<^verbatim>\<open>internal/artifacts/content.go\<close>: what an uploaded archive may contain. The decompressor and the tar reader are the
  standard library's: an archive is the sequence of members they yield, with the decompressed bytes read by then, and how
  the stream ends. Validation, the safe names and the tree of files a build extracts to are the program's.
\<close>

subsection \<open>Paths\<close>

text \<open>\<^verbatim>\<open>strings.Split(s, "/")\<close>.\<close>

fun split_slash :: "string \<Rightarrow> string list" where
  "split_slash [] = [[]]"
| "split_slash (c # s) =
     (if c = CHR ''/'' then [] # split_slash s
      else case split_slash s of [] \<Rightarrow> [[c]] | w # ws \<Rightarrow> (c # w) # ws)"

fun join_slash :: "string list \<Rightarrow> string" where
  "join_slash [] = ''''"
| "join_slash [w] = w"
| "join_slash (w # ws) = w @ CHR ''/'' # join_slash ws"

text \<open>
  \<^verbatim>\<open>path.Clean\<close>: blank and dot elements go, a dot-dot takes the element before it. When there is none it stays in a
  relative path and goes in a rooted one, whose leading slash stays.
\<close>

fun clean_elements :: "bool \<Rightarrow> string list \<Rightarrow> string list \<Rightarrow> string list" where
  "clean_elements rooted acc [] = rev acc"
| "clean_elements rooted acc (w # ws) =
     (if w = '''' \<or> w = ''.'' then clean_elements rooted acc ws
      else if w = ''..''
      then (case acc of
              [] \<Rightarrow> clean_elements rooted (if rooted then [] else [''..'']) ws
            | v # vs \<Rightarrow> if v = ''..'' then clean_elements rooted (''..'' # acc) ws else clean_elements rooted vs ws)
      else clean_elements rooted (w # acc) ws)"

definition path_clean :: "string \<Rightarrow> string" where
  "path_clean s =
     (let rooted = HasPrefix s ''/'';
          ws = clean_elements rooted [] (split_slash s)
      in if rooted then CHR ''/'' # join_slash ws else if ws = [] then ''.'' else join_slash ws)"

text \<open>\<^verbatim>\<open>utf8.ValidString\<close>: the well-formed byte sequences of the encoding.\<close>

definition byte_in :: "char \<Rightarrow> nat \<Rightarrow> nat \<Rightarrow> bool" where
  "byte_in c lo hi \<longleftrightarrow> lo \<le> of_char c \<and> of_char c \<le> hi"

fun valid_utf8 :: "string \<Rightarrow> bool" where
  "valid_utf8 [] = True"
| "valid_utf8 (a # s) =
     (if byte_in a 0 127 then valid_utf8 s
      else case s of
             [] \<Rightarrow> False
           | b # s1 \<Rightarrow>
               if byte_in a 194 223 then byte_in b 128 191 \<and> valid_utf8 s1
               else case s1 of
                      [] \<Rightarrow> False
                    | c # s2 \<Rightarrow>
                        if byte_in a 224 239
                        then byte_in b (if byte_in a 224 224 then 160 else 128) (if byte_in a 237 237 then 159 else 191)
                             \<and> byte_in c 128 191 \<and> valid_utf8 s2
                        else case s2 of
                               [] \<Rightarrow> False
                             | d # s3 \<Rightarrow>
                                 byte_in a 240 244
                                 \<and> byte_in b (if byte_in a 240 240 then 144 else 128) (if byte_in a 244 244 then 143 else 191)
                                 \<and> byte_in c 128 191 \<and> byte_in d 128 191 \<and> valid_utf8 s3)"

text \<open>\<^verbatim>\<open>fs.ValidPath\<close>.\<close>

definition ValidPath :: "string \<Rightarrow> bool" where
  "ValidPath s \<longleftrightarrow> valid_utf8 s \<and> (s = ''.'' \<or> list_all (\<lambda>w. w \<noteq> '''' \<and> w \<noteq> ''.'' \<and> w \<noteq> ''..'') (split_slash s))"

definition trim_prefix :: "string \<Rightarrow> string \<Rightarrow> string" where
  "trim_prefix s p = (if HasPrefix s p then drop (length p) s else s)"

text \<open>\<^verbatim>\<open>safeName\<close>: no answer refuses the member; the empty name is the archive's root.\<close>

definition safeName :: "string \<Rightarrow> string option" where
  "safeName name =
     (if CHR 0x00 \<in> set name \<or> HasPrefix name ''/'' \<or> HasPrefix name [CHR 0x5C] then None
      else let cleaned = path_clean (trim_prefix name ''./'')
           in if cleaned = ''.'' \<or> cleaned = '''' then Some ''''
              else if cleaned = ''..'' \<or> HasPrefix cleaned ''../'' \<or> \<not> ValidPath cleaned then None
              else Some cleaned)"

subsection \<open>Archives\<close>

datatype member_type = TypeReg | TypeDir | TypeMeta | TypeOther

text \<open>\<open>mb_read\<close> and \<open>mb_end\<close>: the decompressed bytes read once the header, and once the content, has been read.\<close>

record member =
  mb_type :: member_type
  mb_name :: string
  mb_size :: int
  mb_content :: string
  mb_read :: int
  mb_end :: int

text \<open>How the reader stops after the members, having read so many bytes: at the end mark, or at a malformed header.\<close>

datatype archive_end = EndMark int bool | Malformed int

datatype archive = NotGzip | Gzip "member list" archive_end

record limits =
  MaxEntries :: nat
  MaxFileBytes :: int
  MaxTotalBytes :: int

definition DefaultLimits :: limits where
  "DefaultLimits = \<lparr>MaxEntries = 8192, MaxFileBytes = 64 * 2 ^ 20, MaxTotalBytes = 256 * 2 ^ 20\<rparr>"

text \<open>
  \<^verbatim>\<open>walkArchive\<close>: \<open>visit\<close> folds the state over the accepted members and may refuse one with a package error's text. The
  bounded reader fails once more than the limit has been read, whoever reads.
\<close>

fun walk_members ::
  "string \<Rightarrow> limits \<Rightarrow> (string \<Rightarrow> member \<Rightarrow> 'b \<Rightarrow> string + 'b) \<Rightarrow> nat \<Rightarrow> member list \<Rightarrow> archive_end \<Rightarrow> 'b \<Rightarrow> string + 'b" where
  "walk_members kind lim visit n [] (Malformed p) t =
     Inl (kind @ (if p > MaxTotalBytes lim then '' archive: decompressed size exceeds the limit'' else '' archive: not a tar archive''))"
| "walk_members kind lim visit n [] (EndMark p intact) t =
     (if p > MaxTotalBytes lim then Inl (kind @ '' archive: decompressed size exceeds the limit'')
      else if \<not> intact then Inl (kind @ '' archive: corrupt gzip stream'') else Inr t)"
| "walk_members kind lim visit n (m # ms) e t =
     (if mb_read m > MaxTotalBytes lim then Inl (kind @ '' archive: decompressed size exceeds the limit'')
      else if Suc n > MaxEntries lim then Inl (kind @ '' archive: too many entries'')
      else if mb_type m = TypeMeta then walk_members kind lim visit (Suc n) ms e t
      else if mb_type m = TypeOther then Inl (kind @ '' archive: not a regular file or directory'')
      else case safeName (mb_name m) of
             None \<Rightarrow> Inl (kind @ '' archive: not a safe relative path'')
           | Some name \<Rightarrow>
               if name = '''' then walk_members kind lim visit (Suc n) ms e t
               else if mb_type m = TypeReg \<and> mb_size m > MaxFileBytes lim then Inl (kind @ '' archive: a file is too large'')
               else case visit name m t of
                      Inl x \<Rightarrow> Inl x
                    | Inr t' \<Rightarrow>
                        if mb_type m = TypeReg \<and> mb_end m > MaxTotalBytes lim
                        then Inl (kind @ '' archive: decompressed size exceeds the limit'')
                        else walk_members kind lim visit (Suc n) ms e t')"

definition walkArchive ::
  "string \<Rightarrow> archive \<Rightarrow> limits \<Rightarrow> (string \<Rightarrow> member \<Rightarrow> 'b \<Rightarrow> string + 'b) \<Rightarrow> 'b \<Rightarrow> string + 'b" where
  "walkArchive kind ar lim visit t =
     (case ar of NotGzip \<Rightarrow> Inl (kind @ '' archive: not gzip'') | Gzip ms e \<Rightarrow> walk_members kind lim visit 0 ms e t)"

subsection \<open>The tree of a build\<close>

text \<open>The files and directories below the build directory, keyed by clean relative path.\<close>

datatype tree_node = Dir | File string

type_synonym tree = "(string \<times> tree_node) list"

text \<open>The directories above a path: its proper prefixes that end before a slash.\<close>

definition parents :: "string \<Rightarrow> string list" where
  "parents path = (let ws = split_slash path in map (\<lambda>k. join_slash (take k ws)) [1..<length ws])"

text \<open>\<^verbatim>\<open>os.MkdirAll\<close> inside the tree: an element that is a file is in the way.\<close>

definition mkdir_all :: "string list \<Rightarrow> tree \<Rightarrow> tree option" where
  "mkdir_all ds t =
     (if list_ex (\<lambda>d. case map_of t d of Some (File c) \<Rightarrow> True | _ \<Rightarrow> False) ds then None
      else Some (fold (\<lambda>d t. AList.update d Dir t) ds t))"

definition visit_build :: "string \<Rightarrow> member \<Rightarrow> tree \<times> bool \<Rightarrow> string + tree \<times> bool" where
  "visit_build name m acc =
     (let (t, hasIndex) = acc
      in if mb_type m = TypeDir
         then (case mkdir_all (parents name @ [name]) t of
                 None \<Rightarrow> Inl ''build archive: a directory conflicts with a file of the same name''
               | Some t \<Rightarrow> Inr (t, hasIndex))
         else (case mkdir_all (parents name) t of
                 None \<Rightarrow> Inl ''build archive: a name conflicts with a file of the same name''
               | Some t \<Rightarrow>
                   if map_of t name \<noteq> None then Inl ''build archive: a name appears more than once''
                   else Inr (AList.update name (File (mb_content m)) t, hasIndex \<or> name = ''index.html'')))"

definition extractBuild :: "archive \<Rightarrow> limits \<Rightarrow> string + tree" where
  "extractBuild ar lim =
     (case walkArchive ''build'' ar lim visit_build ([], False) of
        Inl x \<Rightarrow> Inl x
      | Inr (t, hasIndex) \<Rightarrow> if \<not> hasIndex then Inl ''build archive has no index.html at its root'' else Inr t)"

definition visit_source :: "string \<Rightarrow> member \<Rightarrow> nat \<Rightarrow> string + nat" where
  "visit_source name m files = Inr (if mb_type m = TypeDir then files else Suc files)"

definition copySource :: "archive \<Rightarrow> limits \<Rightarrow> string + archive" where
  "copySource ar lim =
     (case walkArchive ''source'' ar lim visit_source 0 of
        Inl x \<Rightarrow> Inl x
      | Inr files \<Rightarrow> if files = 0 then Inl ''source archive has no files'' else Inr ar)"

subsection \<open>Elements\<close>

lemma split_slash_ne [simp]: "split_slash s \<noteq> []"
  by (cases s) (auto split: list.split)

lemma join_split [simp]: "join_slash (split_slash s) = s"
proof (induction s)
  case (Cons c s)
  then show ?case
    by (cases "split_slash s" rule: join_slash.cases) (auto simp: neq_Nil_conv)
qed simp

lemma split_plain: "CHR ''/'' \<notin> set w \<Longrightarrow> split_slash w = [w]"
  by (induction w) auto

lemma split_append_slash: "CHR ''/'' \<notin> set w \<Longrightarrow> split_slash (w @ CHR ''/'' # s) = w # split_slash s"
  by (induction w) auto

lemma split_join: "ws \<noteq> [] \<Longrightarrow> \<forall>w \<in> set ws. CHR ''/'' \<notin> set w \<Longrightarrow> split_slash (join_slash ws) = ws"
  by (induction ws rule: join_slash.induct) (auto simp: split_plain split_append_slash)

lemma split_no_slash: "w \<in> set (split_slash s) \<Longrightarrow> CHR ''/'' \<notin> set w"
  by (induction s arbitrary: w) (auto split: list.splits if_splits)

lemma split_take: "0 < k \<Longrightarrow> split_slash (join_slash (take k (split_slash s))) = take k (split_slash s)"
  by (rule split_join) (auto dest: in_set_takeD split_no_slash)

text \<open>A name that stays below the directory it is joined to.\<close>

definition confined :: "string \<Rightarrow> bool" where
  "confined p \<longleftrightarrow> (\<forall>w \<in> set (split_slash p). w \<noteq> '''' \<and> w \<noteq> ''.'' \<and> w \<noteq> ''..'')"

lemma safeName_confined: "safeName n = Some p \<Longrightarrow> p \<noteq> '''' \<Longrightarrow> confined p"
  by (auto simp: safeName_def Let_def ValidPath_def confined_def list_all_iff split: if_splits)

lemma parentsE:
  assumes "d \<in> set (parents p)"
  obtains k where "0 < k" "k < length (split_slash p)" "d = join_slash (take k (split_slash p))"
proof -
  from assms have "d \<in> (\<lambda>k. join_slash (take k (split_slash p))) ` set [1..<length (split_slash p)]"
    by (simp add: parents_def Let_def)
  then show thesis
  proof (rule imageE)
    fix k assume "d = join_slash (take k (split_slash p))" "k \<in> set [1..<length (split_slash p)]"
    then show thesis using that [of k] by simp
  qed
qed

lemma parentsI: "0 < k \<Longrightarrow> k < length (split_slash p) \<Longrightarrow> join_slash (take k (split_slash p)) \<in> set (parents p)"
  by (simp add: parents_def Let_def)

lemma parents_trans: "d \<in> set (parents p) \<Longrightarrow> x \<in> set (parents d) \<Longrightarrow> x \<in> set (parents p)"
proof (elim parentsE)
  fix k j
  assume k: "0 < k" "k < length (split_slash p)" "d = join_slash (take k (split_slash p))"
    and j: "0 < j" "j < length (split_slash d)" "x = join_slash (take j (split_slash d))"
  have "split_slash d = take k (split_slash p)" using k split_take by simp
  then have "x = join_slash (take j (split_slash p))" "j < k" using j k by (simp_all add: min_absorb1)
  then show ?thesis using parentsI [of j p] j k by simp
qed

lemma parents_confined: "confined p \<Longrightarrow> d \<in> set (parents p) \<Longrightarrow> confined d"
proof (elim parentsE)
  fix k
  assume p: "confined p" and k: "0 < k" "d = join_slash (take k (split_slash p))"
  have "split_slash d = take k (split_slash p)" using k split_take by simp
  then show ?thesis using p unfolding confined_def by (auto dest: in_set_takeD)
qed

lemma parents_irrefl: "p \<notin> set (parents p)"
proof
  assume "p \<in> set (parents p)"
  then obtain k where "0 < k" "k < length (split_slash p)" "p = join_slash (take k (split_slash p))"
    by (rule parentsE)
  then show False using split_take [of k p] by (metis length_take min.absorb4 nat_neq_iff)
qed

text \<open>A clean name cleans to itself.\<close>

lemma clean_elements_plain:
  "\<forall>w \<in> set ws. w \<noteq> '''' \<and> w \<noteq> ''.'' \<and> w \<noteq> ''..'' \<Longrightarrow> clean_elements r acc ws = rev acc @ ws"
  by (induction ws arbitrary: acc) auto

lemma confined_not_rooted: "confined p \<Longrightarrow> \<not> HasPrefix p ''/''"
proof
  assume p: "confined p" and "HasPrefix p ''/''"
  then obtain r where "p = CHR ''/'' # r" by (auto simp: HasPrefix_iff)
  then have "'''' \<in> set (split_slash p)" by simp
  then show False using p unfolding confined_def by blast
qed

lemma path_clean_confined: "confined p \<Longrightarrow> path_clean p = p"
proof -
  assume p: "confined p"
  then have "clean_elements False [] (split_slash p) = split_slash p"
    unfolding confined_def by (simp add: clean_elements_plain)
  moreover have "HasPrefix p ''/'' = False" using confined_not_rooted [OF p] by simp
  ultimately show "path_clean p = p" by (simp only: path_clean_def Let_def) simp
qed

text \<open>A rooted path cleans to a rooted one, which is no valid path: a name with a rooted remainder is refused.\<close>

lemma path_clean_rooted: "HasPrefix s ''/'' \<Longrightarrow> \<exists>r. path_clean s = CHR ''/'' # r"
  by (simp add: path_clean_def Let_def)

lemma rooted_not_valid: "\<not> ValidPath (CHR ''/'' # r)"
  by (simp add: ValidPath_def)

lemma safeName_rooted:
  assumes "HasPrefix n ''/'' \<or> HasPrefix n ''.//''"
  shows "safeName n = None"
proof (cases "HasPrefix n ''/''")
  case False
  then have "HasPrefix n ''./''" and "HasPrefix (trim_prefix n ''./'') ''/''"
    using assms by (auto simp: HasPrefix_iff trim_prefix_def)
  then obtain r where "path_clean (trim_prefix n ''./'') = CHR ''/'' # r" using path_clean_rooted by blast
  then show ?thesis by (simp add: safeName_def rooted_not_valid)
qed (simp add: safeName_def)

subsection \<open>What a build extracts to\<close>

text \<open>A tree as extraction leaves it: names confined, and above every entry nothing but directories.\<close>

definition good_tree :: "tree \<Rightarrow> bool" where
  "good_tree t \<longleftrightarrow>
     (\<forall>p x. map_of t p = Some x \<longrightarrow> confined p \<and> (\<forall>d \<in> set (parents p). map_of t d = Some Dir))"

definition file_of :: "member \<Rightarrow> string \<Rightarrow> string \<Rightarrow> bool" where
  "file_of m p c \<longleftrightarrow> mb_type m = TypeReg \<and> p \<noteq> '''' \<and> safeName (mb_name m) = Some p \<and> mb_content m = c"

lemma fold_dirs: "map_of (fold (\<lambda>d t. AList.update d Dir t) ds t) p = (if p \<in> set ds then Some Dir else map_of t p)"
  by (induction ds arbitrary: t) auto

lemma mkdir_all_run:
  assumes "mkdir_all ds t = Some t'"
  shows "map_of t' p = (if p \<in> set ds then Some Dir else map_of t p)" and "map_of t' p = Some (File c) \<longleftrightarrow> map_of t p = Some (File c)"
proof -
  have t': "t' = fold (\<lambda>d t. AList.update d Dir t) ds t"
    and free: "d \<in> set ds \<Longrightarrow> map_of t d \<noteq> Some (File c)" for d c
    using assms by (auto simp: mkdir_all_def list_ex_iff split: if_splits)
  show "map_of t' p = (if p \<in> set ds then Some Dir else map_of t p)" unfolding t' by (rule fold_dirs)
  then show "map_of t' p = Some (File c) \<longleftrightarrow> map_of t p = Some (File c)" using free by auto
qed

lemma good_mkdir:
  assumes "mkdir_all ds t = Some t'" and "good_tree t"
    and "\<And>d. d \<in> set ds \<Longrightarrow> confined d \<and> set (parents d) \<subseteq> set ds"
  shows "good_tree t'"
  using assms(2,3) mkdir_all_run(1) [OF assms(1)] unfolding good_tree_def by (auto split: if_splits)

lemma visit_build_run:
  assumes "visit_build name m (t, h) = Inr (t', h')" and t: "good_tree t" and name: "confined name"
  shows "good_tree t'"
    and "map_of t' p = Some (File c) \<longleftrightarrow> map_of t p = Some (File c) \<or> mb_type m \<noteq> TypeDir \<and> p = name \<and> c = mb_content m"
    and "h' \<longleftrightarrow> h \<or> mb_type m \<noteq> TypeDir \<and> name = ''index.html''"
proof -
  have up: "\<And>d. d \<in> set (parents name) \<Longrightarrow> confined d \<and> set (parents d) \<subseteq> set (parents name)"
    using parents_confined [OF name] parents_trans by blast
  have "good_tree t' \<and> (map_of t' p = Some (File c) \<longleftrightarrow> map_of t p = Some (File c) \<or> mb_type m \<noteq> TypeDir \<and> p = name \<and> c = mb_content m)
    \<and> (h' \<longleftrightarrow> h \<or> mb_type m \<noteq> TypeDir \<and> name = ''index.html'')"
  proof (cases "mb_type m = TypeDir")
    case True
    then obtain mk: "mkdir_all (parents name @ [name]) t = Some t'" and h: "h' = h"
      using assms(1) by (auto simp: visit_build_def split: option.splits)
    have "good_tree t'" by (rule good_mkdir [OF mk t]) (use up name in auto)
    then show ?thesis using mkdir_all_run(2) [OF mk] h True by simp
  next
    case False
    then obtain t1 where mk: "mkdir_all (parents name) t = Some t1" and free: "map_of t1 name = None"
      and t': "t' = AList.update name (File (mb_content m)) t1" and h: "h' \<longleftrightarrow> h \<or> name = ''index.html''"
      using assms(1) by (auto simp: visit_build_def split: option.splits if_splits)
    have t1: "good_tree t1" by (rule good_mkdir [OF mk t]) (use up in auto)
    have dirs: "\<forall>d \<in> set (parents name). map_of t1 d = Some Dir" using mkdir_all_run(1) [OF mk] by simp
    have "map_of t' d = Some Dir" if "map_of t1 d = Some Dir" for d
      using that free by (auto simp: t')
    then have "good_tree t'"
      using t1 name dirs unfolding good_tree_def by (auto simp: t')
    moreover have "map_of t name \<noteq> Some (File c)" for c using mkdir_all_run(2) [OF mk, of name c] free by simp
    ultimately show ?thesis using mkdir_all_run(2) [OF mk] False h by (auto simp: t')
  qed
  then show "good_tree t'"
    "map_of t' p = Some (File c) \<longleftrightarrow> map_of t p = Some (File c) \<or> mb_type m \<noteq> TypeDir \<and> p = name \<and> c = mb_content m"
    "h' \<longleftrightarrow> h \<or> mb_type m \<noteq> TypeDir \<and> name = ''index.html''" by blast+
qed

text \<open>Every member that is walked counts, and every regular one is within the limits.\<close>

lemma walk_limits:
  "walk_members kind lim visit n ms e t = Inr t' \<Longrightarrow>
     (ms = [] \<or> n + length ms \<le> MaxEntries lim)
     \<and> (\<forall>m \<in> set ms. mb_type m \<noteq> TypeOther \<and> mb_read m \<le> MaxTotalBytes lim)
     \<and> (\<forall>m \<in> set ms. \<forall>p c. file_of m p c \<longrightarrow> mb_size m \<le> MaxFileBytes lim \<and> mb_end m \<le> MaxTotalBytes lim)
     \<and> (\<forall>m \<in> set ms. mb_type m \<noteq> TypeMeta \<longrightarrow> safeName (mb_name m) \<noteq> None)
     \<and> (\<exists>b. e = EndMark b True \<and> b \<le> MaxTotalBytes lim)"
proof (induction ms arbitrary: n t)
  case Nil
  then show ?case by (cases e) (auto split: if_splits)
next
  case (Cons m ms)
  from Cons.prems obtain t1 where t1: "walk_members kind lim visit (Suc n) ms e t1 = Inr t'"
    and m: "mb_read m \<le> MaxTotalBytes lim" "Suc n \<le> MaxEntries lim" "mb_type m \<noteq> TypeOther"
      "mb_type m \<noteq> TypeMeta \<longrightarrow> safeName (mb_name m) \<noteq> None"
      "\<And>p c. file_of m p c \<Longrightarrow> mb_size m \<le> MaxFileBytes lim \<and> mb_end m \<le> MaxTotalBytes lim"
    by (auto simp: file_of_def split: if_splits option.splits sum.splits)
  show ?case using Cons.IH [OF t1] m by auto
qed

lemma walk_build:
  "walk_members kind lim visit_build n ms e (t, h) = Inr (t', h') \<Longrightarrow> good_tree t \<Longrightarrow>
     good_tree t'
     \<and> (\<forall>p c. map_of t' p = Some (File c) \<longleftrightarrow> map_of t p = Some (File c) \<or> (\<exists>m \<in> set ms. file_of m p c))
     \<and> (h' \<longleftrightarrow> h \<or> (\<exists>m \<in> set ms. \<exists>c. file_of m ''index.html'' c))"
proof (induction ms arbitrary: n t h)
  case Nil
  then show ?case by (cases e) (auto split: if_splits)
next
  case (Cons m ms)
  note prems = Cons.prems(1)
  consider (skip) "\<And>p c. \<not> file_of m p c" "walk_members kind lim visit_build (Suc n) ms e (t, h) = Inr (t', h')"
    | (visit) name t1 h1 where "safeName (mb_name m) = Some name" "name \<noteq> ''''" "mb_type m \<in> {TypeReg, TypeDir}"
        "visit_build name m (t, h) = Inr (t1, h1)" "walk_members kind lim visit_build (Suc n) ms e (t1, h1) = Inr (t', h')"
    using prems by (cases "mb_type m") (auto simp: file_of_def split: if_splits option.splits sum.splits)
  then show ?case
  proof cases
    case skip
    then show ?thesis using Cons.IH [OF skip(2) Cons.prems(2)] by auto
  next
    case visit
    have name: "confined name" using safeName_confined visit(1,2) by blast
    note run = visit_build_run [OF visit(4) Cons.prems(2) name]
    have f: "file_of m p c \<longleftrightarrow> mb_type m \<noteq> TypeDir \<and> p = name \<and> c = mb_content m" for p c
      using visit(1-3) by (auto simp: file_of_def)
    show ?thesis using Cons.IH [OF visit(5) run(1)] run(2,3) f by auto
  qed
qed

text \<open>
  C13. Extraction stays in its directory: a build that is accepted extracts to exactly the files of its regular members,
  under names that cannot leave the directory and below nothing but directories, with a page at its root, and within the
  bounds on members, file sizes and decompressed bytes. No member it has is named from the root, neither by the name it
  gives nor by what is left of it behind a leading dot element.
\<close>

theorem extraction_is_confined:
  assumes "extractBuild (Gzip ms e) lim = Inr t"
  shows "(\<forall>p c. map_of t p = Some (File c) \<longleftrightarrow> (\<exists>m \<in> set ms. file_of m p c))
    \<and> (\<forall>p x. map_of t p = Some x \<longrightarrow> (\<forall>w \<in> set (split_slash p). w \<noteq> '''' \<and> w \<noteq> ''.'' \<and> w \<noteq> ''..'')
          \<and> (\<forall>d \<in> set (parents p). map_of t d = Some Dir))
    \<and> (\<exists>c. map_of t ''index.html'' = Some (File c))
    \<and> length ms \<le> MaxEntries lim
    \<and> (\<forall>m \<in> set ms. mb_type m \<noteq> TypeOther \<and> (\<forall>p c. file_of m p c \<longrightarrow> mb_size m \<le> MaxFileBytes lim \<and> mb_end m \<le> MaxTotalBytes lim))
    \<and> (\<forall>m \<in> set ms. mb_type m = TypeMeta \<or> \<not> (HasPrefix (mb_name m) ''/'' \<or> HasPrefix (mb_name m) ''.//''))"
proof -
  obtain h where run: "walk_members ''build'' lim visit_build 0 ms e ([], False) = Inr (t, h)" and h: h
    using assms by (auto simp: extractBuild_def walkArchive_def split: sum.splits if_splits)
  have "good_tree []" by (simp add: good_tree_def)
  note b = walk_build [OF run this] and l = walk_limits [OF run]
  have "length ms \<le> MaxEntries lim" using l by (cases ms) auto
  moreover have "\<exists>c. map_of t ''index.html'' = Some (File c)" using b h by auto
  moreover have "\<forall>m \<in> set ms. mb_type m = TypeMeta \<or> \<not> (HasPrefix (mb_name m) ''/'' \<or> HasPrefix (mb_name m) ''.//'')"
    using l safeName_rooted by blast
  ultimately show ?thesis using b l unfolding good_tree_def confined_def by simp
qed

text \<open>A build of one page in a directory of its own, and the page of the root.\<close>

definition page :: "string \<Rightarrow> string \<Rightarrow> member" where
  "page name c = \<lparr>mb_type = TypeReg, mb_name = name, mb_size = int (length c), mb_content = c, mb_read = 512, mb_end = 1024\<rparr>"

definition sample_archive :: archive where
  "sample_archive = Gzip [page ''./index.html'' ''hi'', page ''a/../docs//x.html'' ''x''] (EndMark 4096 True)"

lemma sample_archive_extracts:
  "extractBuild sample_archive DefaultLimits = Inr [(''index.html'', File ''hi''), (''docs'', Dir), (''docs/x.html'', File ''x'')]"
  by code_simp

theorem extraction_is_confined_witness:
  "(\<exists>m \<in> set [page ''./index.html'' ''hi'', page ''a/../docs//x.html'' ''x'']. file_of m ''docs/x.html'' ''x'')
   \<and> length [page ''./index.html'' ''hi'', page ''a/../docs//x.html'' ''x''] \<le> MaxEntries DefaultLimits"
proof -
  note all = extraction_is_confined [OF sample_archive_extracts [unfolded sample_archive_def]]
  have "map_of [(''index.html'', File ''hi''), (''docs'', Dir), (''docs/x.html'', File ''x'')] ''docs/x.html'' = Some (File ''x'')"
    by simp
  then show ?thesis using conjunct1 [OF all] conjunct1 [OF conjunct2 [OF conjunct2 [OF conjunct2 [OF all]]]] by blast
qed

text \<open>
  The refusal of a leading backslash looks at the name as given, before it is cleaned: behind a leading dot element the
  same element passes.
\<close>

lemma backslash_passes_behind_dot:
  "safeName [CHR 0x5C, CHR ''x''] = None" "safeName (''./'' @ [CHR 0x5C, CHR ''x'']) = Some [CHR 0x5C, CHR ''x'']"
  by code_simp+

text \<open>
  So do the extra slashes behind two leading dot elements, where the name that is cleaned is a relative one; behind a single
  dot element it is a rooted one, and refused.
\<close>

lemma rooted_remainder_refused:
  "safeName ''.//x'' = None" "safeName ''.//'' = None" "safeName ''.//../x'' = None" "safeName ''././/x'' = Some ''x''"
  by code_simp+

end
