(* ===== verification/Artifacts.thy ===== *)
theory Artifacts
  imports Archives Threads
begin

text \<open>
  \<^verbatim>\<open>internal/store/artifacts.go\<close> and \<^verbatim>\<open>internal/artifacts/artifacts.go\<close>: the rows of artifacts, versions and committed
  publications, the content directory, and the operations of the service. What is on disk is two tables: the stagings by
  name and the placed versions by artifact and number; a placement is one rename, which refuses a name that exists.
  \<^verbatim>\<open>Publish\<close> is cut where it takes the lock, and its critical section where the placement is durable and the row is not
  there yet.
\<close>

subsection \<open>Rows and content\<close>

record artifact_record =
  af_id :: string
  af_title :: string
  af_project :: string
  af_current :: int
  af_created :: time
  af_updated :: time

record provenance =
  pv_thread :: string
  pv_revision :: string
  pv_links :: "string list"

record version_record =
  vr_artifact :: string
  vr_number :: int
  vr_title :: string
  vr_platform :: string
  vr_published :: time
  vr_restored :: int
  vr_publication :: string
  vr_provenance :: provenance

record snapshot =
  sn_build :: tree
  sn_source :: archive

text \<open>The current version of an artifact is derived from the version rows; the column of the artifact's row is unused.\<close>

record artifact_svc = db_world +
  artifact_rows :: "(string \<times> artifact_record) list"
  version_rows :: "((string \<times> int) \<times> version_record) list"
  publication_rows :: "(string \<times> (string \<times> int)) list"
  stagings :: "(string \<times> snapshot) list"
  placed :: "((string \<times> int) \<times> snapshot) list"
  artifact_limits :: limits

definition artifact_resource :: string where "artifact_resource = ''artifact''"
definition artifact_prefix :: string where "artifact_prefix = ''artf-''"
definition stage_prefix :: string where "stage_prefix = ''stage-''"
definition EventArtifactCreated :: string where "EventArtifactCreated = ''artifact.created''"
definition EventArtifactUpdated :: string where "EventArtifactUpdated = ''artifact.updated''"
definition EventArtifactDeleted :: string where "EventArtifactDeleted = ''artifact.deleted''"

subsection \<open>Statements\<close>

definition versions_of :: "string \<Rightarrow> ((string \<times> int) \<times> version_record) list \<Rightarrow> version_record list" where
  "versions_of i rows = sort_key vr_number (map snd (filter (\<lambda>((a, n), v). a = i) rows))"

text \<open>\<^verbatim>\<open>MAX(number)\<close>; an artifact without versions reads as zero.\<close>

definition current_version :: "string \<Rightarrow> ((string \<times> int) \<times> version_record) list \<Rightarrow> int" where
  "current_version i rows = fold (\<lambda>v n. max (vr_number v) n) (versions_of i rows) 0"

definition read_artifact :: "artifact_record \<Rightarrow> 'a artifact_svc_scheme \<Rightarrow> artifact_record" where
  "read_artifact r s = r\<lparr>af_current := current_version (af_id r) (version_rows s)\<rparr>"

text \<open>The version row and its publication record; the primary keys and the unique publication id may refuse them.\<close>

definition insertVersion :: "version_record \<Rightarrow> 'a artifact_svc_scheme \<Rightarrow> 'a artifact_svc_scheme option" where
  "insertVersion v s =
     (if has_key (version_rows s) (vr_artifact v, vr_number v)
         \<or> list_ex (\<lambda>(k, x). vr_publication x = vr_publication v) (version_rows s)
         \<or> has_key (publication_rows s) (vr_publication v)
      then None
      else Some (s\<lparr>version_rows := AList.update (vr_artifact v, vr_number v) v (version_rows s),
                   publication_rows := AList.update (vr_publication v) (vr_artifact v, vr_number v) (publication_rows s)\<rparr>))"

subsection \<open>The repository\<close>

definition Artifacts_Create ::
  "artifact_record \<Rightarrow> version_record \<Rightarrow> 'a artifact_svc_scheme \<Rightarrow> (err + bool) \<times> 'a artifact_svc_scheme" where
  "Artifacts_Create r v s =
     (let (failed, s) = io_step s
      in if failed then (Inl ErrIO, s)
         else if has_key (artifact_rows s) (af_id r) then (Inr False, s)
         else if \<not> project_fk s (af_project r) then (Inl ErrForeignKeyViolation, s)
         else (case insertVersion v s of
                 None \<Rightarrow> (Inl ErrIO, s)
               | Some s' \<Rightarrow> (Inr True, s'\<lparr>artifact_rows := AList.update (af_id r) r (artifact_rows s')\<rparr>)))"

definition AppendVersion :: "version_record \<Rightarrow> int \<Rightarrow> 'a artifact_svc_scheme \<Rightarrow> err option \<times> 'a artifact_svc_scheme" where
  "AppendVersion v base s =
     (if vr_number v \<noteq> base + 1 then (Some ErrIO, s)
      else let (failed, s) = io_step s
           in if failed then (Some ErrIO, s)
              else (case map_of (artifact_rows s) (vr_artifact v) of
                      None \<Rightarrow> (Some ErrArtifactMissing, s)
                    | Some r \<Rightarrow>
                        if current_version (vr_artifact v) (version_rows s) \<noteq> base
                        then (Some (ErrStaleBase base (current_version (vr_artifact v) (version_rows s))), s)
                        else (case insertVersion v s of
                                None \<Rightarrow> (Some ErrIO, s)
                              | Some s' \<Rightarrow> (None, s'\<lparr>artifact_rows := AList.update (vr_artifact v)
                                     (r\<lparr>af_title := vr_title v, af_updated := vr_published v\<rparr>) (artifact_rows s')\<rparr>))))"

definition Artifacts_Get :: "string \<Rightarrow> 'a artifact_svc_scheme \<Rightarrow> (err + artifact_record option) \<times> 'a artifact_svc_scheme" where
  "Artifacts_Get i s =
     (let (failed, s) = io_step s
      in if failed then (Inl ErrIO, s)
         else (Inr (map_option (\<lambda>r. read_artifact r s) (map_of (artifact_rows s) i)), s))"

definition Artifacts_List :: "string \<Rightarrow> 'a artifact_svc_scheme \<Rightarrow> (err + artifact_record list) \<times> 'a artifact_svc_scheme" where
  "Artifacts_List p s =
     (let (failed, s) = io_step s
      in if failed then (Inl ErrIO, s)
         else (Inr (sort_key (\<lambda>r. (af_created r, af_id r))
                 (map (\<lambda>r. read_artifact r s) (filter (\<lambda>r. p = '''' \<or> af_project r = p) (map snd (artifact_rows s))))), s))"

definition Artifacts_Update ::
  "string \<Rightarrow> string \<Rightarrow> string \<Rightarrow> time \<Rightarrow> 'a artifact_svc_scheme \<Rightarrow> (err + artifact_record option) \<times> 'a artifact_svc_scheme" where
  "Artifacts_Update i ttl p at s =
     (let (failed, s) = io_step s
      in if failed then (Inl ErrIO, s)
         else (case map_of (artifact_rows s) i of
                 None \<Rightarrow> (Inr None, s)
               | Some r \<Rightarrow>
                   if \<not> project_fk s p then (Inl ErrForeignKeyViolation, s)
                   else let r' = r\<lparr>af_title := ttl, af_project := p, af_updated := at\<rparr>
                        in (Inr (Some (read_artifact r' s)), s\<lparr>artifact_rows := AList.update i r' (artifact_rows s)\<rparr>)))"

definition Artifacts_Delete :: "string \<Rightarrow> 'a artifact_svc_scheme \<Rightarrow> (err + bool) \<times> 'a artifact_svc_scheme" where
  "Artifacts_Delete i s =
     (let (failed, s) = io_step s
      in if failed then (Inl ErrIO, s)
         else (Inr (has_key (artifact_rows s) i),
               s\<lparr>artifact_rows := AList.delete i (artifact_rows s),
                 version_rows := (if has_key (artifact_rows s) i then filter (\<lambda>((a, n), v). a \<noteq> i) (version_rows s)
                                  else version_rows s)\<rparr>))"

definition Artifacts_Version ::
  "string \<Rightarrow> int \<Rightarrow> 'a artifact_svc_scheme \<Rightarrow> (err + version_record option) \<times> 'a artifact_svc_scheme" where
  "Artifacts_Version i n s =
     (let (failed, s) = io_step s in if failed then (Inl ErrIO, s) else (Inr (map_of (version_rows s) (i, n)), s))"

text \<open>What a publication id committed: its version, nothing, or a version that is gone.\<close>

datatype committed = Uncommitted | Committed version_record | CommittedGone

definition Publication :: "string \<Rightarrow> 'a artifact_svc_scheme \<Rightarrow> (err + committed) \<times> 'a artifact_svc_scheme" where
  "Publication p s =
     (let (failed, s) = io_step s
      in if failed then (Inl ErrIO, s)
         else (case find (\<lambda>v. vr_publication v = p) (map snd (version_rows s)) of
                 Some v \<Rightarrow> (Inr (Committed v), s)
               | None \<Rightarrow>
                   (let (failed, s) = io_step s
                    in if failed then (Inl ErrIO, s)
                       else (Inr (if has_key (publication_rows s) p then CommittedGone else Uncommitted), s))))"

definition Artifacts_Versions ::
  "string \<Rightarrow> 'a artifact_svc_scheme \<Rightarrow> (err + version_record list) \<times> 'a artifact_svc_scheme" where
  "Artifacts_Versions i s =
     (let (failed, s) = io_step s in if failed then (Inl ErrIO, s) else (Inr (versions_of i (version_rows s)), s))"

definition VersionKeys :: "'a artifact_svc_scheme \<Rightarrow> (err + (string \<times> int) list) \<times> 'a artifact_svc_scheme" where
  "VersionKeys s =
     (let (failed, s) = io_step s in if failed then (Inl ErrIO, s) else (Inr (map fst (version_rows s)), s))"

subsection \<open>The content directory\<close>

definition remove_placed :: "string \<times> int \<Rightarrow> 'a artifact_svc_scheme \<Rightarrow> 'a artifact_svc_scheme" where
  "remove_placed k s = (let (failed, s) = io_step s in if failed then s else s\<lparr>placed := AList.delete k (placed s)\<rparr>)"

definition remove_staging :: "string option \<Rightarrow> 'a artifact_svc_scheme \<Rightarrow> 'a artifact_svc_scheme" where
  "remove_staging st s =
     (case st of
        None \<Rightarrow> s
      | Some d \<Rightarrow> (let (failed, s) = io_step s in if failed then s else s\<lparr>stagings := AList.delete d (stagings s)\<rparr>))"

text \<open>
  \<^verbatim>\<open>stage\<close>: both archives checked into a fresh directory, which is removed again when anything fails. A name that is
  taken makes the exclusive creation of its files fail.
\<close>

definition stage ::
  "archive \<Rightarrow> archive \<Rightarrow> 'a artifact_svc_scheme \<Rightarrow> (err + string) \<times> 'a artifact_svc_scheme" where
  "stage build source s =
     (let (dir, s) = newLong stage_prefix s; (failed, s) = io_step s
      in if failed then (Inl ErrIO, remove_staging (Some dir) s)
         else case extractBuild build (artifact_limits s) of
                Inl x \<Rightarrow> (Inl (ErrPackage x), remove_staging (Some dir) s)
              | Inr tree \<Rightarrow>
                  (case copySource source (artifact_limits s) of
                     Inl x \<Rightarrow> (Inl (ErrPackage x), remove_staging (Some dir) s)
                   | Inr src \<Rightarrow>
                       if has_key (stagings s) dir then (Inl (ErrPackage ''a name appears more than once''), remove_staging (Some dir) s)
                       else (Inr dir, s\<lparr>stagings := AList.update dir \<lparr>sn_build = tree, sn_source = src\<rparr> (stagings s)\<rparr>)))"

text \<open>\<^verbatim>\<open>commit\<close>: \<^verbatim>\<open>os.Rename\<close> refuses a directory that exists; a failed sync leaves the content where it was placed.\<close>

definition commit_content ::
  "string \<Rightarrow> string \<Rightarrow> int \<Rightarrow> 'a artifact_svc_scheme \<Rightarrow> err option \<times> 'a artifact_svc_scheme" where
  "commit_content staged i n s =
     (let (failed, s) = io_step s
      in if failed \<or> has_key (placed s) (i, n) then (Some ErrIO, s)
         else case map_of (stagings s) staged of
                None \<Rightarrow> (Some ErrIO, s)
              | Some x \<Rightarrow>
                  (let s = s\<lparr>stagings := AList.delete staged (stagings s), placed := AList.update (i, n) x (placed s)\<rparr>;
                       (failed, s) = io_step s
                   in (if failed then Some ErrIO else None, s)))"

text \<open>The way back, after a collision of ids.\<close>

definition uncommit_content ::
  "string \<Rightarrow> string \<Rightarrow> int \<Rightarrow> 'a artifact_svc_scheme \<Rightarrow> err option \<times> 'a artifact_svc_scheme" where
  "uncommit_content staged i n s =
     (let (failed, s) = io_step s
      in case map_of (placed s) (i, n) of
           None \<Rightarrow> (Some ErrIO, s)
         | Some x \<Rightarrow>
             if failed \<or> has_key (stagings s) staged then (Some ErrIO, s)
             else (None, s\<lparr>placed := AList.delete (i, n) (placed s), stagings := AList.update staged x (stagings s)\<rparr>))"

definition copyVersion :: "string \<Rightarrow> int \<Rightarrow> 'a artifact_svc_scheme \<Rightarrow> (err + string) \<times> 'a artifact_svc_scheme" where
  "copyVersion i n s =
     (let (dir, s) = newLong stage_prefix s; (failed, s) = io_step s
      in case map_of (placed s) (i, n) of
           None \<Rightarrow> (Inl ErrIO, remove_staging (Some dir) s)
         | Some x \<Rightarrow>
             if failed \<or> has_key (stagings s) dir then (Inl ErrIO, remove_staging (Some dir) s)
             else (Inr dir, s\<lparr>stagings := AList.update dir x (stagings s)\<rparr>))"

text \<open>
  \<^verbatim>\<open>reconcile\<close>: stagings go, and content of no version row. A pass that fails keeps the server from starting, and the next
  one does its work again; it is modelled as removing nothing.
\<close>

definition reconcile_content :: "'a artifact_svc_scheme \<Rightarrow> err option \<times> 'a artifact_svc_scheme" where
  "reconcile_content s =
     (case VersionKeys s of
        (Inl e, s) \<Rightarrow> (Some e, s)
      | (Inr ks, s) \<Rightarrow>
          (let (failed, s) = io_step s
           in if failed then (Some ErrIO, s)
              else (None, s\<lparr>stagings := [], placed := filter (\<lambda>(k, x). k \<in> set ks) (placed s)\<rparr>)))"

subsection \<open>Publishing\<close>

record publish_params =
  pp_title :: string
  pp_base :: int
  pp_publication :: string
  pp_restore :: int
  pp_platform :: string
  pp_provenance :: provenance

text \<open>\<^verbatim>\<open>ReaderPath\<close>: the main link, or the link of one version.\<close>

definition ReaderPath :: "string \<Rightarrow> int \<Rightarrow> string" where
  "ReaderPath i n =
     (if n = 0 then ''/a/'' @ i @ ''/''
      else ''/a/'' @ i @ ''/v/'' @ (if n < 0 then ''-'' else '''') @ decimal (nat \<bar>n\<bar>) @ ''/'')"

definition invalid_publication :: "string \<Rightarrow> publish_params \<Rightarrow> archive option \<Rightarrow> archive option \<Rightarrow> bool" where
  "invalid_publication i p build source \<longleftrightarrow>
     (let restore = pp_restore p > 0
      in pp_publication p = '''' \<or> restore \<and> i = '''' \<or> restore \<and> (build \<noteq> None \<or> source \<noteq> None)
         \<or> \<not> restore \<and> pp_title p = '''' \<or> \<not> restore \<and> (build = None \<or> source = None))"

definition read_publication ::
  "string \<Rightarrow> int \<Rightarrow> 'a artifact_svc_scheme \<Rightarrow> (err + artifact_record \<times> version_record) \<times> 'a artifact_svc_scheme" where
  "read_publication i n s =
     (case Artifacts_Get i s of
        (Inl e, s) \<Rightarrow> (Inl e, s)
      | (Inr None, s) \<Rightarrow> (Inl ErrNotFound, s)
      | (Inr (Some r), s) \<Rightarrow>
          (case Artifacts_Version i n s of
             (Inl e, s) \<Rightarrow> (Inl e, s)
           | (Inr None, s) \<Rightarrow> (Inl ErrVersionNotFound, s)
           | (Inr (Some v), s) \<Rightarrow> (Inr (r, v), s)))"

text \<open>\<^verbatim>\<open>replay\<close>: nothing, when the publication never completed.\<close>

definition replay ::
  "string \<Rightarrow> string \<Rightarrow> 'a artifact_svc_scheme
     \<Rightarrow> (err + (artifact_record \<times> version_record) option) \<times> 'a artifact_svc_scheme" where
  "replay i p s =
     (case Publication p s of
        (Inl e, s) \<Rightarrow> (Inl e, s)
      | (Inr CommittedGone, s) \<Rightarrow> (Inl ErrPublicationDeleted, s)
      | (Inr Uncommitted, s) \<Rightarrow> (Inr None, s)
      | (Inr (Committed v), s) \<Rightarrow>
          if i \<noteq> '''' \<and> vr_artifact v \<noteq> i then (Inl ErrPublicationTaken, s)
          else (case read_publication (vr_artifact v) (vr_number v) s of
                  (Inl e, s) \<Rightarrow> (Inl e, s) | (Inr x, s) \<Rightarrow> (Inr (Some x), s)))"

definition check_base ::
  "string \<Rightarrow> int \<Rightarrow> 'a artifact_svc_scheme \<Rightarrow> (err + artifact_record) \<times> 'a artifact_svc_scheme" where
  "check_base i base s =
     (case Artifacts_Get i s of
        (Inl e, s) \<Rightarrow> (Inl e, s)
      | (Inr None, s) \<Rightarrow> (Inl ErrNotFound, s)
      | (Inr (Some r), s) \<Rightarrow> if base \<noteq> af_current r then (Inl (ErrStaleBase base (af_current r)), s) else (Inr r, s))"

text \<open>\<^verbatim>\<open>create\<close>, over the ids that are rolled.\<close>

fun create_loop ::
  "string list \<Rightarrow> version_record \<Rightarrow> string \<Rightarrow> time \<Rightarrow> 'a artifact_svc_scheme
     \<Rightarrow> (err + artifact_record \<times> version_record) \<times> 'a artifact_svc_scheme" where
  "create_loop [] v staged at s = (Inl ErrStarved, s\<lparr>id_tape := []\<rparr>)"
| "create_loop (sfx # rest) v staged at s =
     (let i = artifact_prefix @ sfx
      in case commit_content staged i 1 (s\<lparr>id_tape := rest\<rparr>) of
           (Some e, s) \<Rightarrow> (Inl e, s)
         | (None, s) \<Rightarrow>
             (let v = v\<lparr>vr_artifact := i, vr_number := 1\<rparr>;
                  r = \<lparr>af_id = i, af_title = vr_title v, af_project = '''', af_current = 0, af_created = at, af_updated = at\<rparr>
              in case Artifacts_Create r v s of
                   (Inl e, s) \<Rightarrow> (Inl e, remove_placed (i, 1) s)
                 | (Inr True, s) \<Rightarrow> read_publication i 1 (Publish EventArtifactCreated artifact_resource i s)
                 | (Inr False, s) \<Rightarrow>
                     (case uncommit_content staged i 1 s of
                        (Some e, s) \<Rightarrow> (Inl e, s)
                      | (None, s) \<Rightarrow> create_loop rest v staged at s)))"

text \<open>What a restoration records of the version it copies, unless the request says otherwise.\<close>

definition restored_version :: "publish_params \<Rightarrow> version_record \<Rightarrow> version_record \<Rightarrow> version_record" where
  "restored_version p old v =
     v\<lparr>vr_restored := pp_restore p, vr_platform := vr_platform old,
       vr_title := (if vr_title v = '''' then vr_title old else vr_title v),
       vr_provenance := (if pp_provenance p = \<lparr>pv_thread = '''', pv_revision = '''', pv_links = []\<rparr> then vr_provenance old
                         else vr_provenance v)\<rparr>"

text \<open>The append, its content staged: placed first, then named by the row.\<close>

definition append_staged ::
  "string \<Rightarrow> int \<Rightarrow> int \<Rightarrow> string \<Rightarrow> version_record \<Rightarrow> 'a artifact_svc_scheme
     \<Rightarrow> (err + artifact_record \<times> version_record) \<times> 'a artifact_svc_scheme" where
  "append_staged i base current staged v s =
     (let v = v\<lparr>vr_artifact := i, vr_number := current + 1\<rparr>
      in case commit_content staged i (current + 1) s of
           (Some e, s) \<Rightarrow> (Inl e, s)
         | (None, s) \<Rightarrow>
             (case AppendVersion v current s of
                (Some e, s) \<Rightarrow>
                  (let s = remove_placed (i, current + 1) s
                   in (Inl (case e of ErrStaleBase _ c \<Rightarrow> ErrStaleBase base c | ErrArtifactMissing \<Rightarrow> ErrNotFound | _ \<Rightarrow> e), s))
              | (None, s) \<Rightarrow> read_publication i (current + 1) (Publish EventArtifactUpdated artifact_resource i s)))"

definition append_restored ::
  "string \<Rightarrow> publish_params \<Rightarrow> int \<Rightarrow> version_record \<Rightarrow> 'a artifact_svc_scheme
     \<Rightarrow> (err + artifact_record \<times> version_record) \<times> 'a artifact_svc_scheme" where
  "append_restored i p current v s =
     (case Artifacts_Version i (pp_restore p) s of
        (Inl e, s) \<Rightarrow> (Inl e, s)
      | (Inr None, s) \<Rightarrow> (Inl ErrVersionNotFound, s)
      | (Inr (Some old), s) \<Rightarrow>
          (case copyVersion i (pp_restore p) s of
             (Inl e, s) \<Rightarrow> (Inl e, s)
           | (Inr staged, s) \<Rightarrow>
               (let (res, s) = append_staged i (pp_base p) current staged (restored_version p old v) s
                in (res, remove_staging (Some staged) s))))"

text \<open>The critical section: the result, and whether it is a replay.\<close>

definition publish_locked ::
  "string \<Rightarrow> publish_params \<Rightarrow> string option \<Rightarrow> 'a artifact_svc_scheme
     \<Rightarrow> (err + (artifact_record \<times> version_record) \<times> bool) \<times> 'a artifact_svc_scheme" where
  "publish_locked i p staged s =
     (case replay i (pp_publication p) s of
        (Inl e, s) \<Rightarrow> (Inl e, s)
      | (Inr (Some x), s) \<Rightarrow> (Inr (x, True), s)
      | (Inr None, s) \<Rightarrow>
          (let (at, s) = now s;
               v = \<lparr>vr_artifact = '''', vr_number = 0, vr_title = pp_title p, vr_platform = pp_platform p, vr_published = at,
                    vr_restored = 0, vr_publication = pp_publication p, vr_provenance = pp_provenance p\<rparr>;
               (res, s) =
                 (if i = '''' then (case staged of None \<Rightarrow> (Inl ErrIO, s) | Some d \<Rightarrow> create_loop (id_tape s) v d at s)
                  else case check_base i (pp_base p) s of
                         (Inl e, s) \<Rightarrow> (Inl e, s)
                       | (Inr r, s) \<Rightarrow>
                           if pp_restore p > 0 then append_restored i p (af_current r) v s
                           else (case staged of
                                   None \<Rightarrow> (Inl ErrIO, s)
                                 | Some d \<Rightarrow> append_staged i (pp_base p) (af_current r) d v s))
           in (case res of Inl e \<Rightarrow> Inl e | Inr x \<Rightarrow> Inr (x, False), s)))"

text \<open>Before the lock: validation, a completed publication, a base already stale, and the upload checked and staged.\<close>

definition publish_begin ::
  "string \<Rightarrow> publish_params \<Rightarrow> archive option \<Rightarrow> archive option \<Rightarrow> 'a artifact_svc_scheme
     \<Rightarrow> (err + ((artifact_record \<times> version_record) + string option)) \<times> 'a artifact_svc_scheme" where
  "publish_begin i p build source s =
     (if invalid_publication i p build source then (Inl ErrInvalidPublication, s)
      else case replay i (pp_publication p) s of
             (Inl e, s) \<Rightarrow> (Inl e, s)
           | (Inr (Some x), s) \<Rightarrow> (Inr (Inl x), s)
           | (Inr None, s) \<Rightarrow>
               (let (e, s) = (if i = '''' then (None, s)
                              else case check_base i (pp_base p) s of (Inl e, s) \<Rightarrow> (Some e, s) | (Inr r, s) \<Rightarrow> (None, s))
                in case e of
                     Some e \<Rightarrow> (Inl e, s)
                   | None \<Rightarrow>
                       (case (build, source) of
                          (Some b, Some src) \<Rightarrow>
                            (case stage b src s of (Inl e, s) \<Rightarrow> (Inl e, s) | (Inr d, s) \<Rightarrow> (Inr (Inr (Some d)), s))
                        | _ \<Rightarrow> (Inr (Inr None), s))))"

definition Publish_artifact ::
  "string \<Rightarrow> publish_params \<Rightarrow> archive option \<Rightarrow> archive option \<Rightarrow> 'a artifact_svc_scheme
     \<Rightarrow> (err + (artifact_record \<times> version_record) \<times> bool) \<times> 'a artifact_svc_scheme" where
  "Publish_artifact i p build source s =
     (let p = p\<lparr>pp_title := TrimSpace (pp_title p)\<rparr>
      in case publish_begin i p build source s of
           (Inl e, s) \<Rightarrow> (Inl e, s)
         | (Inr (Inl x), s) \<Rightarrow> (Inr (x, True), s)
         | (Inr (Inr staged), s) \<Rightarrow>
             (let (res, s) = publish_locked i p staged s in (res, remove_staging staged s)))"

subsection \<open>The other operations\<close>

definition Artifact_Get :: "string \<Rightarrow> 'a artifact_svc_scheme \<Rightarrow> (err + artifact_record) \<times> 'a artifact_svc_scheme" where
  "Artifact_Get i s =
     (case Artifacts_Get i s of
        (Inl e, s) \<Rightarrow> (Inl e, s) | (Inr None, s) \<Rightarrow> (Inl ErrNotFound, s) | (Inr (Some r), s) \<Rightarrow> (Inr r, s))"

text \<open>\<^verbatim>\<open>List\<close>: the rows as they are, the links left to the transport.\<close>

definition Artifact_List :: "string \<Rightarrow> 'a artifact_svc_scheme \<Rightarrow> (err + artifact_record list) \<times> 'a artifact_svc_scheme" where
  "Artifact_List p s = Artifacts_List p s"

record artifact_update =
  au_title :: "string patch"
  au_project :: "string patch"

definition invalid_update :: "artifact_update \<Rightarrow> bool" where
  "invalid_update u \<longleftrightarrow>
     au_title u = Unset \<and> au_project u = Unset
     \<or> (case au_title u of Unset \<Rightarrow> False | Clear \<Rightarrow> True | Put t \<Rightarrow> TrimSpace t = '''')
     \<or> au_project u = Put ''''"

definition Artifact_Update ::
  "string \<Rightarrow> artifact_update \<Rightarrow> 'a artifact_svc_scheme \<Rightarrow> (err + artifact_record) \<times> 'a artifact_svc_scheme" where
  "Artifact_Update i u s =
     (if invalid_update u then (Inl ErrInvalidUpdate, s)
      else case Artifacts_Get i s of
             (Inl e, s) \<Rightarrow> (Inl e, s)
           | (Inr None, s) \<Rightarrow> (Inl ErrNotFound, s)
           | (Inr (Some r), s) \<Rightarrow>
               (let ttl = (case au_title u of Put t \<Rightarrow> TrimSpace t | _ \<Rightarrow> af_title r);
                    p = (case au_project u of Unset \<Rightarrow> af_project r | Clear \<Rightarrow> '''' | Put q \<Rightarrow> q);
                    (at, s) = now s
                in case Artifacts_Update i ttl p at s of
                     (Inl e, s) \<Rightarrow> (Inl (if e = ErrForeignKeyViolation then ErrProjectUnknown p else e), s)
                   | (Inr None, s) \<Rightarrow> (Inl ErrNotFound, s)
                   | (Inr (Some r), s) \<Rightarrow> (Inr r, Publish EventArtifactUpdated artifact_resource i s)))"

text \<open>\<^verbatim>\<open>Delete\<close>: rows first, then the content of every version; a failed removal is only logged.\<close>

definition Artifact_Delete :: "string \<Rightarrow> 'a artifact_svc_scheme \<Rightarrow> err option \<times> 'a artifact_svc_scheme" where
  "Artifact_Delete i s =
     (case Artifacts_Delete i s of
        (Inl e, s) \<Rightarrow> (Some e, s)
      | (Inr False, s) \<Rightarrow> (Some ErrNotFound, s)
      | (Inr True, s) \<Rightarrow>
          (let (failed, s) = io_step s;
               s = (if failed then s else s\<lparr>placed := filter (\<lambda>((a, n), x). a \<noteq> i) (placed s)\<rparr>)
           in (None, Publish EventArtifactDeleted artifact_resource i s)))"

definition Artifact_Versions ::
  "string \<Rightarrow> 'a artifact_svc_scheme \<Rightarrow> (err + version_record list) \<times> 'a artifact_svc_scheme" where
  "Artifact_Versions i s =
     (case Artifacts_Versions i s of
        (Inl e, s) \<Rightarrow> (Inl e, s) | (Inr vs, s) \<Rightarrow> (if vs = [] then Inl ErrNotFound else Inr vs, s))"

definition Artifact_Version ::
  "string \<Rightarrow> int \<Rightarrow> 'a artifact_svc_scheme \<Rightarrow> (err + version_record) \<times> 'a artifact_svc_scheme" where
  "Artifact_Version i n s =
     (case Artifacts_Version i n s of
        (Inl e, s) \<Rightarrow> (Inl e, s)
      | (Inr (Some v), s) \<Rightarrow> (Inr v, s)
      | (Inr None, s) \<Rightarrow>
          (case Artifacts_Get i s of
             (Inl e, s) \<Rightarrow> (Inl e, s) | (Inr None, s) \<Rightarrow> (Inl ErrNotFound, s) | (Inr (Some r), s) \<Rightarrow> (Inl ErrVersionNotFound, s)))"

definition OpenSource :: "string \<Rightarrow> int \<Rightarrow> 'a artifact_svc_scheme \<Rightarrow> (err + archive) \<times> 'a artifact_svc_scheme" where
  "OpenSource i n s =
     (case Artifact_Version i n s of
        (Inl e, s) \<Rightarrow> (Inl e, s)
      | (Inr v, s) \<Rightarrow>
          (case map_of (placed s) (i, n) of
             None \<Rightarrow> (Inl ErrVersionNotFound, s)
           | Some x \<Rightarrow> (let (failed, s) = io_step s in (if failed then Inl ErrIO else Inr (sn_source x), s))))"

record document =
  dc_artifact :: artifact_record
  dc_version :: version_record
  dc_versions :: "version_record list"
  dc_build :: "tree option"

definition Latest :: "document \<Rightarrow> bool" where
  "Latest d \<longleftrightarrow> vr_number (dc_version d) = af_current (dc_artifact d)"

definition Document :: "string \<Rightarrow> int \<Rightarrow> 'a artifact_svc_scheme \<Rightarrow> (err + document) \<times> 'a artifact_svc_scheme" where
  "Document i n s =
     (case Artifact_Get i s of
        (Inl e, s) \<Rightarrow> (Inl e, s)
      | (Inr r, s) \<Rightarrow>
          (case Artifact_Versions i s of
             (Inl e, s) \<Rightarrow> (Inl e, s)
           | (Inr vs, s) \<Rightarrow>
               (let current = vr_number (last vs); k = (if n = 0 then current else n)
                in case find (\<lambda>v. vr_number v = k) vs of
                     None \<Rightarrow> (Inl ErrVersionNotFound, s)
                   | Some v \<Rightarrow>
                       (Inr \<lparr>dc_artifact = r\<lparr>af_current := current\<rparr>, dc_version = v, dc_versions = vs,
                             dc_build = map_option sn_build (map_of (placed s) (i, k))\<rparr>, s))))"

text \<open>The schema clears the project of an artifact when the project is deleted.\<close>

definition clear_project :: "string \<Rightarrow> 'a artifact_svc_scheme \<Rightarrow> 'a artifact_svc_scheme" where
  "clear_project p s =
     s\<lparr>artifact_rows := map (\<lambda>(k, r). (k, if af_project r = p then r\<lparr>af_project := ''''\<rparr> else r)) (artifact_rows s)\<rparr>"

end
