(* ===== verification/ArtifactProps.thy ===== *)
theory ArtifactProps
  imports Artifacts
begin

text \<open>
  Published documents over whole runs: histories are dense and their content complete, versions never change, a publication
  commits at most once, restarts leave on disk exactly what is visible, and what is published is what is served.
\<close>

declare map_of_eq_Some_iff [simp del] Some_eq_map_of_iff [simp del] split_paired_All [simp del] split_paired_Ex [simp del]

subsection \<open>The invariant\<close>

definition rows_inv :: "'a artifact_svc_scheme \<Rightarrow> bool" where
  "rows_inv s \<longleftrightarrow>
     distinct (map fst (artifact_rows s)) \<and> distinct (map fst (version_rows s)) \<and> distinct (map fst (placed s))
     \<and> (\<forall>i r. map_of (artifact_rows s) i = Some r \<longrightarrow> af_id r = i)
     \<and> (\<forall>k v. map_of (version_rows s) k = Some v \<longrightarrow>
          k = (vr_artifact v, vr_number v) \<and> has_key (artifact_rows s) (fst k)
          \<and> map_of (publication_rows s) (vr_publication v) = Some k)"

definition dense :: "'a artifact_svc_scheme \<Rightarrow> bool" where
  "dense s \<longleftrightarrow> (\<forall>i. has_key (artifact_rows s) i \<longrightarrow> (\<exists>m \<ge> 1. \<forall>n. has_key (version_rows s) (i, n) \<longleftrightarrow> 1 \<le> n \<and> n \<le> m))"

definition complete :: "'a artifact_svc_scheme \<Rightarrow> bool" where
  "complete s \<longleftrightarrow> (\<forall>k. has_key (version_rows s) k \<longrightarrow> has_key (placed s) k)"

definition art_inv :: "'a artifact_svc_scheme \<Rightarrow> bool" where
  "art_inv s \<longleftrightarrow> rows_inv s \<and> dense s \<and> complete s"

lemma has_key_simps [simp]:
  "has_key (AList.update k v xs) j \<longleftrightarrow> j = k \<or> has_key xs j"
  "has_key (AList.delete k xs) j \<longleftrightarrow> j \<noteq> k \<and> has_key xs j"
  "\<not> has_key [] j"
  by (auto simp: has_key_def)

text \<open>The current version is the greatest number of a history.\<close>

lemma current_version_dense:
  assumes own: "\<And>k v. map_of rows k = Some v \<Longrightarrow> k = (vr_artifact v, vr_number v)" and dist: "distinct (map fst rows)"
    and m: "m \<ge> 1" "\<And>n. has_key rows (i, n) \<longleftrightarrow> 1 \<le> n \<and> n \<le> m"
  shows "current_version i rows = m"
proof -
  have fold: "fold (\<lambda>v n. max (vr_number v) n) vs x = Max (insert x (vr_number ` set vs))" for vs x
  proof (induction vs arbitrary: x)
    case (Cons v vs)
    then show ?case by (cases "vs = []") (auto simp: max.assoc max.left_commute insert_commute)
  qed simp
  have "vr_number ` set (versions_of i rows) = {n. has_key rows (i, n)}"
  proof -
    have "n \<in> vr_number ` set (versions_of i rows) \<longleftrightarrow> has_key rows (i, n)" for n
    proof
      assume "n \<in> vr_number ` set (versions_of i rows)"
      then obtain j v where "((i, j), v) \<in> set rows" "vr_number v = n" by (auto simp: versions_of_def)
      then show "has_key rows (i, n)" using own dist by (auto simp: has_key_def dest!: in_set_map_of [OF dist])
    next
      assume "has_key rows (i, n)"
      then obtain v where v: "map_of rows (i, n) = Some v" by (auto simp: has_key_def)
      then have "vr_number v = n" using own by fastforce
      then show "n \<in> vr_number ` set (versions_of i rows)" using map_of_in_set [OF v] by (force simp: versions_of_def)
    qed
    then show ?thesis by blast
  qed
  also have "\<dots> = {1..m}" unfolding m(2) by (rule set_eqI) simp
  finally have set: "vr_number ` set (versions_of i rows) = {1..m}" .
  have "current_version i rows = Max (insert 0 {1..m})"
    unfolding current_version_def fold [of "versions_of i rows"] set ..
  moreover have "Max (insert 0 {1..m}) = m" using m(1) by (intro Max_eqI) auto
  ultimately show ?thesis by simp
qed

lemma current_version_inv:
  assumes "art_inv s" and "has_key (artifact_rows s) i"
  shows "current_version i (version_rows s) \<ge> 1"
    and "has_key (version_rows s) (i, n) \<longleftrightarrow> 1 \<le> n \<and> n \<le> current_version i (version_rows s)"
proof -
  obtain m where m: "m \<ge> 1" "\<And>n. has_key (version_rows s) (i, n) \<longleftrightarrow> 1 \<le> n \<and> n \<le> m"
    using assms by (auto simp: art_inv_def dense_def)
  have "current_version i (version_rows s) = m"
    by (rule current_version_dense [OF _ _ m]) (use assms(1) in \<open>auto simp: art_inv_def rows_inv_def\<close>)
  then show "current_version i (version_rows s) \<ge> 1"
    "has_key (version_rows s) (i, n) \<longleftrightarrow> 1 \<le> n \<and> n \<le> current_version i (version_rows s)"
    using m by simp_all
qed

subsection \<open>What leaves the visible alone\<close>

text \<open>The rows stay, and so does the content of every version that has a row.\<close>

definition rows_same :: "'a artifact_svc_scheme \<Rightarrow> 'a artifact_svc_scheme \<Rightarrow> bool" where
  "rows_same s s' \<longleftrightarrow>
     artifact_rows s' = artifact_rows s \<and> version_rows s' = version_rows s \<and> publication_rows s' = publication_rows s
     \<and> artifact_limits s' = artifact_limits s"

definition keeps :: "'a artifact_svc_scheme \<Rightarrow> 'a artifact_svc_scheme \<Rightarrow> bool" where
  "keeps s s' \<longleftrightarrow> rows_same s s' \<and> (distinct (map fst (placed s)) \<longrightarrow> distinct (map fst (placed s')))
     \<and> (\<forall>k. has_key (version_rows s) k \<longrightarrow> map_of (placed s') k = map_of (placed s) k)"

definition still :: "'a artifact_svc_scheme \<Rightarrow> 'a artifact_svc_scheme \<Rightarrow> bool" where
  "still s s' \<longleftrightarrow> rows_same s s' \<and> placed s' = placed s \<and> stagings s' = stagings s"

lemma keeps_trans [trans]: "keeps s s1 \<Longrightarrow> keeps s1 s2 \<Longrightarrow> keeps s s2"
  by (simp add: keeps_def rows_same_def)

lemma keeps_refl [simp]: "keeps s s"
  by (simp add: keeps_def rows_same_def)

lemma still_refl [simp]: "still s s"
  by (simp add: still_def rows_same_def)

lemma still_trans [trans]: "still s s1 \<Longrightarrow> still s1 s2 \<Longrightarrow> still s s2"
  by (simp add: still_def rows_same_def)

lemma still_keeps: "still s s' \<Longrightarrow> keeps s s'"
  by (simp add: still_def keeps_def)

lemma still_world [simp]:
  "still s (snd (now s))" "still s (snd (io_step s))" "still s (Publish p1 p2 p3 s)" "still s (snd (newLong p s))"
  "still s (s\<lparr>id_tape := tape\<rparr>)"
  by (simp_all add: still_def rows_same_def now_def io_step_def Publish_def newLong_def)

lemma still_reads [simp]:
  "still s (snd (Artifacts_Get i s))" "still s (snd (Artifacts_Version i n s))" "still s (snd (Artifacts_Versions i s))"
  "still s (snd (Publication p s))" "still s (snd (VersionKeys s))" "still s (snd (Artifacts_List q s))"
  by (simp_all add: still_def rows_same_def Artifacts_Get_def Artifacts_Version_def Artifacts_Versions_def Publication_def
      VersionKeys_def Artifacts_List_def io_step_def Let_def split: option.split)

lemma still_read_publication [simp]: "still s (snd (read_publication i n s))"
proof -
  obtain x s1 where g: "Artifacts_Get i s = (x, s1)" by (cases "Artifacts_Get i s")
  have s1: "still s s1" using still_reads(1) [of s i] by (simp add: g)
  obtain y s2 where v: "Artifacts_Version i n s1 = (y, s2)" by (cases "Artifacts_Version i n s1")
  have "still s s2" using still_trans [OF s1 still_reads(2) [of s1 i n]] by (simp add: v)
  then show ?thesis using s1 by (auto simp: read_publication_def g v split: sum.split option.split)
qed

lemma still_replay [simp]: "still s (snd (replay i p s))"
proof -
  obtain x s1 where g: "Publication p s = (x, s1)" by (cases "Publication p s")
  have s1: "still s s1" using still_reads(4) [of s p] by (simp add: g)
  have "still s s2" if "read_publication j n s1 = (y, s2)" for j n y s2
    using still_trans [OF s1 still_read_publication [of s1 j n]] by (simp add: that)
  then show ?thesis using s1 by (auto simp: replay_def g split: sum.split committed.split prod.split)
qed

lemma still_check_base [simp]: "still s (snd (check_base i b s))"
proof -
  obtain x s1 where g: "Artifacts_Get i s = (x, s1)" by (cases "Artifacts_Get i s")
  then show ?thesis using still_reads(1) [of s i] by (auto simp: check_base_def g split: sum.split option.split)
qed

lemma keeps_remove_staging [simp]: "keeps s (remove_staging d s)"
  by (simp add: keeps_def rows_same_def remove_staging_def io_step_def Let_def split: option.split)

lemma keeps_stage [simp]: "keeps s (snd (stage b src s))"
proof -
  obtain d s1 where l: "newLong stage_prefix s = (d, s1)" by (cases "newLong stage_prefix s")
  obtain f s2 where io: "io_step s1 = (f, s2)" by (cases "io_step s1")
  have "still s s1" using still_world(4) [of s stage_prefix] by (simp add: l)
  also have "still s1 s2" using still_world(2) [of s1] by (simp add: io)
  finally have s2: "keeps s s2" by (rule still_keeps)
  have "keeps s (s2\<lparr>stagings := x\<rparr>)" for x using s2 by (simp add: keeps_def rows_same_def)
  then show ?thesis
    using keeps_trans [OF s2 keeps_remove_staging]
    by (simp add: stage_def l io Let_def split: sum.split)
qed

subsection \<open>What adds a version\<close>

text \<open>One version \<open>w\<close> is added, with the content \<open>x\<close>: the first of a new artifact, or the next of an existing one.\<close>

definition added :: "snapshot \<Rightarrow> version_record \<Rightarrow> 'a artifact_svc_scheme \<Rightarrow> 'a artifact_svc_scheme \<Rightarrow> bool" where
  "added x w s s' \<longleftrightarrow>
     (\<exists>r. artifact_rows s' = AList.update (vr_artifact w) r (artifact_rows s) \<and> af_id r = vr_artifact w)
     \<and> version_rows s' = AList.update (vr_artifact w, vr_number w) w (version_rows s)
     \<and> publication_rows s' = AList.update (vr_publication w) (vr_artifact w, vr_number w) (publication_rows s)
     \<and> \<not> has_key (publication_rows s) (vr_publication w)
     \<and> vr_number w = (if has_key (artifact_rows s) (vr_artifact w) then current_version (vr_artifact w) (version_rows s) + 1 else 1)
     \<and> map_of (placed s') (vr_artifact w, vr_number w) = Some x
     \<and> (distinct (map fst (placed s)) \<longrightarrow> distinct (map fst (placed s')))
     \<and> (\<forall>k. has_key (version_rows s) k \<longrightarrow> map_of (placed s') k = map_of (placed s) k)"

lemma added_after: "keeps s s1 \<Longrightarrow> added x w s1 s2 \<Longrightarrow> added x w s s2"
  by (auto simp: added_def keeps_def rows_same_def)

lemma added_before: "added x w s s1 \<Longrightarrow> keeps s1 s2 \<Longrightarrow> added x w s s2"
  by (auto simp: added_def keeps_def rows_same_def)

lemma commit_content_run:
  assumes "commit_content d i n s = (e, s')" and "complete s"
  shows "keeps s s'"
    and "e = None \<Longrightarrow> \<not> has_key (placed s) (i, n) \<and> (\<exists>x. map_of (stagings s) d = Some x \<and> map_of (placed s') (i, n) = Some x)"
    and "has_key (placed s) (i, n) \<Longrightarrow> e = Some ErrIO \<and> still s s'"
proof -
  have free: "map_of (version_rows s) (i, n) = None" if "map_of (placed s) (i, n) = None"
    using assms(2) that unfolding complete_def has_key_def by blast
  show "keeps s s'"
    and "e = None \<Longrightarrow> \<not> has_key (placed s) (i, n) \<and> (\<exists>x. map_of (stagings s) d = Some x \<and> map_of (placed s') (i, n) = Some x)"
    and "has_key (placed s) (i, n) \<Longrightarrow> e = Some ErrIO \<and> still s s'"
    using assms(1) free
    by (auto simp: commit_content_def io_step_def Let_def keeps_def still_def rows_same_def has_key_def
        split: if_splits option.splits)
qed

lemma keeps_remove_placed: "\<not> has_key (version_rows s) k \<Longrightarrow> keeps s (remove_placed k s)"
  by (auto simp: remove_placed_def io_step_def Let_def keeps_def rows_same_def)

text \<open>The outcome of an attempt to commit the content staged as \<open>d\<close>.\<close>

definition commits ::
  "snapshot option \<Rightarrow> string \<Rightarrow> (err + artifact_record \<times> version_record) \<Rightarrow> 'a artifact_svc_scheme \<Rightarrow> 'a artifact_svc_scheme \<Rightarrow> bool" where
  "commits content pub res s s' \<longleftrightarrow>
     keeps s s' \<and> isl res
     \<or> (\<exists>x w. added x w s s' \<and> content = Some x \<and> vr_publication w = pub \<and> (\<forall>r u. res = Inr (r, u) \<longrightarrow> u = w))"

lemma commits_keeps: "keeps s s' \<Longrightarrow> commits content pub (Inl e) s s'"
  by (simp add: commits_def)

lemma read_publication_version:
  "read_publication i n s = (Inr (r, u), s') \<Longrightarrow> map_of (version_rows s) (i, n) = Some u"
  by (auto simp: read_publication_def Artifacts_Get_def Artifacts_Version_def io_step_def Let_def split: if_splits option.splits)

lemma commits_added:
  assumes "added x w s s1" and "read_publication (vr_artifact w) (vr_number w) (Publish a b c s1) = (res, s')"
  shows "commits (Some x) (vr_publication w) res s s'"
proof -
  have "still s1 s'"
    using still_trans [OF still_world(3) [of s1 a b c] still_read_publication [of "Publish a b c s1" "vr_artifact w" "vr_number w"]] assms(2)
    by simp
  then have "added x w s s'" using added_before [OF assms(1) still_keeps] by blast
  moreover have "u = w" if "res = Inr (r, u)" for r u
  proof -
    have "map_of (version_rows (Publish a b c s1)) (vr_artifact w, vr_number w) = Some u"
      using read_publication_version assms(2) that by blast
    then show ?thesis using assms(1) by (simp add: added_def Publish_def)
  qed
  ultimately show ?thesis unfolding commits_def by blast
qed

lemma insertVersion_run:
  "insertVersion v s = Some s' \<Longrightarrow>
     \<not> has_key (publication_rows s) (vr_publication v)
     \<and> s' = s\<lparr>version_rows := AList.update (vr_artifact v, vr_number v) v (version_rows s),
              publication_rows := AList.update (vr_publication v) (vr_artifact v, vr_number v) (publication_rows s)\<rparr>"
  by (auto simp: insertVersion_def split: if_splits)

lemma AppendVersion_run:
  assumes "AppendVersion v base s = (e, s')"
  shows "e \<noteq> None \<Longrightarrow> still s s'"
    and "e = None \<Longrightarrow> \<exists>r. s' = s\<lparr>io_ops := Suc (io_ops s),
             version_rows := AList.update (vr_artifact v, vr_number v) v (version_rows s),
             publication_rows := AList.update (vr_publication v) (vr_artifact v, vr_number v) (publication_rows s),
             artifact_rows := AList.update (vr_artifact v) (r\<lparr>af_title := vr_title v, af_updated := vr_published v\<rparr>) (artifact_rows s)\<rparr>
           \<and> map_of (artifact_rows s) (vr_artifact v) = Some r \<and> current_version (vr_artifact v) (version_rows s) = base
           \<and> vr_number v = base + 1 \<and> \<not> has_key (publication_rows s) (vr_publication v)"
proof -
  show "e \<noteq> None \<Longrightarrow> still s s'"
    using assms by (auto simp: AppendVersion_def io_step_def Let_def still_def rows_same_def split: if_splits option.splits)
  show "e = None \<Longrightarrow> \<exists>r. s' = s\<lparr>io_ops := Suc (io_ops s),
             version_rows := AList.update (vr_artifact v, vr_number v) v (version_rows s),
             publication_rows := AList.update (vr_publication v) (vr_artifact v, vr_number v) (publication_rows s),
             artifact_rows := AList.update (vr_artifact v) (r\<lparr>af_title := vr_title v, af_updated := vr_published v\<rparr>) (artifact_rows s)\<rparr>
           \<and> map_of (artifact_rows s) (vr_artifact v) = Some r \<and> current_version (vr_artifact v) (version_rows s) = base
           \<and> vr_number v = base + 1 \<and> \<not> has_key (publication_rows s) (vr_publication v)"
    using assms by (auto simp: AppendVersion_def io_step_def Let_def split: if_splits option.splits dest!: insertVersion_run)
qed

lemma append_staged_run:
  assumes inv: "art_inv s" and run: "append_staged i base c d v s = (res, s')"
  shows "commits (map_of (stagings s) d) (vr_publication v) res s s'"
proof -
  have comp: "complete s" using inv by (simp add: art_inv_def)
  define w where "w = v\<lparr>vr_artifact := i, vr_number := c + 1\<rparr>"
  have w: "vr_artifact w = i" "vr_number w = c + 1" "vr_publication w = vr_publication v" by (simp_all add: w_def)
  obtain e s1 where cc: "commit_content d i (c + 1) s = (e, s1)" by (cases "commit_content d i (c + 1) s")
  note crun = commit_content_run [OF cc comp]
  show ?thesis
  proof (cases e)
    case (Some x)
    then show ?thesis using run crun(1) commits_keeps by (auto simp: append_staged_def cc)
  next
    case None
    then obtain x where x: "\<not> has_key (placed s) (i, c + 1)" "map_of (stagings s) d = Some x" "map_of (placed s1) (i, c + 1) = Some x"
      using crun(2) by blast
    have free: "\<not> has_key (version_rows s) (i, c + 1)" using x(1) comp by (auto simp: complete_def)
    obtain e2 s2 where ap: "AppendVersion w c s1 = (e2, s2)" by (cases "AppendVersion w c s1")
    note arun = AppendVersion_run [OF ap]
    show ?thesis
    proof (cases e2)
      case (Some y)
      have s2: "keeps s s2" using keeps_trans [OF crun(1) still_keeps [OF arun(1)]] Some by simp
      then have "keeps s (remove_placed (i, c + 1) s2)"
        using keeps_trans [OF s2 keeps_remove_placed] free by (simp add: keeps_def rows_same_def)
      then show ?thesis
        using run None Some commits_keeps by (auto simp: append_staged_def cc w_def [symmetric] ap Let_def)
    next
      case none: None
      then obtain r where r: "s2 = s1\<lparr>io_ops := Suc (io_ops s1),
             version_rows := AList.update (vr_artifact w, vr_number w) w (version_rows s1),
             publication_rows := AList.update (vr_publication w) (vr_artifact w, vr_number w) (publication_rows s1),
             artifact_rows := AList.update (vr_artifact w) (r\<lparr>af_title := vr_title w, af_updated := vr_published w\<rparr>) (artifact_rows s1)\<rparr>"
           "map_of (artifact_rows s1) (vr_artifact w) = Some r" "current_version (vr_artifact w) (version_rows s1) = c"
           "\<not> has_key (publication_rows s1) (vr_publication w)"
        using arun(2) by blast
      have "af_id r = i" using inv r(2) crun(1) w by (auto simp: art_inv_def rows_inv_def keeps_def rows_same_def)
      then have "added x w s1 s2"
        using r x(3) w by (auto simp: added_def has_key_def)
      then have "added x w s s2" using added_after crun(1) by blast
      moreover have "read_publication (vr_artifact w) (vr_number w) (Publish EventArtifactUpdated artifact_resource i s2) = (res, s')"
        using run None none w by (simp add: append_staged_def cc w_def [symmetric] ap)
      ultimately have "commits (Some x) (vr_publication w) res s s'" by (rule commits_added)
      then show ?thesis by (simp add: x(2) w)
    qed
  qed
qed

lemma art_inv_keeps: "keeps s s' \<Longrightarrow> art_inv s \<Longrightarrow> art_inv s'"
  by (auto simp: keeps_def rows_same_def art_inv_def rows_inv_def dense_def complete_def has_key_def)

lemma art_inv_added:
  assumes a: "added x w s s'" and inv: "art_inv s"
  shows "art_inv s'"
proof -
  obtain r where r: "artifact_rows s' = AList.update (vr_artifact w) r (artifact_rows s)" "af_id r = vr_artifact w"
    using a by (auto simp: added_def)
  define k where "k = (vr_artifact w, vr_number w)"
  have rows: "version_rows s' = AList.update k w (version_rows s)"
      "publication_rows s' = AList.update (vr_publication w) k (publication_rows s)"
      "\<not> has_key (publication_rows s) (vr_publication w)" "map_of (placed s') k = Some x"
      "\<And>k. has_key (version_rows s) k \<Longrightarrow> map_of (placed s') k = map_of (placed s) k"
    and num: "vr_number w = (if has_key (artifact_rows s) (vr_artifact w) then current_version (vr_artifact w) (version_rows s) + 1 else 1)"
    using a unfolding added_def k_def by blast+
  have ri: "rows_inv s" and de: "dense s" and co: "complete s" using inv by (simp_all add: art_inv_def)
  have "distinct (map fst (placed s'))" using a ri by (simp add: added_def rows_inv_def)
  moreover have "j = (vr_artifact v, vr_number v) \<and> has_key (artifact_rows s') (fst j)
      \<and> map_of (publication_rows s') (vr_publication v) = Some j" if "map_of (version_rows s') j = Some v" for j v
  proof (cases "j = k")
    case True
    then show ?thesis using that rows r by (simp add: k_def)
  next
    case False
    then have "map_of (version_rows s) j = Some v" using that rows(1) by simp
    then have old: "j = (vr_artifact v, vr_number v)" "has_key (artifact_rows s) (fst j)"
        "map_of (publication_rows s) (vr_publication v) = Some j"
      using ri unfolding rows_inv_def by blast+
    then have "vr_publication v \<noteq> vr_publication w" using rows(3) by (auto simp: has_key_def)
    then show ?thesis using old rows(2) r(1) by simp
  qed
  moreover have "distinct (map fst (artifact_rows s'))" "distinct (map fst (version_rows s'))"
      "\<forall>i r. map_of (artifact_rows s') i = Some r \<longrightarrow> af_id r = i"
    using ri r rows(1) by (auto simp: rows_inv_def)
  ultimately have "rows_inv s'" unfolding rows_inv_def by blast
  moreover have "complete s'" using co rows(1,4,5) by (auto simp: complete_def has_key_def)
  moreover have "dense s'"
    unfolding dense_def
  proof (intro allI impI)
    fix i assume i: "has_key (artifact_rows s') i"
    show "\<exists>m \<ge> 1. \<forall>n. has_key (version_rows s') (i, n) \<longleftrightarrow> 1 \<le> n \<and> n \<le> m"
    proof (cases "i = vr_artifact w")
      case False
      then show ?thesis using i r de rows(1) by (simp add: dense_def k_def)
    next
      case True
      have keys: "has_key (version_rows s') (i, n) \<longleftrightarrow> n = vr_number w \<or> has_key (version_rows s) (i, n)" for n
        using True rows(1) by (auto simp: k_def)
      show ?thesis
      proof (cases "has_key (artifact_rows s) i")
        case old: True
        note cur = current_version_inv [OF inv old]
        have "vr_number w = current_version i (version_rows s) + 1" using num old True by simp
        then show ?thesis
          using cur keys by (intro exI [of _ "current_version i (version_rows s) + 1"]) auto
      next
        case new: False
        have "\<not> has_key (version_rows s) (i, n)" for n
          using ri new unfolding rows_inv_def by (fastforce simp: has_key_def)
        then show ?thesis using keys num new True by (intro exI [of _ 1]) auto
      qed
    qed
  qed
  ultimately show ?thesis by (simp add: art_inv_def)
qed

lemma Artifacts_Create_run:
  assumes "Artifacts_Create r v s = (res, s')"
  shows "res \<noteq> Inr True \<Longrightarrow> still s s'"
    and "res = Inr False \<Longrightarrow> has_key (artifact_rows s) (af_id r)"
    and "res = Inr True \<Longrightarrow> \<not> has_key (artifact_rows s) (af_id r) \<and> \<not> has_key (publication_rows s) (vr_publication v)
           \<and> s' = s\<lparr>io_ops := Suc (io_ops s),
             version_rows := AList.update (vr_artifact v, vr_number v) v (version_rows s),
             publication_rows := AList.update (vr_publication v) (vr_artifact v, vr_number v) (publication_rows s),
             artifact_rows := AList.update (af_id r) r (artifact_rows s)\<rparr>"
proof -
  show "res \<noteq> Inr True \<Longrightarrow> still s s'"
    using assms by (auto simp: Artifacts_Create_def io_step_def Let_def still_def rows_same_def split: if_splits option.splits)
  show "res = Inr False \<Longrightarrow> has_key (artifact_rows s) (af_id r)"
    using assms by (auto simp: Artifacts_Create_def io_step_def Let_def split: if_splits option.splits)
  show "res = Inr True \<Longrightarrow> \<not> has_key (artifact_rows s) (af_id r) \<and> \<not> has_key (publication_rows s) (vr_publication v)
           \<and> s' = s\<lparr>io_ops := Suc (io_ops s),
             version_rows := AList.update (vr_artifact v, vr_number v) v (version_rows s),
             publication_rows := AList.update (vr_publication v) (vr_artifact v, vr_number v) (publication_rows s),
             artifact_rows := AList.update (af_id r) r (artifact_rows s)\<rparr>"
    using assms by (auto simp: Artifacts_Create_def io_step_def Let_def split: if_splits option.splits dest!: insertVersion_run)
qed

lemma create_loop_run:
  assumes inv: "art_inv s" and run: "create_loop tape v d at s = (res, s')"
  shows "commits (map_of (stagings s) d) (vr_publication v) res s s'"
proof (cases tape)
  case Nil
  then show ?thesis using run commits_keeps still_keeps [OF still_world(5) [of s "[]"]] by auto
next
  case (Cons sfx rest)
  define i where "i = artifact_prefix @ sfx"
  define s0 where "s0 = s\<lparr>id_tape := rest\<rparr>"
  have s0: "still s s0" by (simp add: s0_def)
  then have inv0: "art_inv s0" using art_inv_keeps still_keeps inv by blast
  have comp: "complete s0" using inv0 by (simp add: art_inv_def)
  define w where "w = v\<lparr>vr_artifact := i, vr_number := 1\<rparr>"
  have w: "vr_artifact w = i" "vr_number w = 1" "vr_publication w = vr_publication v" by (simp_all add: w_def)
  define r where "r = \<lparr>af_id = i, af_title = vr_title w, af_project = '''', af_current = 0, af_created = at, af_updated = at\<rparr>"
  obtain e s1 where cc: "commit_content d i 1 s0 = (e, s1)" by (cases "commit_content d i 1 s0")
  note crun = commit_content_run [OF cc comp]
  have k1: "keeps s s1" using keeps_trans [OF still_keeps [OF s0] crun(1)] .
  have eq: "(res, s') = (case (e, s1) of (Some e, s) \<Rightarrow> (Inl e, s)
         | (None, s) \<Rightarrow> (case Artifacts_Create r w s of
                   (Inl e, s) \<Rightarrow> (Inl e, remove_placed (i, 1) s)
                 | (Inr True, s) \<Rightarrow> read_publication i 1 (Publish EventArtifactCreated artifact_resource i s)
                 | (Inr False, s) \<Rightarrow>
                     (case uncommit_content d i 1 s of
                        (Some e, s) \<Rightarrow> (Inl e, s)
                      | (None, s) \<Rightarrow> create_loop rest w d at s)))"
    using run unfolding Cons create_loop.simps Let_def i_def [symmetric] s0_def [symmetric] cc w_def [symmetric] r_def [symmetric]
    by simp
  show ?thesis
  proof (cases e)
    case (Some x)
    then show ?thesis using eq k1 commits_keeps by simp
  next
    case None
    then obtain x where x: "\<not> has_key (placed s0) (i, 1)" "map_of (stagings s0) d = Some x" "map_of (placed s1) (i, 1) = Some x"
      using crun(2) by blast
    have free: "\<not> has_key (version_rows s0) (i, 1)" using x(1) comp by (auto simp: complete_def)
    then have new: "\<not> has_key (artifact_rows s0) i"
      using inv0 by (auto simp: art_inv_def dense_def)
    obtain y s2 where cr: "Artifacts_Create r w s1 = (y, s2)" by (cases "Artifacts_Create r w s1")
    note rrun = Artifacts_Create_run [OF cr]
    have rid: "af_id r = i" by (simp add: r_def)
    have rows1: "artifact_rows s1 = artifact_rows s0" "version_rows s1 = version_rows s0" "publication_rows s1 = publication_rows s0"
      using crun(1) by (simp_all add: keeps_def rows_same_def)
    show ?thesis
    proof (cases y)
      case (Inl z)
      have "keeps s s2" using keeps_trans [OF k1 still_keeps [OF rrun(1)]] Inl by simp
      moreover have "\<not> has_key (version_rows s2) (i, 1)"
        using free rows1 rrun(1) Inl by (simp add: still_def rows_same_def)
      ultimately have "keeps s (remove_placed (i, 1) s2)" using keeps_trans keeps_remove_placed by blast
      then show ?thesis using eq None Inl cr commits_keeps by simp
    next
      case (Inr b)
      have "y = Inr True" using rrun(2) new rows1 rid Inr by (cases b) auto
      then have "added x w s1 s2" using rrun(3) x(3) w rid new rows1 by (auto simp: added_def)
      then have "added x w s s2" using added_after k1 by blast
      moreover have "read_publication (vr_artifact w) (vr_number w) (Publish EventArtifactCreated artifact_resource i s2) = (res, s')"
        using eq None cr \<open>y = Inr True\<close> w by simp
      ultimately have "commits (Some x) (vr_publication w) res s s'" by (rule commits_added)
      then show ?thesis using x(2) s0 w by (simp add: still_def)
    qed
  qed
qed

lemma copyVersion_run:
  assumes "copyVersion i n s = (res, s')"
  shows "keeps s s'"
    and "res = Inr d \<Longrightarrow> \<exists>x. map_of (placed s) (i, n) = Some x \<and> map_of (stagings s') d = Some x"
proof -
  obtain e s1 where l: "newLong stage_prefix s = (e, s1)" by (cases "newLong stage_prefix s")
  obtain f s2 where io: "io_step s1 = (f, s2)" by (cases "io_step s1")
  have "still s s1" using still_world(4) [of s stage_prefix] by (simp add: l)
  also have "still s1 s2" using still_world(2) [of s1] by (simp add: io)
  finally have s2: "still s s2" .
  have k2: "keeps s (s2\<lparr>stagings := x\<rparr>)" for x using s2 by (simp add: keeps_def still_def rows_same_def)
  show "keeps s s'"
    using assms k2 keeps_trans [OF still_keeps [OF s2] keeps_remove_staging]
    by (auto simp: copyVersion_def l io Let_def split: option.splits if_splits)
  show "res = Inr d \<Longrightarrow> \<exists>x. map_of (placed s) (i, n) = Some x \<and> map_of (stagings s') d = Some x"
    using assms s2 by (auto simp: copyVersion_def l io Let_def still_def split: option.splits if_splits)
qed

lemma commits_after: "keeps s s1 \<Longrightarrow> commits c p res s1 s2 \<Longrightarrow> commits c p res s s2"
  unfolding commits_def by (auto intro: keeps_trans added_after)

lemma commits_before: "commits c p res s s1 \<Longrightarrow> keeps s1 s2 \<Longrightarrow> commits c p res s s2"
  unfolding commits_def by (auto intro: keeps_trans added_before)

lemma append_restored_run:
  assumes inv: "art_inv s" and run: "append_restored i p c v s = (res, s')"
  shows "commits (map_of (placed s) (i, pp_restore p)) (vr_publication v) res s s'"
proof -
  obtain x s1 where g: "Artifacts_Version i (pp_restore p) s = (x, s1)" by (cases "Artifacts_Version i (pp_restore p) s")
  have s1: "still s s1" using still_reads(2) [of s i "pp_restore p"] by (simp add: g)
  have k1: "keeps s s1" by (rule still_keeps [OF s1])
  consider e where "x = Inl e" | "x = Inr None" | old where "x = Inr (Some old)" by (cases x) auto
  then show ?thesis
  proof cases
    case (3 old)
    obtain y s2 where c: "copyVersion i (pp_restore p) s1 = (y, s2)" by (cases "copyVersion i (pp_restore p) s1")
    note crun = copyVersion_run [OF c]
    have k2: "keeps s s2" using keeps_trans [OF k1 crun(1)] .
    show ?thesis
    proof (cases y)
      case (Inl e)
      then show ?thesis using run 3 k2 by (auto simp: append_restored_def g c intro: commits_keeps)
    next
      case (Inr d)
      define w where "w = restored_version p old v"
      obtain r s3 where a: "append_staged i (pp_base p) c d w s2 = (r, s3)" by (cases "append_staged i (pp_base p) c d w s2")
      have "commits (map_of (stagings s2) d) (vr_publication w) r s2 s3"
        using append_staged_run [OF art_inv_keeps [OF k2 inv] a] .
      moreover have "vr_publication w = vr_publication v" by (simp add: w_def restored_version_def)
      moreover have "map_of (stagings s2) d = map_of (placed s) (i, pp_restore p)"
        using crun(2) [OF Inr] s1 by (auto simp: still_def)
      ultimately have "commits (map_of (placed s) (i, pp_restore p)) (vr_publication v) r s s3"
        using commits_after [OF k2] by simp
      then show ?thesis
        using run 3 Inr commits_before [OF _ keeps_remove_staging]
        by (auto simp: append_restored_def g c w_def [symmetric] a)
    qed
  qed (use run k1 in \<open>auto simp: append_restored_def g intro: commits_keeps\<close>)
qed

text \<open>The content a publication commits: a copy of the version it restores, or what it staged.\<close>

definition content_of :: "string \<Rightarrow> publish_params \<Rightarrow> string option \<Rightarrow> 'a artifact_svc_scheme \<Rightarrow> snapshot option" where
  "content_of i p staged s =
     (if i \<noteq> '''' \<and> pp_restore p > 0 then map_of (placed s) (i, pp_restore p)
      else case staged of None \<Rightarrow> None | Some d \<Rightarrow> map_of (stagings s) d)"

lemma publish_locked_run:
  assumes inv: "art_inv s" and run: "publish_locked i p staged s = (res, s')"
  shows "keeps s s' \<and> (\<forall>x. res \<noteq> Inr (x, False))
    \<or> (\<exists>x w. added x w s s' \<and> content_of i p staged s = Some x \<and> vr_publication w = pp_publication p
          \<and> (\<forall>r u b. res = Inr ((r, u), b) \<longrightarrow> u = w \<and> \<not> b))"
proof -
  obtain a s1 where rp: "replay i (pp_publication p) s = (a, s1)" by (cases "replay i (pp_publication p) s")
  have s1: "still s s1" using still_replay [of s i "pp_publication p"] by (simp add: rp)
  consider e where "a = Inl e" | x where "a = Inr (Some x)" | "a = Inr None" by (metis option.exhaust sum.exhaust)
  then show ?thesis
  proof cases
    case 3
    obtain at s2 where n: "now s1 = (at, s2)" by (cases "now s1")
    have s2: "still s s2" using still_trans [OF s1 still_world(1) [of s1]] by (simp add: n)
    have k2: "keeps s s2" by (rule still_keeps [OF s2])
    have inv2: "art_inv s2" by (rule art_inv_keeps [OF k2 inv])
    define v where "v = \<lparr>vr_artifact = '''', vr_number = 0, vr_title = pp_title p, vr_platform = pp_platform p, vr_published = at,
                    vr_restored = 0, vr_publication = pp_publication p, vr_provenance = pp_provenance p\<rparr>"
    have vp: "vr_publication v = pp_publication p" by (simp add: v_def)
    define body where "body = (if i = '''' then (case staged of None \<Rightarrow> (Inl ErrIO, s2) | Some d \<Rightarrow> create_loop (id_tape s2) v d at s2)
                  else case check_base i (pp_base p) s2 of
                         (Inl e, s) \<Rightarrow> (Inl e, s)
                       | (Inr r, s) \<Rightarrow>
                           if pp_restore p > 0 then append_restored i p (af_current r) v s
                           else (case staged of
                                   None \<Rightarrow> (Inl ErrIO, s)
                                 | Some d \<Rightarrow> append_staged i (pp_base p) (af_current r) d v s))"
    obtain r s3 where b: "body = (r, s3)" by (cases body)
    have eq: "res = (case r of Inl e \<Rightarrow> Inl e | Inr x \<Rightarrow> Inr (x, False))" "s' = s3"
      using run unfolding publish_locked_def rp 3 prod.case sum.case option.case n Let_def v_def [symmetric] body_def [symmetric] b
      by simp_all
    have same: "content_of i p staged s2 = content_of i p staged s"
      using s2 by (simp add: content_of_def still_def split: option.split)
    have "commits (content_of i p staged s2) (pp_publication p) r s2 s3"
    proof (cases "i = ''''")
      case True
      show ?thesis
      proof (cases staged)
        case None
        then show ?thesis using b True commits_keeps [OF keeps_refl] by (auto simp: body_def)
      next
        case (Some d)
        have "create_loop (id_tape s2) v d at s2 = (r, s3)" using b True Some by (simp add: body_def)
        from create_loop_run [OF inv2 this] show ?thesis using True Some vp by (simp add: content_of_def)
      qed
    next
      case False
      obtain c s4 where cb: "check_base i (pp_base p) s2 = (c, s4)" by (cases "check_base i (pp_base p) s2")
      have s4: "still s2 s4" using still_check_base [of s2 i "pp_base p"] by (simp add: cb)
      have k4: "keeps s2 s4" by (rule still_keeps [OF s4])
      have inv4: "art_inv s4" by (rule art_inv_keeps [OF k4 inv2])
      show ?thesis
      proof (cases c)
        case (Inl e)
        then show ?thesis using b False cb k4 commits_keeps by (auto simp: body_def)
      next
        case (Inr rec)
        show ?thesis
        proof (cases "pp_restore p > 0")
          case True
          then have "append_restored i p (af_current rec) v s4 = (r, s3)" using b False cb Inr by (simp add: body_def)
          from commits_after [OF k4 append_restored_run [OF inv4 this]] show ?thesis
            using True False vp s4 by (simp add: content_of_def still_def)
        next
          case up: False
          show ?thesis
          proof (cases staged)
            case None
            then show ?thesis using b False cb Inr up k4 commits_keeps by (auto simp: body_def)
          next
            case (Some d)
            then have "append_staged i (pp_base p) (af_current rec) d v s4 = (r, s3)" using b False cb Inr up by (simp add: body_def)
            from commits_after [OF k4 append_staged_run [OF inv4 this]] show ?thesis
              using up Some vp s4 by (simp add: content_of_def still_def)
          qed
        qed
      qed
    qed
    then have "commits (content_of i p staged s) (pp_publication p) r s s3" using commits_after [OF k2] same by simp
    then show ?thesis unfolding commits_def eq by (auto split: sum.splits)
  qed (use run still_keeps [OF s1] in \<open>auto simp: publish_locked_def rp\<close>)
qed

subsection \<open>Runs\<close>

text \<open>
  Uploads staged and abandoned outside the lock; the critical sections of publications, updates and deletions one after
  another; a project deleted elsewhere; the process lost right after a placement; the restart; and what reads.
\<close>

inductive artifact_step :: "'a artifact_svc_scheme \<Rightarrow> 'a artifact_svc_scheme \<Rightarrow> bool" where
  stages: "artifact_step s (snd (stage b src s))"
| abandons: "artifact_step s (remove_staging d s)"
| publishes: "artifact_step s (snd (publish_locked i p staged s))"
| updates: "artifact_step s (snd (Artifact_Update i u s))"
| deletes: "artifact_step s (snd (Artifact_Delete i s))"
| clears: "artifact_step s (clear_project q s)"
| dies: "artifact_step s (snd (commit_content d i n s))"
| restarts: "artifact_step s (snd (reconcile_content s))"
| others: "still s s' \<Longrightarrow> artifact_step s s'"

inductive_cases artifact_stepE: "artifact_step s s'"

text \<open>What an update, a deletion, a cleared project and a restart do.\<close>

definition relabelled :: "'a artifact_svc_scheme \<Rightarrow> 'a artifact_svc_scheme \<Rightarrow> bool" where
  "relabelled s s' \<longleftrightarrow> map fst (artifact_rows s') = map fst (artifact_rows s)
     \<and> (\<forall>i r. map_of (artifact_rows s') i = Some r \<longrightarrow> (\<exists>old. map_of (artifact_rows s) i = Some old \<and> af_id r = af_id old))
     \<and> version_rows s' = version_rows s \<and> publication_rows s' = publication_rows s \<and> placed s' = placed s"

lemma relabelled_still: "still s s' \<Longrightarrow> relabelled s s'"
  by (auto simp: relabelled_def still_def rows_same_def)

lemma relabelled_after: "still s s1 \<Longrightarrow> relabelled s1 s2 \<Longrightarrow> relabelled s s2"
  by (auto simp: relabelled_def still_def rows_same_def)

lemma relabelled_before: "relabelled s s1 \<Longrightarrow> still s1 s2 \<Longrightarrow> relabelled s s2"
  by (auto simp: relabelled_def still_def rows_same_def)

lemma update_present_keys: "has_key xs k \<Longrightarrow> map fst (AList.update k v xs) = map fst xs"
  by (induction xs) (auto simp: has_key_def)

lemma relabelled_update: "relabelled s (snd (Artifact_Update i u s))"
proof -
  obtain x s1 where g: "Artifacts_Get i s = (x, s1)" by (cases "Artifacts_Get i s")
  have s1: "still s s1" using still_reads(1) [of s i] by (simp add: g)
  obtain at s2 where n: "now s1 = (at, s2)" by (cases "now s1")
  have s2: "still s s2" using still_trans [OF s1 still_world(1) [of s1]] by (simp add: n)
  have upd: "relabelled s s3" if "Artifacts_Update i t q at s2 = (y, s3)" for t q y s3
  proof -
    have "relabelled s2 s3"
      using that by (auto simp: Artifacts_Update_def io_step_def Let_def relabelled_def has_key_def
          intro!: update_present_keys split: if_splits option.splits)
    then show ?thesis using relabelled_after s2 by blast
  qed
  show ?thesis
    using relabelled_still [OF s1] relabelled_still [OF still_refl [of s]] upd relabelled_before [OF upd still_world(3)]
    by (auto simp: Artifact_Update_def g n Let_def split: sum.split option.split prod.split)
qed

lemma map_of_map_keep: "map_of (map (\<lambda>(k, r). (k, f r)) xs) i = map_option f (map_of xs i)"
  by (induction xs) auto

lemma relabelled_clear: "relabelled s (clear_project q s)"
proof -
  have "map fst (artifact_rows (clear_project q s)) = map fst (artifact_rows s)"
    by (auto simp: clear_project_def)
  then show ?thesis
    by (auto simp: relabelled_def clear_project_def map_of_map_keep [of "\<lambda>r. if af_project r = q then r\<lparr>af_project := ''''\<rparr> else r"])
qed

lemma art_inv_relabelled:
  assumes "relabelled s s'" and "art_inv s"
  shows "art_inv s'"
proof -
  have keys: "has_key (artifact_rows s') i \<longleftrightarrow> has_key (artifact_rows s) i" for i
    using assms(1) unfolding relabelled_def has_key_def by (metis map_of_eq_None_iff set_map)
  show ?thesis
    using assms keys
    by (fastforce simp: art_inv_def rows_inv_def dense_def complete_def relabelled_def)
qed

lemma map_of_filter_keys: "map_of (filter (\<lambda>(k, v). P k) xs) k = (if P k then map_of xs k else None)"
  by (induction xs) auto

definition removed :: "string \<Rightarrow> 'a artifact_svc_scheme \<Rightarrow> 'a artifact_svc_scheme \<Rightarrow> bool" where
  "removed i s s' \<longleftrightarrow> artifact_rows s' = AList.delete i (artifact_rows s)
     \<and> version_rows s' = filter (\<lambda>((a, n), v). a \<noteq> i) (version_rows s) \<and> publication_rows s' = publication_rows s
     \<and> placed s' \<in> {placed s, filter (\<lambda>((a, n), x). a \<noteq> i) (placed s)}"

lemma Artifact_Delete_run: "still s (snd (Artifact_Delete i s)) \<or> removed i s (snd (Artifact_Delete i s))"
proof -
  obtain x s1 where d: "Artifacts_Delete i s = (x, s1)" by (cases "Artifacts_Delete i s")
  consider e where "x = Inl e" "still s s1" | "x = Inr False" "still s s1"
    | "x = Inr True" "removed i s s1" "placed s1 = placed s"
    using d by (auto simp: Artifacts_Delete_def io_step_def Let_def still_def rows_same_def removed_def has_key_def
        delete_id map_of_eq_None_iff split: if_splits)
  then show ?thesis
    by cases (auto simp: Artifact_Delete_def d io_step_def Let_def removed_def Publish_def)
qed

lemma pair_filter: "filter (\<lambda>((a, n), v). P a) xs = filter (\<lambda>(k, v). P (fst k)) xs"
  by (rule filter_cong) auto

lemma removed_keys:
  assumes "removed i s s'"
  shows "map_of (version_rows s') k = (if fst k \<noteq> i then map_of (version_rows s) k else None)"
    and "fst k \<noteq> i \<Longrightarrow> map_of (placed s') k = map_of (placed s) k"
    and "map_of (artifact_rows s') j = (if j \<noteq> i then map_of (artifact_rows s) j else None)"
  using assms unfolding removed_def pair_filter [of "\<lambda>a. a \<noteq> i"] by (auto simp: map_of_filter_keys)

lemma art_inv_removed:
  assumes r: "removed i s s'" and inv: "art_inv s"
  shows "art_inv s'"
proof -
  note keys = removed_keys [OF r]
  have "distinct (map fst (artifact_rows s'))" "distinct (map fst (version_rows s'))" "distinct (map fst (placed s'))"
    using r inv by (auto simp: removed_def art_inv_def rows_inv_def)
  moreover have "publication_rows s' = publication_rows s" using r by (simp add: removed_def)
  ultimately have "rows_inv s'"
    using inv keys unfolding art_inv_def rows_inv_def has_key_def by (auto split: if_splits)
  moreover have "complete s'" using inv keys unfolding art_inv_def complete_def has_key_def by (auto split: if_splits)
  moreover have "dense s'" using inv keys unfolding art_inv_def dense_def has_key_def by (auto split: if_splits)
  ultimately show ?thesis by (simp add: art_inv_def)
qed

lemma reconcile_run: "keeps s (snd (reconcile_content s))"
proof -
  have k: "map_of (filter (\<lambda>(k, x). k \<in> fst ` set rows) xs) k = map_of xs k" if "has_key rows k" for rows :: "('k \<times> 'v) list" and xs k
    using that by (auto simp: map_of_filter_keys has_key_def dest: map_of_in_set intro: rev_image_eqI)
  show ?thesis
    by (auto simp: reconcile_content_def VersionKeys_def io_step_def Let_def keeps_def rows_same_def k)
qed

lemma artifact_step_cases:
  assumes "artifact_step s s'" and inv: "art_inv s"
  shows "keeps s s' \<or> relabelled s s' \<or> (\<exists>x w. added x w s s') \<or> (\<exists>i. removed i s s')"
  using assms(1)
proof cases
  case (publishes i p staged)
  obtain res t where "publish_locked i p staged s = (res, t)" by (cases "publish_locked i p staged s")
  from publish_locked_run [OF inv this] this show ?thesis using publishes by auto
next
  case (deletes i)
  then show ?thesis using Artifact_Delete_run [of s i] still_keeps by auto
next
  case (dies d i n)
  obtain e t where c: "commit_content d i n s = (e, t)" by (cases "commit_content d i n s")
  have "complete s" using inv by (simp add: art_inv_def)
  from commit_content_run(1) [OF c this] show ?thesis using dies c by simp
qed (auto simp: relabelled_update relabelled_clear reconcile_run still_keeps)

lemma artifact_step_inv: "artifact_step s s' \<Longrightarrow> art_inv s \<Longrightarrow> art_inv s'"
  using artifact_step_cases art_inv_keeps art_inv_relabelled art_inv_added art_inv_removed by (metis (no_types))

definition no_artifacts :: "'a artifact_svc_scheme \<Rightarrow> bool" where
  "no_artifacts s \<longleftrightarrow> artifact_rows s = [] \<and> version_rows s = [] \<and> distinct (map fst (placed s))"

lemma no_artifacts_inv: "no_artifacts s \<Longrightarrow> art_inv s"
  by (simp add: no_artifacts_def art_inv_def rows_inv_def dense_def complete_def)

interpretation documents: machine no_artifacts artifact_step art_inv
  by unfold_locales (auto intro: no_artifacts_inv artifact_step_inv)

text \<open>
  C9. Histories are dense and complete: in every state a run reaches, however it was interrupted, the versions of an
  artifact are numbered from one to its current version, each of them has its content on disk and a recorded publication
  of its own.
\<close>

theorem history_is_dense:
  assumes "no_artifacts s0" and "artifact_step\<^sup>*\<^sup>* s0 s" and "map_of (artifact_rows s) i = Some r"
  shows "1 \<le> current_version i (version_rows s)
    \<and> (\<forall>n. has_key (version_rows s) (i, n) \<longleftrightarrow> 1 \<le> n \<and> n \<le> current_version i (version_rows s))
    \<and> (\<forall>n v. map_of (version_rows s) (i, n) = Some v \<longrightarrow>
          has_key (placed s) (i, n) \<and> map_of (publication_rows s) (vr_publication v) = Some (i, n))"
proof -
  have inv: "art_inv s" using documents.reach_inv assms(1,2) by blast
  have "has_key (artifact_rows s) i" using assms(3) by (simp add: has_key_def)
  note cur = current_version_inv [OF inv this]
  show ?thesis using cur inv by (auto simp: art_inv_def rows_inv_def complete_def has_key_def)
qed

text \<open>
  C10. A version never changes: whatever happens next, a version with its row and its content is exactly what it was, or
  its whole artifact has been deleted.
\<close>

theorem versions_never_change:
  assumes "no_artifacts s0" and "artifact_step\<^sup>*\<^sup>* s0 s" and "artifact_step s s'"
    and "map_of (version_rows s) k = Some v" and "map_of (placed s) k = Some x"
  shows "map_of (version_rows s') k = Some v \<and> map_of (placed s') k = Some x
    \<or> \<not> has_key (artifact_rows s') (fst k)"
proof -
  have inv: "art_inv s" using documents.reach_inv assms(1,2) by blast
  have key: "has_key (version_rows s) k" using assms(4) by (simp add: has_key_def)
  from artifact_step_cases [OF assms(3) inv] show ?thesis
  proof (elim disjE exE)
    fix y w assume a: "added y w s s'"
    have "(vr_artifact w, vr_number w) \<noteq> k"
    proof
      assume k: "(vr_artifact w, vr_number w) = k"
      have art: "has_key (artifact_rows s) (vr_artifact w)"
        using inv assms(4) unfolding art_inv_def rows_inv_def by (metis fst_conv k)
      then have "vr_number w = current_version (vr_artifact w) (version_rows s) + 1" using a by (simp add: added_def)
      then show False using current_version_inv(2) [OF inv art, of "vr_number w"] key k by simp
    qed
    moreover have "map_of (placed s') k = map_of (placed s) k" using a key unfolding added_def by blast
    moreover have "version_rows s' = AList.update (vr_artifact w, vr_number w) w (version_rows s)"
      using a by (simp add: added_def)
    ultimately show ?thesis using assms(4,5) by simp
  next
    fix i assume "removed i s s'"
    then show ?thesis using removed_keys [of i s s'] assms(4,5) by (auto simp: has_key_def)
  qed (use assms(4,5) key in \<open>simp_all add: keeps_def rows_same_def relabelled_def\<close>)
qed

text \<open>
  C35. A restart leaves on disk exactly what is visible: after a successful reconciliation there is content for a version
  precisely when it has a row, with the content it had, no staging is left, and the rows are untouched.
\<close>

theorem restart_leaves_the_visible:
  assumes "no_artifacts s0" and "artifact_step\<^sup>*\<^sup>* s0 s" and "reconcile_content s = (None, s')"
  shows "version_rows s' = version_rows s \<and> artifact_rows s' = artifact_rows s \<and> stagings s' = []
    \<and> (\<forall>k. has_key (placed s') k \<longleftrightarrow> has_key (version_rows s) k)
    \<and> (\<forall>k. has_key (version_rows s) k \<longrightarrow> map_of (placed s') k = map_of (placed s) k)"
proof -
  have inv: "art_inv s" using documents.reach_inv assms(1,2) by blast
  have keys: "k \<in> fst ` set (version_rows s) \<longleftrightarrow> has_key (version_rows s) k" for k
    by (simp add: has_key_def map_of_eq_None_iff)
  have p: "placed s' = filter (\<lambda>(k, x). k \<in> fst ` set (version_rows s)) (placed s)" "stagings s' = []"
    using assms(3) by (auto simp: reconcile_content_def VersionKeys_def io_step_def Let_def split: if_splits)
  have "has_key (placed s') k \<longleftrightarrow> has_key (version_rows s) k" for k
    using inv unfolding p map_of_filter_keys keys art_inv_def complete_def by (auto simp: has_key_def map_of_filter_keys)
  then show ?thesis
    using reconcile_run [of s] p(2) unfolding assms(3) by (auto simp: keeps_def rows_same_def)
qed

subsection \<open>Publications\<close>

lemma find_publication:
  assumes "rows_inv s" and "map_of (publication_rows s) pub = Some k"
  shows "find (\<lambda>v. vr_publication v = pub) (map snd (version_rows s)) =
    (case map_of (version_rows s) k of None \<Rightarrow> None | Some v \<Rightarrow> if vr_publication v = pub then Some v else None)"
proof -
  have key: "j = k \<and> map_of (version_rows s) j = Some v" if "(j, v) \<in> set (version_rows s)" "vr_publication v = pub" for j v
  proof -
    have m: "map_of (version_rows s) j = Some v" using assms(1) that(1) by (simp add: rows_inv_def)
    then have "map_of (publication_rows s) pub = Some j" using assms(1) that(2) unfolding rows_inv_def by blast
    then show ?thesis using assms(2) m by simp
  qed
  show ?thesis
  proof (cases "find (\<lambda>v. vr_publication v = pub) (map snd (version_rows s))")
    case None
    then have no: "vr_publication v \<noteq> pub" if "(j, v) \<in> set (version_rows s)" for j v
      using that by (force simp: find_None_iff)
    show ?thesis
    proof (cases "map_of (version_rows s) k")
      case (Some v)
      then show ?thesis using no [OF map_of_in_set [OF Some]] None by simp
    qed (simp add: None)
  next
    case (Some v)
    then have "v \<in> set (map snd (version_rows s))" "vr_publication v = pub"
      unfolding find_Some_iff by (metis nth_mem)+
    then obtain j where "(j, v) \<in> set (version_rows s)" "vr_publication v = pub" by auto
    then show ?thesis using key [of j v] Some by auto
  qed
qed

text \<open>Whether the publication \<open>pub\<close>, committed as \<open>k\<close>, still has its version.\<close>

definition alive :: "'a artifact_svc_scheme \<Rightarrow> string \<Rightarrow> string \<times> int \<Rightarrow> version_record \<Rightarrow> bool" where
  "alive s pub k v \<longleftrightarrow> map_of (version_rows s) k = Some v \<and> vr_publication v = pub"

lemma replay_run:
  assumes inv: "art_inv s" and pub: "map_of (publication_rows s) pub = Some k" and run: "replay i pub s = (a, s')"
  shows "still s s' \<and> a \<noteq> Inr None \<and> (\<forall>r v. a = Inr (Some (r, v)) \<longrightarrow> alive s pub k v)"
    and "\<forall>n. \<not> fault s n \<Longrightarrow> a = (case map_of (version_rows s) k of
            None \<Rightarrow> Inl ErrPublicationDeleted
          | Some v \<Rightarrow> if vr_publication v \<noteq> pub then Inl ErrPublicationDeleted
                      else if i \<noteq> '''' \<and> fst k \<noteq> i then Inl ErrPublicationTaken
                      else Inr (Some (read_artifact (the (map_of (artifact_rows s) (fst k))) s, v)))"
proof -
  have ri: "rows_inv s" using inv by (simp add: art_inv_def)
  note found = find_publication [OF ri pub]
  have key: "has_key (publication_rows s) pub" using pub by (simp add: has_key_def)
  have ver: "k = (vr_artifact v, vr_number v)" "map_of (artifact_rows s) (fst k) \<noteq> None" if "map_of (version_rows s) k = Some v" for v
    using ri that unfolding rows_inv_def has_key_def by blast+
  have st: "still s s'" using still_replay [of s i pub] run by simp
  have "a \<noteq> Inr None" using run key
    by (auto simp: replay_def Publication_def io_step_def Let_def split: if_splits option.splits sum.splits prod.splits)
  moreover have "alive s pub k v" if ans: "a = Inr (Some (r, v))" for r v
  proof -
    obtain c s1 where p: "Publication pub s = (c, s1)" by (cases "Publication pub s")
    have s1: "version_rows s1 = version_rows s" using still_reads(4) [of s pub] p by (simp add: still_def rows_same_def)
    obtain w where c: "c = Inr (Committed w)" and rp: "\<exists>s2. read_publication (vr_artifact w) (vr_number w) s1 = (Inr (r, v), s2)"
      using run [unfolded ans] p by (auto simp: replay_def split: sum.splits committed.splits if_splits prod.splits)
    have w: "find (\<lambda>v. vr_publication v = pub) (map snd (version_rows s)) = Some w"
      using p c by (auto simp: Publication_def io_step_def Let_def split: if_splits option.splits)
    then have w2: "map_of (version_rows s) k = Some w" "vr_publication w = pub" using found by (auto split: option.splits if_splits)
    have "map_of (version_rows s) (vr_artifact w, vr_number w) = Some v" using rp read_publication_version s1 by fastforce
    then show ?thesis using ver(1) [OF w2(1)] w2 by (simp add: alive_def)
  qed
  ultimately show "still s s' \<and> a \<noteq> Inr None \<and> (\<forall>r v. a = Inr (Some (r, v)) \<longrightarrow> alive s pub k v)" using st by blast
  assume ok: "\<forall>n. \<not> fault s n"
  show "a = (case map_of (version_rows s) k of
            None \<Rightarrow> Inl ErrPublicationDeleted
          | Some v \<Rightarrow> if vr_publication v \<noteq> pub then Inl ErrPublicationDeleted
                      else if i \<noteq> '''' \<and> fst k \<noteq> i then Inl ErrPublicationTaken
                      else Inr (Some (read_artifact (the (map_of (artifact_rows s) (fst k))) s, v)))"
  proof (cases "map_of (version_rows s) k")
    case None
    then show ?thesis using run ok found key by (auto simp: replay_def Publication_def io_step_def Let_def)
  next
    case (Some v)
    note k = ver [OF Some]
    then obtain r where r: "map_of (artifact_rows s) (vr_artifact v) = Some r" by auto
    show ?thesis
      using run ok found key Some k(1) r
      by (auto simp: replay_def Publication_def read_publication_def Artifacts_Get_def Artifacts_Version_def read_artifact_def
          io_step_def Let_def split: if_splits)
  qed
qed

text \<open>
  C11. A publication commits once: repeating a publication id that is committed changes neither rows nor content, whatever
  it is repeated with; it answers the version it committed, as a replay, and when that is gone nothing is recreated.
\<close>

theorem publication_commits_once:
  assumes "no_artifacts s0" and "artifact_step\<^sup>*\<^sup>* s0 s" and "map_of (publication_rows s) (pp_publication p) = Some k"
    and "Publish_artifact i p b src s = (res, s')"
  shows "version_rows s' = version_rows s \<and> artifact_rows s' = artifact_rows s \<and> publication_rows s' = publication_rows s
    \<and> placed s' = placed s \<and> stagings s' = stagings s
    \<and> (\<forall>r v replayed. res = Inr ((r, v), replayed) \<longrightarrow> replayed \<and> map_of (version_rows s) k = Some v \<and> vr_publication v = pp_publication p)
    \<and> ((\<forall>n. \<not> fault s n) \<longrightarrow> invalid_publication i (p\<lparr>pp_title := TrimSpace (pp_title p)\<rparr>) b src \<or>
        res = (case map_of (version_rows s) k of
                 None \<Rightarrow> Inl ErrPublicationDeleted
               | Some v \<Rightarrow> if vr_publication v \<noteq> pp_publication p then Inl ErrPublicationDeleted
                           else if i \<noteq> '''' \<and> fst k \<noteq> i then Inl ErrPublicationTaken
                           else Inr ((read_artifact (the (map_of (artifact_rows s) (fst k))) s, v), True)))"
proof -
  have inv: "art_inv s" using documents.reach_inv assms(1,2) by blast
  define q where "q = p\<lparr>pp_title := TrimSpace (pp_title p)\<rparr>"
  have q: "pp_publication q = pp_publication p" by (simp add: q_def)
  show ?thesis
  proof (cases "invalid_publication i q b src")
    case True
    then have "res = Inl ErrInvalidPublication \<and> s' = s"
      using assms(4) by (simp add: Publish_artifact_def q_def [symmetric] publish_begin_def)
    then show ?thesis using True by (simp add: q_def)
  next
    case False
    obtain a s1 where rp: "replay i (pp_publication p) s = (a, s1)" by (cases "replay i (pp_publication p) s")
    note run = replay_run [OF inv assms(3) rp]
    consider e where "a = Inl e" | r v where "a = Inr (Some (r, v))" using run(1) by (metis option.exhaust prod.exhaust sum.exhaust)
    then have eq: "s' = s1" "res = (case a of Inl e \<Rightarrow> Inl e | Inr x \<Rightarrow> Inr (the x, True))"
      using assms(4) False rp by (cases; simp add: Publish_artifact_def q_def [symmetric] publish_begin_def q)+
    have "\<forall>r v replayed. res = Inr ((r, v), replayed) \<longrightarrow> replayed \<and> alive s (pp_publication p) k v"
      using run(1) eq(2) by (auto split: sum.splits)
    moreover have "res = (case map_of (version_rows s) k of
                 None \<Rightarrow> Inl ErrPublicationDeleted
               | Some v \<Rightarrow> if vr_publication v \<noteq> pp_publication p then Inl ErrPublicationDeleted
                           else if i \<noteq> '''' \<and> fst k \<noteq> i then Inl ErrPublicationTaken
                           else Inr ((read_artifact (the (map_of (artifact_rows s) (fst k))) s, v), True))"
      if "\<forall>n. \<not> fault s n"
      unfolding eq(2) run(2) [OF that] by (simp split: option.split)
    ultimately show ?thesis
      using run(1) eq(1) False unfolding q_def [symmetric] still_def rows_same_def alive_def by blast
  qed
qed

subsection \<open>What is published is what is served\<close>

lemma stage_run:
  assumes "stage b src s = (Inr d, s')"
  shows "\<exists>tree. extractBuild b (artifact_limits s) = Inr tree \<and> map_of (stagings s') d = Some \<lparr>sn_build = tree, sn_source = src\<rparr>"
  using assms by (auto simp: stage_def newLong_def io_step_def Let_def copySource_def split: if_splits sum.splits)

lemma publish_begin_staged:
  assumes "publish_begin i p (Some b) (Some src) s = (Inr (Inr staged), s')"
  shows "keeps s s' \<and> \<not> pp_restore p > 0
    \<and> (\<exists>d tree. staged = Some d \<and> extractBuild b (artifact_limits s) = Inr tree
          \<and> map_of (stagings s') d = Some \<lparr>sn_build = tree, sn_source = src\<rparr>)"
proof -
  have valid: "\<not> invalid_publication i p (Some b) (Some src)"
    using assms by (auto simp: publish_begin_def)
  obtain a s1 where rp: "replay i (pp_publication p) s = (a, s1)" by (cases "replay i (pp_publication p) s")
  have s1: "still s s1" using still_replay [of s i "pp_publication p"] by (simp add: rp)
  have a: "a = Inr None" using assms valid rp by (auto simp: publish_begin_def split: sum.splits option.splits)
  define ck where "ck = (if i = '''' then (None, s1)
     else case check_base i (pp_base p) s1 of (Inl e, s) \<Rightarrow> (Some e, s) | (Inr r, s) \<Rightarrow> (None, s))"
  obtain e s2 where c: "ck = (e, s2)" by (cases ck)
  have "still s1 s2"
    using c still_check_base [of s1 i "pp_base p"]
    by (cases "check_base i (pp_base p) s1") (auto simp: ck_def split: if_splits sum.splits)
  then have s2: "still s s2" using still_trans s1 by blast
  note run = assms [unfolded publish_begin_def if_not_P [OF valid] rp a prod.case sum.case option.case ck_def [symmetric] c Let_def]
  obtain y s3 where st: "stage b src s2 = (y, s3)" by (cases "stage b src s2")
  from run st obtain d where d: "staged = Some d" "y = Inr d" "s3 = s'" by (auto split: option.splits sum.splits)
  have "keeps s s'" using keeps_trans [OF still_keeps [OF s2] keeps_stage [of s2 b src]] st d(3) by simp
  moreover have "artifact_limits s2 = artifact_limits s" using s2 by (simp add: still_def rows_same_def)
  ultimately show ?thesis
    using stage_run [of b src s2 d s'] st d valid by (auto simp: invalid_publication_def Let_def)
qed

lemma versions_of_rows:
  assumes "rows_inv s"
  shows "v \<in> set (versions_of i (version_rows s)) \<longleftrightarrow> map_of (version_rows s) (i, vr_number v) = Some v"
    and "sorted (map vr_number (versions_of i (version_rows s)))"
proof -
  have "map_of (version_rows s) (i, vr_number v) = Some v" if "((i, n), v) \<in> set (version_rows s)" for n
  proof -
    have m: "map_of (version_rows s) (i, n) = Some v" using that assms by (simp add: rows_inv_def)
    then show ?thesis using assms unfolding rows_inv_def by (metis prod.inject)
  qed
  then show "v \<in> set (versions_of i (version_rows s)) \<longleftrightarrow> map_of (version_rows s) (i, vr_number v) = Some v"
    by (auto simp: versions_of_def dest: map_of_in_set intro: rev_image_eqI)
  show "sorted (map vr_number (versions_of i (version_rows s)))" by (simp add: versions_of_def)
qed

lemma find_version:
  assumes "rows_inv s" and "map_of (version_rows s) (i, n) = Some v"
  shows "find (\<lambda>v. vr_number v = n) (versions_of i (version_rows s)) = Some v"
proof -
  have n: "vr_number v = n" using assms unfolding rows_inv_def by (metis prod.inject)
  then have "v \<in> set (versions_of i (version_rows s))" using versions_of_rows(1) [OF assms(1)] assms(2) by simp
  moreover have "w = v" if "w \<in> set (versions_of i (version_rows s))" "vr_number w = n" for w
    using versions_of_rows(1) [OF assms(1)] that assms(2) by simp
  moreover obtain w where w: "find (\<lambda>v. vr_number v = n) (versions_of i (version_rows s)) = Some w"
    using calculation(1) n
    by (cases "find (\<lambda>v. vr_number v = n) (versions_of i (version_rows s))") (auto simp: find_None_iff)
  moreover from w have "w \<in> set (versions_of i (version_rows s)) \<and> vr_number w = n"
    by (auto simp: find_Some_iff)
  ultimately show ?thesis by simp
qed

lemma last_version:
  assumes inv: "art_inv s" and i: "has_key (artifact_rows s) i"
  shows "versions_of i (version_rows s) \<noteq> []"
    and "vr_number (last (versions_of i (version_rows s))) = current_version i (version_rows s)"
proof -
  define vs where "vs = versions_of i (version_rows s)"
  define c where "c = current_version i (version_rows s)"
  have ri: "rows_inv s" using inv by (simp add: art_inv_def)
  note cur = current_version_inv [OF inv i, folded c_def]
  obtain v where v: "map_of (version_rows s) (i, c) = Some v" using cur(1) cur(2) [of c] by (auto simp: has_key_def)
  have "vr_number v = c" using ri v unfolding rows_inv_def by (metis prod.inject)
  then have "v \<in> set vs" using versions_of_rows(1) [OF ri] v by (simp add: vs_def)
  then show "versions_of i (version_rows s) \<noteq> []" by (auto simp: vs_def)
  then have ne: "vs \<noteq> []" by (simp add: vs_def)
  have "vr_number v \<le> vr_number (last vs)"
  proof -
    have vs: "vs = butlast vs @ [last vs]" using ne by simp
    have "sorted (map vr_number (butlast vs) @ [vr_number (last vs)])"
      using versions_of_rows(2) [OF ri, of i] vs unfolding vs_def [symmetric] by (metis list.simps(8,9) map_append)
    then have "\<forall>x \<in> set (butlast vs). vr_number x \<le> vr_number (last vs)" by (simp add: sorted_append)
    moreover have "v \<in> set (butlast vs) \<or> v = last vs" using \<open>v \<in> set vs\<close> arg_cong [OF vs, of set] by auto
    ultimately show ?thesis by auto
  qed
  moreover have "vr_number (last vs) \<le> c"
  proof -
    have "map_of (version_rows s) (i, vr_number (last vs)) = Some (last vs)"
      using versions_of_rows(1) [OF ri] last_in_set [OF ne] by (simp add: vs_def)
    then show ?thesis using cur(2) [of "vr_number (last vs)"] by (simp add: has_key_def)
  qed
  ultimately show "vr_number (last (versions_of i (version_rows s))) = current_version i (version_rows s)"
    using \<open>vr_number v = c\<close> by (simp add: vs_def c_def)
qed

text \<open>What the service answers about a version, and with what content, when nothing fails.\<close>

lemma served:
  assumes inv: "art_inv s" and v: "map_of (version_rows s) (i, n) = Some v" "n \<ge> 1" and x: "map_of (placed s) (i, n) = Some x"
    and ok: "\<forall>m. \<not> fault s m"
  shows "fst (OpenSource i n s) = Inr (sn_source x)"
    and "\<exists>d. fst (Document i n s) = Inr d \<and> dc_version d = v \<and> dc_build d = Some (sn_build x)
           \<and> af_current (dc_artifact d) = current_version i (version_rows s)"
proof -
  have ri: "rows_inv s" using inv by (simp add: art_inv_def)
  have "has_key (artifact_rows s) i" using ri v(1) unfolding rows_inv_def by (metis fst_conv)
  then obtain r where r: "map_of (artifact_rows s) i = Some r" by (auto simp: has_key_def)
  note last = last_version [OF inv \<open>has_key (artifact_rows s) i\<close>]
  show "fst (OpenSource i n s) = Inr (sn_source x)"
    using ok v(1) x by (simp add: OpenSource_def Artifact_Version_def Artifacts_Version_def io_step_def)
  show "\<exists>d. fst (Document i n s) = Inr d \<and> dc_version d = v \<and> dc_build d = Some (sn_build x)
           \<and> af_current (dc_artifact d) = current_version i (version_rows s)"
    using ok r last v(2) x find_version [OF ri v(1)]
    by (simp add: Document_def Artifact_Get_def Artifacts_Get_def Artifact_Versions_def Artifacts_Versions_def io_step_def Let_def)
qed

lemma added_current:
  assumes a: "added x w s s'" and inv: "art_inv s"
  shows "current_version (vr_artifact w) (version_rows s') = vr_number w" and "vr_number w \<ge> 1"
proof -
  define i where "i = vr_artifact w"
  have inv': "art_inv s'" by (rule art_inv_added [OF a inv])
  have keys: "has_key (version_rows s') (i, n) \<longleftrightarrow> n = vr_number w \<or> has_key (version_rows s) (i, n)" for n
    using a by (auto simp: added_def i_def)
  have i': "has_key (artifact_rows s') i" using a by (auto simp: added_def i_def)
  note cur' = current_version_inv [OF inv' i']
  have below: "1 \<le> n \<and> n < vr_number w" if "has_key (version_rows s) (i, n)" for n
  proof -
    have i: "has_key (artifact_rows s) i"
      using inv that unfolding art_inv_def rows_inv_def has_key_def [of "version_rows s"] by (metis fst_conv not_None_eq)
    then have "vr_number w = current_version i (version_rows s) + 1" using a by (simp add: added_def i_def)
    then show ?thesis using current_version_inv(2) [OF inv i, of n] that by simp
  qed
  show "vr_number w \<ge> 1" using cur'(2) [of "vr_number w"] keys by simp
  have "has_key (version_rows s') (i, current_version i (version_rows s'))" using cur' by simp
  then have "current_version i (version_rows s') \<le> vr_number w" using keys below by (metis less_imp_le order_refl)
  moreover have "vr_number w \<le> current_version i (version_rows s')" using cur'(2) [of "vr_number w"] keys by simp
  ultimately show "current_version (vr_artifact w) (version_rows s') = vr_number w" by (simp add: i_def)
qed

text \<open>
  C12. What is published is what is served: after a publication of an upload the artifact is at the new version, whose
  document is the tree its build extracts to and whose source is the archive that was sent, byte for byte.
\<close>

theorem published_is_served:
  assumes "no_artifacts s0" and "artifact_step\<^sup>*\<^sup>* s0 s"
    and "Publish_artifact i p (Some b) (Some src) s = (Inr ((r, v), False), s')" and "\<forall>n. \<not> fault s' n"
  shows "\<exists>tree d. extractBuild b (artifact_limits s) = Inr tree
    \<and> fst (OpenSource (vr_artifact v) (vr_number v) s') = Inr src
    \<and> fst (Document (vr_artifact v) (vr_number v) s') = Inr d \<and> dc_version d = v \<and> dc_build d = Some tree \<and> Latest d"
proof -
  have inv: "art_inv s" using documents.reach_inv assms(1,2) by blast
  define q where "q = p\<lparr>pp_title := TrimSpace (pp_title p)\<rparr>"
  obtain y s1 where pb: "publish_begin i q (Some b) (Some src) s = (y, s1)" by (cases "publish_begin i q (Some b) (Some src) s")
  obtain staged where y: "y = Inr (Inr staged)"
    using assms(3) pb by (auto simp: Publish_artifact_def q_def [symmetric] split: sum.splits)
  note bg = publish_begin_staged [OF pb [unfolded y]]
  then obtain d tree where d: "staged = Some d" "extractBuild b (artifact_limits s) = Inr tree"
      "map_of (stagings s1) d = Some \<lparr>sn_build = tree, sn_source = src\<rparr>" by blast
  have inv1: "art_inv s1" using art_inv_keeps bg inv by blast
  obtain res s2 where pl: "publish_locked i q staged s1 = (res, s2)" by (cases "publish_locked i q staged s1")
  have eq: "res = Inr ((r, v), False)" "s' = remove_staging staged s2"
    using assms(3) pb y pl by (simp_all add: Publish_artifact_def q_def [symmetric])
  have "content_of i q staged s1 = Some \<lparr>sn_build = tree, sn_source = src\<rparr>"
    using bg d by (auto simp: content_of_def)
  then obtain x where x: "x = \<lparr>sn_build = tree, sn_source = src\<rparr>" and a: "added x v s1 s2"
    using publish_locked_run [OF inv1 pl] eq(1) by auto
  have a': "added x v s1 s'" using added_before [OF a keeps_remove_staging] by (simp add: eq(2))
  have inv': "art_inv s'" by (rule art_inv_added [OF a' inv1])
  have row: "map_of (version_rows s') (vr_artifact v, vr_number v) = Some v" using a' by (simp add: added_def)
  have content: "map_of (placed s') (vr_artifact v, vr_number v) = Some x" using a' unfolding added_def by blast
  have cur: "current_version (vr_artifact v) (version_rows s') = vr_number v" and one: "vr_number v \<ge> 1"
    using added_current [OF a' inv1] by simp_all
  show ?thesis
    using served [OF inv' row one content assms(4)] d(2) x cur by (auto simp: Latest_def)
qed

subsection \<open>Content in the way\<close>

lemma replay_fresh:
  assumes inv: "art_inv s" and new: "\<not> has_key (publication_rows s) pub" and run: "replay i pub s = (a, s')"
  shows "still s s'" and "a = Inl ErrIO \<or> a = Inr None"
proof -
  show "still s s'" using still_replay [of s i pub] run by simp
  have "vr_publication v \<noteq> pub" if "(k, v) \<in> set (version_rows s)" for k v
  proof -
    have "map_of (version_rows s) k = Some v" using inv that by (simp add: art_inv_def rows_inv_def)
    then have "has_key (publication_rows s) (vr_publication v)"
      using inv by (auto simp: art_inv_def rows_inv_def has_key_def)
    then show ?thesis using new by auto
  qed
  then have "find (\<lambda>v. vr_publication v = pub) (map snd (version_rows s)) = None" by (force simp: find_None_iff)
  then show "a = Inl ErrIO \<or> a = Inr None"
    using run new by (auto simp: replay_def Publication_def io_step_def Let_def split: if_splits)
qed

text \<open>
  C36. A collision of ids is an error: when the id rolled for a new artifact is one that exists, the content of that
  artifact's first version is in the way of the placement, so the publication fails and nothing is written, where the code
  means to take the content back and roll another id.
\<close>

theorem id_collision_is_an_error:
  assumes "no_artifacts s0" and "artifact_step\<^sup>*\<^sup>* s0 s" and "\<not> has_key (publication_rows s) (pp_publication p)"
    and "id_tape s = sfx # rest" and "has_key (artifact_rows s) (artifact_prefix @ sfx)"
  shows "fst (publish_locked '''' p (Some d) s) = Inl ErrIO
    \<and> artifact_rows (snd (publish_locked '''' p (Some d) s)) = artifact_rows s
    \<and> version_rows (snd (publish_locked '''' p (Some d) s)) = version_rows s
    \<and> placed (snd (publish_locked '''' p (Some d) s)) = placed s"
proof -
  have inv: "art_inv s" using documents.reach_inv assms(1,2) by blast
  obtain a s1 where rp: "replay '''' (pp_publication p) s = (a, s1)" by (cases "replay '''' (pp_publication p) s")
  note fresh = replay_fresh [OF inv assms(3) rp]
  obtain at s2 where n: "now s1 = (at, s2)" by (cases "now s1")
  have s2: "still s s2" using still_trans [OF fresh(1) still_world(1) [of s1]] by (simp add: n)
  have tape: "id_tape s2 = sfx # rest"
    using n rp assms(4) by (auto simp: now_def replay_def Publication_def read_publication_def Artifacts_Get_def
        Artifacts_Version_def io_step_def Let_def split: if_splits option.splits sum.splits)
  define i where "i = artifact_prefix @ sfx"
  define s3 where "s3 = s2\<lparr>id_tape := rest\<rparr>"
  have s3: "still s s3" using still_trans [OF s2 still_world(5)] by (simp add: s3_def)
  have inv3: "art_inv s3" using art_inv_keeps [OF still_keeps [OF s3] inv] .
  have "has_key (artifact_rows s3) i" using assms(5) s3 by (simp add: i_def still_def rows_same_def)
  then have "has_key (version_rows s3) (i, 1)" using current_version_inv [OF inv3, of i] by simp
  then have there: "has_key (placed s3) (i, 1)" using inv3 by (simp add: art_inv_def complete_def)
  obtain e s4 where cc: "commit_content d i 1 s3 = (e, s4)" by (cases "commit_content d i 1 s3")
  have "complete s3" using inv3 by (simp add: art_inv_def)
  from commit_content_run(3) [OF cc this there] have e: "e = Some ErrIO" and s4: "still s s4" using still_trans [OF s3] by auto
  have loop: "create_loop (id_tape s2) v d at s2 = (Inl ErrIO, s4)" for v
    unfolding tape create_loop.simps Let_def i_def [symmetric] s3_def [symmetric] cc e by simp
  have "publish_locked '''' p (Some d) s = (Inl ErrIO, if a = Inr None then s4 else s1)"
    using fresh(2) by (auto simp: publish_locked_def rp n loop)
  then show ?thesis using s4 fresh(1) by (simp add: still_def rows_same_def)
qed

subsection \<open>A concrete run\<close>

definition art0 :: artifact_svc where
  "art0 =
     \<lparr>clock = (\<lambda>n. 100 + int n), ticks = 0, fault = (\<lambda>n. False), io_ops = 0, id_tape = [''aaaaa'', ''aaaaa'', ''bbbbb''],
      long_suffix = (\<lambda>n. replicate (Suc n) (CHR ''z'')), longs = 0, events_log = [], thread_rows = [], identity_rows = [],
      terminal_rows = [], space_rows = [], project_rows = [], artifact_rows = [], version_rows = [], publication_rows = [],
      stagings = [], placed = [], artifact_limits = DefaultLimits\<rparr>"

definition sample_publication :: "string \<Rightarrow> publish_params" where
  "sample_publication pub = \<lparr>pp_title = ''Notes'', pp_base = 0, pp_publication = pub, pp_restore = 0, pp_platform = '''',
     pp_provenance = \<lparr>pv_thread = '''', pv_revision = '''', pv_links = []\<rparr>\<rparr>"

definition art1 :: artifact_svc where "art1 = snd (stage sample_archive sample_archive art0)"
definition publish_sample :: "artifact_svc \<Rightarrow> artifact_svc" where
  "publish_sample s = snd (publish_locked '''' (sample_publication ''pub-1'') (Some ''stage-z'') s)"
definition art2 :: artifact_svc where "art2 = publish_sample art1"

lemma art0_empty: "no_artifacts art0"
  by (simp add: no_artifacts_def art0_def)

lemma art2_reached: "artifact_step\<^sup>*\<^sup>* art0 art2"
proof -
  have "artifact_step art0 art1" unfolding art1_def by (rule stages)
  moreover have "artifact_step art1 art2" unfolding art2_def publish_sample_def by (rule publishes)
  ultimately show ?thesis by simp
qed

text \<open>What the run has come to, evaluated once.\<close>

definition art_facts :: "artifact_svc \<Rightarrow> bool" where
  "art_facts s \<longleftrightarrow> has_key (artifact_rows s) ''artf-aaaaa'' \<and> has_key (version_rows s) (''artf-aaaaa'', 1)
     \<and> has_key (placed s) (''artf-aaaaa'', 1) \<and> map_of (publication_rows s) ''pub-1'' = Some (''artf-aaaaa'', 1)
     \<and> \<not> has_key (publication_rows s) ''pub-2'' \<and> id_tape s = [''aaaaa'', ''bbbbb''] \<and> fst (reconcile_content s) = None"

lemma art2_facts: "art_facts art2"
  by code_simp

theorem history_is_dense_witness:
  "1 \<le> current_version ''artf-aaaaa'' (version_rows art2)"
proof -
  obtain r where "map_of (artifact_rows art2) ''artf-aaaaa'' = Some r" using art2_facts by (auto simp: art_facts_def has_key_def)
  from history_is_dense [OF art0_empty art2_reached this] show ?thesis by blast
qed

theorem versions_never_change_witness:
  "has_key (placed (snd (reconcile_content art2))) (''artf-aaaaa'', 1)"
proof -
  obtain v x where "map_of (version_rows art2) (''artf-aaaaa'', 1) = Some v" "map_of (placed art2) (''artf-aaaaa'', 1) = Some x"
    using art2_facts by (auto simp: art_facts_def has_key_def)
  from versions_never_change [OF art0_empty art2_reached restarts this] show ?thesis
    using art2_facts reconcile_run [of art2] by (auto simp: art_facts_def keeps_def rows_same_def has_key_def)
qed

theorem restart_leaves_the_visible_witness:
  "stagings (snd (reconcile_content art2)) = [] \<and> has_key (placed (snd (reconcile_content art2))) (''artf-aaaaa'', 1)"
proof -
  have "reconcile_content art2 = (None, snd (reconcile_content art2))"
    using art2_facts by (simp add: art_facts_def prod_eq_iff)
  from restart_leaves_the_visible [OF art0_empty art2_reached this] show ?thesis using art2_facts by (simp add: art_facts_def)
qed

theorem publication_commits_once_witness:
  "placed (snd (Publish_artifact '''' (sample_publication ''pub-1'') (Some sample_archive) (Some sample_archive) art2)) = placed art2"
proof -
  have "map_of (publication_rows art2) (pp_publication (sample_publication ''pub-1'')) = Some (''artf-aaaaa'', 1)"
    using art2_facts by (simp add: art_facts_def sample_publication_def)
  from publication_commits_once [OF art0_empty art2_reached this surjective_pairing] show ?thesis by blast
qed

theorem id_collision_is_an_error_witness:
  "fst (publish_locked '''' (sample_publication ''pub-2'') (Some ''stage-zz'') art2) = Inl ErrIO"
proof -
  have "\<not> has_key (publication_rows art2) (pp_publication (sample_publication ''pub-2''))"
      "id_tape art2 = ''aaaaa'' # [''bbbbb'']" "has_key (artifact_rows art2) (artifact_prefix @ ''aaaaa'')"
    using art2_facts by (simp_all add: art_facts_def sample_publication_def artifact_prefix_def)
  from id_collision_is_an_error [OF art0_empty art2_reached this] show ?thesis by blast
qed

text \<open>The same publication in one piece.\<close>

definition publish_whole :: "(err + (artifact_record \<times> version_record) \<times> bool) \<times> artifact_svc" where
  "publish_whole = Publish_artifact '''' (sample_publication ''pub-1'') (Some sample_archive) (Some sample_archive) art0"

definition whole_facts :: "(err + (artifact_record \<times> version_record) \<times> bool) \<times> artifact_svc \<Rightarrow> bool" where
  "whole_facts p \<longleftrightarrow> (case fst p of Inr ((r, v), False) \<Rightarrow> vr_artifact v = ''artf-aaaaa'' \<and> vr_number v = 1 | _ \<Rightarrow> False)"

lemma publish_whole_facts: "whole_facts publish_whole"
  by code_simp

lemma publish_whole_faultless: "\<not> fault (snd publish_whole) n"
  by code_simp

theorem published_is_served_witness:
  "\<exists>tree. extractBuild sample_archive DefaultLimits = Inr tree
     \<and> fst (OpenSource ''artf-aaaaa'' 1 (snd publish_whole)) = Inr sample_archive"
proof -
  obtain r v where rv: "fst publish_whole = Inr ((r, v), False)" "vr_artifact v = ''artf-aaaaa''" "vr_number v = 1"
    using publish_whole_facts by (auto simp: whole_facts_def split: sum.splits prod.splits bool.splits)
  then have "Publish_artifact '''' (sample_publication ''pub-1'') (Some sample_archive) (Some sample_archive) art0
      = (Inr ((r, v), False), snd publish_whole)"
    unfolding publish_whole_def by (metis prod.collapse)
  moreover have "artifact_limits art0 = DefaultLimits" by (simp add: art0_def)
  ultimately show ?thesis
    using published_is_served [OF art0_empty rtranclp.rtrancl_refl, of "''''"] publish_whole_faultless rv(2,3) by fastforce
qed

end
