(* ===== verification/T3Shell.thy ===== *)
theory T3Shell
  imports Turns "HOL-Library.Word"
begin

text \<open>
  \<^verbatim>\<open>internal/integrations/t3code/shell.go\<close>: what ATC reads of T3's shell projection. The JSON decoder is the standard
  library's: an item of the stream is the record its fields decode to, with \<^const>\<open>None\<close> for an absent pointer, or
  nothing when it does not decode. Validation, and what a thread's fields say of its status and its latest turn, are the
  program's.
\<close>

subsection \<open>Errors\<close>

text \<open>
  The error types of the package: \<^verbatim>\<open>authError\<close>, \<^verbatim>\<open>schemaError\<close>, \<^verbatim>\<open>protocolError\<close>, \<^verbatim>\<open>httpError\<close> with its status, \<^verbatim>\<open>rpcFailure\<close>
  with its tag, message and whether the thread was rolled back, or any other, with its text. \<^verbatim>\<open>errors.As\<close> finds the first
  of them in a chain; a wrapping keeps the constructor.
\<close>

record rpc_failure =
  rf_tag :: string
  rf_message :: string
  rf_rolled_back :: bool

datatype t3_error =
    AuthError string
  | SchemaError string
  | ProtocolError string
  | HttpError nat string
  | RpcFailure rpc_failure
  | OtherError string

subsection \<open>The projection\<close>

record project_shell =
  ps_id :: string
  ps_root :: string

record turn_shell =
  tn_id :: string
  tn_state :: string
  tn_requested :: time
  tn_started :: "time option"
  tn_completed :: "time option"
  tn_message :: "string option"

record session_shell =
  ss_status :: string
  ss_provider :: "string option"
  ss_error :: "string option"

text \<open>\<open>th_worktree\<close> is the nullable string: left out, null, or a value; \<open>th_model\<close> the model of the selection, when there is one.\<close>

record thread_shell =
  th_id :: string
  th_project :: string
  th_title :: string
  th_model :: "string option"
  th_worktree :: "string patch"
  th_session :: "session_shell option"
  th_approvals :: "bool option"
  th_input :: "bool option"
  th_liveness :: "string option"
  th_turn :: "turn_shell option"
  th_settled :: "string option"

record shell_snapshot =
  sn_sequence :: "64 word option"
  sn_projects :: "project_shell list option"
  sn_threads :: "thread_shell list option"

record shell_event =
  se_kind :: string
  se_sequence :: "64 word option"
  se_snapshot :: "shell_snapshot option"
  se_project :: "project_shell option"
  se_project_id :: string
  se_thread :: "thread_shell option"
  se_thread_id :: string

text \<open>\<^verbatim>\<open>settled\<close>: T3's own settlement, never inferred.\<close>

definition settled_shell :: "thread_shell \<Rightarrow> bool" where
  "settled_shell t \<longleftrightarrow> th_settled t = Some ''settled''"

definition worktree :: "thread_shell \<Rightarrow> string" where
  "worktree t = (case th_worktree t of Put w \<Rightarrow> w | _ \<Rightarrow> '''')"

subsection \<open>Validation\<close>

definition validateProject :: "project_shell \<Rightarrow> t3_error option" where
  "validateProject p =
     (if ps_id p = '''' \<or> ps_root p = '''' then Some (SchemaError ''project omitted id or workspaceRoot'') else None)"

definition validateThread :: "thread_shell \<Rightarrow> t3_error option" where
  "validateThread t =
     (if th_id t = '''' \<or> th_project t = '''' \<or> th_title t = ''''
      then Some (SchemaError ''thread omitted id, projectId, or title'')
      else if th_model t = None \<or> th_model t = Some '''' then Some (SchemaError ''thread omitted modelSelection.model'')
      else if th_worktree t = Unset then Some (SchemaError ''thread omitted worktreePath'')
      else if th_approvals t = None \<or> th_input t = None then Some (SchemaError ''thread omitted its pending-action flags'')
      else if (case th_session t of None \<Rightarrow> False | Some x \<Rightarrow> ss_status x = '''')
      then Some (SchemaError ''thread session omitted status'')
      else if (case th_turn t of None \<Rightarrow> False | Some n \<Rightarrow> tn_id n = '''' \<or> tn_state n = '''' \<or> is_zero (tn_requested n))
      then Some (SchemaError ''thread latestTurn omitted turnId, state, or requestedAt'')
      else None)"

text \<open>The first refusal of a loop over a list.\<close>

fun first_error :: "('b \<Rightarrow> t3_error option) \<Rightarrow> 'b list \<Rightarrow> t3_error option" where
  "first_error f [] = None"
| "first_error f (x # xs) = (case f x of Some e \<Rightarrow> Some e | None \<Rightarrow> first_error f xs)"

definition validateSnapshot :: "shell_snapshot \<Rightarrow> t3_error option" where
  "validateSnapshot n =
     (case (sn_sequence n, sn_projects n, sn_threads n) of
        (Some q, Some ps, Some ts) \<Rightarrow>
          (case first_error validateProject ps of Some e \<Rightarrow> Some e | None \<Rightarrow> first_error validateThread ts)
      | _ \<Rightarrow> Some (SchemaError ''snapshot omitted snapshotSequence, projects, or threads''))"

definition change_kinds :: "string list" where
  "change_kinds = [''project-upserted'', ''project-removed'', ''thread-upserted'', ''thread-removed'']"

definition refusal :: "t3_error option \<Rightarrow> 'b \<Rightarrow> t3_error + 'b" where
  "refusal e x = (case e of Some e \<Rightarrow> Inl e | None \<Rightarrow> Inr x)"

definition decodeEvent :: "shell_event option \<Rightarrow> t3_error + shell_event" where
  "decodeEvent item =
     (case item of
        None \<Rightarrow> Inl (SchemaError ''stream item'')
      | Some e \<Rightarrow>
          if se_kind e = '''' then Inl (SchemaError ''stream item omitted kind'')
          else if se_kind e = ''snapshot''
          then (case se_snapshot e of
                  None \<Rightarrow> Inl (SchemaError ''snapshot item omitted snapshot'')
                | Some n \<Rightarrow> refusal (validateSnapshot n) e)
          else if se_kind e = ''synchronized'' then Inr e
          else if se_kind e \<notin> set change_kinds then Inl (SchemaError ''unknown stream item'')
          else if se_sequence e = None then Inl (SchemaError (se_kind e @ '' omitted sequence''))
          else if se_kind e = ''project-upserted''
          then (case se_project e of
                  None \<Rightarrow> Inl (SchemaError ''project-upserted omitted project'')
                | Some p \<Rightarrow> refusal (validateProject p) e)
          else if se_kind e = ''project-removed''
          then (if se_project_id e = '''' then Inl (SchemaError ''project-removed omitted projectId'') else Inr e)
          else if se_kind e = ''thread-upserted''
          then (case se_thread e of
                  None \<Rightarrow> Inl (SchemaError ''thread-upserted omitted thread'')
                | Some t \<Rightarrow> refusal (validateThread t) e)
          else (if se_thread_id e = '''' then Inl (SchemaError ''thread-removed omitted threadId'') else Inr e))"

subsection \<open>Status and latest turn\<close>

text \<open>\<^verbatim>\<open>turnObservation\<close>: the requested time stands in for a start T3 does not know; an unrecognized state is unknown.\<close>

definition turnObservation :: "turn_shell option \<Rightarrow> string \<Rightarrow> turn_observation option" where
  "turnObservation n sessionError =
     (case n of
        None \<Rightarrow> None
      | Some n \<Rightarrow>
          Some \<lparr>to_provider_id = tn_id n,
                to_state = (if tn_state n = ''running'' then TurnRunning
                            else if tn_state n = ''completed'' then TurnCompleted
                            else if tn_state n = ''interrupted'' then TurnInterrupted
                            else if tn_state n = ''error'' then TurnFailed
                            else TurnUnknown),
                to_started_at = (case tn_started n of Some t \<Rightarrow> t | None \<Rightarrow> tn_requested n),
                to_completed_at = (case tn_completed n of Some t \<Rightarrow> t | None \<Rightarrow> 0),
                to_error = (if tn_state n = ''error'' then sessionError else ''''),
                to_response = ''''\<rparr>)"

definition session_evidence :: "session_shell option \<Rightarrow> thread_status" where
  "session_evidence x =
     (case x of
        None \<Rightarrow> ThreadIdle
      | Some x \<Rightarrow>
          if ss_status x \<in> {''starting'', ''running''} then ThreadWorking
          else if ss_status x = ''error'' then ThreadError
          else if ss_status x \<in> {''idle'', ''ready'', ''interrupted'', ''stopped''} then ThreadIdle
          else ThreadUnknown)"

definition liveness_evidence :: "string option \<Rightarrow> thread_status list" where
  "liveness_evidence l =
     (case l of
        None \<Rightarrow> []
      | Some l \<Rightarrow> if l \<in> {''working'', ''monitoring''} then [ThreadWorking] else if l = '''' then [] else [ThreadUnknown])"

definition status_facets :: "thread_shell \<Rightarrow> thread_status list" where
  "status_facets t =
     (if th_approvals t = Some True then [ThreadWaitingForPermission] else [])
     @ (if th_input t = Some True then [ThreadWaitingForInput] else [])
     @ [session_evidence (th_session t)] @ liveness_evidence (th_liveness t)"

definition projectStatus :: "thread_shell \<Rightarrow> thread_status" where
  "projectStatus t = Rank (status_facets t)"

end
