(* ===== verification/T3Rpc.thy ===== *)
theory T3Rpc
  imports T3Shell GoStrings
begin

text \<open>
  \<^verbatim>\<open>internal/integrations/t3code/rpc.go\<close>: the requests in flight over one socket. A request is an object of the heap
  \<open>rp_heap\<close>, reached by its id while it is registered in \<open>rp_calls\<close> and by its address from the goroutine that waits for it; its
  two channels are the chunks it buffers and the exit it receives. The socket, the JSON decoder and the frames' bytes are
  not modelled: a step is told what was read, and whether a write failed.
\<close>

subsection \<open>Failures\<close>

text \<open>One entry of a cause: a typed error (or one that does not decode), a defect, or another tag.\<close>

datatype cause_entry =
    FailEntry "(string \<times> string \<times> string) option"
  | DieEntry "string option" string
  | OtherEntry

text \<open>\<^verbatim>\<open>excerpt\<close>: 200 bytes, then an ellipsis.\<close>

definition excerpt :: "string \<Rightarrow> string" where
  "excerpt d = (let text = TrimSpace d in if length text > 200 then take 200 text @ ellipsis else text)"

text \<open>\<^verbatim>\<open>failureFrom\<close>: the first typed error or defect decides; a cause that is neither a list nor an entry says nothing.\<close>

fun cause_failure :: "cause_entry list \<Rightarrow> rpc_failure" where
  "cause_failure [] = \<lparr>rf_tag = '''', rf_message = '''', rf_rolled_back = False\<rparr>"
| "cause_failure (FailEntry typed # es) =
     (case typed of
        None \<Rightarrow> \<lparr>rf_tag = '''', rf_message = '''', rf_rolled_back = False\<rparr>
      | Some (tag, message, disposition) \<Rightarrow>
          \<lparr>rf_tag = tag, rf_message = message, rf_rolled_back = (disposition = ''deleted'')\<rparr>)"
| "cause_failure (DieEntry decoded raw # es) =
     \<lparr>rf_tag = '''', rf_message = ''defect: '' @ (case decoded of Some m \<Rightarrow> m | None \<Rightarrow> excerpt raw), rf_rolled_back = False\<rparr>"
| "cause_failure (OtherEntry # es) = cause_failure es"

definition failureFrom :: "cause_entry list option \<Rightarrow> rpc_failure" where
  "failureFrom cause = cause_failure (case cause of None \<Rightarrow> [] | Some es \<Rightarrow> es)"

text \<open>\<^verbatim>\<open>rpcFailure.Error\<close>, the raw cause being the fallback.\<close>

definition failure_text :: "rpc_failure \<Rightarrow> string \<Rightarrow> string" where
  "failure_text f cause =
     (if rf_message f \<noteq> '''' \<and> rf_tag f \<noteq> '''' then rf_tag f @ '': '' @ rf_message f
      else if rf_message f \<noteq> '''' then rf_message f else ''failure: '' @ excerpt cause)"

subsection \<open>Requests in flight\<close>

record rpc_call =
  rc_streams :: bool
  rc_chunks :: "shell_event option list list"
  rc_exit :: "t3_error option option"

record rpc_client =
  rp_next :: "64 word"
  rp_calls :: "(string \<times> nat) list"
  rp_heap :: "rpc_call list"
  rp_err :: "t3_error option"
  rp_closing :: bool

definition dialRPC :: rpc_client where
  "dialRPC = \<lparr>rp_next = 0, rp_calls = [], rp_heap = [], rp_err = None, rp_closing = False\<rparr>"

text \<open>\<^verbatim>\<open>strconv.FormatUint\<close>.\<close>

definition request_id :: "64 word \<Rightarrow> string" where
  "request_id n = decimal (unat n)"

definition abandon :: "string \<Rightarrow> rpc_client \<Rightarrow> rpc_client" where
  "abandon i c = c\<lparr>rp_calls := AList.delete i (rp_calls c)\<rparr>"

text \<open>\<^verbatim>\<open>request\<close>: registered under a fresh id, then written; a failed write forgets it.\<close>

definition request_rpc :: "bool \<Rightarrow> t3_error option \<Rightarrow> rpc_client \<Rightarrow> (t3_error + nat \<times> string) \<times> rpc_client" where
  "request_rpc streaming write_error c =
     (case rp_err c of
        Some e \<Rightarrow> (Inl e, c)
      | None \<Rightarrow>
          (let n = rp_next c + 1; i = request_id n; a = length (rp_heap c);
               c = c\<lparr>rp_next := n, rp_calls := AList.update i a (rp_calls c),
                     rp_heap := rp_heap c @ [\<lparr>rc_streams = streaming, rc_chunks = [], rc_exit = None\<rparr>]\<rparr>
           in case write_error of Some e \<Rightarrow> (Inl e, abandon i c) | None \<Rightarrow> (Inr (a, i), c)))"

text \<open>
  An envelope as decoded: its tag, the request id it echoes (\<^const>\<open>None\<close> when it has none that reads), the items of a chunk
  (\<^const>\<open>None\<close> when they do not decode), and its exit: absent, or its tag and cause.
\<close>

record rpc_envelope =
  en_tag :: string
  en_request :: "string option"
  en_values :: "shell_event option list option"
  en_exit :: "(string \<times> cause_entry list option) option"

text \<open>\<^verbatim>\<open>exitOf\<close>: what the waiter gets, and what ends the connection.\<close>

definition exitOf :: "rpc_envelope \<Rightarrow> t3_error option \<times> t3_error option" where
  "exitOf en =
     (case en_exit en of
        None \<Rightarrow> (let e = ProtocolError ''exit omitted its exit'' in (Some e, Some e))
      | Some (tag, cause) \<Rightarrow>
          if tag = ''Success'' then (None, None)
          else if tag = ''Failure'' then (Some (RpcFailure (failureFrom cause)), None)
          else (let e = ProtocolError ''unknown exit'' in (Some e, Some e)))"

definition send_exit :: "nat \<Rightarrow> t3_error option \<Rightarrow> rpc_client \<Rightarrow> rpc_client" where
  "send_exit a x c = c\<lparr>rp_heap := (rp_heap c)[a := (rp_heap c ! a)\<lparr>rc_exit := Some x\<rparr>]\<rparr>"

text \<open>
  \<^verbatim>\<open>route\<close>: the error ends the read loop. A chunk for a full buffer waits for its reader, or for the close: the step is
  \<^const>\<open>None\<close> while it waits. The flag says which way \<^verbatim>\<open>select\<close> goes when the client is closing and the buffer has room.
\<close>

definition route_rpc :: "bool \<Rightarrow> rpc_envelope \<Rightarrow> rpc_client \<Rightarrow> (t3_error option \<times> rpc_client) option" where
  "route_rpc prefers_close en c =
     (if en_tag en = ''Pong'' then Some (None, c)
      else if en_tag en = ''Defect'' then Some (Some (ProtocolError ''defect''), c)
      else if en_tag en \<noteq> ''Chunk'' \<and> en_tag en \<noteq> ''Exit'' then Some (Some (ProtocolError ''unknown envelope''), c)
      else case en_request en of
             None \<Rightarrow> Some (Some (ProtocolError ''envelope without a request id''), c)
           | Some i \<Rightarrow>
               (let target = map_of (rp_calls c) i; c = (if en_tag en = ''Exit'' then abandon i c else c)
                in case target of
                     None \<Rightarrow> Some (None, c)
                   | Some a \<Rightarrow>
                       if en_tag en = ''Chunk''
                       then (if \<not> rc_streams (rp_heap c ! a)
                             then Some (Some (ProtocolError ''chunk for a request that does not stream''), c)
                             else case en_values en of
                                    None \<Rightarrow> Some (Some (ProtocolError ''chunk''), c)
                                  | Some items \<Rightarrow>
                                      if length (rc_chunks (rp_heap c ! a)) < 4 \<and> \<not> (rp_closing c \<and> prefers_close)
                                      then Some (None, c\<lparr>rp_heap := (rp_heap c)[a := (rp_heap c ! a)
                                                           \<lparr>rc_chunks := rc_chunks (rp_heap c ! a) @ [items]\<rparr>]\<rparr>)
                                      else if rp_closing c then Some (Some (OtherError ''closed''), c) else None)
                       else (let (x, e) = exitOf en in Some (e, send_exit a x c))))"

text \<open>\<^verbatim>\<open>read\<close>, once its loop has ended: every request still waiting fails with the error.\<close>

definition read_end :: "t3_error \<Rightarrow> rpc_client \<Rightarrow> rpc_client" where
  "read_end e c = fold (\<lambda>(i, a). send_exit a (Some e)) (rp_calls c) (c\<lparr>rp_err := Some e, rp_calls := []\<rparr>)"

definition close_rpc :: "rpc_client \<Rightarrow> rpc_client" where
  "close_rpc c = c\<lparr>rp_closing := True\<rparr>"

text \<open>The waiter's receives: the next buffered chunk of its request, and its exit.\<close>

definition take_chunk :: "nat \<Rightarrow> rpc_client \<Rightarrow> (shell_event option list \<times> rpc_client) option" where
  "take_chunk a c =
     (case rc_chunks (rp_heap c ! a) of
        [] \<Rightarrow> None
      | items # rest \<Rightarrow> Some (items, c\<lparr>rp_heap := (rp_heap c)[a := (rp_heap c ! a)\<lparr>rc_chunks := rest\<rparr>]\<rparr>))"

end
