(* ===== verification/T3Code.thy ===== *)
theory T3Code
  imports T3Rpc Archives Application
begin

text \<open>
  \<^verbatim>\<open>internal/integrations/t3code\<close>: the mirror of a T3 Code environment. The state extends the threads' with the copy of
  T3's shell projection, the session file and the connection. What T3, its CLI and the machine answer is a record of
  functions of a counter, so each answer is arbitrary. \<^verbatim>\<open>Run\<close> is cut where it waits: an iteration up to the live
  subscription (\<open>run_begin\<close>), one item of the stream (\<open>handle_item\<close>), and the end of a connection (\<open>run_end\<close>); the
  recovery goroutines are a queue of tasks.
\<close>

subsection \<open>Sessions\<close>

record t3_session_record =
  t3s_origin :: string
  t3s_token :: string
  t3s_label :: string
  t3s_id :: string
  t3s_scope :: string

datatype session_file = NoSession | NotASession | SessionFile t3_session_record

definition sessionLabel :: string where "sessionLabel = ''atc''"
definition t3_scope :: string where "t3_scope = ''orchestration:read orchestration:operate''"

definition sameScopes :: "string \<Rightarrow> string \<Rightarrow> bool" where
  "sameScopes a b \<longleftrightarrow> sort (Fields a) = sort (Fields b)"

subsection \<open>State\<close>

definition t3_ID :: string where "t3_ID = ''t3code''"
definition t3_resource :: string where "t3_resource = ''integration''"
definition EventIntegrationUpdated :: string where "EventIntegrationUpdated = ''integration.updated''"

text \<open>Durations in nanoseconds.\<close>

definition t3_backoffMin :: int where "t3_backoffMin = 1000000000"
definition t3_backoffMax :: int where "t3_backoffMax = 30000000000"
definition t3_authRetry :: int where "t3_authRetry = 300000000000"
definition responseReads :: nat where "responseReads = 3"

datatype integration_state = Connected | Connecting | Unavailable | AuthFailed

record t3_runtime =
  rt_pid :: int
  rt_origin :: string

record shell_state =
  sl_initialized :: bool
  sl_sequence :: "64 word"
  sl_projects :: "(string \<times> project_shell) list"
  sl_threads :: "(string \<times> thread_shell) list"

definition empty_shell :: shell_state where
  "empty_shell = \<lparr>sl_initialized = False, sl_sequence = 0, sl_projects = [], sl_threads = []\<rparr>"

text \<open>A recovery that has been started: what its goroutine captured.\<close>

record recovery_task =
  rk_thread :: string
  rk_t3_thread :: string
  rk_turn :: string
  rk_origin :: string
  rk_token :: string

text \<open>What ATC has asked of T3's CLI, oldest first.\<close>

datatype cli_call = CreatePairing | ListSessions | RevokeSession string

text \<open>
  \<open>t3_live\<close> holds the two flags of a running subscription, \<^verbatim>\<open>replaying\<close> and \<^verbatim>\<open>established\<close>; \<open>t3_client\<close> numbers the live
  connection's client. \<open>t3_cli\<close> and \<open>t3_paired\<close>, the sessions pairing has returned, are histories that nothing reads.
\<close>

record t3_svc = thread_svc +
  t3_asks :: nat
  t3_cli :: "cli_call list"
  t3_paired :: "t3_session_record list"
  t3_file :: session_file
  t3_session :: "t3_session_record option"
  t3_recovery :: "(string \<times> string) list"
  t3_tasks :: "recovery_task list"
  t3_retry_at :: time
  t3_last :: "t3_runtime option"
  t3_shell :: shell_state
  t3_skipped :: "(string \<times> string) list"
  t3_settled :: "string list"
  t3_state :: integration_state
  t3_since :: time
  t3_detail :: string
  t3_origin :: string
  t3_environment :: string
  t3_client :: "nat option"
  t3_live :: "(bool \<times> bool) option"
  t3_started :: time
  t3_backoff :: int

subsection \<open>The outside\<close>

datatype runtime_file = NoRuntime | UnreadableRuntime | RuntimeFile t3_runtime

record detail_message =
  dm_id :: string
  dm_text :: string
  dm_streaming :: bool

record thread_detail =
  td_turn :: "turn_shell option"
  td_messages :: "detail_message list"

record turn_start =
  ts_command :: string
  ts_thread :: string
  ts_message :: string
  ts_prompt :: string
  ts_agent :: string
  ts_model :: string
  ts_options :: "(string \<times> string) list"
  ts_project :: string
  ts_title :: string
  ts_created :: time

text \<open>
  The answers: the runtime file and whether its process lives; the environment descriptor; whether the session file can be
  read; the pairing credential, the token and scope it is exchanged for, and the session list; a ticket; the dial; the
  unary call of a command; a thread's detail snapshot; and random UUIDs.
\<close>

record t3_env =
  te_runtime :: "nat \<Rightarrow> runtime_file"
  te_alive :: "nat \<Rightarrow> int \<Rightarrow> bool"
  te_descriptor :: "nat \<Rightarrow> string \<Rightarrow> t3_error + string"
  te_readable :: "nat \<Rightarrow> bool"
  te_grant :: "nat \<Rightarrow> t3_error + string"
  te_exchange :: "nat \<Rightarrow> string \<Rightarrow> string \<Rightarrow> t3_error + string \<times> string"
  te_sessions :: "nat \<Rightarrow> t3_error + (string \<times> string \<times> string) list"
  te_ticket :: "nat \<Rightarrow> string \<Rightarrow> string \<Rightarrow> t3_error + string"
  te_parses :: "string \<Rightarrow> bool"
  te_dial :: "nat \<Rightarrow> string \<Rightarrow> t3_error option"
  te_call :: "nat \<Rightarrow> nat \<Rightarrow> turn_start \<Rightarrow> t3_error option"
  te_thread :: "nat \<Rightarrow> string \<Rightarrow> string \<Rightarrow> string \<Rightarrow> t3_error + thread_detail"
  te_uuid :: "nat \<Rightarrow> string"

definition ask :: "(nat \<Rightarrow> 'b) \<Rightarrow> 'a t3_svc_scheme \<Rightarrow> 'b \<times> 'a t3_svc_scheme" where
  "ask f s = (f (t3_asks s), s\<lparr>t3_asks := Suc (t3_asks s)\<rparr>)"

definition ask_cli :: "cli_call \<Rightarrow> (nat \<Rightarrow> 'b) \<Rightarrow> 'a t3_svc_scheme \<Rightarrow> 'b \<times> 'a t3_svc_scheme" where
  "ask_cli c f s = ask f (s\<lparr>t3_cli := t3_cli s @ [c]\<rparr>)"

text \<open>\<^verbatim>\<open>Error\<close> of each type.\<close>

fun t3_text :: "t3_error \<Rightarrow> string" where
  "t3_text (AuthError m) = m"
| "t3_text (SchemaError m) = ''T3 Code shell schema: '' @ m"
| "t3_text (ProtocolError m) = ''T3 Code protocol: '' @ m"
| "t3_text (HttpError n body) = ''HTTP '' @ decimal n @ (if body = '''' then '''' else '': '' @ body)"
| "t3_text (RpcFailure f) = failure_text f ''''"
| "t3_text (OtherError m) = m"

text \<open>\<^verbatim>\<open>fmt.Errorf("context: %w", err)\<close>: the constructor stays what \<^verbatim>\<open>errors.As\<close> finds.\<close>

fun wrap_error :: "string \<Rightarrow> t3_error \<Rightarrow> t3_error" where
  "wrap_error ctx (AuthError m) = AuthError (ctx @ m)"
| "wrap_error ctx (OtherError m) = OtherError (ctx @ m)"
| "wrap_error ctx e = e"

subsection \<open>Discovery and links\<close>

text \<open>\<^verbatim>\<open>discover\<close>; the paths in its messages are left out.\<close>

definition discover :: "t3_env \<Rightarrow> 'a t3_svc_scheme \<Rightarrow> (string + t3_runtime) \<times> 'a t3_svc_scheme" where
  "discover env s =
     (let (file, s) = ask (te_runtime env) s
      in case file of
           NoRuntime \<Rightarrow> (Inl ''T3 Code is not running: no runtime state'', s)
         | UnreadableRuntime \<Rightarrow> (Inl ''T3 Code runtime state is not readable'', s)
         | RuntimeFile r \<Rightarrow>
             if rt_origin r = '''' \<or> rt_pid r \<le> 0 then (Inl ''T3 Code runtime state is not readable'', s)
             else (let (alive, s) = ask (te_alive env) s
                   in if alive (rt_pid r) then (Inr r, s) else (Inl ''T3 Code is not running: its process is gone'', s)))"

definition t3_links :: "string \<Rightarrow> string \<Rightarrow> string \<Rightarrow> (string \<times> string) option" where
  "t3_links origin environment thread =
     (if origin = '''' \<or> environment = '''' then None
      else Some (origin @ ''/'' @ environment @ ''/'' @ thread, ''t3code://threads/'' @ environment @ ''/'' @ thread))"

definition Links :: "string \<Rightarrow> 'a t3_svc_scheme \<Rightarrow> (string \<times> string) option" where
  "Links provider s = t3_links (t3_origin s) (t3_environment s) provider"

definition setState_t3 :: "integration_state \<Rightarrow> string \<Rightarrow> 'a t3_svc_scheme \<Rightarrow> 'a t3_svc_scheme" where
  "setState_t3 st detail s =
     (if t3_state s = st then s\<lparr>t3_detail := detail\<rparr>
      else let (at, s) = now s
           in Publish EventIntegrationUpdated t3_resource t3_ID (s\<lparr>t3_state := st, t3_since := at, t3_detail := detail\<rparr>))"

definition release_t3 :: "'a t3_svc_scheme \<Rightarrow> 'a t3_svc_scheme" where
  "release_t3 s = ReleaseIntegration t3_ID s"

subsection \<open>Pairing\<close>

definition loadSession :: "t3_env \<Rightarrow> 'a t3_svc_scheme \<Rightarrow> t3_session_record option \<times> 'a t3_svc_scheme" where
  "loadSession env s =
     (let (readable, s) = ask (te_readable env) s
      in (if \<not> readable then None
          else case t3_file s of
                 SessionFile x \<Rightarrow> if t3s_origin x = '''' \<or> t3s_token x = '''' then None else Some x
               | _ \<Rightarrow> None, s))"

text \<open>\<^verbatim>\<open>saveSession\<close>: an atomic replace, so it happens or it does not.\<close>

definition saveSession :: "t3_session_record \<Rightarrow> 'a t3_svc_scheme \<Rightarrow> bool \<times> 'a t3_svc_scheme" where
  "saveSession x s = (let (failed, s) = io_step s in if failed then (False, s) else (True, s\<lparr>t3_file := SessionFile x\<rparr>))"

text \<open>\<^verbatim>\<open>revoke\<close>: best effort, and nothing without an id.\<close>

definition revoke :: "t3_env \<Rightarrow> t3_session_record option \<Rightarrow> 'a t3_svc_scheme \<Rightarrow> 'a t3_svc_scheme" where
  "revoke env x s =
     (case x of
        None \<Rightarrow> s
      | Some x \<Rightarrow> if t3s_id x = '''' then s else snd (ask_cli (RevokeSession (t3s_id x)) (\<lambda>n. ()) s))"

text \<open>\<^verbatim>\<open>findSession\<close>: of the sessions under ATC's label the one issued last, a later entry winning a tie.\<close>

definition newest_session :: "(string \<times> string \<times> string) list \<Rightarrow> string" where
  "newest_session xs =
     fst (fold (\<lambda>(i, at, label) (found, issued). if label = sessionLabel \<and> issued \<le> at then (i, at) else (found, issued))
            xs ('''', ''''))"

definition findSession :: "t3_env \<Rightarrow> 'a t3_svc_scheme \<Rightarrow> string option \<times> 'a t3_svc_scheme" where
  "findSession env s =
     (let (answer, s) = ask_cli ListSessions (te_sessions env) s
      in (case answer of
            Inl e \<Rightarrow> None
          | Inr xs \<Rightarrow> if newest_session xs = '''' then None else Some (newest_session xs), s))"

definition pair :: "t3_env \<Rightarrow> string \<Rightarrow> 'a t3_svc_scheme \<Rightarrow> (t3_error + t3_session_record) \<times> 'a t3_svc_scheme" where
  "pair env origin s =
     (case ask_cli CreatePairing (te_grant env) s of
        (Inl e, s) \<Rightarrow> (Inl (AuthError (t3_text e)), s)
      | (Inr credential, s) \<Rightarrow>
          if credential = '''' then (Inl (AuthError ''t3 auth pairing create answered without a credential''), s)
          else (let (exchange, s) = ask (te_exchange env) s
                in case exchange origin credential of
                     Inl (HttpError n body) \<Rightarrow>
                       (if n < 500
                        then (Inl (AuthError (''T3 Code refused the pairing exchange: '' @ t3_text (HttpError n body))), s)
                        else (Inl (HttpError n body), s))
                   | Inl e \<Rightarrow> (Inl (wrap_error ''pairing exchange: '' e), s)
                   | Inr (tok, granted) \<Rightarrow>
                       if tok = '''' then (Inl (AuthError ''T3 Code's pairing exchange answered without a token''), s)
                       else if \<not> sameScopes granted t3_scope then (Inl (AuthError ''T3 Code granted another scope''), s)
                       else (let (i, s) = findSession env s;
                                 x = \<lparr>t3s_origin = origin, t3s_token = tok, t3s_label = sessionLabel,
                                      t3s_id = (case i of None \<Rightarrow> '''' | Some i \<Rightarrow> i), t3s_scope = t3_scope\<rparr>
                             in (Inr x, s\<lparr>t3_paired := t3_paired s @ [x]\<rparr>))))"

text \<open>A session to connect with: the one there is, or a fresh pairing; the flag says that it was paired just now.\<close>

definition ensure_session ::
  "t3_env \<Rightarrow> string \<Rightarrow> bool \<Rightarrow> 'a t3_svc_scheme \<Rightarrow> (t3_error + t3_session_record \<times> bool) \<times> 'a t3_svc_scheme" where
  "ensure_session env origin repaired s =
     (case t3_session s of
        Some x \<Rightarrow> (Inr (x, repaired), s)
      | None \<Rightarrow>
          (case pair env origin s of
             (Inl e, s) \<Rightarrow> (Inl e, s)
           | (Inr x, s) \<Rightarrow>
               (case saveSession x s of
                  (False, s) \<Rightarrow> (Inl (AuthError ''persisting the T3 Code session''), revoke env (Some x) s)
                | (True, s) \<Rightarrow> (Inr (x, True), s\<lparr>t3_session := Some x\<rparr>))))"

definition scopeRefused :: "t3_env \<Rightarrow> t3_error \<Rightarrow> 'a t3_svc_scheme \<Rightarrow> t3_error \<times> 'a t3_svc_scheme" where
  "scopeRefused env e s =
     (AuthError (''T3 Code refused the scope: '' @ t3_text e), (revoke env (t3_session s) s)\<lparr>t3_session := None\<rparr>)"

definition websocketTicket ::
  "t3_env \<Rightarrow> string \<Rightarrow> string \<Rightarrow> 'a t3_svc_scheme \<Rightarrow> (t3_error + string) \<times> 'a t3_svc_scheme" where
  "websocketTicket env origin tok s =
     (let (answer, s) = ask (te_ticket env) s
      in case answer origin tok of
           Inl e \<Rightarrow> (Inl e, s)
         | Inr ticket \<Rightarrow>
             if ticket = '''' then (Inl (ProtocolError ''websocket-ticket answer omitted ticket''), s) else (Inr ticket, s))"

lemma ensure_session_flag:
  "ensure_session env origin repaired s = (Inr (x, False), s') \<Longrightarrow> t3_session s = Some x \<and> \<not> repaired \<and> s' = s"
  by (auto simp: ensure_session_def split: option.splits sum.splits prod.splits bool.splits)

text \<open>The loop of \<^verbatim>\<open>serve\<close>: a rejected session is retired and paired over once.\<close>

function ticket_loop ::
  "t3_env \<Rightarrow> string \<Rightarrow> bool \<Rightarrow> 'a t3_svc_scheme \<Rightarrow> (t3_error + string) \<times> 'a t3_svc_scheme" where
  "ticket_loop env origin repaired s =
     (case ensure_session env origin repaired s of
        (Inl e, s) \<Rightarrow> (Inl e, s)
      | (Inr (x, repaired), s) \<Rightarrow>
          (case websocketTicket env origin (t3s_token x) s of
             (Inr ticket, s) \<Rightarrow> (Inr ticket, s)
           | (Inl (HttpError n body), s) \<Rightarrow>
               if n = 401
               then (if repaired then (Inl (AuthError ''T3 Code rejected the session it just issued''), s)
                     else ticket_loop env origin False (revoke env (Some x) (s\<lparr>t3_session := None\<rparr>)))
               else if n = 403 then (let (e, s) = scopeRefused env (HttpError n body) s in (Inl e, s))
               else (Inl (HttpError n body), s)
           | (Inl e, s) \<Rightarrow> (Inl (wrap_error ''websocket ticket: '' e), s)))"
  by pat_completeness auto
termination
  by (relation "measure (\<lambda>(env, origin, repaired, s). if t3_session s = None then 0 else 1)")
    (auto simp: revoke_def ask_cli_def ask_def dest!: ensure_session_flag [OF sym] ensure_session_flag)

declare ticket_loop.simps [simp del]

subsection \<open>Observing a thread\<close>

text \<open>\<^verbatim>\<open>forget\<close>: a thread T3 no longer reports as active is archived; a failure is only logged.\<close>

definition forget_t3 :: "string \<Rightarrow> 'a t3_svc_scheme \<Rightarrow> 'a t3_svc_scheme" where
  "forget_t3 i s = snd (ArchiveExternalThread t3_ID i (s\<lparr>t3_skipped := AList.delete i (t3_skipped s)\<rparr>))"

definition task_of :: "string \<Rightarrow> string \<Rightarrow> string \<Rightarrow> 'a t3_svc_scheme \<Rightarrow> recovery_task" where
  "task_of i t3 trn s =
     \<lparr>rk_thread = i, rk_t3_thread = t3, rk_turn = trn, rk_origin = t3_origin s,
      rk_token = (case t3_session s of None \<Rightarrow> '''' | Some x \<Rightarrow> t3s_token x)\<rparr>"

text \<open>\<^verbatim>\<open>recoverResponse\<close>: one recovery for a thread and its turn in a connection, when the turn has ended and no response is recorded.\<close>

definition recoverResponse :: "string \<Rightarrow> string \<Rightarrow> turn_observation option \<Rightarrow> 'a t3_svc_scheme \<Rightarrow> 'a t3_svc_scheme" where
  "recoverResponse i t3 observed s =
     (case observed of
        None \<Rightarrow> s
      | Some o1 \<Rightarrow>
          if \<not> Ended (to_state o1) \<or> read_string (t3_recovery s) t3 = to_provider_id o1 then s
          else (case map_of (view s) i of
                  None \<Rightarrow> s
                | Some r \<Rightarrow>
                    (case turn r of
                       None \<Rightarrow> s
                     | Some t \<Rightarrow>
                         if turn_state t = TurnRunning \<or> turn_response t \<noteq> '''' then s
                         else s\<lparr>t3_recovery := AList.update t3 (to_provider_id o1) (t3_recovery s),
                                t3_tasks := t3_tasks s @ [task_of i t3 (to_provider_id o1) s]\<rparr>)))"

definition shell_observation :: "thread_shell \<Rightarrow> project_shell \<Rightarrow> time \<Rightarrow> external_observation" where
  "shell_observation t p at =
     (let wt = worktree t;
          agent = (case th_session t of None \<Rightarrow> '''' | Some x \<Rightarrow> case ss_provider x of None \<Rightarrow> '''' | Some n \<Rightarrow> n);
          detail = (case th_session t of None \<Rightarrow> '''' | Some x \<Rightarrow> case ss_error x of None \<Rightarrow> '''' | Some m \<Rightarrow> m)
      in \<lparr>eo_integration = t3_ID, eo_provider = th_id t, eo_directory = ps_root p, eo_at = at,
          eo_status = projectStatus t, eo_agent = agent, eo_title = th_title t, eo_detail = detail,
          eo_turn = turnObservation (th_turn t) detail,
          eo_metadata = \<lparr>md_title = '''', md_model = (case th_model t of None \<Rightarrow> '''' | Some m \<Rightarrow> m), md_effort = '''',
                         md_cwd = (if wt = '''' then ps_root p else wt), md_permission_mode = ''''\<rparr>\<rparr>)"

definition observe_t3 ::
  "(string \<Rightarrow> string option) \<Rightarrow> thread_shell \<Rightarrow> project_shell \<Rightarrow> 'a t3_svc_scheme \<Rightarrow> 'a t3_svc_scheme" where
  "observe_t3 canon t p s =
     (if settled_shell t then forget_t3 (th_id t) (s\<lparr>t3_settled := List.insert (th_id t) (t3_settled s)\<rparr>)
      else let s = s\<lparr>t3_settled := removeAll (th_id t) (t3_settled s)\<rparr>; (at, s) = now s; obs = shell_observation t p at
           in case ObserveExternal canon obs s of
                (Inl (ErrNoLocalDirectory d), s) \<Rightarrow>
                  s\<lparr>t3_skipped := AList.update (th_id t) (''workspace '' @ ps_root p @ '': no usable local directory: '' @ d) (t3_skipped s)\<rparr>
              | (Inl e, s) \<Rightarrow> s
              | (Inr i, s) \<Rightarrow>
                  (let s = s\<lparr>t3_skipped := AList.delete (th_id t) (t3_skipped s)\<rparr>
                   in if i \<noteq> '''' then recoverResponse i (th_id t) (eo_turn obs) s else s))"

subsection \<open>The shell copy\<close>

text \<open>\<^verbatim>\<open>reconcile\<close>: every thread of the copy observed, in id order.\<close>

definition project_of :: "thread_shell \<Rightarrow> shell_state \<Rightarrow> project_shell" where
  "project_of t sh =
     (case map_of (sl_projects sh) (th_project t) of None \<Rightarrow> \<lparr>ps_id = '''', ps_root = ''''\<rparr> | Some p \<Rightarrow> p)"

definition reconcile_t3 :: "(string \<Rightarrow> string option) \<Rightarrow> 'a t3_svc_scheme \<Rightarrow> 'a t3_svc_scheme" where
  "reconcile_t3 canon s =
     fold (\<lambda>i s. case map_of (sl_threads (t3_shell s)) i of
                   None \<Rightarrow> s | Some t \<Rightarrow> observe_t3 canon t (project_of t (t3_shell s)) s)
       (sort (map fst (sl_threads (t3_shell s)))) s"

definition index_by :: "('b \<Rightarrow> string) \<Rightarrow> 'b list \<Rightarrow> (string \<times> 'b) list" where
  "index_by key xs = fold (\<lambda>x m. AList.update (key x) x m) xs []"

definition known_project :: "(string \<times> project_shell) list \<Rightarrow> thread_shell \<Rightarrow> t3_error option" where
  "known_project ps t = (if has_key ps (th_project t) then None else Some (SchemaError ''thread names an unknown project''))"

definition applySnapshot ::
  "(string \<Rightarrow> string option) \<Rightarrow> shell_snapshot \<Rightarrow> 'a t3_svc_scheme \<Rightarrow> t3_error option \<times> 'a t3_svc_scheme" where
  "applySnapshot canon n s =
     (let ps = index_by ps_id (the (sn_projects n)); ts = the (sn_threads n)
      in case first_error (known_project ps) ts of
           Some e \<Rightarrow> (Some e, s)
         | None \<Rightarrow>
             (let s = s\<lparr>t3_shell := \<lparr>sl_initialized = True, sl_sequence = the (sn_sequence n), sl_projects = ps,
                                     sl_threads = index_by th_id ts\<rparr>, t3_skipped := [], t3_settled := []\<rparr>;
                  s = reconcile_t3 canon s;
                  gone = filter (\<lambda>i. \<not> has_key (index_by th_id ts) i) (UnarchivedProviderIDs t3_ID s)
              in (None, fold forget_t3 gone s)))"

text \<open>\<^verbatim>\<open>applyEvent\<close>: an event at or below the last applied sequence is ignored.\<close>

definition applyEvent ::
  "(string \<Rightarrow> string option) \<Rightarrow> shell_event \<Rightarrow> 'a t3_svc_scheme \<Rightarrow> t3_error option \<times> 'a t3_svc_scheme" where
  "applyEvent canon e s =
     (let sh = t3_shell s; q = the (se_sequence e); kind = se_kind e
      in if \<not> sl_initialized sh then (Some (ProtocolError (kind @ '' before any snapshot'')), s)
         else if q \<le> sl_sequence sh then (None, s)
         else case (if kind = ''project-upserted''
                    then (let p = the (se_project e)
                          in (None, s\<lparr>t3_shell := sh\<lparr>sl_projects := AList.update (ps_id p) p (sl_projects sh)\<rparr>\<rparr>))
                    else if kind = ''project-removed''
                    then (None, s\<lparr>t3_shell := sh\<lparr>sl_projects := AList.delete (se_project_id e) (sl_projects sh)\<rparr>\<rparr>)
                    else if kind = ''thread-upserted''
                    then (let t = the (se_thread e)
                          in case map_of (sl_projects sh) (th_project t) of
                               None \<Rightarrow> (Some (SchemaError ''thread names an unknown project''), s)
                             | Some p \<Rightarrow>
                                 (None, observe_t3 canon t p
                                          (s\<lparr>t3_shell := sh\<lparr>sl_threads := AList.update (th_id t) t (sl_threads sh)\<rparr>\<rparr>)))
                    else if kind = ''thread-removed''
                    then (let i = se_thread_id e
                          in (None, forget_t3 i
                                (s\<lparr>t3_shell := sh\<lparr>sl_threads := AList.delete i (sl_threads sh)\<rparr>,
                                   t3_settled := removeAll i (t3_settled s),
                                   t3_recovery := AList.delete i (t3_recovery s)\<rparr>)))
                    else (None, s)) of
                (Some err, s) \<Rightarrow> (Some err, s)
              | (None, s) \<Rightarrow> (None, s\<lparr>t3_shell := (t3_shell s)\<lparr>sl_sequence := q\<rparr>\<rparr>))"

text \<open>\<^verbatim>\<open>detail\<close>: the counts, then at most three of the skipped threads with their reasons.\<close>

definition decimal_int :: "int \<Rightarrow> string" where
  "decimal_int n = (if n < 0 then ''-'' else '''') @ decimal (nat \<bar>n\<bar>)"

definition mirrored :: "'a t3_svc_scheme \<Rightarrow> int" where
  "mirrored s = int (length (sl_threads (t3_shell s))) - int (length (t3_skipped s)) - int (length (t3_settled s))"

fun join_with :: "string \<Rightarrow> string list \<Rightarrow> string" where
  "join_with sep [] = ''''"
| "join_with sep [x] = x"
| "join_with sep (x # xs) = x @ sep @ join_with sep xs"

definition skip_reasons :: "(string \<times> string) list \<Rightarrow> string" where
  "skip_reasons sk =
     (let lines = map (\<lambda>i. i @ '': '' @ read_string sk i) (sort (map fst sk))
      in join_with ''; '' (if length lines > 3 then take 3 lines @ [ellipsis] else lines))"

definition detail_of :: "string \<Rightarrow> 'a t3_svc_scheme \<Rightarrow> string" where
  "detail_of origin s =
     ''subscribed to '' @ origin @ ''; '' @ decimal_int (mirrored s) @ '' threads mirrored''
     @ (if t3_settled s \<noteq> [] then '', '' @ decimal (length (t3_settled s)) @ '' settled'' else '''')
     @ (if t3_skipped s = [] then ''''
        else ''; '' @ decimal (length (t3_skipped s)) @ '' skipped ('' @ skip_reasons (t3_skipped s) @ '')'')"

subsection \<open>One connection\<close>

definition describe_t3 :: "t3_env \<Rightarrow> string \<Rightarrow> 'a t3_svc_scheme \<Rightarrow> (t3_error + string) \<times> 'a t3_svc_scheme" where
  "describe_t3 env origin s =
     (let (answer, s) = ask (te_descriptor env) s
      in case answer origin of
           Inl e \<Rightarrow> (Inl (wrap_error ''environment descriptor: '' e), s)
         | Inr i \<Rightarrow>
             if i = '''' then (Inl (ProtocolError ''environment descriptor omitted environmentId''), s) else (Inr i, s))"

text \<open>The stored session is loaded when there is none, and retired when its scope set is another.\<close>

definition settle_session :: "t3_env \<Rightarrow> 'a t3_svc_scheme \<Rightarrow> 'a t3_svc_scheme" where
  "settle_session env s =
     (let s = (if t3_session s = None then (let (x, s) = loadSession env s in s\<lparr>t3_session := x\<rparr>) else s)
      in case t3_session s of
           Some x \<Rightarrow> if \<not> sameScopes (t3s_scope x) t3_scope then revoke env (Some x) (s\<lparr>t3_session := None\<rparr>) else s
         | None \<Rightarrow> s)"

text \<open>\<^verbatim>\<open>serve\<close> up to the subscription.\<close>

definition connect_t3 :: "t3_env \<Rightarrow> t3_runtime \<Rightarrow> 'a t3_svc_scheme \<Rightarrow> t3_error option \<times> 'a t3_svc_scheme" where
  "connect_t3 env r s =
     (case describe_t3 env (rt_origin r) s of
        (Inl e, s) \<Rightarrow> (Some e, s)
      | (Inr environment, s) \<Rightarrow>
          (case ticket_loop env (rt_origin r) False (settle_session env s) of
             (Inl e, s) \<Rightarrow> (Some e, s)
           | (Inr ticket, s) \<Rightarrow>
               (let s = s\<lparr>t3_origin := rt_origin r, t3_environment := environment\<rparr>
                in if \<not> te_parses env (rt_origin r) then (Some (ProtocolError ''origin''), s)
                   else let (dialled, s) = ask (te_dial env) s
                        in case dialled ticket of
                             Some e \<Rightarrow> (Some e, s)
                           | None \<Rightarrow>
                               (None, s\<lparr>t3_client := Some (t3_asks s), t3_recovery := [],
                                        t3_live := Some (sl_initialized (t3_shell s), False)\<rparr>))))"

text \<open>One item of the subscription.\<close>

definition handle_item ::
  "(string \<Rightarrow> string option) \<Rightarrow> shell_event option \<Rightarrow> 'a t3_svc_scheme \<Rightarrow> t3_error option \<times> 'a t3_svc_scheme" where
  "handle_item canon item s =
     (case t3_live s of
        None \<Rightarrow> (None, s)
      | Some (replaying, established) \<Rightarrow>
          (case decodeEvent item of
             Inl e \<Rightarrow> (Some e, s)
           | Inr e \<Rightarrow>
               (let (err, s) =
                  (if se_kind e = ''snapshot''
                   then (case applySnapshot canon (the (se_snapshot e)) s of
                           (Some x, s) \<Rightarrow> (Some x, s) | (None, s) \<Rightarrow> (None, s\<lparr>t3_live := Some (False, True)\<rparr>))
                   else if se_kind e = ''synchronized''
                   then (if \<not> sl_initialized (t3_shell s) then (Some (ProtocolError ''synchronized before any snapshot''), s)
                         else (None, (if replaying then reconcile_t3 canon s else s)\<lparr>t3_live := Some (False, True)\<rparr>))
                   else applyEvent canon e s)
                in case err of
                     Some x \<Rightarrow> (Some x, s)
                   | None \<Rightarrow> (None, (case t3_live s of
                                      Some (r, True) \<Rightarrow> setState_t3 Connected (detail_of (t3_origin s) s) s | _ \<Rightarrow> s)))))"

text \<open>How the subscription's own end is read: a refused scope, another failure, or the error itself.\<close>

definition subscription_end :: "t3_env \<Rightarrow> t3_error \<Rightarrow> 'a t3_svc_scheme \<Rightarrow> t3_error \<times> 'a t3_svc_scheme" where
  "subscription_end env e s =
     (case e of
        RpcFailure f \<Rightarrow>
          if rf_tag f = ''EnvironmentAuthorizationError''
          then scopeRefused env (RpcFailure f) s
          else (ProtocolError (''subscription failed: '' @ t3_text e), s)
      | _ \<Rightarrow> (e, s))"

text \<open>\<^verbatim>\<open>Run\<close> once \<^verbatim>\<open>serve\<close> has returned: the client goes, every hold ends, and the error says how to go on.\<close>

definition run_end :: "t3_error \<Rightarrow> 'a t3_svc_scheme \<Rightarrow> 'a t3_svc_scheme" where
  "run_end e s =
     (let s = release_t3 (s\<lparr>t3_client := None, t3_live := None\<rparr>)
      in case e of
           AuthError m \<Rightarrow>
             (let (at, s) = now (setState_t3 AuthFailed (t3_text e) s) in s\<lparr>t3_retry_at := at + t3_authRetry\<rparr>)
         | _ \<Rightarrow>
             (let s = (case e of
                         SchemaError m \<Rightarrow> setState_t3 Unavailable (t3_text e) (s\<lparr>t3_shell := empty_shell\<rparr>)
                       | ProtocolError m \<Rightarrow> setState_t3 Unavailable (t3_text e) (s\<lparr>t3_shell := empty_shell\<rparr>)
                       | _ \<Rightarrow> setState_t3 Connecting (''reconnecting: '' @ t3_text e) s);
                  (at, s) = now s;
                  b = (if at - t3_started s \<ge> t3_backoffMin then t3_backoffMin else t3_backoff s)
              in s\<lparr>t3_backoff := min (b * 2) t3_backoffMax\<rparr>))"

text \<open>One iteration of \<^verbatim>\<open>Run\<close> up to the live subscription, or to its wait.\<close>

definition run_begin :: "t3_env \<Rightarrow> 'a t3_svc_scheme \<Rightarrow> 'a t3_svc_scheme" where
  "run_begin env s =
     (case discover env s of
        (Inl m, s) \<Rightarrow> release_t3 (setState_t3 Unavailable m s)
      | (Inr r, s) \<Rightarrow>
          (let s = (if t3_last s \<noteq> Some r then s\<lparr>t3_last := Some r, t3_retry_at := 0\<rparr> else s); (at, s) = now s
           in if at < t3_retry_at s then s
              else let (started, s) = now s
                   in case connect_t3 env r (s\<lparr>t3_started := started\<rparr>) of
                        (Some e, s) \<Rightarrow> run_end e s
                      | (None, s) \<Rightarrow> s))"

text \<open>The subscription is over, with an error.\<close>

definition serve_drop :: "t3_env \<Rightarrow> t3_error \<Rightarrow> 'a t3_svc_scheme \<Rightarrow> 'a t3_svc_scheme" where
  "serve_drop env e s = (let (e, s) = subscription_end env e s in run_end e s)"

subsection \<open>Response recovery\<close>

text \<open>\<^verbatim>\<open>fetchResponse\<close>: the text once it is final, nothing while T3 has yet to name or finish it.\<close>

definition final_response :: "thread_detail \<Rightarrow> string \<Rightarrow> string option" where
  "final_response d trn =
     (case td_turn d of
        None \<Rightarrow> Some ''''
      | Some n \<Rightarrow>
          if tn_id n \<noteq> trn then Some ''''
          else (case tn_message n of
                  None \<Rightarrow> None
                | Some m \<Rightarrow>
                    (case find (\<lambda>x. dm_id x = m) (td_messages d) of
                       None \<Rightarrow> None | Some x \<Rightarrow> if dm_streaming x then None else Some (dm_text x))))"

text \<open>\<^verbatim>\<open>readResponse\<close>, with the attempts that are left.\<close>

fun readResponse :: "t3_env \<Rightarrow> recovery_task \<Rightarrow> nat \<Rightarrow> 'a t3_svc_scheme \<Rightarrow> 'a t3_svc_scheme" where
  "readResponse env k 0 s = s"
| "readResponse env k (Suc left) s =
     (let (answer, s) = ask (te_thread env) s
      in case answer (rk_origin k) (rk_token k) (rk_t3_thread k) of
           Inl e \<Rightarrow> readResponse env k left s
         | Inr d \<Rightarrow>
             (case final_response d (rk_turn k) of
                None \<Rightarrow> readResponse env k left s
              | Some text \<Rightarrow>
                  if text = '''' then s else snd (ObserveTurnResponse (rk_thread k) (rk_turn k) text s)))"

definition run_task :: "t3_env \<Rightarrow> recovery_task \<Rightarrow> 'a t3_svc_scheme \<Rightarrow> 'a t3_svc_scheme" where
  "run_task env k s = readResponse env k responseReads (s\<lparr>t3_tasks := remove1 k (t3_tasks s)\<rparr>)"

subsection \<open>Creating a thread\<close>

definition titleLimit :: nat where "titleLimit = 72"
definition untitled :: string where "untitled = ''New thread''"

text \<open>The characters of a string; a byte that begins no well-formed one reads as the replacement character.\<close>

definition rune_width :: "string \<Rightarrow> nat" where
  "rune_width s =
     (if s = '''' then 0 else if valid_utf8 (take 1 s) then 1 else if valid_utf8 (take 2 s) then 2
      else if valid_utf8 (take 3 s) then 3 else if valid_utf8 (take 4 s) then 4 else 0)"

function runes :: "string \<Rightarrow> string list" where
  "runes s =
     (if s = '''' then []
      else if rune_width s = 0 then [CHR 0xEF, CHR 0xBF, CHR 0xBD] # runes (tl s)
      else take (rune_width s) s # runes (drop (rune_width s) s))"
  by pat_completeness auto
termination
  by (relation "measure length") auto

declare runes.simps [simp del]

definition threadTitle :: "string \<Rightarrow> string" where
  "threadTitle prompt =
     (let ttl = join_blank (Fields prompt)
      in if ttl = '''' then untitled
         else if length (runes ttl) > titleLimit then concat (take (titleLimit - 3) (runes ttl)) @ ''...''
         else ttl)"

definition turnStartCommand ::
  "t3_env \<Rightarrow> string \<Rightarrow> string \<Rightarrow> string \<Rightarrow> thread_create_params \<Rightarrow> time \<Rightarrow> 'a t3_svc_scheme \<Rightarrow> turn_start \<times> 'a t3_svc_scheme" where
  "turnStartCommand env thread project ttl params at s =
     (let (command, s) = ask (te_uuid env) s; (message, s) = ask (te_uuid env) s
      in (\<lparr>ts_command = command, ts_thread = thread, ts_message = message, ts_prompt = cr_prompt params,
           ts_agent = cr_agent params, ts_model = cr_model params, ts_options = cr_options params,
           ts_project = project, ts_title = ttl, ts_created = at\<rparr>, s))"

text \<open>\<^verbatim>\<open>reported\<close>: T3's projection holds the thread.\<close>

definition reported :: "string \<Rightarrow> 'a t3_svc_scheme \<Rightarrow> bool" where
  "reported i s \<longleftrightarrow> has_key (sl_threads (t3_shell s)) i"

text \<open>
  \<^verbatim>\<open>dispatch\<close>, on the client the create was prepared with. A refusal is final; without an answer the creation is
  uncertain, unless T3 has reported the thread.
\<close>

definition dispatch_t3 ::
  "t3_env \<Rightarrow> nat option \<Rightarrow> turn_start \<Rightarrow> 'a t3_svc_scheme \<Rightarrow> err option \<times> 'a t3_svc_scheme" where
  "dispatch_t3 env client command s =
     (case client of
        None \<Rightarrow> (Some ErrNotConnected, s)
      | Some c \<Rightarrow>
          (let (answer, s) = ask (te_call env) s
           in case answer c command of
                None \<Rightarrow> (None, s)
              | Some (RpcFailure f) \<Rightarrow>
                  (Some (ErrExternal (''T3 Code rejected the command: ''
                     @ (if rf_message f = '''' then failure_text f '''' else rf_message f)
                     @ (if rf_rolled_back f then ''; T3 Code rolled back the thread it had created'' else ''''))), s)
              | Some e \<Rightarrow> if reported (ts_thread command) s then (None, s) else (Some ErrUncertain, s)))"

text \<open>
  \<^verbatim>\<open>PrepareThread\<close>: refused unless the connection is up and the directory is the canonical root of a T3 project; the first
  by id is taken.
\<close>

definition registered_project :: "(string \<Rightarrow> string option) \<Rightarrow> string \<Rightarrow> shell_state \<Rightarrow> string option" where
  "registered_project canon directory sh =
     map_option ps_id (find (\<lambda>p. canon (ps_root p) = Some directory) (sort_key ps_id (map snd (sl_projects sh))))"

definition PrepareThread ::
  "(string \<Rightarrow> string option) \<Rightarrow> t3_env \<Rightarrow> thread_create_params \<Rightarrow> string \<Rightarrow> 'a t3_svc_scheme
     \<Rightarrow> (err + 'a t3_svc_scheme prepared_thread) \<times> 'a t3_svc_scheme" where
  "PrepareThread canon env params directory s =
     (if t3_state s \<noteq> Connected then (Inl ErrNotConnected, s)
      else case registered_project canon directory (t3_shell s) of
             None \<Rightarrow> (Inl (ErrExternal (directory @ '' is not registered in T3 Code'')), s)
           | Some project \<Rightarrow>
               (let (thread, s') = ask (te_uuid env) s;
                    (at, s') = now s';
                    (command, s') = turnStartCommand env thread project (threadTitle (cr_prompt params)) params at s'
                in (Inr \<lparr>pt_provider = thread, pt_title = threadTitle (cr_prompt params),
                        pt_dispatch = dispatch_t3 env (t3_client s) command\<rparr>, s')))"

subsection \<open>Steps\<close>

text \<open>A new process: the session file and the histories stay, the rest of the Integration's memory is gone.\<close>

definition restart_t3 :: "'a t3_svc_scheme \<Rightarrow> 'a t3_svc_scheme" where
  "restart_t3 s =
     s\<lparr>t3_session := None, t3_recovery := [], t3_tasks := [], t3_retry_at := 0, t3_last := None, t3_shell := empty_shell,
       t3_skipped := [], t3_settled := [], t3_origin := '''', t3_environment := '''', t3_client := None, t3_live := None,
       t3_backoff := t3_backoffMin\<rparr>"

text \<open>
  The Integration beside the rest of the server. The label lists what a step took from the stream. Another domain's step
  leaves the Integration's state alone; each handler of the Integration is one undisturbed stretch.
\<close>

inductive t3_step ::
  "t3_env \<Rightarrow> (string \<Rightarrow> string option) \<Rightarrow> shell_event list \<Rightarrow> 'a t3_svc_scheme \<Rightarrow> 'a t3_svc_scheme \<Rightarrow> bool"
  for env canon where
  begins: "t3_live s = None \<Longrightarrow> t3_step env canon [] s (run_begin env s)"
| takes: "t3_live s \<noteq> None \<Longrightarrow> handle_item canon (Some e) s = (None, s') \<Longrightarrow> t3_step env canon [e] s s'"
| refuses: "t3_live s \<noteq> None \<Longrightarrow> handle_item canon item s = (Some e, s') \<Longrightarrow> t3_step env canon [] s (run_end e s')"
| drops: "t3_live s \<noteq> None \<Longrightarrow> t3_step env canon [] s (serve_drop env e s)"
| recovers: "k \<in> set (t3_tasks s) \<Longrightarrow> t3_step env canon [] s (run_task env k s)"
| prepares: "t3_step env canon [] s (snd (PrepareThread canon env params d s))"
| dispatches: "t3_step env canon [] s (snd (dispatch_t3 env client command s))"
| others: "thread_svc.more s' = thread_svc.more s \<Longrightarrow> t3_step env canon [] s s'"
| restarts: "t3_step env canon [] s (restart_t3 s)"

inductive_cases t3_stepE: "t3_step env canon es s s'"

text \<open>A run, with everything the stream delivered in it.\<close>

inductive t3_run ::
  "t3_env \<Rightarrow> (string \<Rightarrow> string option) \<Rightarrow> shell_event list \<Rightarrow> 'a t3_svc_scheme \<Rightarrow> 'a t3_svc_scheme \<Rightarrow> bool"
  for env canon where
  run_nil: "t3_run env canon [] s s"
| run_step: "t3_run env canon es s s1 \<Longrightarrow> t3_step env canon ds s1 s2 \<Longrightarrow> t3_run env canon (es @ ds) s s2"

end
