(* ===== verification/T3Props.thy ===== *)
theory T3Props
  imports T3Code Server LinearFrame
begin

text \<open>
  What the T3 Code mirror promises: a snapshot leaves exactly T3's active threads unarchived, a stream that is resumed
  gives the copy an uninterrupted one gives, and no session is left behind in T3.
\<close>

declare map_of_eq_Some_iff [simp del] Some_eq_map_of_iff [simp del] split_paired_All [simp del] split_paired_Ex [simp del]

subsection \<open>Frames\<close>

lemma more_world [simp]:
  "thread_svc.more (snd (now s)) = thread_svc.more s" "thread_svc.more (Publish a b c s) = thread_svc.more s"
  "thread_svc.more (snd (Threads_Update r s)) = thread_svc.more s" "thread_svc.more (put_view r s) = thread_svc.more s"
  "thread_svc.more (release i s) = thread_svc.more s" "thread_svc.more (publish_thread ch i s) = thread_svc.more s"
  "thread_svc.more (snd (ObserveExternal canon obs s)) = thread_svc.more s"
  using calm_ObserveExternal [of s canon obs]
  by (simp_all add: now_def Publish_def Threads_Update_def io_step_def Let_def put_view_def release_def publish_thread_def calm_def
      split: option.split)

lemma more_Archive [simp]: "thread_svc.more (snd (ArchiveExternalThread integration p s)) = thread_svc.more s"
proof -
  have 1: "thread_svc.more s1 = thread_svc.more s" if "now s = (t, s1)" for t s1 using more_world(1) [of s] by (simp add: that)
  have 2: "thread_svc.more s1 = thread_svc.more s" if "Threads_Update r s = (x, s1)" for r x s1 and s :: "'a thread_svc_scheme"
    using more_world(3) [of r s] by (simp add: that)
  show ?thesis
    by (auto simp: ArchiveExternalThread_def Let_def now_def split: option.split prod.split sum.split dest!: 2)
qed

text \<open>What the foreign keys and the driver look at.\<close>

definition ground :: "'a thread_svc_scheme \<Rightarrow> (nat \<Rightarrow> bool) \<times> (string \<times> project_record) list \<times> (string \<times> terminal_record) list" where
  "ground s = (fault s, project_rows s, terminal_rows s)"

lemma ground_world [simp]:
  "ground (snd (now s)) = ground s" "ground (snd (newLong p s)) = ground s" "ground (Publish a b c s) = ground s"
  "ground (snd (observed_at t s)) = ground s" "ground (forgetPrior i s) = ground s" "ground (hold i s) = ground s"
  "ground (release i s) = ground s" "ground (snd (Threads_Update r s)) = ground s" "ground (put_view r s) = ground s"
  "ground (snd (Threads_InsertObserved r k s)) = ground s" "ground (snd (classify d s)) = ground s"
  "ground (publish_thread ch i s) = ground s" "ground (snd (store_thread r s)) = ground s"
  by (auto simp: ground_def now_def newLong_def Publish_def observed_at_def forgetPrior_def hold_def release_def io_step_def
      Threads_Update_def put_view_def Threads_InsertObserved_def classify_def Projects_List_def publish_thread_def
      store_thread_def Let_def split: option.split sum.split)

text \<open>A world that takes every write: no driver failure, and the references of T3's threads resolve.\<close>

definition refs_ok :: "'a thread_svc_scheme \<Rightarrow> thread_record \<Rightarrow> bool" where
  "refs_ok s r \<longleftrightarrow> project_fk s (project_id r) \<and> terminal_fk s (terminal_id r)"

definition sound_world :: "'a thread_svc_scheme \<Rightarrow> bool" where
  "sound_world s \<longleftrightarrow>
     (\<forall>n. \<not> fault s n) \<and> (\<forall>(k, p) \<in> set (project_rows s). proj_id p = k) \<and> (\<forall>i r. map_of (view s) i = Some r \<longrightarrow> integration_id r = t3_ID \<longrightarrow> refs_ok s r)"

lemma refs_ground: "ground s' = ground s \<Longrightarrow> refs_ok s' r = refs_ok s r"
  by (simp add: ground_def refs_ok_def project_fk_def terminal_fk_def split: option.split)

lemma refs_keep:
  "project_id r = project_id r0 \<Longrightarrow> terminal_id r = terminal_id r0 \<Longrightarrow> refs_ok s r = refs_ok s r0"
  by (simp add: refs_ok_def)

lemma Threads_Update_takes:
  assumes "\<forall>n. \<not> fault s n" and "map_of (thread_rows s) (thread_id r) \<noteq> None" and "refs_ok s r"
  shows "fst (Threads_Update r s) = Inr True" "id_tape (snd (Threads_Update r s)) = id_tape s"
  using assms by (auto simp: Threads_Update_def io_step_def Let_def refs_ok_def project_fk_def terminal_fk_def split: option.splits)

lemma store_thread_takes:
  assumes inv: "threads_inv s" and may: "may_replace s i r" and nf: "\<forall>n. \<not> fault s n" and refs: "refs_ok s r"
    and run: "store_thread r s = (res, s')"
  shows "res = Inr True \<and> core s' = core (put_both i r s) \<and> ground s' = ground s \<and> id_tape s' = id_tape s \<and> threads_inv s'"
proof -
  have i: "thread_id r = i" "map_of (thread_rows s) i \<noteq> None"
    using may inv_view_id [OF inv] inv_rows_dom [OF inv, of i] by (auto simp: may_replace_def same_origin_def)
  obtain x s1 where u: "Threads_Update r s = (x, s1)" by (cases "Threads_Update r s")
  have "x = Inr True" "id_tape s1 = id_tape s" using Threads_Update_takes [OF nf _ refs] i by (simp_all add: u)
  then have res: "res = Inr True" and tape: "id_tape s' = id_tape s" using run u by (auto simp: store_thread_def put_view_def)
  show ?thesis using store_thread_run [OF inv may run] res tape ground_world(13) [of r s] by (simp add: run)
qed

lemma external_record_refs:
  "r2 = fst (apply_evidence fresh (r0\<lparr>agent_id := a\<rparr>) st d tobs at act) \<Longrightarrow> r4 = fst (applyMetadata (track_title x r2) m)
     \<Longrightarrow> project_id (stamp c at (unarchive r4)) = project_id r0 \<and> terminal_id (stamp c at (unarchive r4)) = terminal_id r0
       \<and> integration_id (stamp c at (unarchive r4)) = integration_id r0"
  by (simp add: stamp_def unarchive_def track_title_def applyMetadata_def Let_def)

text \<open>What an observation of a known T3 thread leaves.\<close>

lemma observe_known:
  assumes inv: "threads_inv s" and sound: "sound_world s" and run: "ObserveExternal canon obs s = (res, s')"
    and t3: "eo_integration obs = t3_ID" and id: "map_of (identities s) (t3_ID, eo_provider obs) = Some i"
  shows "res = Inr i \<and> identities s' = identities s \<and> held s' = List.insert i (held s) \<and> ground s' = ground s
    \<and> id_tape s' = id_tape s
    \<and> (\<exists>r. view s' = AList.update i r (view s) \<and> \<not> archived r \<and> refs_ok s r \<and> integration_id r = t3_ID)"
proof -
  obtain at s1 where at: "observed_at (eo_at obs) s = (at, s1)" by (cases "observed_at (eo_at obs) s")
  have c1: "core s1 = core s" "ground s1 = ground s" "id_tape s1 = id_tape s"
    using core_observed_at [of "eo_at obs" s] ground_world(4) [of "eo_at obs" s] at
    by (auto simp: at observed_at_def now_def split: if_splits)
  note v1 = core_components [OF c1(1)]
  have inv1: "threads_inv s1" using inv threads_inv_core [OF c1(1)] by simp
  let ?st = "if eo_status obs = ThreadNone then ThreadUnknown else eo_status obs"
  obtain r0 where r0: "map_of (view s1) i = Some r0" using inv_identity_view [OF inv] id v1 by fastforce
  have t3r: "integration_id r0 = t3_ID"
    using inv_keys_integration [OF inv1 r0, of "(t3_ID, eo_provider obs)"] inv_keys [OF inv1, of _ i] id v1 by simp
  have refs0: "refs_ok s r0" and nf: "\<forall>n. \<not> fault s n" using sound r0 t3r v1 by (auto simp: sound_world_def)
  obtain r2 c s2 where ap: "applyStatus (r0\<lparr>agent_id := eo_agent obs\<rparr>) ?st (eo_detail obs) (eo_turn obs) at True s1
      = (r2, c, s2)" by (metis prod_cases3)
  obtain fresh where r2: "r2 = fst (apply_evidence fresh (r0\<lparr>agent_id := eo_agent obs\<rparr>) ?st (eo_detail obs)
      (eo_turn obs) at True)" and c2: "core s2 = core s1"
    using applyStatus_result [OF ap] by auto
  have g2: "ground s2 = ground s1" "id_tape s2 = id_tape s1" "fault s2 = fault s1"
    using ap by (auto simp: applyStatus_def newLong_def Let_def forgetPrior_def ground_def split: prod.splits if_splits)
  obtain r4 m where md: "applyMetadata (track_title (eo_title obs) r2) (eo_metadata obs) = (r4, m)"
    by (cases "applyMetadata (track_title (eo_title obs) r2) (eo_metadata obs)")
  have r4: "r4 = fst (applyMetadata (track_title (eo_title obs) r2) (eo_metadata obs))" by (simp add: md)
  have inv2: "threads_inv s2" using inv1 threads_inv_core [OF c2] by simp
  define changed where "changed = (agent_id r0 \<noteq> eo_agent obs \<or> c \<or> track_title (eo_title obs) r2 \<noteq> r2 \<or> m \<or> archived r4)"
  define r where "r = stamp changed at (unarchive r4)"
  have keep: "project_id r = project_id r0" "terminal_id r = terminal_id r0" "integration_id r = t3_ID" "\<not> archived r"
    using external_record_refs [OF r2 r4, of changed] t3r by (simp_all add: r_def)
  have may: "may_replace s2 i r" unfolding r_def by (rule external_record_may [OF inv1 r0 c2 r2 r4])
  have refs: "refs_ok s2 r" "refs_ok s r"
    using refs0 refs_keep [OF keep(1,2), of s] refs_ground [of s2 s] g2 c1(2) by simp_all
  have nf2: "\<forall>n. \<not> fault s2 n" using nf g2(3) c1(2) by (simp add: ground_def)
  obtain ok s3 where st: "store_thread r s2 = (ok, s3)" by (cases "store_thread r s2")
  note out = store_thread_takes [OF inv2 may nf2 refs(1) st]
  have idv: "map_of (identities s1) (eo_integration obs, eo_provider obs) = Some i" using id v1 t3 by simp
  have "ObserveExternal canon obs s = (Inr i, publish_thread changed i (hold i s3))"
    by (simp only: ObserveExternal_def at Let_def prod.case idv r0 ap md changed_def [symmetric] r_def [symmetric] st option.case
        out [THEN conjunct1] sum.case not_True_eq_False if_False)
  then have res: "res = Inr i" and s': "s' = publish_thread changed i (hold i s3)" using run by simp_all
  have co: "core s3 = core (put_both i r s2)" using out by blast
  have "identities s' = identities s" "held s' = List.insert i (held s)" "view s' = AList.update i r (view s)"
    using core_components [OF co] core_components [OF c2] v1
    by (simp_all add: s' publish_thread_def Publish_def hold_def put_both_def)
  moreover have "ground s' = ground s" "id_tape s' = id_tape s"
    using out g2 c1 by (simp_all add: s' publish_thread_def Publish_def hold_def ground_def)
  ultimately show ?thesis using res refs(2) keep by blast
qed

text \<open>What an observation of an unknown one leaves: nothing, when it has no local directory or no id is left, or a new thread.\<close>

lemma classify_ground: "classify d s = (res, s') \<Longrightarrow> ground s' = ground s \<and> id_tape s' = id_tape s \<and> core s' = core s"
  using classify_core [of d s res s']
  by (auto simp: classify_def Projects_List_def io_step_def ground_def Let_def split: if_splits)

lemma fold_more_specific:
  "fold (more_specific d) ps best = Some b \<Longrightarrow> b \<in> set ps \<or> best = Some b"
  by (induction ps arbitrary: best) (fastforce simp: more_specific_def split: if_splits)+

lemma classify_takes:
  assumes "\<forall>n. \<not> fault s n" and "\<forall>(k, p) \<in> set (project_rows s). proj_id p = k" and "classify d s = (res, s')"
  shows "\<exists>p. res = Inr p \<and> project_fk s p"
proof -
  define ps where "ps = sort_key (\<lambda>r. (proj_created_at r, proj_id r)) (map snd (project_rows s))"
  have list: "Projects_List s = (Inr ps, s\<lparr>io_ops := Suc (io_ops s)\<rparr>)"
    using assms(1) by (simp add: Projects_List_def io_step_def Let_def ps_def)
  have "project_fk s (mostSpecific ps d)"
  proof (cases "fold (more_specific d) ps None")
    case (Some b)
    then obtain k where "(k, b) \<in> set (project_rows s)" using fold_more_specific [of d ps None b] by (auto simp: ps_def)
    then have "has_key (project_rows s) (proj_id b)" using assms(2) by (force simp: has_key_def map_of_eq_None_iff)
    then show ?thesis by (simp add: mostSpecific_def Some project_fk_def)
  qed (simp add: mostSpecific_def project_fk_def)
  then show ?thesis using assms(3) unfolding classify_def list by (intro exI [of _ "mostSpecific ps d"]) simp
qed

lemma insert_loop_takes:
  assumes "threads_inv s" and "\<forall>n. \<not> fault s n" and "refs_ok s r" and "map_of (identities s) key = None"
    and "insert_loop tape r key s = (res, s')"
  shows "ground s' = ground s \<and> (id_tape s = [] \<longrightarrow> tape = [] \<longrightarrow> id_tape s' = [])
    \<and> (case res of Inl e \<Rightarrow> e = ErrStarved \<and> id_tape s' = [] | Inr r' \<Rightarrow> \<exists>i. r' = r\<lparr>thread_id := i\<rparr>)"
  using assms
proof (induction tape arbitrary: r s)
  case Nil
  then show ?case by (auto simp: ground_def)
next
  case (Cons sfx tape)
  define r1 where "r1 = r\<lparr>thread_id := thread_prefix @ sfx\<rparr>"
  define s1 where "s1 = s\<lparr>id_tape := tape\<rparr>"
  have c1: "core s1 = core s" "ground s1 = ground s" by (simp_all add: s1_def core_def ground_def)
  obtain x s2 where ins: "Threads_InsertObserved r1 key s1 = (x, s2)" by (cases "Threads_InsertObserved r1 key s1")
  have refs: "refs_ok s1 r1" using Cons.prems(3) refs_ground [OF c1(2), of r1] by (simp add: r1_def refs_ok_def)
  have free: "\<not> has_key (identity_rows s1) key"
    using Cons.prems(4) inv_identity_rows [OF Cons.prems(1), of key] by (simp add: s1_def has_key_def)
  have nf: "\<not> fault s1 n" for n using Cons.prems(2) by (simp add: s1_def)
  have x: "x = Inr True \<or> x = Inr False \<and> core s2 = core s1" and g2: "ground s2 = ground s1"
    using ins refs free nf
    by (auto simp: Threads_InsertObserved_def io_step_def Let_def refs_ok_def project_fk_def terminal_fk_def core_def ground_def
        split: if_splits option.splits)
  show ?case
  proof (cases "x = Inr True")
    case True
    then show ?thesis using Cons.prems(5) ins g2 c1(2) by (auto simp: r1_def s1_def Let_def ground_def)
  next
    case False
    then have x: "x = Inr False" "core s2 = core s1" using x by blast+
    have rest: "insert_loop tape r1 key s2 = (res, s')"
      using Cons.prems(5) ins x(1) by (simp add: r1_def s1_def Let_def)
    have "threads_inv s2" "map_of (identities s2) key = None" "refs_ok s2 r1" "\<forall>n. \<not> fault s2 n"
      using Cons.prems(1,4) threads_inv_core [of s2 s] x(2) c1 core_components [of s2 s] refs refs_ground [OF g2, of r1] g2 nf
      by (auto simp: ground_def)
    from Cons.IH [OF this(1,4,3,2) rest] show ?thesis using g2 c1(2) by (auto simp: r1_def split: sum.splits)
  qed
qed

lemma observe_unknown:
  assumes inv: "threads_inv s" and sound: "sound_world s" and run: "ObserveExternal canon obs s = (res, s')"
    and t3: "eo_integration obs = t3_ID" and id: "map_of (identities s) (t3_ID, eo_provider obs) = None"
  shows "ground s' = ground s \<and>
    (case res of
       Inl e \<Rightarrow> ((\<exists>d. e = ErrNoLocalDirectory d) \<and> id_tape s' = id_tape s \<or> (\<forall>d. e \<noteq> ErrNoLocalDirectory d) \<and> id_tape s' = [])
                \<and> view s' = view s \<and> identities s' = identities s \<and> held s' = held s
     | Inr i \<Rightarrow> (\<exists>r. map_of (view s) i = None \<and> view s' = AList.update i r (view s) \<and> \<not> archived r \<and> refs_ok s r
                     \<and> integration_id r = t3_ID)
                \<and> identities s' = AList.update (t3_ID, eo_provider obs) i (identities s)
                \<and> held s' = List.insert i (held s) \<and> (id_tape s = [] \<longrightarrow> id_tape s' = []))"
proof -
  obtain at s1 where at: "observed_at (eo_at obs) s = (at, s1)" by (cases "observed_at (eo_at obs) s")
  have c1: "core s1 = core s" "ground s1 = ground s" "id_tape s1 = id_tape s"
    using core_observed_at [of "eo_at obs" s] ground_world(4) [of "eo_at obs" s] at
    by (auto simp: at observed_at_def now_def split: if_splits)
  note v1 = core_components [OF c1(1)]
  have inv1: "threads_inv s1" using inv threads_inv_core [OF c1(1)] by simp
  have nf1: "\<forall>n. \<not> fault s1 n" "\<forall>(k, p) \<in> set (project_rows s1). proj_id p = k"
    using sound c1(2) by (simp_all add: sound_world_def ground_def)
  define st where "st = (if eo_status obs = ThreadNone then ThreadUnknown else eo_status obs)"
  have cr: "createExternal canon obs st at s1 = (res, s')"
    using run id v1 t3 by (simp add: ObserveExternal_def at Let_def st_def)
  show ?thesis
  proof (cases "if eo_directory obs = '''' then None else canon (eo_directory obs)")
    case None
    then show ?thesis using cr c1 v1 by (auto simp: createExternal_def)
  next
    case (Some canonical)
    obtain cl s2 where cl: "classify canonical s1 = (cl, s2)" by (cases "classify canonical s1")
    note c2 = classify_ground [OF cl]
    from classify_takes [OF nf1 cl] obtain p where p: "cl = Inr p" "project_fk s1 p" by blast
    define r0 where "r0 = external_record obs canonical p at"
    obtain r1 c s3 where ap: "applyStatus r0 st (eo_detail obs) (eo_turn obs) at True s2 = (r1, c, s3)"
      by (metis prod_cases3)
    obtain fresh where r1: "r1 = fst (apply_evidence fresh r0 st (eo_detail obs) (eo_turn obs) at True)"
      and c3: "core s3 = core s2" using applyStatus_result [OF ap] by auto
    have g3: "ground s3 = ground s2" "id_tape s3 = id_tape s2"
      using ap by (auto simp: applyStatus_def newLong_def Let_def forgetPrior_def ground_def split: prod.splits if_splits)
    define r2 where "r2 = fst (applyMetadata r1 (eo_metadata obs))"
    have r2: "\<not> archived r2" "project_id r2 = p" "terminal_id r2 = None" "integration_id r2 = t3_ID"
      by (simp_all add: r2_def r1 r0_def external_record_def applyMetadata_def Let_def t3)
    have wf: "wf_thread r2" unfolding r2_def r1 r0_def
      by (intro applyMetadata_wf apply_evidence_wf external_record_wf)
    have core3: "core s3 = core s" using c3 c2 c1(1) by simp
    have inv3: "threads_inv s3" using inv threads_inv_core [OF core3] by simp
    have gr: "ground s3 = ground s" "id_tape s3 = id_tape s" using g3 c2 c1 by simp_all
    have refs: "refs_ok s r2" "refs_ok s3 r2"
      using p(2) r2(2,3) c1(2) refs_ground [OF gr(1), of r2] refs_ground [OF c1(2), of r2]
      by (simp_all add: refs_ok_def terminal_fk_def)
    have nf3: "\<forall>n. \<not> fault s3 n" using sound gr(1) by (simp add: sound_world_def ground_def)
    have idn: "map_of (identities s3) (t3_ID, eo_provider obs) = None" using id core_components [OF core3] by simp
    obtain x s4 where ins: "insert_thread r2 (t3_ID, eo_provider obs) s3 = (x, s4)"
      by (cases "insert_thread r2 (t3_ID, eo_provider obs) s3")
    note took = insert_loop_takes [OF inv3 nf3 refs(2) idn ins [unfolded insert_thread_def]]
    note out = insert_thread_outcome [OF inv3 wf r2(1) _ ins, simplified r2(4) fst_conv, OF refl]
    note v3 = core_components [OF core3]
    have run': "createExternal canon obs st at s1 =
        (case x of Inl e \<Rightarrow> (Inl e, s4)
         | Inr r \<Rightarrow> (Inr (thread_id r), Publish EventThreadCreated thread_resource (thread_id r) (hold (thread_id r) s4)))"
      using Some by (simp add: createExternal_def cl p(1) ap [unfolded r0_def] Let_def r2_def [symmetric] t3 ins)
    show ?thesis
    proof (cases x)
      case (Inl e)
      have "\<forall>d. e \<noteq> ErrNoLocalDirectory d"
        using took Inl by simp
      moreover have "res = Inl e" "s' = s4" using cr run' Inl by simp_all
      ultimately show ?thesis using out took Inl v3 gr by simp
    next
      case (Inr r)
      then obtain i where r: "r = r2\<lparr>thread_id := i\<rparr>" using took by auto
      have "res = Inr i" "s' = Publish EventThreadCreated thread_resource i (hold i s4)" using cr run' Inr r by simp_all
      moreover have "refs_ok s r" using refs(1) r by (simp add: refs_ok_def)
      moreover have "map_of (view s) i = None" "view s4 = AList.update i r (view s)"
          "identities s4 = AList.update (t3_ID, eo_provider obs) i (identities s)" "held s4 = held s"
        using out Inr v3 r by auto
      ultimately show ?thesis using took Inr gr r2 r by (auto simp: Publish_def hold_def ground_def)
    qed
  qed
qed

text \<open>What archiving leaves.\<close>

lemma archive_run:
  assumes inv: "threads_inv s" and sound: "sound_world s" and run: "ArchiveExternalThread t3_ID p s = (e, s')"
  shows "identities s' = identities s \<and> ground s' = ground s \<and> id_tape s' = id_tape s
    \<and> (case map_of (identities s) (t3_ID, p) of
         None \<Rightarrow> view s' = view s \<and> held s' = held s
       | Some i \<Rightarrow> (\<exists>r. map_of (view s') i = Some r \<and> archived r \<and> refs_ok s r \<and> integration_id r = t3_ID)
                  \<and> (\<forall>j. j \<noteq> i \<longrightarrow> map_of (view s') j = map_of (view s) j) \<and> held s' = removeAll i (held s))"
proof (cases "map_of (identities s) (t3_ID, p)")
  case None
  then show ?thesis using run by (simp add: ArchiveExternalThread_def)
next
  case (Some i)
  then obtain r0 where r0: "map_of (view s) i = Some r0" using inv_identity_view [OF inv] by blast
  have t3r: "integration_id r0 = t3_ID"
    using inv_keys_integration [OF inv r0, of "(t3_ID, p)"] inv_keys [OF inv, of _ i] Some by simp
  have refs0: "refs_ok s r0" and nf: "\<forall>n. \<not> fault s n" using sound r0 t3r by (auto simp: sound_world_def)
  obtain r1 co where cr: "coerceRecord r0 = (r1, co)" by (cases "coerceRecord r0")
  have o1: "same_origin r0 r1" "project_id r1 = project_id r0" "terminal_id r1 = terminal_id r0"
    using coerceRecord_keeps [of r0] by (simp_all add: cr)
  have t3r1: "integration_id r1 = t3_ID" "thread_id r1 = thread_id r0" using o1 t3r by (simp_all add: same_origin_def)
  have refs1: "refs_ok s r1" using refs0 o1 by (simp add: refs_ok_def)
  show ?thesis
  proof (cases "archived r1 \<and> \<not> co")
    case True
    then have "r1 = r0" using coerceRecord_unchanged [of r0] cr by simp
    moreover have "s' = release i s" using run Some r0 cr True by (simp add: ArchiveExternalThread_def Let_def)
    ultimately show ?thesis using Some r0 True refs1 t3r1 by (simp add: release_def ground_def)
  next
    case False
    obtain r2 s1 where p1: "(if archived r1 then (r1, s)
        else let (t, s) = now s in (r1\<lparr>archived := True, archived_at := Some t\<rparr>, s)) = (r2, s1)" by (metis prod.exhaust)
    have r2: "archived r2" "project_id r2 = project_id r1" "terminal_id r2 = terminal_id r1" "integration_id r2 = t3_ID"
        "thread_id r2 = thread_id r0" and c1: "core s1 = core s" "ground s1 = ground s" "id_tape s1 = id_tape s"
      using p1 t3r1 by (auto simp: now_def core_def ground_def split: if_splits)
    obtain t s2 where n: "now s1 = (t, s2)" by (cases "now s1")
    have c2: "core s2 = core s" "ground s2 = ground s" "id_tape s2 = id_tape s"
      using core_now [of s1] ground_world(1) [of s1] c1 n by (auto simp: now_def)
    define r where "r = r2\<lparr>updated_at := t\<rparr>"
    have r: "archived r" "refs_ok s r" "integration_id r = t3_ID" "thread_id r = i"
      using r2 refs1 inv_view_id [OF inv r0] by (simp_all add: r_def refs_ok_def)
    obtain res s3 where up: "Threads_Update r s2 = (res, s3)" by (cases "Threads_Update r s2")
    have "map_of (thread_rows s2) i \<noteq> None" using inv_rows_dom [OF inv, of i] r0 core_components [OF c2(1)] by simp
    then have took: "res = Inr True" "id_tape s3 = id_tape s2"
      using Threads_Update_takes [of s2 r] nf c2 r refs_ground [OF c2(2), of r] by (simp_all add: up ground_def)
    have g3: "ground s3 = ground s" using ground_world(8) [of r s2] c2 by (simp add: up)
    have v3: "view s3 = view s" "identities s3 = identities s" "held s3 = held s"
      using up core_components [OF c2(1)] by (auto simp: Threads_Update_def Let_def io_step_def split: if_splits option.splits)
    have "s' = publish_thread True i (release i (put_view r s3))"
      using run by (simp only: ArchiveExternalThread_def Some r0 option.case cr prod.case Let_def if_not_P [OF False]
          p1 [unfolded Let_def] n r_def [symmetric] up took sum.case if_True prod.inject simp_thms)
    then show ?thesis
      using Some r0 r v3 g3 took c2
      by (simp add: publish_thread_def Publish_def release_def put_view_def has_key_def ground_def)
  qed
qed

subsection \<open>Shown and hidden threads\<close>

definition shown :: "string \<Rightarrow> 'a thread_svc_scheme \<Rightarrow> bool" where
  "shown p s \<longleftrightarrow>
     (\<exists>i r. map_of (identities s) (t3_ID, p) = Some i \<and> map_of (view s) i = Some r \<and> \<not> archived r \<and> i \<in> set (held s))"

definition hidden :: "string \<Rightarrow> 'a thread_svc_scheme \<Rightarrow> bool" where
  "hidden p s \<longleftrightarrow>
     (\<forall>i r. map_of (identities s) (t3_ID, p) = Some i \<longrightarrow> map_of (view s) i = Some r \<longrightarrow> archived r)"

text \<open>An operation about one T3 thread: the others stay as they are, and a used-up supply of ids stays used up.\<close>

definition about :: "string \<Rightarrow> 'a thread_svc_scheme \<Rightarrow> 'a thread_svc_scheme \<Rightarrow> bool" where
  "about p s s' \<longleftrightarrow>
     threads_inv s' \<and> sound_world s'
     \<and> (\<forall>q. q \<noteq> p \<longrightarrow> shown q s' = shown q s \<and> hidden q s' = hidden q s
                     \<and> map_of (identities s') (t3_ID, q) = map_of (identities s) (t3_ID, q))
     \<and> (id_tape s = [] \<longrightarrow> id_tape s' = [])"

lemma other_thread:
  assumes "threads_inv s" and "map_of (identities s) k = Some i" and "map_of (identities s) k' = Some j" and "k \<noteq> k'"
  shows "i \<noteq> j"
  using assms inv_keys [OF assms(1)] by (metis option.inject)

lemma sound_ground:
  assumes "sound_world s" and "ground s' = ground s"
    and "\<And>i r. map_of (view s') i = Some r \<Longrightarrow> map_of (view s) i = Some r \<or> refs_ok s r"
  shows "sound_world s'"
proof -
  have "refs_ok s' r" if "map_of (view s') i = Some r" "integration_id r = t3_ID" for i r
    using assms(1,3) that refs_ground [OF assms(2), of r] by (metis sound_world_def)
  then show ?thesis using assms(1,2) by (simp add: sound_world_def ground_def)
qed

lemma archive_about:
  assumes inv: "threads_inv s" and sound: "sound_world s" and run: "ArchiveExternalThread t3_ID p s = (e, s')"
  shows "about p s s' \<and> hidden p s'"
proof -
  note a = archive_run [OF inv sound run]
  have inv': "threads_inv s'" using ArchiveExternalThread_inv [OF inv, of t3_ID p] by (simp add: run)
  show ?thesis
  proof (cases "map_of (identities s) (t3_ID, p)")
    case None
    have v: "view s' = view s" "held s' = held s" "identities s' = identities s" "ground s' = ground s" "id_tape s' = id_tape s"
      using a None by simp_all
    moreover have "sound_world s'" by (rule sound_ground [OF sound v(4)]) (simp add: v(1))
    ultimately show ?thesis using inv' None by (simp add: about_def shown_def hidden_def)
  next
    case (Some i)
    then obtain r where r: "map_of (view s') i = Some r" "archived r" "refs_ok s r"
      and v: "\<And>j. j \<noteq> i \<Longrightarrow> map_of (view s') j = map_of (view s) j" "held s' = removeAll i (held s)"
        "identities s' = identities s" "ground s' = ground s" "id_tape s' = id_tape s" using a by auto
    have "sound_world s'" by (rule sound_ground [OF sound v(4)]) (use r v(1) in \<open>metis option.inject\<close>)
    moreover have "j \<noteq> i" if "map_of (identities s) (t3_ID, q) = Some j" "q \<noteq> p" for q j
      using other_thread [OF inv that(1) Some] that(2) by simp
    then have "shown q s' = shown q s" "hidden q s' = hidden q s" if "q \<noteq> p" for q
      using that v by (fastforce simp: shown_def hidden_def)+
    ultimately show ?thesis using inv' v(3,5) Some r by (auto simp: about_def hidden_def)
  qed
qed

lemma about_same:
  assumes "core s' = core s" and "ground s' = ground s" and "id_tape s = [] \<longrightarrow> id_tape s' = []" and "threads_inv s" and "sound_world s"
  shows "about p s s'"
proof -
  note v = core_components [OF assms(1)]
  have "sound_world s'" by (rule sound_ground [OF assms(5,2)]) (simp add: v)
  then show ?thesis using threads_inv_core [OF assms(1)] assms(3,4) v by (simp add: about_def shown_def hidden_def)
qed

lemma about_trans:
  "about p s s1 \<Longrightarrow> about p s1 s2 \<Longrightarrow> about p s s2"
  by (auto simp: about_def)

lemma shown_core: "core s' = core s \<Longrightarrow> shown p s' = shown p s" and hidden_core: "core s' = core s \<Longrightarrow> hidden p s' = hidden p s"
  by (drule core_components; simp add: shown_def hidden_def)+

lemma observe_external_about:
  assumes inv: "threads_inv s" and sound: "sound_world s" and run: "ObserveExternal canon obs s = (res, s')"
    and t3: "eo_integration obs = t3_ID"
  shows "about (eo_provider obs) s s'
    \<and> (\<forall>e. res = Inl e \<longrightarrow> (\<exists>d. e = ErrNoLocalDirectory d) \<and> map_of (identities s') (t3_ID, eo_provider obs) = None
                         \<or> (\<forall>d. e \<noteq> ErrNoLocalDirectory d) \<and> id_tape s' = [])
    \<and> (\<forall>i. res = Inr i \<longrightarrow> shown (eo_provider obs) s')"
proof -
  let ?p = "eo_provider obs"
  have inv': "threads_inv s'" using ObserveExternal_outcome(1) [OF inv run] .
  have other: "shown q s' = shown q s \<and> hidden q s' = hidden q s"
    if q: "q \<noteq> ?p" and id: "map_of (identities s') (t3_ID, q) = map_of (identities s) (t3_ID, q)"
      and v: "\<And>j. map_of (identities s) (t3_ID, q) = Some j \<Longrightarrow> j \<noteq> i"
      and v': "view s' = AList.update i r (view s)" "held s' = List.insert i (held s)" for q i r
    using id v v' by (cases "map_of (identities s) (t3_ID, q)") (simp_all add: shown_def hidden_def)
  show ?thesis
  proof (cases "map_of (identities s) (t3_ID, ?p)")
    case (Some i)
    from observe_known [OF inv sound run t3 Some] obtain r
      where o: "res = Inr i" "identities s' = identities s" "held s' = List.insert i (held s)" "ground s' = ground s"
        "id_tape s' = id_tape s" "view s' = AList.update i r (view s)" "\<not> archived r" "refs_ok s r" by blast
    have "sound_world s'" by (rule sound_ground [OF sound o(4)]) (use o(6,8) in \<open>auto split: if_splits\<close>)
    moreover have "shown q s' = shown q s \<and> hidden q s' = hidden q s" if "q \<noteq> ?p" for q
      by (rule other [OF that _ _ o(6,3)]) (use o(2) other_thread [OF inv _ Some] that in auto)
    ultimately show ?thesis using inv' o Some by (simp add: about_def shown_def)
  next
    case None
    note u = observe_unknown [OF inv sound run t3 None]
    show ?thesis
    proof (cases res)
      case (Inl e)
      then have v: "view s' = view s" "identities s' = identities s" "held s' = held s" "ground s' = ground s"
          "(\<exists>d. e = ErrNoLocalDirectory d) \<and> id_tape s' = id_tape s \<or> (\<forall>d. e \<noteq> ErrNoLocalDirectory d) \<and> id_tape s' = []"
        using u by simp_all
      have snd: "sound_world s'" by (rule sound_ground [OF sound v(4)]) (simp add: v(1))
      have "shown q s' = shown q s" "hidden q s' = hidden q s" for q using v(1-3) by (simp_all add: shown_def hidden_def)
      moreover have "id_tape s = [] \<longrightarrow> id_tape s' = []"
        "(\<exists>d. e = ErrNoLocalDirectory d) \<or> (\<forall>d. e \<noteq> ErrNoLocalDirectory d) \<and> id_tape s' = []" using v(5) by metis+
      ultimately show ?thesis using inv' snd Inl v(2) None by (simp add: about_def)
    next
      case (Inr i)
      then obtain r where o: "map_of (view s) i = None" "view s' = AList.update i r (view s)" "\<not> archived r" "refs_ok s r"
          "identities s' = AList.update (t3_ID, ?p) i (identities s)" "held s' = List.insert i (held s)"
          "id_tape s = [] \<longrightarrow> id_tape s' = []" "ground s' = ground s" using u by auto
      have "sound_world s'" by (rule sound_ground [OF sound o(8)]) (use o(2,4) in \<open>auto split: if_splits\<close>)
      moreover have "shown q s' = shown q s \<and> hidden q s' = hidden q s" if "q \<noteq> ?p" for q
        by (rule other [OF that _ _ o(2,6)]) (use o(1,5) that inv_identity_view [OF inv] in fastforce)+
      ultimately show ?thesis using inv' o Inr by (simp add: about_def shown_def)
    qed
  qed
qed

lemma t3_fields:
  fixes s :: "'a t3_svc_scheme"
  assumes "thread_svc.more s' = thread_svc.more s"
  shows "t3_shell s' = t3_shell s" "t3_skipped s' = t3_skipped s" "t3_settled s' = t3_settled s" "t3_session s' = t3_session s"
    "t3_file s' = t3_file s" "t3_cli s' = t3_cli s" "t3_live s' = t3_live s" "t3_recovery s' = t3_recovery s" "t3_tasks s' = t3_tasks s"
    "t3_origin s' = t3_origin s" "t3_asks s' = t3_asks s"
  using assms by (cases s; cases s'; simp)+

lemma more_forget: "t3_shell (forget_t3 i s) = t3_shell s" "t3_settled (forget_t3 i s) = t3_settled s"
  "t3_skipped (forget_t3 i s) = AList.delete i (t3_skipped s)"
proof -
  define s1 where "s1 = s\<lparr>t3_skipped := AList.delete i (t3_skipped s)\<rparr>"
  have "thread_svc.more (forget_t3 i s) = thread_svc.more s1" by (simp add: forget_t3_def s1_def)
  from t3_fields [OF this] show "t3_shell (forget_t3 i s) = t3_shell s" "t3_settled (forget_t3 i s) = t3_settled s"
    "t3_skipped (forget_t3 i s) = AList.delete i (t3_skipped s)" by (simp_all add: s1_def)
qed

lemma forget_about:
  assumes "threads_inv s" and "sound_world s"
  shows "about i s (forget_t3 i s) \<and> hidden i (forget_t3 i s)"
proof -
  define s1 where "s1 = s\<lparr>t3_skipped := AList.delete i (t3_skipped s)\<rparr>"
  have "about i s s1" by (rule about_same [OF _ _ _ assms]) (simp_all add: s1_def core_def ground_def)
  moreover obtain e s2 where a: "ArchiveExternalThread t3_ID i s1 = (e, s2)" by (cases "ArchiveExternalThread t3_ID i s1")
  moreover have "about i s1 s2 \<and> hidden i s2"
    by (rule archive_about [OF _ _ a]) (use \<open>about i s s1\<close> in \<open>simp_all add: about_def\<close>)
  ultimately show ?thesis using about_trans by (simp add: forget_t3_def s1_def) blast
qed

text \<open>One observation of the mirror.\<close>

lemma observe_t3_about:
  assumes inv: "threads_inv s" and sound: "sound_world s"
  shows "about (th_id t) s (observe_t3 canon t p s) \<and> t3_shell (observe_t3 canon t p s) = t3_shell s
    \<and> (settled_shell t \<longrightarrow> hidden (th_id t) (observe_t3 canon t p s))
    \<and> (\<not> settled_shell t \<longrightarrow> shown (th_id t) (observe_t3 canon t p s)
         \<or> has_key (t3_skipped (observe_t3 canon t p s)) (th_id t)
           \<and> map_of (identities (observe_t3 canon t p s)) (t3_ID, th_id t) = None
         \<or> id_tape (observe_t3 canon t p s) = [])
    \<and> (\<forall>q. q \<noteq> th_id t \<longrightarrow> has_key (t3_skipped (observe_t3 canon t p s)) q = has_key (t3_skipped s) q)"
proof (cases "settled_shell t")
  case True
  define s1 where "s1 = s\<lparr>t3_settled := List.insert (th_id t) (t3_settled s)\<rparr>"
  have a: "about (th_id t) s s1" by (rule about_same [OF _ _ _ inv sound]) (simp_all add: s1_def core_def ground_def)
  then have "about (th_id t) s1 (forget_t3 (th_id t) s1) \<and> hidden (th_id t) (forget_t3 (th_id t) s1)"
    by (intro forget_about) (simp_all add: about_def)
  moreover have "observe_t3 canon t p s = forget_t3 (th_id t) s1" using True by (simp add: observe_t3_def s1_def)
  ultimately show ?thesis using True about_trans [OF a] by (simp add: more_forget s1_def has_key_def)
next
  case False
  define s1 where "s1 = s\<lparr>t3_settled := removeAll (th_id t) (t3_settled s)\<rparr>"
  obtain at s2 where n: "now s1 = (at, s2)" by (cases "now s1")
  have m2: "thread_svc.more s2 = thread_svc.more s1" using more_world(1) [of s1] by (simp add: n)
  have a2: "about (th_id t) s s2" using n
    by (intro about_same [OF _ _ _ inv sound]) (auto simp: s1_def core_def ground_def now_def)
  obtain res s3 where o: "ObserveExternal canon (shell_observation t p at) s2 = (res, s3)"
    by (cases "ObserveExternal canon (shell_observation t p at) s2")
  have ids: "eo_integration (shell_observation t p at) = t3_ID" "eo_provider (shell_observation t p at) = th_id t"
    by (simp_all add: shell_observation_def Let_def)
  have inv2: "threads_inv s2" "sound_world s2" using a2 by (simp_all add: about_def)
  have m3: "thread_svc.more s3 = thread_svc.more s2"
    using more_world(7) [of canon "shell_observation t p at" s2] by (simp add: o)
  note f3 = t3_fields [OF m3] t3_fields [OF m2]
  note ob = observe_external_about [OF inv2 o ids(1), unfolded ids(2)]
  have a3: "about (th_id t) s s3" using about_trans [OF a2] ob by blast
  note run = observe_t3_def [of canon t p s, unfolded if_not_P [OF False], folded s1_def, simplified Let_def n prod.case o]
  show ?thesis
  proof (cases res)
    case (Inl e)
    show ?thesis
    proof (cases "\<exists>d. e = ErrNoLocalDirectory d")
      case True
      then obtain d where e: "e = ErrNoLocalDirectory d" by blast
      define s4 where "s4 = s3\<lparr>t3_skipped := AList.update (th_id t)
        (''workspace '' @ ps_root p @ '': no usable local directory: '' @ d) (t3_skipped s3)\<rparr>"
      have "observe_t3 canon t p s = s4" using e Inl run by (auto simp: s4_def)
      moreover have "about (th_id t) s3 s4"
        by (rule about_same) (use a3 in \<open>simp_all add: s4_def core_def ground_def about_def\<close>)
      moreover have "map_of (identities s4) (t3_ID, th_id t) = None" using ob Inl True by (auto simp: s4_def)
      ultimately show ?thesis using False about_trans [OF a3] f3 by (simp add: s4_def s1_def has_key_def)
    next
      case no: False
      then have "observe_t3 canon t p s = s3" using Inl run by (cases e) auto
      then show ?thesis using False a3 f3 ob Inl no by (auto simp: s1_def has_key_def)
    qed
  next
    case (Inr i)
    define s4 where "s4 = s3\<lparr>t3_skipped := AList.delete (th_id t) (t3_skipped s3)\<rparr>"
    define s5 where "s5 = (if i \<noteq> '''' then recoverResponse i (th_id t) (eo_turn (shell_observation t p at)) s4 else s4)"
    have run5: "observe_t3 canon t p s = s5" using Inr run by (simp add: s5_def s4_def)
    have f5: "core s5 = core s3" "ground s5 = ground s3" "id_tape s5 = id_tape s3" "t3_shell s5 = t3_shell s4" "t3_skipped s5 = t3_skipped s4"
      by (auto simp: s5_def s4_def recoverResponse_def core_def ground_def split: option.split)
    have "about (th_id t) s3 s5"
      by (rule about_same) (use a3 f5 in \<open>simp_all add: about_def\<close>)
    moreover have "shown (th_id t) s5" using ob Inr shown_core [OF f5(1)] by blast
    ultimately show ?thesis using False about_trans [OF a3] f5 f3 by (simp add: run5 s4_def s1_def has_key_def)
  qed
qed

subsection \<open>A pass over the copy\<close>

text \<open>How ATC stands to a thread of the copy, or to one it lacks, after a pass.\<close>

definition stands :: "(string \<times> thread_shell) list \<Rightarrow> string \<Rightarrow> 'a t3_svc_scheme \<Rightarrow> bool" where
  "stands ts q s \<longleftrightarrow>
     (case map_of ts q of
        None \<Rightarrow> True
      | Some t \<Rightarrow>
          if settled_shell t then hidden q s
          else shown q s \<or> has_key (t3_skipped s) q \<and> map_of (identities s) (t3_ID, q) = None \<or> id_tape s = [])"

definition visit_t3 :: "(string \<Rightarrow> string option) \<Rightarrow> string \<Rightarrow> 'a t3_svc_scheme \<Rightarrow> 'a t3_svc_scheme" where
  "visit_t3 canon i s =
     (case map_of (sl_threads (t3_shell s)) i of
        None \<Rightarrow> s | Some t \<Rightarrow> observe_t3 canon t (project_of t (t3_shell s)) s)"

definition own_keys :: "(string \<times> thread_shell) list \<Rightarrow> bool" where
  "own_keys ts \<longleftrightarrow> (\<forall>i t. map_of ts i = Some t \<longrightarrow> th_id t = i)"

lemma stands_about: "about p s s' \<Longrightarrow> q \<noteq> p \<Longrightarrow> (has_key (t3_skipped s') q = has_key (t3_skipped s) q) \<Longrightarrow> stands ts q s \<Longrightarrow> stands ts q s'"
  by (cases "map_of ts q") (auto simp: stands_def about_def)

lemma visit_t3_run:
  assumes "threads_inv s" and "sound_world s" and "own_keys (sl_threads (t3_shell s))"
  shows "about i s (visit_t3 canon i s) \<and> t3_shell (visit_t3 canon i s) = t3_shell s
    \<and> stands (sl_threads (t3_shell s)) i (visit_t3 canon i s)
    \<and> (\<forall>q. q \<noteq> i \<longrightarrow> has_key (t3_skipped (visit_t3 canon i s)) q = has_key (t3_skipped s) q)"
proof (cases "map_of (sl_threads (t3_shell s)) i")
  case None
  have "about i s s" by (rule about_same [OF refl refl _ assms(1,2)]) simp
  then show ?thesis by (simp add: visit_t3_def None stands_def)
next
  case (Some t)
  then have "th_id t = i" using assms(3) by (simp add: own_keys_def)
  then show ?thesis
    using observe_t3_about [OF assms(1,2), of t canon "project_of t (t3_shell s)"] by (simp add: visit_t3_def Some stands_def)
qed

lemma visits_run:
  assumes "distinct is" and "threads_inv s" and "sound_world s" and "own_keys (sl_threads (t3_shell s))"
    and "s' = fold (visit_t3 canon) is s"
  shows "threads_inv s' \<and> sound_world s' \<and> t3_shell s' = t3_shell s \<and> (id_tape s = [] \<longrightarrow> id_tape s' = [])
    \<and> (\<forall>q \<in> set is. stands (sl_threads (t3_shell s)) q s')
    \<and> (\<forall>q. q \<notin> set is \<longrightarrow> (stands (sl_threads (t3_shell s)) q s \<longrightarrow> stands (sl_threads (t3_shell s)) q s')
          \<and> hidden q s' = hidden q s \<and> has_key (t3_skipped s') q = has_key (t3_skipped s) q)"
  using assms
proof (induction "is" arbitrary: s)
  case Nil
  then show ?case by simp
next
  case (Cons i rest)
  define s1 where "s1 = visit_t3 canon i s"
  note v = visit_t3_run [OF Cons.prems(2-4), of i canon, folded s1_def]
  have inv1: "threads_inv s1" "sound_world s1" "own_keys (sl_threads (t3_shell s1))" using v Cons.prems(4) by (simp_all add: about_def)
  have "distinct rest" and i: "i \<notin> set rest" using Cons.prems(1) by simp_all
  note ih = Cons.IH [OF this(1) inv1]
  have s': "s' = fold (visit_t3 canon) rest s1" using Cons.prems(5) by (simp add: s1_def)
  have sh: "t3_shell s1 = t3_shell s" using v by blast
  show ?case
    using ih [OF s'] v i stands_about [of i s s1] unfolding sh by (auto simp: about_def)
qed

lemma forgets_run:
  assumes "threads_inv s" and "sound_world s" and "s' = fold forget_t3 is s"
  shows "threads_inv s' \<and> sound_world s' \<and> t3_shell s' = t3_shell s \<and> (id_tape s = [] \<longrightarrow> id_tape s' = [])
    \<and> (\<forall>q. q \<in> set is \<or> hidden q s \<longrightarrow> hidden q s')
    \<and> (\<forall>q. q \<notin> set is \<longrightarrow> (stands ts q s \<longrightarrow> stands ts q s'))"
  using assms
proof (induction "is" arbitrary: s)
  case Nil
  then show ?case by simp
next
  case (Cons i rest)
  define s1 where "s1 = forget_t3 i s"
  have f: "about i s s1" "hidden i s1" using forget_about [OF Cons.prems(1,2), of i] by (simp_all add: s1_def)
  have m: "t3_shell s1 = t3_shell s" "has_key (t3_skipped s1) q = has_key (t3_skipped s) q" if "q \<noteq> i" for q
    using that by (simp_all add: s1_def more_forget has_key_def)
  have inv1: "threads_inv s1" "sound_world s1" "id_tape s = [] \<longrightarrow> id_tape s1 = []" using f by (simp_all add: about_def)
  have s': "s' = fold forget_t3 rest s1" using Cons.prems(3) by (simp add: s1_def)
  have sh: "t3_shell s1 = t3_shell s" by (simp add: s1_def more_forget)
  have hid: "hidden q s1" if "hidden q s \<or> q = i" for q using f that by (cases "q = i") (auto simp: about_def)
  have st: "stands ts q s1" if "q \<noteq> i" "stands ts q s" for q using stands_about [OF f(1) that(1) _ that(2)] m(2) [OF that(1)] by blast
  show ?case using Cons.IH [OF inv1(1,2) s'] inv1(3) hid st sh by auto
qed

lemma unarchived_listed:
  assumes inv: "threads_inv s" and q: "\<not> hidden q s"
  shows "q \<in> set (UnarchivedProviderIDs t3_ID s)"
proof -
  obtain i r where i: "map_of (identities s) (t3_ID, q) = Some i" "map_of (view s) i = Some r" "\<not> archived r"
    using q by (auto simp: hidden_def)
  have k: "map_of (keys s) i = Some (t3_ID, q)" using inv_keys [OF inv, of "(t3_ID, q)" i] i(1) by simp
  moreover have "integration_id r = t3_ID" using inv_keys_integration [OF inv i(2) k] by simp
  ultimately show ?thesis
    using map_of_in_set [OF i(2)] i(3)
    by (auto simp: UnarchivedProviderIDs_def List.map_filter_def image_iff intro!: bexI [of _ "(i, r)"])
qed

lemma index_by_keys: "own_keys (index_by th_id ts)" and index_by_distinct: "distinct (map fst (index_by key xs))"
proof -
  have "own_keys m \<Longrightarrow> own_keys (AList.update (th_id x) x m)" for m x by (simp add: own_keys_def)
  then have "own_keys m \<Longrightarrow> own_keys (fold (\<lambda>x m. AList.update (th_id x) x m) ts m)" for m
    by (induction ts arbitrary: m) simp_all
  moreover have "own_keys []" by (simp add: own_keys_def)
  ultimately show "own_keys (index_by th_id ts)" by (simp add: index_by_def)
  have "distinct (map fst m) \<Longrightarrow> distinct (map fst (fold (\<lambda>x m. AList.update (key x) x m) xs m))" for m
    by (induction xs arbitrary: m) simp_all
  then show "distinct (map fst (index_by key xs))" by (simp add: index_by_def)
qed

lemma snapshot_run:
  assumes inv: "threads_inv s" and sound: "sound_world s" and run: "applySnapshot canon n s = (None, s')"
  defines "ts \<equiv> index_by th_id (the (sn_threads n))"
  shows "threads_inv s' \<and> (\<forall>p. stands ts p s') \<and> (\<forall>p. map_of ts p = None \<longrightarrow> hidden p s') \<and> sl_threads (t3_shell s') = ts"
proof -
  define s1 where "s1 = s\<lparr>t3_shell := \<lparr>sl_initialized = True, sl_sequence = the (sn_sequence n),
    sl_projects = index_by ps_id (the (sn_projects n)), sl_threads = ts\<rparr>, t3_skipped := [], t3_settled := []\<rparr>"
  define keys1 where "keys1 = sort (map fst ts)"
  define s2 where "s2 = fold (visit_t3 canon) keys1 s1"
  define gone where "gone = filter (\<lambda>i. \<not> has_key ts i) (UnarchivedProviderIDs t3_ID s2)"
  have "about p s s1" for p by (rule about_same [OF _ _ _ inv sound]) (simp_all add: s1_def core_def ground_def)
  then have inv1: "threads_inv s1" "sound_world s1" by (simp_all add: about_def)
  have sh1: "sl_threads (t3_shell s1) = ts" by (simp add: s1_def)
  have "reconcile_t3 canon s1 = s2"
    by (simp add: reconcile_t3_def s2_def keys1_def sh1 visit_t3_def [abs_def] fun_eq_iff)
  then have s': "s' = fold forget_t3 gone s2"
    using run unfolding applySnapshot_def Let_def ts_def [symmetric] s1_def [symmetric] gone_def
    by (auto split: option.splits)
  have own: "own_keys (sl_threads (t3_shell s1))" by (simp add: sh1 ts_def index_by_keys)
  have d: "distinct keys1" "set keys1 = fst ` set ts" by (simp_all add: keys1_def ts_def index_by_distinct)
  note v = visits_run [OF d(1) inv1 own s2_def, unfolded sh1]
  have inv2: "threads_inv s2" "sound_world s2" using v by simp_all
  note f = forgets_run [OF inv2 s', of ts]
  have known: "p \<in> set keys1 \<longleftrightarrow> map_of ts p \<noteq> None" for p by (simp add: d(2) map_of_eq_None_iff)
  have stands2: "stands ts p s2" for p using v known [of p] by (cases "map_of ts p") (auto simp: stands_def)
  have "hidden p s'" if "map_of ts p = None" for p
    using unarchived_listed [OF inv2(1), of p] f that by (auto simp: gone_def has_key_def)
  moreover have "stands ts p s'" for p
    using f stands2 [of p] by (cases "map_of ts p") (auto simp: stands_def gone_def has_key_def)
  moreover have "sl_threads (t3_shell s') = ts" using f v sh1 by simp
  ultimately show ?thesis using f by simp
qed

subsection \<open>The copy over connections\<close>

lemma more_store_thread: "thread_svc.more (snd (store_thread r s)) = thread_svc.more s"
  using more_world(3) [of r s] more_world(4) [of r]
  by (cases "Threads_Update r s") (auto simp: store_thread_def split: sum.split)

lemma more_coerce: "thread_svc.more (snd (coerceInactive i s)) = thread_svc.more s"
proof (cases "map_of (view s) i")
  case None
  then show ?thesis by (simp add: coerceInactive_def)
next
  case (Some r)
  obtain r' c where cr: "coerceRecord r = (r', c)" by (cases "coerceRecord r")
  obtain t s1 where n: "now s = (t, s1)" by (cases "now s")
  have "snd (coerceInactive i s) = (if c then snd (store_thread (r'\<lparr>updated_at := t\<rparr>) s1) else s)"
    by (simp add: coerceInactive_def Some cr n split: prod.split sum.split bool.split)
  then show ?thesis using more_store_thread [of "r'\<lparr>updated_at := t\<rparr>" s1] more_world(1) [of s] by (simp add: n)
qed

lemma more_Release [simp]: "thread_svc.more (ReleaseIntegration integration s) = thread_svc.more s"
proof -
  have "thread_svc.more (release_each is s) = thread_svc.more s" for "is"
    by (induction "is" arbitrary: s) (simp_all add: Let_def case_prod_beta more_coerce)
  then show ?thesis by (simp add: ReleaseIntegration_def)
qed

lemma more_Respond [simp]: "thread_svc.more (snd (ObserveTurnResponse i p resp s)) = thread_svc.more s"
proof -
  have *: "thread_svc.more s1 = thread_svc.more s" if "persist r s = (e, s1)" for r e s1 and s :: "'a thread_svc_scheme"
    using that more_store_thread [of r s] by (auto simp: persist_def split: prod.splits sum.splits)
  then show ?thesis
    by (auto simp: ObserveTurnResponse_def Let_def now_def split: option.split prod.split dest!: *)
qed

definition creds ::
  "'a t3_svc_scheme \<Rightarrow> t3_session_record option \<times> session_file \<times> cli_call list \<times> t3_session_record list" where
  "creds s = (t3_session s, t3_file s, t3_cli s, t3_paired s)"

lemma creds_parts: "creds s' = creds s \<longleftrightarrow>
    t3_session s' = t3_session s \<and> t3_file s' = t3_file s \<and> t3_cli s' = t3_cli s \<and> t3_paired s' = t3_paired s"
  by (simp add: creds_def)

lemma more_parts:
  fixes s :: "'a t3_svc_scheme"
  assumes "thread_svc.more s' = thread_svc.more s"
  shows "t3_shell s' = t3_shell s" "creds s' = creds s" "t3_live s' = t3_live s"
  using assms by (cases s; cases s'; simp add: creds_def)+

lemma steady_parts [simp]:
  "t3_shell (snd (ask f s)) = t3_shell s" "creds (snd (ask f s)) = creds s"
  "t3_shell (snd (ask_cli c f s)) = t3_shell s"
  "t3_shell (setState_t3 st d s) = t3_shell s" "creds (setState_t3 st d s) = creds s"
  "t3_shell (release_t3 s) = t3_shell s" "creds (release_t3 s) = creds s"
  "t3_shell (snd (discover env s)) = t3_shell s" "creds (snd (discover env s)) = creds s"
  "t3_shell (snd (now s)) = t3_shell s" "creds (snd (now s)) = creds s"
  "t3_shell (snd (describe_t3 env origin s)) = t3_shell s" "creds (snd (describe_t3 env origin s)) = creds s"
  "t3_shell (snd (websocketTicket env origin tok s)) = t3_shell s" "creds (snd (websocketTicket env origin tok s)) = creds s"
  "t3_shell (snd (loadSession env s)) = t3_shell s" "creds (snd (loadSession env s)) = creds s"
  "t3_shell (snd (saveSession x s)) = t3_shell s"
  using more_parts [OF more_Release [of t3_ID s]]
  by (simp_all add: ask_def ask_cli_def setState_t3_def now_def Publish_def release_t3_def discover_def describe_t3_def
      websocketTicket_def loadSession_def saveSession_def io_step_def Let_def creds_def
      split: runtime_file.split sum.split)

lemma steady_revoke [simp]: "t3_shell (revoke env x s) = t3_shell s"
  by (simp add: revoke_def split: option.split)

lemma steady_pair [simp]: "t3_shell (snd (pair env origin s)) = t3_shell s"
  by (auto simp: pair_def findSession_def ask_def ask_cli_def Let_def split: sum.splits t3_error.splits prod.splits)

lemma steady_ensure [simp]: "t3_shell (snd (ensure_session env origin repaired s)) = t3_shell s"
proof -
  have *: "t3_shell s1 = t3_shell s" if "pair env origin s = (x, s1)" for x s1
    using steady_pair [of env origin s] by (simp add: that)
  have **: "t3_shell s2 = t3_shell s1" if "saveSession x s1 = (b, s2)" for x b and s1 s2 :: "'a t3_svc_scheme"
    using steady_parts(18) [of x s1] by (simp add: that)
  show ?thesis
    by (auto simp: ensure_session_def split: option.split sum.split prod.split bool.split dest!: * **)
qed

lemma steady_ticket: "ticket_loop env origin repaired s = (x, s') \<Longrightarrow> t3_shell s' = t3_shell s"
proof (induction env origin repaired s arbitrary: x s' rule: ticket_loop.induct)
  case (1 env origin repaired s)
  obtain y s1 where en: "ensure_session env origin repaired s = (y, s1)" by (cases "ensure_session env origin repaired s")
  have s1: "t3_shell s1 = t3_shell s" using steady_ensure [of env origin repaired s] by (simp add: en)
  show ?case
  proof (cases y)
    case (Inl e)
    then show ?thesis using 1(2) s1 by (simp add: ticket_loop.simps [of env origin repaired s] en)
  next
    case (Inr z)
    obtain se rep where z: "z = (se, rep)" by (cases z)
    obtain a s2 where ti: "websocketTicket env origin (t3s_token se) s1 = (a, s2)"
      by (cases "websocketTicket env origin (t3s_token se) s1")
    have s2: "t3_shell s2 = t3_shell s" using steady_parts(14) [of env origin "t3s_token se" s1] s1 by (simp add: ti)
    note step = 1(2) [unfolded ticket_loop.simps [of env origin repaired s], simplified en Inr z ti prod.case sum.case]
    show ?thesis
    proof (cases a)
      case (Inr t)
      then show ?thesis using step s2 by simp
    next
      case (Inl e)
      show ?thesis
      proof (cases "\<exists>body. e = HttpError 401 body \<and> \<not> rep")
        case True
        then obtain body where e: "e = HttpError 401 body" and rep: "\<not> rep" by blast
        have "ticket_loop env origin False (revoke env (Some se) (s2\<lparr>t3_session := None\<rparr>)) = (x, s')"
          using step Inl e rep by simp
        then show ?thesis
          using 1(1) [OF en [symmetric] \<open>y = Inr z\<close> z [symmetric] ti [symmetric] Inl e refl rep] s2 by simp
      next
        case False
        then show ?thesis using step s2 Inl by (cases e) (auto simp: scopeRefused_def split: if_splits)
      qed
    qed
  qed
qed

lemma steady_settle [simp]: "t3_shell (settle_session env s) = t3_shell s"
proof -
  obtain x s2 where l: "loadSession env s = (x, s2)" by (cases "loadSession env s")
  have "t3_shell s2 = t3_shell s" using steady_parts(16) [of env s] by (simp add: l)
  then show ?thesis by (cases "t3_session s"; cases x) (simp_all add: settle_session_def Let_def l)
qed

lemma steady_connect: "connect_t3 env r s = (x, s') \<Longrightarrow> t3_shell s' = t3_shell s"
proof -
  assume run: "connect_t3 env r s = (x, s')"
  obtain y s1 where d: "describe_t3 env (rt_origin r) s = (y, s1)" by (cases "describe_t3 env (rt_origin r) s")
  have s1: "t3_shell s1 = t3_shell s" using steady_parts(12) [of env "rt_origin r" s] by (simp add: d)
  obtain z s2 where t: "ticket_loop env (rt_origin r) False (settle_session env s1) = (z, s2)"
    by (cases "ticket_loop env (rt_origin r) False (settle_session env s1)")
  have "t3_shell s2 = t3_shell s" using steady_ticket [OF t] s1 by simp
  then show ?thesis using run s1
    by (auto simp: connect_t3_def d t Let_def ask_def split: sum.splits if_splits option.splits)
qed

lemma run_end_shell: "t3_shell (run_end e s) = t3_shell s \<or> t3_shell (run_end e s) = empty_shell"
  by (cases e) (simp_all add: run_end_def Let_def case_prod_beta)

lemma run_begin_shell: "t3_shell (run_begin env s) = t3_shell s \<or> t3_shell (run_begin env s) = empty_shell"
proof -
  obtain d s1 where di: "discover env s = (d, s1)" by (cases "discover env s")
  have s1: "t3_shell s1 = t3_shell s" using steady_parts(8) [of env s] by (simp add: di)
  show ?thesis
  proof (cases d)
    case (Inl m)
    then show ?thesis by (simp add: run_begin_def di s1)
  next
    case (Inr r)
    define s2 where "s2 = (if t3_last s1 \<noteq> Some r then s1\<lparr>t3_last := Some r, t3_retry_at := 0\<rparr> else s1)"
    have s2: "t3_shell s2 = t3_shell s" by (simp add: s2_def s1)
    obtain at s3 where n: "now s2 = (at, s3)" by (cases "now s2")
    obtain started s4 where n': "now s3 = (started, s4)" by (cases "now s3")
    have s4: "t3_shell s3 = t3_shell s" "t3_shell s4 = t3_shell s"
      using steady_parts(10) [of s2] steady_parts(10) [of s3] s2 by (simp_all add: n n')
    obtain x s5 where co: "connect_t3 env r (s4\<lparr>t3_started := started\<rparr>) = (x, s5)"
      by (cases "connect_t3 env r (s4\<lparr>t3_started := started\<rparr>)")
    have s5: "t3_shell s5 = t3_shell s" using steady_connect [OF co] s4 by simp
    have "run_begin env s = (if at < t3_retry_at s3 then s3 else (case x of Some e \<Rightarrow> run_end e s5 | None \<Rightarrow> s5))"
      using co by (simp add: run_begin_def di Inr Let_def s2_def [symmetric] n n' split: option.split)
    then show ?thesis using s4 s5 run_end_shell [of _ s5] by (auto split: option.split)
  qed
qed

lemma observe_keeps [simp]: "t3_shell (observe_t3 canon t p s) = t3_shell s" "creds (observe_t3 canon t p s) = creds s"
proof -
  have f: "creds (forget_t3 i s) = creds s" for i and s :: "'a t3_svc_scheme"
  proof -
    define s1 where "s1 = s\<lparr>t3_skipped := AList.delete i (t3_skipped s)\<rparr>"
    have "thread_svc.more (forget_t3 i s) = thread_svc.more s1" by (simp add: forget_t3_def s1_def)
    from more_parts(2) [OF this] show ?thesis by (simp add: s1_def creds_def)
  qed
  have r: "t3_shell (recoverResponse i q x s) = t3_shell s" "creds (recoverResponse i q x s) = creds s" for i q x and s :: "'a t3_svc_scheme"
    by (auto simp: recoverResponse_def creds_def split: option.split)
  define s1 where "s1 = s\<lparr>t3_settled := removeAll (th_id t) (t3_settled s)\<rparr>"
  obtain at s2 where n: "now s1 = (at, s2)" by (cases "now s1")
  obtain res s3 where o: "ObserveExternal canon (shell_observation t p at) s2 = (res, s3)"
    by (cases "ObserveExternal canon (shell_observation t p at) s2")
  have "t3_shell s3 = t3_shell s \<and> creds s3 = creds s"
    using more_parts [OF more_world(7) [of canon "shell_observation t p at" s2]] more_parts [OF more_world(1) [of s1]]
    by (simp add: n o) (simp add: s1_def creds_def)
  then have g: "t3_shell s3 = t3_shell s" "t3_session s3 = t3_session s" "t3_file s3 = t3_file s" "t3_cli s3 = t3_cli s" "t3_paired s3 = t3_paired s"
    by (simp_all add: creds_def)
  have run: "\<not> settled_shell t \<Longrightarrow> observe_t3 canon t p s =
      (case res of
         Inl e \<Rightarrow> (case e of ErrNoLocalDirectory d \<Rightarrow>
                    s3\<lparr>t3_skipped := AList.update (th_id t) (''workspace '' @ ps_root p @ '': no usable local directory: '' @ d) (t3_skipped s3)\<rparr>
                  | _ \<Rightarrow> s3)
       | Inr i \<Rightarrow> (let s4 = s3\<lparr>t3_skipped := AList.delete (th_id t) (t3_skipped s3)\<rparr>
                   in if i \<noteq> '''' then recoverResponse i (th_id t) (eo_turn (shell_observation t p at)) s4 else s4))"
    by (simp add: observe_t3_def Let_def s1_def [symmetric] n o)
  show "t3_shell (observe_t3 canon t p s) = t3_shell s"
  proof (cases "settled_shell t")
    case True
    then show ?thesis by (simp add: observe_t3_def more_forget)
  next
    case False
    show ?thesis unfolding run [OF False] using g(1) by (cases res; cases "projl res") (simp_all add: Let_def r)
  qed
  show "creds (observe_t3 canon t p s) = creds s"
  proof (cases "settled_shell t")
    case True
    then show ?thesis by (simp add: observe_t3_def f) (simp add: creds_def)
  next
    case False
    show ?thesis unfolding run [OF False] using g by (cases res; cases "projl res") (simp_all add: Let_def r, simp_all add: creds_def)
  qed
qed

lemma reconcile_keeps [simp]: "t3_shell (reconcile_t3 canon s) = t3_shell s" "creds (reconcile_t3 canon s) = creds s"
proof -
  have v: "t3_shell (visit_t3 canon i s) = t3_shell s \<and> creds (visit_t3 canon i s) = creds s" for i and s :: "'a t3_svc_scheme"
    by (simp add: visit_t3_def split: option.split)
  have "t3_shell (fold (visit_t3 canon) is s) = t3_shell s \<and> creds (fold (visit_t3 canon) is s) = creds s" for "is" and s :: "'a t3_svc_scheme"
    by (induction "is" arbitrary: s) (simp_all add: v)
  then show "t3_shell (reconcile_t3 canon s) = t3_shell s" "creds (reconcile_t3 canon s) = creds s"
    by (simp_all add: reconcile_t3_def visit_t3_def [abs_def])
qed

text \<open>What a new event does to the copy.\<close>

definition shell_change :: "shell_event \<Rightarrow> shell_state \<Rightarrow> shell_state" where
  "shell_change e sh =
     (let sh = (if se_kind e = ''project-upserted''
                then sh\<lparr>sl_projects := AList.update (ps_id (the (se_project e))) (the (se_project e)) (sl_projects sh)\<rparr>
                else if se_kind e = ''project-removed'' then sh\<lparr>sl_projects := AList.delete (se_project_id e) (sl_projects sh)\<rparr>
                else if se_kind e = ''thread-upserted''
                then sh\<lparr>sl_threads := AList.update (th_id (the (se_thread e))) (the (se_thread e)) (sl_threads sh)\<rparr>
                else sh\<lparr>sl_threads := AList.delete (se_thread_id e) (sl_threads sh)\<rparr>)
      in sh\<lparr>sl_sequence := the (se_sequence e)\<rparr>)"

lemma applyEvent_shell:
  assumes "applyEvent canon e s = (None, s')" and "se_kind e \<in> set change_kinds"
  shows "sl_initialized (t3_shell s) \<and>
    t3_shell s' = (if the (se_sequence e) \<le> sl_sequence (t3_shell s) then t3_shell s else shell_change e (t3_shell s))"
  using assms
  by (auto simp: applyEvent_def shell_change_def change_kinds_def Let_def more_forget split: if_splits option.splits)

lemma decodeEvent_kind:
  "decodeEvent (Some e) = Inr e' \<Longrightarrow>
     e' = e \<and> (se_kind e = ''snapshot'' \<or> se_kind e = ''synchronized'' \<or> se_kind e \<in> set change_kinds)"
  by (auto simp: decodeEvent_def refusal_def split: if_splits option.splits)

lemma item_shell:
  assumes run: "handle_item canon (Some e) s = (None, s')" and live: "t3_live s \<noteq> None" and kind: "se_kind e \<noteq> ''snapshot''"
  shows "sl_initialized (t3_shell s) \<and>
    t3_shell s' = (if se_kind e = ''synchronized'' \<or> the (se_sequence e) \<le> sl_sequence (t3_shell s) then t3_shell s
                   else shell_change e (t3_shell s))
    \<and> (se_kind e = ''synchronized'' \<or> se_kind e \<in> set change_kinds)"
proof -
  obtain rp est where l: "t3_live s = Some (rp, est)" using live by auto
  have set: "t3_shell (case t3_live s1 of Some (r, True) \<Rightarrow> setState_t3 Connected (detail_of (t3_origin s1) s1) s1 | _ \<Rightarrow> s1) = t3_shell s1"
    for s1 :: "'a t3_svc_scheme" by (auto split: option.split bool.split)
  obtain e' where d: "decodeEvent (Some e) = Inr e'"
    using run l by (cases "decodeEvent (Some e)") (simp_all add: handle_item_def)
  note k = decodeEvent_kind [OF d]
  show ?thesis
  proof (cases "se_kind e = ''synchronized''")
    case True
    then show ?thesis using run l d k set by (auto simp: handle_item_def Let_def split: if_splits)
  next
    case False
    obtain err s1 where ap: "applyEvent canon e s = (err, s1)" by (cases "applyEvent canon e s")
    have "err = None" "s' = (case t3_live s1 of Some (r, True) \<Rightarrow> setState_t3 Connected (detail_of (t3_origin s1) s1) s1 | _ \<Rightarrow> s1)"
      using run l d k kind False ap by (auto simp: handle_item_def Let_def split: option.splits)
    then show ?thesis using applyEvent_shell [of canon e s s1] ap k kind False set by auto
  qed
qed

lemma t3_step_shell:
  assumes "t3_step env canon ds s s'"
  shows "ds = [] \<and> (t3_shell s' = t3_shell s \<or> t3_shell s' = empty_shell)
    \<or> (\<exists>e. ds = [e] \<and> t3_live s \<noteq> None \<and> handle_item canon (Some e) s = (None, s'))"
proof -
  have task: "t3_shell (readResponse env k n s) = t3_shell s" for k n and s :: "'a t3_svc_scheme"
    by (induction n arbitrary: s)
       (auto simp: Let_def more_parts(1) [OF more_Respond] ask_def split: sum.split option.split)
  have event: "applyEvent canon e s = (Some x, s1) \<Longrightarrow> t3_shell s1 = t3_shell s" for e x s1 and s :: "'a t3_svc_scheme"
    by (auto simp: applyEvent_def Let_def split: if_splits option.splits)
  have snap: "applySnapshot canon n s = (Some x, s1) \<Longrightarrow> t3_shell s1 = t3_shell s" for n x s1 and s :: "'a t3_svc_scheme"
    by (auto simp: applySnapshot_def Let_def split: option.splits)
  have item: "handle_item canon i s = (Some x, s1) \<Longrightarrow> t3_shell s1 = t3_shell s" for i x s1 and s :: "'a t3_svc_scheme"
    by (auto simp: handle_item_def Let_def split: option.splits sum.splits if_splits prod.splits dest!: event snap)
  have dropped: "t3_shell (serve_drop env e s) = t3_shell s \<or> t3_shell (serve_drop env e s) = empty_shell" for e
  proof -
    obtain e1 s1 where se: "subscription_end env e s = (e1, s1)" by (cases "subscription_end env e s")
    have "t3_shell s1 = t3_shell s" using se by (cases e) (auto simp: subscription_end_def scopeRefused_def split: if_splits)
    then show ?thesis using run_end_shell [of e1 s1] by (simp add: serve_drop_def se)
  qed
  from assms show ?thesis
  proof (cases rule: t3_step.cases)
    case begins
    then show ?thesis using run_begin_shell [of env s] by simp
  next
    case (takes e)
    then show ?thesis by blast
  next
    case (refuses i e s1)
    then show ?thesis using run_end_shell [of e s1] item [of i s e s1] by simp
  next
    case (drops e)
    then show ?thesis using dropped by simp
  next
    case (recovers k)
    then show ?thesis by (simp add: run_task_def task)
  next
    case (prepares params d)
    then show ?thesis by (auto simp: PrepareThread_def turnStartCommand_def ask_def now_def Let_def split: option.split)
  next
    case (dispatches client command)
    then show ?thesis by (auto simp: dispatch_t3_def ask_def Let_def split: option.split t3_error.split)
  next
    case others
    then show ?thesis using more_parts(1) by blast
  next
    case restarts
    then show ?thesis by (simp add: restart_t3_def)
  qed
qed

subsection \<open>Resuming the stream\<close>

text \<open>
  Deliveries of a history: the next event, or one that was delivered before, as a resumed subscription repeats it. The
  count of events that have been delivered, \<^const>\<open>None\<close> for a delivery that skips one.
\<close>

fun delivers :: "shell_event list \<Rightarrow> nat \<Rightarrow> shell_event list \<Rightarrow> nat option" where
  "delivers h k [] = Some k"
| "delivers h k (e # es) =
     (if k < length h \<and> e = h ! k then delivers h (Suc k) es else if e \<in> set (take k h) then delivers h k es else None)"

abbreviation seq_of :: "shell_event \<Rightarrow> 64 word" where "seq_of e \<equiv> the (se_sequence e)"

definition changes :: "shell_event list \<Rightarrow> shell_event list" where
  "changes es = filter (\<lambda>e. se_kind e \<noteq> ''synchronized'') es"

lemma delivers_append: "delivers h k (xs @ ys) = (case delivers h k xs of None \<Rightarrow> None | Some k' \<Rightarrow> delivers h k' ys)"
  by (induction h k xs rule: delivers.induct) auto

lemma delivers_bound: "delivers h k es = Some k' \<Longrightarrow> k \<le> length h \<Longrightarrow> k' \<le> length h"
  by (induction h k es rule: delivers.induct) (auto split: if_splits)

lemma shell_change_seq [simp]: "sl_sequence (shell_change e sh) = seq_of e"
  by (simp add: shell_change_def Let_def)

definition history_from :: "shell_state \<Rightarrow> shell_event list \<Rightarrow> bool" where
  "history_from sh h \<longleftrightarrow> sorted_wrt (\<lambda>a b. seq_of a < seq_of b) h \<and> (\<forall>e \<in> set h. sl_sequence sh < seq_of e)"

lemma history_seq:
  assumes "history_from sh h" and "k \<le> length h"
  shows "sl_sequence (fold shell_change (take k h) sh) = (if k = 0 then sl_sequence sh else seq_of (h ! (k - 1)))"
  using assms(2) by (cases k) (simp_all add: take_Suc_conv_app_nth)

lemma history_repeat:
  assumes h: "history_from sh h" and k: "k \<le> length h" and e: "e \<in> set (take k h)"
  shows "seq_of e \<le> sl_sequence (fold shell_change (take k h) sh)"
proof -
  obtain j where j: "j < k" "e = h ! j" using e k by (auto simp: in_set_conv_nth)
  then have "seq_of e \<le> seq_of (h ! (k - 1))"
  proof (cases "j = k - 1")
    case False
    then have "seq_of (h ! j) < seq_of (h ! (k - 1))"
      using h j k unfolding history_from_def by (auto simp: sorted_wrt_iff_nth_less)
    then show ?thesis using j by simp
  qed (simp add: j)
  then show ?thesis using history_seq [OF h k] j by simp
qed

lemma history_next:
  assumes h: "history_from sh h" and k: "k < length h"
  shows "sl_sequence (fold shell_change (take k h) sh) < seq_of (h ! k)"
proof (cases k)
  case 0
  then show ?thesis using h k by (simp add: history_from_def)
next
  case (Suc j)
  then have "seq_of (h ! j) < seq_of (h ! k)" using h k unfolding history_from_def by (auto simp: sorted_wrt_iff_nth_less)
  then show ?thesis using history_seq [OF h, of k] Suc k by simp
qed

lemma run_copy:
  assumes "t3_run env canon es s s'" and "history_from (t3_shell s) h" and "\<forall>e \<in> set es. se_kind e \<noteq> ''snapshot''"
    and "delivers h 0 (changes es) = Some k" and "sl_initialized (t3_shell s')"
  shows "t3_shell s' = fold shell_change (take k h) (t3_shell s)"
  using assms
proof (induction arbitrary: k rule: t3_run.induct)
  case (run_nil s)
  then show ?case by (simp add: changes_def)
next
  case (run_step es s s1 ds s2)
  obtain k1 where k1: "delivers h 0 (changes es) = Some k1" and k: "delivers h k1 (changes ds) = Some k"
    using run_step.prems(3) by (auto simp: changes_def delivers_append split: option.splits)
  note ih = run_step.IH [OF run_step.prems(1) _ k1] 
  have ns: "\<forall>e \<in> set es. se_kind e \<noteq> ''snapshot''" "\<forall>e \<in> set ds. se_kind e \<noteq> ''snapshot''" using run_step.prems(2) by simp_all
  have b: "k1 \<le> length h" using delivers_bound [OF k1] by simp
  from t3_step_shell [OF run_step.hyps(2)] show ?case
  proof (elim disjE exE conjE)
    assume "ds = []" "t3_shell s2 = t3_shell s1"
    then show ?thesis using ih ns(1) run_step.prems(4) k by (simp add: changes_def)
  next
    assume "ds = []" "t3_shell s2 = empty_shell"
    then show ?thesis using run_step.prems(4) by (simp add: empty_shell_def)
  next
    fix e assume ds: "ds = [e]" and live: "t3_live s1 \<noteq> None" and it: "handle_item canon (Some e) s1 = (None, s2)"
    have nse: "se_kind e \<noteq> ''snapshot''" using ns(2) ds by simp
    note sh = item_shell [OF it live nse]
    then have s1: "t3_shell s1 = fold shell_change (take k1 h) (t3_shell s)" using ih ns(1) by blast
    show ?thesis
    proof (cases "se_kind e = ''synchronized''")
      case True
      then show ?thesis using sh s1 k ds by (simp add: changes_def)
    next
      case False
      show ?thesis
      proof (cases "k1 < length h \<and> e = h ! k1")
        case True
        then have "k = Suc k1" using k ds False by (simp add: changes_def)
        then show ?thesis
          using sh s1 True False history_next [OF run_step.prems(1), of k1] by (simp add: take_Suc_conv_app_nth not_le)
      next
        case no: False
        then have "e \<in> set (take k1 h)" "k = k1" using k ds False by (auto simp: changes_def split: if_splits)
        then show ?thesis using sh s1 history_repeat [OF run_step.prems(1) b] False by simp
      qed
    qed
  qed
qed

subsection \<open>Sessions in T3\<close>

text \<open>A session whose id is known is spent once its revocation has been asked for.\<close>

definition spent :: "'a t3_svc_scheme \<Rightarrow> t3_session_record \<Rightarrow> bool" where
  "spent s x \<longleftrightarrow> t3s_id x = '''' \<or> RevokeSession (t3s_id x) \<in> set (t3_cli s)"

definition sessions_inv :: "'a t3_svc_scheme \<Rightarrow> bool" where
  "sessions_inv s \<longleftrightarrow>
     (\<forall>x \<in> set (t3_paired s). spent s x \<or> t3_file s = SessionFile x)
     \<and> (\<forall>x \<in> set (t3_paired s). t3s_origin x \<noteq> '''' \<and> t3s_token x \<noteq> '''')
     \<and> (\<forall>x. t3_session s = Some x \<longrightarrow> t3_file s = SessionFile x)"

text \<open>While a session is being settled: without one, every session there was is spent.\<close>

definition settled_up :: "'a t3_svc_scheme \<Rightarrow> bool" where
  "settled_up s \<longleftrightarrow> sessions_inv s \<and> (t3_session s = None \<longrightarrow> (\<forall>x \<in> set (t3_paired s). spent s x))"

lemma sessions_creds: "creds s' = creds s \<Longrightarrow> sessions_inv s' = sessions_inv s" "creds s' = creds s \<Longrightarrow> settled_up s' = settled_up s"
  by (simp_all add: creds_parts sessions_inv_def settled_up_def spent_def)

lemma revoke_parts [simp]:
  "t3_session (revoke env x s) = t3_session s" "t3_file (revoke env x s) = t3_file s" "t3_paired (revoke env x s) = t3_paired s"
  "set (t3_cli (revoke env x s)) = set (t3_cli s) \<union> (case x of None \<Rightarrow> {} | Some x \<Rightarrow> if t3s_id x = '''' then {} else {RevokeSession (t3s_id x)})"
  by (auto simp: revoke_def ask_cli_def ask_def split: option.split)

text \<open>Retiring the session there is.\<close>

lemma retire_settling:
  assumes "sessions_inv s" and "t3_session s = Some x \<or> x' = None \<and> t3_session s = None \<and> settled_up s" and "t3_session s = Some x \<longrightarrow> x' = Some x"
  shows "settled_up ((revoke env x' s)\<lparr>t3_session := None\<rparr>)" "settled_up (revoke env x' (s\<lparr>t3_session := None\<rparr>))"
  using assms by (auto simp: settled_up_def sessions_inv_def spent_def)

lemma settle_settling:
  assumes inv: "sessions_inv s" and env: "\<forall>n. te_readable env n"
  shows "settled_up (settle_session env s)"
proof (cases "t3_session s")
  case (Some x)
  then show ?thesis
    using inv retire_settling(2) [of s x "Some x" env] by (auto simp: settle_session_def Let_def settled_up_def)
next
  case None
  obtain y s1 where l: "loadSession env s = (y, s1)" by (cases "loadSession env s")
  have c: "creds s1 = creds s" using steady_parts(17) [of env s] by (simp add: l)
  have y: "y = (case t3_file s of SessionFile x \<Rightarrow> if t3s_origin x = '''' \<or> t3s_token x = '''' then None else Some x | _ \<Rightarrow> None)"
    using l env by (auto simp: loadSession_def ask_def Let_def)
  have inv1: "sessions_inv (s1\<lparr>t3_session := y\<rparr>)"
    using inv c y by (auto simp: sessions_inv_def spent_def creds_parts split: session_file.splits if_splits)
  show ?thesis
  proof (cases y)
    case None
    have "\<forall>x \<in> set (t3_paired s). spent s x"
      using inv y None by (auto simp: sessions_inv_def split: session_file.splits if_splits)
    then have "settled_up (s1\<lparr>t3_session := y\<rparr>)" using inv1 c by (simp add: settled_up_def spent_def creds_parts)
    then show ?thesis using None \<open>t3_session s = None\<close> by (simp add: settle_session_def Let_def l)
  next
    case (Some x)
    then show ?thesis
      using inv1 retire_settling(2) [of "s1\<lparr>t3_session := y\<rparr>" x "Some x" env] \<open>t3_session s = None\<close>
      by (auto simp: settle_session_def Let_def l settled_up_def)
  qed
qed

lemma pair_run:
  assumes "pair env origin s = (res, s')" and "origin \<noteq> ''''"
  shows "t3_session s' = t3_session s \<and> t3_file s' = t3_file s \<and> set (t3_cli s) \<subseteq> set (t3_cli s')
    \<and> (case res of Inl e \<Rightarrow> t3_paired s' = t3_paired s
       | Inr x \<Rightarrow> t3_paired s' = t3_paired s @ [x] \<and> t3s_origin x \<noteq> '''' \<and> t3s_token x \<noteq> '''')"
  using assms
  by (auto simp: pair_def findSession_def ask_def ask_cli_def Let_def split: sum.splits t3_error.splits if_splits prod.splits)

lemma ensure_settling:
  assumes set: "settled_up s" and run: "ensure_session env origin repaired s = (res, s')" and o: "origin \<noteq> ''''"
  shows "settled_up s' \<and> (case res of Inl e \<Rightarrow> True | Inr (x, r) \<Rightarrow> t3_session s' = Some x)"
proof (cases "t3_session s")
  case (Some x)
  then show ?thesis using set run by (auto simp: ensure_session_def)
next
  case None
  obtain y s1 where p: "pair env origin s = (y, s1)" by (cases "pair env origin s")
  note pr = pair_run [OF p o]
  have sp: "\<forall>x \<in> set (t3_paired s). spent s1 x" using set None pr by (auto simp: settled_up_def spent_def)
  have us: "\<forall>x \<in> set (t3_paired s). t3s_origin x \<noteq> '''' \<and> t3s_token x \<noteq> ''''" using set by (simp add: settled_up_def sessions_inv_def)
  show ?thesis
  proof (cases y)
    case (Inl e)
    then show ?thesis using run None p pr sp us by (auto simp: ensure_session_def settled_up_def sessions_inv_def)
  next
    case (Inr x)
    obtain ok s2 where sv: "saveSession x s1 = (ok, s2)" by (cases "saveSession x s1")
    have s2: "t3_session s2 = t3_session s1" "t3_cli s2 = t3_cli s1" "t3_paired s2 = t3_paired s1"
        "t3_file s2 = (if ok then SessionFile x else t3_file s1)"
      using sv by (auto simp: saveSession_def io_step_def Let_def split: if_splits)
    show ?thesis
    proof (cases ok)
      case True
      then have "res = Inr (x, True)" "s' = s2\<lparr>t3_session := Some x\<rparr>" using run None p Inr sv by (simp_all add: ensure_session_def)
      then show ?thesis using s2 True pr Inr sp us by (auto simp: settled_up_def sessions_inv_def spent_def)
    next
      case False
      then have "s' = revoke env (Some x) s2" "res = Inl (AuthError ''persisting the T3 Code session'')" using run None p Inr sv by (simp_all add: ensure_session_def)
      then show ?thesis using s2 False pr Inr sp us None by (auto simp: settled_up_def sessions_inv_def spent_def)
    qed
  qed
qed

lemma ticket_settling:
  "settled_up s \<Longrightarrow> origin \<noteq> '''' \<Longrightarrow> ticket_loop env origin repaired s = (res, s') \<Longrightarrow> settled_up s'"
proof (induction env origin repaired s arbitrary: res s' rule: ticket_loop.induct)
  case (1 env origin repaired s)
  obtain y s1 where en: "ensure_session env origin repaired s = (y, s1)" by (cases "ensure_session env origin repaired s")
  note s1 = ensure_settling [OF 1(2) en 1(3)]
  show ?case
  proof (cases y)
    case (Inl e)
    then show ?thesis using 1(4) s1 by (simp add: ticket_loop.simps [of env origin repaired s] en)
  next
    case (Inr z)
    obtain se rep where z: "z = (se, rep)" by (cases z)
    obtain a s2 where ti: "websocketTicket env origin (t3s_token se) s1 = (a, s2)"
      by (cases "websocketTicket env origin (t3s_token se) s1")
    have c2: "creds s2 = creds s1" using steady_parts(15) [of env origin "t3s_token se" s1] by (simp add: ti)
    have s2: "settled_up s2" "t3_session s2 = Some se" using s1 c2 Inr z sessions_creds(2) [OF c2] by (simp_all add: creds_parts)
    have inv2: "sessions_inv s2" using s2 by (simp add: settled_up_def)
    note ret = retire_settling [OF inv2, of se "Some se" env]
    note step = 1(4) [unfolded ticket_loop.simps [of env origin repaired s], simplified en Inr z ti prod.case sum.case]
    show ?thesis
    proof (cases a)
      case (Inr t)
      then show ?thesis using step s2 by simp
    next
      case (Inl e)
      show ?thesis
      proof (cases "\<exists>body. e = HttpError 401 body \<and> \<not> rep")
        case True
        then obtain body where e: "e = HttpError 401 body" and rep: "\<not> rep" by blast
        have "ticket_loop env origin False (revoke env (Some se) (s2\<lparr>t3_session := None\<rparr>)) = (res, s')"
          using step Inl e rep by simp
        then show ?thesis
          using 1(1) [OF en [symmetric] \<open>y = Inr z\<close> z [symmetric] ti [symmetric] Inl e refl rep] ret(2) s2 1(3) by simp
      next
        case False
        then show ?thesis using step s2 Inl ret(1) by (cases e) (auto simp: scopeRefused_def split: if_splits)
      qed
    qed
  qed
qed

lemma connect_sessions:
  assumes inv: "sessions_inv s" and env: "\<forall>n. te_readable env n" and o: "rt_origin r \<noteq> ''''" and run: "connect_t3 env r s = (x, s')"
  shows "sessions_inv s'"
proof -
  obtain y s1 where d: "describe_t3 env (rt_origin r) s = (y, s1)" by (cases "describe_t3 env (rt_origin r) s")
  have c1: "creds s1 = creds s" using steady_parts(13) [of env "rt_origin r" s] by (simp add: d)
  have inv1: "sessions_inv s1" using inv sessions_creds(1) [OF c1] by simp
  obtain z s2 where t: "ticket_loop env (rt_origin r) False (settle_session env s1) = (z, s2)"
    by (cases "ticket_loop env (rt_origin r) False (settle_session env s1)")
  have "settled_up s2" using ticket_settling [OF settle_settling [OF inv1 env] o t] .
  then have inv2: "sessions_inv s2" by (simp add: settled_up_def)
  have "creds s' = creds s1 \<or> creds s' = creds s2" using run
    by (auto simp: connect_t3_def d t Let_def ask_def creds_def split: sum.splits if_splits option.splits)
  then show ?thesis using sessions_creds(1) [of s' s1] sessions_creds(1) [of s' s2] inv1 inv2 by auto
qed

lemma run_end_creds [simp]: "creds (run_end e s) = creds s"
proof -
  have c: "creds (s\<lparr>t3_client := None, t3_live := None\<rparr>) = creds s" by (simp add: creds_def)
  have n: "creds (snd (now s1)\<lparr>t3_retry_at := a\<rparr>) = creds s1" "creds (snd (now s1)\<lparr>t3_backoff := a\<rparr>) = creds s1" for a and s1 :: "'a t3_svc_scheme"
    using steady_parts(11) [of s1] by (simp_all add: creds_def)
  have sh: "creds (s1\<lparr>t3_shell := empty_shell\<rparr>) = creds s1" for s1 :: "'a t3_svc_scheme" by (simp add: creds_def)
  show ?thesis by (cases e) (simp_all add: run_end_def Let_def case_prod_beta n sh c)
qed

lemma discover_origin: "discover env s = (Inr r, s') \<Longrightarrow> rt_origin r \<noteq> ''''"
  by (auto simp: discover_def ask_def Let_def split: runtime_file.splits if_splits)

lemma run_begin_sessions:
  assumes inv: "sessions_inv s" and env: "\<forall>n. te_readable env n"
  shows "sessions_inv (run_begin env s)"
proof -
  obtain d s1 where di: "discover env s = (d, s1)" by (cases "discover env s")
  have c1: "creds s1 = creds s" using steady_parts(9) [of env s] by (simp add: di)
  have inv1: "sessions_inv s1" using inv sessions_creds(1) [OF c1] by simp
  show ?thesis
  proof (cases d)
    case (Inl m)
    have "creds (release_t3 (setState_t3 Unavailable m s1)) = creds s1" by simp
    from sessions_creds(1) [OF this] show ?thesis using inv1 by (simp add: run_begin_def di Inl)
  next
    case (Inr r)
    define s2 where "s2 = (if t3_last s1 \<noteq> Some r then s1\<lparr>t3_last := Some r, t3_retry_at := 0\<rparr> else s1)"
    obtain at s3 where n: "now s2 = (at, s3)" by (cases "now s2")
    obtain started s4 where n': "now s3 = (started, s4)" by (cases "now s3")
    have c2: "creds s2 = creds s1" by (simp add: s2_def creds_def)
    have c4: "creds (s4\<lparr>t3_started := started\<rparr>) = creds s4" by (simp add: creds_def)
    have c3: "creds s3 = creds s1" "creds (s4\<lparr>t3_started := started\<rparr>) = creds s1"
      using steady_parts(11) [of s2] steady_parts(11) [of s3] c2 c4 by (simp_all add: n n')
    obtain x s5 where co: "connect_t3 env r (s4\<lparr>t3_started := started\<rparr>) = (x, s5)"
      by (cases "connect_t3 env r (s4\<lparr>t3_started := started\<rparr>)")
    have inv5: "sessions_inv s5"
      using connect_sessions [OF _ env discover_origin [OF di [unfolded Inr]] co] sessions_creds(1) [OF c3(2)] inv1 by simp
    have "run_begin env s = (if at < t3_retry_at s3 then s3 else (case x of Some e \<Rightarrow> run_end e s5 | None \<Rightarrow> s5))"
      using co by (simp add: run_begin_def di Inr Let_def s2_def [symmetric] n n' split: option.split)
    then show ?thesis
      using inv1 inv5 sessions_creds(1) [OF c3(1)] sessions_creds(1) [OF run_end_creds [of _ s5]] by (auto split: option.split)
  qed
qed

lemma item_creds: "handle_item canon item s = (x, s') \<Longrightarrow> creds s' = creds s"
proof -
  have f: "creds (forget_t3 i s) = creds s" for i and s :: "'a t3_svc_scheme"
  proof -
    define s1 where "s1 = s\<lparr>t3_skipped := AList.delete i (t3_skipped s)\<rparr>"
    have "thread_svc.more (forget_t3 i s) = thread_svc.more s1" by (simp add: forget_t3_def s1_def)
    from more_parts(2) [OF this] show ?thesis by (simp add: s1_def creds_def)
  qed
  have fold: "creds (fold forget_t3 is s) = creds s" for "is" and s :: "'a t3_svc_scheme"
    by (induction "is" arbitrary: s) (simp_all add: f)
  have upd: "creds (s\<lparr>t3_live := l\<rparr>) = creds s" "creds (s\<lparr>t3_shell := h\<rparr>) = creds s"
      "creds (s\<lparr>t3_shell := h, t3_skipped := k, t3_settled := m\<rparr>) = creds s"
      "creds (s\<lparr>t3_shell := h, t3_settled := m, t3_recovery := r\<rparr>) = creds s" for l h k m r and s :: "'a t3_svc_scheme"
    by (simp_all add: creds_def)
  have snap: "creds (snd (applySnapshot canon n s)) = creds s" for n and s :: "'a t3_svc_scheme"
    by (simp add: applySnapshot_def Let_def fold upd split: option.split)
  have event: "creds (snd (applyEvent canon e s)) = creds s" for e and s :: "'a t3_svc_scheme"
    by (auto simp: applyEvent_def Let_def f upd split: option.split)
  have snap': "applySnapshot canon n s = (y, s1) \<Longrightarrow> creds s1 = creds s" for n y s1 and s :: "'a t3_svc_scheme"
    using snap [of n s] by simp
  have event': "applyEvent canon e s = (y, s1) \<Longrightarrow> creds s1 = creds s" for e y s1 and s :: "'a t3_svc_scheme"
    using event [of e s] by simp
  assume "handle_item canon item s = (x, s')"
  then show ?thesis
    by (auto simp: handle_item_def Let_def upd split: option.splits sum.splits if_splits prod.splits bool.splits dest!: snap' event')
qed

lemma t3_step_sessions:
  assumes step: "t3_step env canon ds s s'" and env: "\<forall>n. te_readable env n" and inv: "sessions_inv s"
  shows "sessions_inv s'"
proof -
  have asks: "creds (s\<lparr>t3_asks := n\<rparr>) = creds s" for n and s :: "'a t3_svc_scheme" by (simp add: creds_def)
  have task: "creds (readResponse env k n s) = creds s" for k n and s :: "'a t3_svc_scheme"
    by (induction n arbitrary: s) (simp_all add: Let_def more_parts(2) [OF more_Respond] ask_def asks split: sum.split option.split)
  from step show ?thesis
  proof (cases rule: t3_step.cases)
    case begins
    then show ?thesis using run_begin_sessions [OF inv env] by simp
  next
    case (takes e)
    then show ?thesis using sessions_creds(1) [OF item_creds] inv by blast
  next
    case (refuses i e s1)
    then have "creds s' = creds s" using item_creds [of canon i s "Some e" s1] by simp
    then show ?thesis using sessions_creds(1) inv by blast
  next
    case (drops e)
    obtain e1 s1 where se: "subscription_end env e s = (e1, s1)" by (cases "subscription_end env e s")
    have "sessions_inv s1"
    proof (cases "creds s1 = creds s")
      case True
      then show ?thesis using sessions_creds(1) inv by blast
    next
      case False
      then have s1: "s1 = (revoke env (t3_session s) s)\<lparr>t3_session := None\<rparr>"
        using se by (cases e) (auto simp: subscription_end_def scopeRefused_def split: if_splits)
      show ?thesis using inv unfolding s1 by (auto simp: sessions_inv_def spent_def split: option.split)
    qed
    then show ?thesis using drops sessions_creds(1) [OF run_end_creds [of e1 s1]] by (simp add: serve_drop_def se)
  next
    case (recovers k)
    have "creds (run_task env k s) = creds s" by (simp add: run_task_def task) (simp add: creds_def)
    then show ?thesis using recovers sessions_creds(1) inv by blast
  next
    case (prepares params d)
    have "creds (snd (PrepareThread canon env params d s)) = creds s"
      by (auto simp: PrepareThread_def turnStartCommand_def ask_def now_def Let_def creds_def split: option.split)
    then show ?thesis using prepares sessions_creds(1) inv by blast
  next
    case (dispatches client command)
    have "creds (snd (dispatch_t3 env client command s)) = creds s"
      by (auto simp: dispatch_t3_def ask_def Let_def creds_def split: option.split t3_error.split)
    then show ?thesis using dispatches sessions_creds(1) inv by blast
  next
    case others
    then show ?thesis using sessions_creds(1) [OF more_parts(2)] inv by blast
  next
    case restarts
    then show ?thesis using inv by (simp add: restart_t3_def sessions_inv_def spent_def)
  qed
qed

subsection \<open>The mirror\<close>

text \<open>A process over a session file: the session in it, if any, is one that was paired.\<close>

definition first_boot :: "'a t3_svc_scheme \<Rightarrow> bool" where
  "first_boot s \<longleftrightarrow>
     t3_session s = None
     \<and> (\<forall>x \<in> set (t3_paired s). t3_file s = SessionFile x \<and> t3s_origin x \<noteq> '''' \<and> t3s_token x \<noteq> '''')"

interpretation mirror: machine first_boot "\<lambda>s s'. (\<forall>n. te_readable env n) \<and> (\<exists>ds. t3_step env canon ds s s')" sessions_inv for env canon
proof unfold_locales
  show "sessions_inv s" if "first_boot s" for s :: "'a t3_svc_scheme" using that by (simp add: first_boot_def sessions_inv_def)
  show "sessions_inv s'" if "sessions_inv s" and "(\<forall>n. te_readable env n) \<and> (\<exists>ds. t3_step env canon ds s s')"
    for s s' :: "'a t3_svc_scheme"
    using that t3_step_sessions by blast
qed

lemma t3_run_steps:
  "t3_run env canon es s s' \<Longrightarrow> \<forall>n. te_readable env n \<Longrightarrow>
     (\<lambda>s s'. (\<forall>n. te_readable env n) \<and> (\<exists>ds. t3_step env canon ds s s'))\<^sup>*\<^sup>* s s'"
  by (induction rule: t3_run.induct) (auto intro: rtranclp.rtrancl_into_rtrancl)

text \<open>
  C37. After a snapshot ATC shows exactly T3's active threads: as long as storage takes the writes and ids are left, a thread
  the snapshot lacks or has settled is archived here, and every other thread of the snapshot has an unarchived record that
  is held, or no record at all because its workspace has no directory on this machine.
\<close>

theorem snapshot_is_mirrored:
  assumes "reachable s" and "sound_world s" and "applySnapshot canon n s = (None, s')" and "id_tape s' \<noteq> []"
  shows "case map_of (index_by th_id (the (sn_threads n))) p of
           None \<Rightarrow> hidden p s'
         | Some t \<Rightarrow> if settled_shell t then hidden p s'
                     else shown p s' \<or> has_key (t3_skipped s') p \<and> map_of (identities s') (t3_ID, p) = None"
  using snapshot_run [OF reachable_threads_inv [OF assms(1)] assms(2,3)] assms(4)
  by (auto simp: stands_def split: option.splits if_splits)

text \<open>
  C38. A stream that drops and is resumed gives the copy an uninterrupted one gives: however often the subscription ends
  and repeats events it has sent, the copy is what the events delivered so far, each applied once and in order, make of
  it; unless T3 broke its protocol, when the copy is dropped until the next snapshot.
\<close>

theorem resumed_stream_is_exact:
  assumes "t3_run env canon es s s'" and "history_from (t3_shell s) h" and "\<forall>e \<in> set es. se_kind e \<noteq> ''snapshot''"
    and "delivers h 0 (changes es) = Some k" and "sl_initialized (t3_shell s')"
  shows "t3_shell s' = fold shell_change (take k h) (t3_shell s)"
  using assms by (rule run_copy)

text \<open>
  C39. A session ATC no longer uses is given back: provided the session file could be read whenever it was looked at, of the
  sessions ATC has paired, in this process or an earlier one, T3 has been asked to revoke every one whose id is known, except
  the one in the session file, which is the one in use. What is shown is the request: one that fails is only logged, so
  whether T3 carries it out is not part of the claim. A file that cannot be read is taken for one without a credential; the
  session it holds is then paired over without a request, which is why the hypothesis is needed.
\<close>

theorem sessions_do_not_accumulate:
  assumes "first_boot s0" and "t3_run env canon es s0 s" and "\<forall>n. te_readable env n" and "x \<in> set (t3_paired s)" and "t3s_id x \<noteq> ''''"
  shows "RevokeSession (t3s_id x) \<in> set (t3_cli s)
    \<or> t3_file s = SessionFile x \<and> (\<forall>y. t3_session s = Some y \<longrightarrow> y = x)"
proof -
  have "sessions_inv s" using mirror.reach_inv [OF assms(1) t3_run_steps [OF assms(2,3)]] .
  then show ?thesis using assms(4,5) by (auto simp: sessions_inv_def spent_def)
qed

subsection \<open>A concrete environment\<close>

definition t3_env0 :: t3_env where
  "t3_env0 =
     \<lparr>te_runtime = (\<lambda>n. RuntimeFile \<lparr>rt_pid = 7, rt_origin = ''o''\<rparr>), te_alive = (\<lambda>n p. True), te_descriptor = (\<lambda>n o1. Inr ''e''),
      te_readable = (\<lambda>n. True), te_grant = (\<lambda>n. Inr ''c''), te_exchange = (\<lambda>n o1 c. Inr (''new'', t3_scope)),
      te_sessions = (\<lambda>n. Inr [(''sid-old'', ''1'', ''atc''), (''sid-new'', ''2'', ''atc'')]),
      te_ticket = (\<lambda>n o1 tok. if tok = ''old'' then Inl (HttpError 401 '''') else Inr ''t''), te_parses = (\<lambda>o1. True),
      te_dial = (\<lambda>n t. None), te_call = (\<lambda>n c x. None), te_thread = (\<lambda>n o1 tok t. Inl (t3_error.OtherError '''')),
      te_uuid = (\<lambda>n. ''u'')\<rparr>"

definition old_session :: t3_session_record where
  "old_session = \<lparr>t3s_origin = ''o'', t3s_token = ''old'', t3s_label = ''atc'', t3s_id = ''sid-old'', t3s_scope = t3_scope\<rparr>"

definition t3_0 :: t3_svc where
  "t3_0 =
     \<lparr>clock = (\<lambda>n. 100 + int n), ticks = 0, fault = (\<lambda>n. False), io_ops = 0,
      id_tape = [''aaaaa'', ''bbbbb'', ''ccccc''], long_suffix = (\<lambda>n. replicate (Suc n) (CHR ''z'')), longs = 0,
      events_log = [], thread_rows = [], identity_rows = [], terminal_rows = [], space_rows = [],
      project_rows = [(''proj-1'', sample_project)], term_view = [], settling = [], space_view = [], default_space = '''',
      deleting_spaces = [], home_dir = ''/h'', reports = (\<lambda>i. NoReport),
      view = [], identities = [], keys = [], active = [], held = [], prior_status = [], in_flight = [],
      t3_asks = 0, t3_cli = [], t3_paired = [old_session], t3_file = SessionFile old_session, t3_session = None,
      t3_recovery = [], t3_tasks = [], t3_retry_at = 0, t3_last = None, t3_shell = empty_shell, t3_skipped = [],
      t3_settled = [], t3_state = Unavailable, t3_since = 0, t3_detail = '''', t3_origin = '''', t3_environment = '''',
      t3_client = None, t3_live = None, t3_started = 0, t3_backoff = t3_backoffMin\<rparr>"

definition shell_thread :: "string \<Rightarrow> string option \<Rightarrow> thread_shell" where
  "shell_thread i st =
     \<lparr>th_id = i, th_project = ''p'', th_title = ''t'', th_model = Some ''m'', th_worktree = Clear, th_session = None,
      th_approvals = Some False, th_input = Some False, th_liveness = None, th_turn = None, th_settled = st\<rparr>"

definition shell_event0 :: shell_event where
  "shell_event0 = \<lparr>se_kind = ''synchronized'', se_sequence = None, se_snapshot = None, se_project = None, se_project_id = '''',
     se_thread = None, se_thread_id = ''''\<rparr>"

definition snapshot0 :: shell_snapshot where
  "snapshot0 = \<lparr>sn_sequence = Some 5, sn_projects = Some [\<lparr>ps_id = ''p'', ps_root = ''/w''\<rparr>],
     sn_threads = Some [shell_thread ''a'' None, shell_thread ''b'' (Some ''settled'')]\<rparr>"

definition upsert :: "string \<Rightarrow> 64 word \<Rightarrow> shell_event" where
  "upsert i q = shell_event0\<lparr>se_kind := ''thread-upserted'', se_sequence := Some q, se_thread := Some (shell_thread i None)\<rparr>"

text \<open>Connected, with the snapshot; then a change, a drop, and the same change again before the next one.\<close>

definition t3_1 :: t3_svc where "t3_1 = run_begin t3_env0 t3_0"
definition t3_2 :: t3_svc where
  "t3_2 = snd (handle_item Some (Some (shell_event0\<lparr>se_kind := ''snapshot'', se_snapshot := Some snapshot0\<rparr>)) t3_1)"
definition t3_3 :: t3_svc where "t3_3 = snd (handle_item Some (Some (upsert ''c'' 6)) t3_2)"
definition t3_4 :: t3_svc where "t3_4 = serve_drop t3_env0 (t3_error.OtherError '''') t3_3"
definition t3_5 :: t3_svc where "t3_5 = run_begin t3_env0 t3_4"
definition t3_6 :: t3_svc where "t3_6 = snd (handle_item Some (Some (upsert ''c'' 6)) t3_5)"
definition t3_7 :: t3_svc where "t3_7 = snd (handle_item Some (Some (upsert ''b'' 7)) t3_6)"

definition takes_item :: "shell_event \<Rightarrow> t3_svc \<Rightarrow> bool" where
  "takes_item e s \<longleftrightarrow> \<not> Option.is_none (t3_live s) \<and> Option.is_none (fst (handle_item Some (Some e) s))"

definition copy_facts :: "t3_svc \<Rightarrow> t3_svc \<Rightarrow> bool" where
  "copy_facts s s' \<longleftrightarrow>
     sl_initialized (t3_shell s') \<and> map fst (sl_threads (t3_shell s')) = [''a'', ''b'', ''c'']
     \<and> history_from (t3_shell s) [upsert ''c'' 6, upsert ''b'' 7]"

definition snap_facts :: "t3_error option \<times> t3_svc \<Rightarrow> bool" where
  "snap_facts x \<longleftrightarrow> Option.is_none (fst x) \<and> id_tape (snd x) \<noteq> [] \<and> t3_skipped (snd x) = []"

definition pairing_facts :: "t3_svc \<Rightarrow> bool" where
  "pairing_facts s \<longleftrightarrow>
     old_session \<in> set (t3_paired s) \<and> t3_file s \<noteq> SessionFile old_session \<and> t3s_id (the (t3_session s)) = ''sid-new''"

lemma pairs_anew: "pairing_facts t3_1" by code_simp
lemma snap_taken: "snap_facts (applySnapshot Some snapshot0 t3_0)" by code_simp
lemma first_taken: "takes_item (upsert ''c'' 6) t3_2" by code_simp
lemma still_live: "\<not> Option.is_none (t3_live t3_3)" by code_simp
lemma dropped: "Option.is_none (t3_live t3_4)" by code_simp
lemma again_taken: "takes_item (upsert ''c'' 6) t3_5" by code_simp
lemma next_taken: "takes_item (upsert ''b'' 7) t3_6" by code_simp
lemma copy_kept: "copy_facts t3_2 t3_7" by code_simp

lemma takes_run:
  "takes_item e s \<Longrightarrow> t3_run env Some es s0 s \<Longrightarrow> t3_run env Some (es @ [e]) s0 (snd (handle_item Some (Some e) s))"
  by (rule run_step, assumption, rule t3_step.takes) (auto simp: takes_item_def Option.is_none_def prod_eq_iff)

text \<open>The run: a change, the stream dropped, a new connection, the same change again, another one.\<close>

lemma resumed_run: "t3_run t3_env0 Some [upsert ''c'' 6, upsert ''c'' 6, upsert ''b'' 7] t3_2 t3_7"
proof -
  have "t3_run t3_env0 Some [upsert ''c'' 6] t3_2 t3_3"
    using takes_run [OF first_taken run_nil] by (simp add: t3_3_def)
  then have "t3_run t3_env0 Some ([upsert ''c'' 6] @ []) t3_2 t3_4"
    unfolding t3_4_def by (rule run_step) (use still_live in \<open>auto simp: Option.is_none_def intro: t3_step.drops\<close>)
  then have "t3_run t3_env0 Some (([upsert ''c'' 6] @ []) @ []) t3_2 t3_5"
    unfolding t3_5_def by (rule run_step) (use dropped in \<open>auto simp: Option.is_none_def intro: t3_step.begins\<close>)
  then have "t3_run t3_env0 Some ((([upsert ''c'' 6] @ []) @ []) @ [upsert ''c'' 6]) t3_2 t3_6"
    unfolding t3_6_def by (rule takes_run [OF again_taken])
  then have "t3_run t3_env0 Some (((([upsert ''c'' 6] @ []) @ []) @ [upsert ''c'' 6]) @ [upsert ''b'' 7]) t3_2 t3_7"
    unfolding t3_7_def by (rule takes_run [OF next_taken])
  then show ?thesis by (simp only: append.simps)
qed

lemma t3_0_reachable: "reachable t3_0"
  unfolding reachable_def
  by (intro exI [of _ t3_0] conjI rtranclp.rtrancl_refl) (simp add: fresh_start_def t3_0_def)

definition t3_mirrored :: t3_svc where "t3_mirrored = snd (applySnapshot Some snapshot0 t3_0)"

lemma snapshot_is_mirrored_witness: "shown ''a'' t3_mirrored \<and> hidden ''b'' t3_mirrored \<and> hidden ''z'' t3_mirrored"
proof -
  have sound: "sound_world t3_0" by (simp add: sound_world_def t3_0_def sample_project_def)
  have run: "applySnapshot Some snapshot0 t3_0 = (None, t3_mirrored)" and ids: "id_tape t3_mirrored \<noteq> []"
    and sk: "t3_skipped t3_mirrored = []"
    using snap_taken by (auto simp: snap_facts_def Option.is_none_def prod_eq_iff t3_mirrored_def)
  have th: "map_of (index_by th_id (the (sn_threads snapshot0))) ''a'' = Some (shell_thread ''a'' None)"
    "map_of (index_by th_id (the (sn_threads snapshot0))) ''b'' = Some (shell_thread ''b'' (Some ''settled''))"
    "map_of (index_by th_id (the (sn_threads snapshot0))) ''z'' = None"
    "\<not> settled_shell (shell_thread ''a'' None)" "settled_shell (shell_thread ''b'' (Some ''settled''))"
    by code_simp+
  note mirrored = snapshot_is_mirrored [OF t3_0_reachable sound run ids]
  show ?thesis
    using mirrored [of "''a''"] mirrored [of "''b''"] mirrored [of "''z''"] unfolding th by (simp add: sk th(4,5) has_key_def)
qed

lemma resumed_stream_is_exact_witness:
  "t3_shell t3_7 = shell_change (upsert ''b'' 7) (shell_change (upsert ''c'' 6) (t3_shell t3_2))"
proof -
  have h: "delivers [upsert ''c'' 6, upsert ''b'' 7] 0 (changes [upsert ''c'' 6, upsert ''c'' 6, upsert ''b'' 7]) = Some 2"
    by code_simp
  have n: "\<forall>e \<in> set [upsert ''c'' 6, upsert ''c'' 6, upsert ''b'' 7]. se_kind e \<noteq> ''snapshot''" by code_simp
  show ?thesis
    using resumed_stream_is_exact [OF resumed_run _ n h] copy_kept by (simp add: copy_facts_def)
qed

lemma sessions_do_not_accumulate_witness:
  "RevokeSession ''sid-old'' \<in> set (t3_cli t3_1) \<and> t3s_id (the (t3_session t3_1)) = ''sid-new''"
proof -
  have b: "first_boot t3_0" by (simp add: first_boot_def t3_0_def old_session_def)
  have r: "t3_run t3_env0 Some [] t3_0 t3_1"
    using run_step [OF run_nil t3_step.begins [of t3_0]] by (simp add: t3_1_def t3_0_def)
  have f: "old_session \<in> set (t3_paired t3_1)" "t3_file t3_1 \<noteq> SessionFile old_session" "t3s_id (the (t3_session t3_1)) = ''sid-new''"
    using pairs_anew by (auto simp: pairing_facts_def)
  show ?thesis
    using sessions_do_not_accumulate [OF b r _ f(1)] f by (simp add: t3_env0_def old_session_def)
qed

end
