(* ===== verification/T3RpcProps.thy ===== *)
theory T3RpcProps
  imports T3Rpc Prelude
begin

text \<open>
  What the RPC client of the T3 Code Integration promises its callers: a request that is waited for is registered on a
  live connection or has its exit in its channel, and an exit, once there, is never replaced. The steps interleave the
  callers with the read loop; the 64-bit request counter is assumed not to wrap within one connection.
\<close>

declare map_of_eq_Some_iff [simp del] Some_eq_map_of_iff [simp del]

subsection \<open>Request ids\<close>

lemma decimal_ne: "decimal n \<noteq> []"
  by (subst decimal.simps) simp

lemma digit_eq: "m < 10 \<Longrightarrow> n < 10 \<Longrightarrow> (char_of (48 + m) = char_of (48 + n)) = (m = n)" for m n :: nat
  by (auto dest!: arg_cong [where f = "of_char :: char \<Rightarrow> nat"])

lemma decimal_inj: "decimal m = decimal n \<Longrightarrow> m = n"
proof (induction m arbitrary: n rule: less_induct)
  case (less m)
  show ?case
  proof (cases "m < 10 \<or> n < 10")
    case True
    then show ?thesis
      using less.prems decimal_ne [of "m div 10"] decimal_ne [of "n div 10"]
      by (auto simp: decimal.simps [of m] decimal.simps [of n] digit_eq split: if_splits)
  next
    case False
    then have "decimal (m div 10) = decimal (n div 10)" "m mod 10 = n mod 10"
      using less.prems by (simp_all add: decimal.simps [of m] decimal.simps [of n] digit_eq)
    then have "m div 10 = n div 10" using less.IH False by simp
    then show ?thesis using \<open>m mod 10 = n mod 10\<close> by (metis div_mult_mod_eq)
  qed
qed

text \<open>The request at address \<open>a\<close> was the \<open>a + 1\<close>st of its connection.\<close>

abbreviation id_at :: "nat \<Rightarrow> string" where "id_at a \<equiv> decimal (Suc a)"

lemma id_at_inj: "id_at a = id_at b \<Longrightarrow> a = b"
  using decimal_inj by blast

subsection \<open>Steps\<close>

text \<open>
  The second component holds the goroutines that wait, each with the address and the id of its request. A failed write, a
  caller that gives up and the end of a subscription all abandon the request.
\<close>

inductive rpc_step :: "rpc_client \<times> (nat \<times> string) set \<Rightarrow> rpc_client \<times> (nat \<times> string) set \<Rightarrow> bool" where
  sends: "unat (rp_next c) + 1 < 2 ^ 64 \<Longrightarrow> request_rpc streaming None c = (Inr (a, i), c') \<Longrightarrow> rpc_step (c, W) (c', insert (a, i) W)"
| gives_up: "(a, i) \<in> W \<Longrightarrow> rpc_step (c, W) (abandon i c, W - {(a, i)})"
| routes: "rp_err c = None \<Longrightarrow> route_rpc b en c = Some (None, c') \<Longrightarrow> rpc_step (c, W) (c', W)"
| breaks: "rp_err c = None \<Longrightarrow> route_rpc b en c = Some (Some e, c') \<Longrightarrow> rpc_step (c, W) (read_end e c', W)"
| reads_end: "rp_err c = None \<Longrightarrow> rpc_step (c, W) (read_end e c, W)"
| closes: "rpc_step (c, W) (close_rpc c, W)"
| takes_chunk: "(a, i) \<in> W \<Longrightarrow> take_chunk a c = Some (items, c') \<Longrightarrow> rpc_step (c, W) (c', W)"
| takes_exit: "(a, i) \<in> W \<Longrightarrow> rc_exit (rp_heap c ! a) = Some x \<Longrightarrow> rpc_step (c, W) (c, W - {(a, i)})"

inductive_cases rpc_stepE: "rpc_step (c, W) cw"

definition exit_of :: "nat \<Rightarrow> rpc_client \<Rightarrow> t3_error option option" where
  "exit_of a c = rc_exit (rp_heap c ! a)"

definition client_ok :: "rpc_client \<Rightarrow> bool" where
  "client_ok c \<longleftrightarrow>
     unat (rp_next c) = length (rp_heap c) \<and> distinct (map fst (rp_calls c))
     \<and> (\<forall>i a. map_of (rp_calls c) i = Some a \<longrightarrow> i = id_at a \<and> a < length (rp_heap c) \<and> exit_of a c = None)
     \<and> (\<forall>e. rp_err c = Some e \<longrightarrow> rp_calls c = [])"

definition rpc_inv :: "rpc_client \<times> (nat \<times> string) set \<Rightarrow> bool" where
  "rpc_inv cw \<longleftrightarrow>
     client_ok (fst cw)
     \<and> (\<forall>(a, i) \<in> snd cw. i = id_at a \<and> a < length (rp_heap (fst cw))
                          \<and> (exit_of a (fst cw) = None \<longrightarrow> map_of (rp_calls (fst cw)) i = Some a))"

text \<open>What a step of the read loop or of another caller does to a client: no exit is lost, and who loses its registration has one.\<close>

definition serves :: "rpc_client \<Rightarrow> rpc_client \<Rightarrow> bool" where
  "serves c c' \<longleftrightarrow>
     length (rp_heap c) \<le> length (rp_heap c')
     \<and> (\<forall>a x. a < length (rp_heap c) \<longrightarrow> exit_of a c = Some x \<longrightarrow> exit_of a c' = Some x)
     \<and> (\<forall>i a. map_of (rp_calls c) i = Some a \<longrightarrow> map_of (rp_calls c') i = Some a \<or> exit_of a c' \<noteq> None)"

lemma exit_of_same [simp]:
  "exit_of a (abandon i c) = exit_of a c" "exit_of a (c\<lparr>rp_err := x, rp_calls := y\<rparr>) = exit_of a c"
  "exit_of a (close_rpc c) = exit_of a c" "exit_of a (c\<lparr>rp_heap := (rp_heap c)[b := (rp_heap c ! b)\<lparr>rc_chunks := q\<rparr>]\<rparr>) = exit_of a c"
  by (simp_all add: exit_of_def abandon_def close_rpc_def) (cases "b < length (rp_heap c)"; simp add: nth_list_update list_update_beyond not_less)

lemma exit_of_send [simp]:
  "b < length (rp_heap c) \<Longrightarrow> exit_of a (send_exit b x c) = (if a = b then Some x else exit_of a c)"
  by (simp add: exit_of_def send_exit_def nth_list_update)

lemma send_exit_parts [simp]:
  "rp_next (send_exit a x c) = rp_next c" "rp_calls (send_exit a x c) = rp_calls c" "rp_err (send_exit a x c) = rp_err c"
  "length (rp_heap (send_exit a x c)) = length (rp_heap c)" "rp_closing (send_exit a x c) = rp_closing c"
  by (simp_all add: send_exit_def)

lemma abandon_parts [simp]:
  "rp_next (abandon i c) = rp_next c" "rp_calls (abandon i c) = AList.delete i (rp_calls c)" "rp_err (abandon i c) = rp_err c"
  "rp_heap (abandon i c) = rp_heap c" "rp_closing (abandon i c) = rp_closing c"
  by (simp_all add: abandon_def)

lemma client_registered:
  "client_ok c \<Longrightarrow> map_of (rp_calls c) i = Some a \<Longrightarrow> i = id_at a \<and> a < length (rp_heap c) \<and> exit_of a c = None"
  unfolding client_ok_def by blast

lemma client_abandon: "client_ok c \<Longrightarrow> client_ok (abandon i c)"
  by (auto simp: client_ok_def split: if_splits)

text \<open>An exit that is routed: the request is unregistered and has it.\<close>

lemma exit_served:
  assumes ok: "client_ok c" and a: "map_of (rp_calls c) i = Some a"
  shows "client_ok (send_exit a x (abandon i c))" "serves c (send_exit a x (abandon i c))"
proof -
  note r = client_registered [OF ok a]
  have other: "b \<noteq> a" if "map_of (rp_calls c) j = Some b" "j \<noteq> i" for j b
    using client_registered [OF ok that(1)] r that(2) by auto
  have "distinct (map fst (rp_calls c))" "unat (rp_next c) = length (rp_heap c)" "\<forall>e. rp_err c = Some e \<longrightarrow> rp_calls c = []"
    using ok by (simp_all add: client_ok_def)
  then show "client_ok (send_exit a x (abandon i c))"
    using r other client_registered [OF ok] unfolding client_ok_def by (simp add: fun_upd_def)
  show "serves c (send_exit a x (abandon i c))"
    using r other client_registered [OF ok] a unfolding serves_def by simp
qed

lemma route_cases:
  assumes "route_rpc b en c = Some (e, c')"
  shows "c' = c \<or> (\<exists>a q. c' = c\<lparr>rp_heap := (rp_heap c)[a := (rp_heap c ! a)\<lparr>rc_chunks := q\<rparr>]\<rparr>)
    \<or> (\<exists>i. map_of (rp_calls c) i = None \<and> c' = abandon i c)
    \<or> (\<exists>i a x. map_of (rp_calls c) i = Some a \<and> c' = send_exit a x (abandon i c))"
proof (cases "en_tag en \<in> {''Chunk'', ''Exit''} \<and> en_request en \<noteq> None")
  case True
  then obtain i where i: "en_request en = Some i" "en_tag en = ''Chunk'' \<or> en_tag en = ''Exit''" by auto
  show ?thesis
  proof (cases "map_of (rp_calls c) i")
    case None
    then show ?thesis using assms i by (auto simp: route_rpc_def)
  next
    case (Some a)
    show ?thesis
    proof (cases "en_tag en = ''Exit''")
      case True
      then have "c' = send_exit a (fst (exitOf en)) (abandon i c)"
        using assms i Some by (simp add: route_rpc_def Let_def split: prod.splits)
      then show ?thesis using Some by blast
    next
      case False
      then show ?thesis using assms i Some by (simp add: route_rpc_def Let_def split: if_splits option.splits) metis+
    qed
  qed
qed (use assms in \<open>auto simp: route_rpc_def split: if_splits option.splits\<close>)

lemma route_served:
  assumes ok: "client_ok c" and run: "route_rpc b en c = Some (e, c')"
  shows "client_ok c'" "serves c c'"
proof -
  consider "c' = c" | i a q where "c' = c\<lparr>rp_heap := (rp_heap c)[a := (rp_heap c ! a)\<lparr>rc_chunks := q\<rparr>]\<rparr>"
    | i where "map_of (rp_calls c) i = None" "c' = abandon i c"
    | i a x where "map_of (rp_calls c) i = Some a" "c' = send_exit a x (abandon i c)"
    using run route_cases by blast
  then have "client_ok c' \<and> serves c c'"
  proof cases
    case 4
    then show ?thesis using exit_served [OF ok] by simp
  qed (use ok client_registered [OF ok] in \<open>auto simp: serves_def client_ok_def split: if_splits\<close>)
  then show "client_ok c'" "serves c c'" by simp_all
qed

lemma send_all:
  assumes "\<forall>(i, a) \<in> set ps. a < length (rp_heap c)"
  shows "exit_of b (fold (\<lambda>(i, a). send_exit a x) ps c) = (if b \<in> snd ` set ps then Some x else exit_of b c)
    \<and> length (rp_heap (fold (\<lambda>(i, a). send_exit a x) ps c)) = length (rp_heap c)
    \<and> rp_calls (fold (\<lambda>(i, a). send_exit a x) ps c) = rp_calls c
    \<and> rp_next (fold (\<lambda>(i, a). send_exit a x) ps c) = rp_next c \<and> rp_err (fold (\<lambda>(i, a). send_exit a x) ps c) = rp_err c"
  using assms
proof (induction ps arbitrary: c)
  case (Cons p ps)
  obtain i a where p: "p = (i, a)" by (cases p)
  have "\<forall>(j, b) \<in> set ps. b < length (rp_heap (send_exit a x c))" using Cons.prems by simp
  note ih = Cons.IH [OF this]
  show ?case using ih Cons.prems by (simp add: p)
qed simp

lemma end_served:
  assumes ok: "client_ok c"
  shows "client_ok (read_end e c)" "serves c (read_end e c)"
proof -
  let ?c = "c\<lparr>rp_err := Some e, rp_calls := []\<rparr>"
  have addr: "\<forall>(i, a) \<in> set (rp_calls c). a < length (rp_heap ?c)"
    using ok client_registered [OF ok] in_set_map_of [of "rp_calls c"] by (fastforce simp: client_ok_def)
  note all = send_all [OF addr, of _ "Some e"]
  show "client_ok (read_end e c)" using ok all by (simp add: client_ok_def read_end_def)
  show "serves c (read_end e c)"
    unfolding serves_def
  proof (intro conjI allI impI)
    fix a x assume x: "exit_of a c = Some x"
    have "a \<notin> snd ` set (rp_calls c)"
    proof
      assume "a \<in> snd ` set (rp_calls c)"
      then obtain i where "(i, a) \<in> set (rp_calls c)" by auto
      then show False using client_registered [OF ok, of i a] ok x by (simp add: client_ok_def)
    qed
    then show "exit_of a (read_end e c) = Some x" using all x by (simp add: read_end_def)
  next
    fix i a assume "map_of (rp_calls c) i = Some a"
    then have "a \<in> snd ` set (rp_calls c)" by (force dest: map_of_SomeD)
    then show "map_of (rp_calls (read_end e c)) i = Some a \<or> exit_of a (read_end e c) \<noteq> None"
      using all by (simp add: read_end_def)
  qed (use all in \<open>simp add: read_end_def\<close>)
qed

subsection \<open>The invariant\<close>

lemma serves_inv: "rpc_inv (c, W) \<Longrightarrow> client_ok c' \<Longrightarrow> serves c c' \<Longrightarrow> rpc_inv (c', W)"
  unfolding rpc_inv_def serves_def by (fastforce simp: not_None_eq)

lemma inv_ok: "rpc_inv (c, W) \<Longrightarrow> client_ok c"
  by (simp add: rpc_inv_def)

lemma serves_refl: "serves c c" and serves_closed: "serves c (close_rpc c)"
  by (simp_all add: serves_def close_rpc_def exit_of_def)

lemma closed_ok: "client_ok c \<Longrightarrow> client_ok (close_rpc c)"
  by (simp add: client_ok_def close_rpc_def exit_of_def)

lemma request_registers:
  assumes ok: "client_ok c" and small: "unat (rp_next c) + 1 < 2 ^ 64" and run: "request_rpc streaming None c = (Inr (a, i), c')"
  shows "client_ok c'" "serves c c'" "i = id_at a" "a < length (rp_heap c')" "map_of (rp_calls c') i = Some a"
proof -
  have next_id: "unat (rp_next c + 1) = Suc (unat (rp_next c))"
    using small by (simp add: unat_word_ariths)
  have len: "unat (rp_next c) = length (rp_heap c)" using ok by (simp add: client_ok_def)
  have e: "rp_err c = None" using run by (auto simp: request_rpc_def split: option.splits)
  then have r: "a = length (rp_heap c)" "i = id_at a"
    "c' = c\<lparr>rp_next := rp_next c + 1, rp_calls := AList.update i a (rp_calls c),
            rp_heap := rp_heap c @ [\<lparr>rc_streams = streaming, rc_chunks = [], rc_exit = None\<rparr>]\<rparr>"
    using run by (auto simp: request_rpc_def Let_def request_id_def next_id len)
  then show "i = id_at a" "a < length (rp_heap c')" "map_of (rp_calls c') i = Some a" by simp_all
  have ex: "exit_of b c' = (if b = a then None else exit_of b c)" if "b \<le> a" for b
    using that r by (auto simp: exit_of_def nth_append)
  show "serves c c'"
    unfolding serves_def
  proof (intro conjI allI impI)
    fix b x assume "b < length (rp_heap c)" "exit_of b c = Some x"
    then show "exit_of b c' = Some x" using ex [of b] r(1) by simp
  next
    fix j b assume j: "map_of (rp_calls c) j = Some b"
    then have "j \<noteq> i" using client_registered [OF ok j] id_at_inj [of b a] r(1,2) by auto
    then show "map_of (rp_calls c') j = Some b \<or> exit_of b c' \<noteq> None" using j r(3) by simp
  qed (simp add: r(3))
  have "i = id_at b \<and> b < length (rp_heap c') \<and> exit_of b c' = None" if "map_of (rp_calls c') i = Some b" for i b
    using that r ex client_registered [OF ok, of i b] by (auto split: if_splits)
  moreover have "unat (rp_next c') = length (rp_heap c')" "distinct (map fst (rp_calls c'))" "rp_err c' = None"
    using r len next_id ok e by (simp_all add: client_ok_def)
  ultimately show "client_ok c'" unfolding client_ok_def by simp
qed

lemma chunk_taken:
  assumes "client_ok c" and "take_chunk a c = Some (items, c')"
  shows "client_ok c'" "serves c c'"
proof -
  obtain q where c': "c' = c\<lparr>rp_heap := (rp_heap c)[a := (rp_heap c ! a)\<lparr>rc_chunks := q\<rparr>]\<rparr>"
    using assms(2) by (auto simp: take_chunk_def split: list.splits)
  show "client_ok c'" using assms(1) by (simp add: c' client_ok_def)
  show "serves c c'" by (simp add: c' serves_def)
qed

lemma rpc_step_inv: "rpc_step cw cw' \<Longrightarrow> rpc_inv cw \<Longrightarrow> rpc_inv cw'"
proof (induction rule: rpc_step.induct)
  case (sends c streaming a i c' W)
  note ok = sends(3) [unfolded rpc_inv_def fst_conv, THEN conjunct1]
  note r = request_registers [OF ok sends(1,2)]
  have "rpc_inv (c', W)" by (rule serves_inv [OF sends(3) r(1,2)])
  then show ?case using r by (auto simp: rpc_inv_def)
next
  case (gives_up a i W c)
  then have "i = id_at a" by (auto simp: rpc_inv_def)
  then have "j \<noteq> i" if "(b, j) \<in> W - {(a, i)}" for b j
    using that gives_up(2) id_at_inj [of b a] by (auto simp: rpc_inv_def)
  then show ?case using gives_up(2) by (auto simp: rpc_inv_def client_abandon)
next
  case (routes c b en c' W)
  then show ?case using serves_inv route_served inv_ok by blast
next
  case (breaks c b en e c' W)
  have "client_ok c" using breaks(3) by (simp add: rpc_inv_def)
  then have c': "client_ok c'" "serves c c'" using route_served breaks(2) by blast+
  then have "rpc_inv (c', W)" using serves_inv breaks(3) by blast
  then show ?case using serves_inv end_served [OF c'(1)] by blast
next
  case (reads_end c e W)
  then show ?case using serves_inv end_served inv_ok by blast
next
  case (closes c W)
  then show ?case using serves_inv serves_closed closed_ok inv_ok by blast
next
  case (takes_chunk a i W c items c')
  then show ?case using serves_inv chunk_taken inv_ok by blast
next
  case (takes_exit a i W c x)
  then show ?case by (auto simp: rpc_inv_def)
qed

interpretation requests: machine "\<lambda>cw. cw = (dialRPC, {})" rpc_step rpc_inv
  by unfold_locales (simp add: rpc_inv_def client_ok_def dialRPC_def, rule rpc_step_inv)

lemma exit_stays:
  assumes "rpc_step (c, W) (c', W')" and inv: "rpc_inv (c, W)" and a: "a < length (rp_heap c)" and x: "exit_of a c = Some x"
  shows "exit_of a c' = Some x"
proof -
  have ok: "client_ok c" using inv by (simp add: rpc_inv_def)
  have keep: "exit_of a c2 = Some x" if "serves c1 c2" "a < length (rp_heap c1)" "exit_of a c1 = Some x" for c1 c2
    using that by (simp add: serves_def)
  have longer: "a < length (rp_heap c2)" if "serves c c2" for c2 using that a by (simp add: serves_def)
  consider "serves c c'" | c1 e where "serves c c1" "client_ok c1" "c' = read_end e c1" | i where "c' = abandon i c" | "c' = c"
    using assms(1)
  proof (cases rule: rpc_step.cases)
    case (breaks b en e c1)
    then show ?thesis using that(2) route_served [OF ok] by blast
  next
    case (sends streaming a i)
    then show ?thesis using that(1) request_registers(2) [OF ok] by blast
  qed (use that ok route_served(2) end_served(2) serves_closed chunk_taken(2) in blast)+
  then show ?thesis using keep [OF _ a x] keep [OF end_served(2) longer] x a by cases auto
qed

subsection \<open>Requests end\<close>

text \<open>
  C40. No caller hangs and none is answered twice: a request that is waited for is registered on a connection that is up,
  or its exit is in its channel; an exit, once there, is not replaced by any step; and an exit envelope for it, one that
  cannot be read included, is delivered at once.
\<close>

theorem requests_end_once:
  assumes "rpc_step\<^sup>*\<^sup>* (dialRPC, {}) (c, W)" and "(a, i) \<in> W"
  shows "(exit_of a c = None \<longrightarrow> rp_err c = None \<and> map_of (rp_calls c) i = Some a)
    \<and> (\<forall>x c' W'. exit_of a c = Some x \<longrightarrow> rpc_step (c, W) (c', W') \<longrightarrow> exit_of a c' = Some x)
    \<and> (\<forall>b en. en_tag en = ''Exit'' \<longrightarrow> en_request en = Some i
         \<longrightarrow> (\<exists>e c'. route_rpc b en c = Some (e, c') \<and> exit_of a c' \<noteq> None))"
proof (intro conjI allI impI)
  have inv: "rpc_inv (c, W)" using requests.reach_inv [OF refl assms(1)] .
  note ok = inv_ok [OF inv]
  have w: "a < length (rp_heap c)" "exit_of a c = None \<Longrightarrow> map_of (rp_calls c) i = Some a"
    using inv assms(2) by (auto simp: rpc_inv_def)
  show "rp_err c = None" if "exit_of a c = None"
    using w(2) [OF that] ok by (cases "rp_err c") (auto simp: client_ok_def)
  show "map_of (rp_calls c) i = Some a" if "exit_of a c = None" using w(2) [OF that] .
  show "exit_of a c' = Some x" if "exit_of a c = Some x" "rpc_step (c, W) (c', W')" for x c' W'
    using exit_stays [OF that(2) inv w(1) that(1)] .
  show "\<exists>e c'. route_rpc b en c = Some (e, c') \<and> exit_of a c' \<noteq> None"
    if en: "en_tag en = ''Exit''" "en_request en = Some i" for b en
  proof -
    obtain e c' where run: "route_rpc b en c = Some (e, c')"
      using en by (cases "map_of (rp_calls c) i"; cases "exitOf en") (simp_all add: route_rpc_def Let_def)
    have "exit_of a c' \<noteq> None"
    proof (cases "exit_of a c")
      case None
      then have "c' = send_exit a (fst (exitOf en)) (abandon i c)"
        using run en w(2) by (simp add: route_rpc_def Let_def split: prod.splits)
      then show ?thesis using w(1) by simp
    next
      case (Some x)
      then show ?thesis using route_served(2) [OF ok run] w(1) by (simp add: serves_def)
    qed
    then show ?thesis using run by blast
  qed
qed

text \<open>A subscription and a command in flight; the command's exit cannot be read, so the connection ends.\<close>

definition rpc_two :: rpc_client where
  "rpc_two = snd (request_rpc False None (snd (request_rpc True None dialRPC)))"

definition bad_exit :: rpc_envelope where
  "bad_exit = \<lparr>en_tag = ''Exit'', en_request = Some ''2'', en_values = None, en_exit = None\<rparr>"

definition broken :: "t3_error option \<times> rpc_client" where "broken = the (route_rpc False bad_exit rpc_two)"

lemma rpc_two_facts:
  "fst (request_rpc True None dialRPC) = Inr (0, ''1'')"
  "fst (request_rpc False None (snd (request_rpc True None dialRPC))) = Inr (1, ''2'')"
  "unat (rp_next (snd (request_rpc True None dialRPC))) = 1" "Option.is_none (rp_err rpc_two)"
  "Option.is_none (route_rpc False bad_exit rpc_two) = False" "Option.is_none (fst broken) = False"
  "exit_of 1 (read_end (ProtocolError '''') (snd broken)) = Some (Some (ProtocolError ''exit omitted its exit''))"
  by code_simp+

lemma requests_end_once_witness: "exit_of 0 (read_end (the (fst broken)) (snd broken)) \<noteq> None"
proof -
  note f = rpc_two_facts
  let ?c1 = "snd (request_rpc True None dialRPC)" and ?W = "{(1, ''2''), (0, ''1'')}"
  have s1: "rpc_step (dialRPC, {}) (?c1, {(0, ''1'')})"
    using rpc_step.sends [of dialRPC True 0 "''1''" ?c1 "{}"] f(1) by (simp add: prod_eq_iff) (simp add: dialRPC_def)
  have s2: "rpc_step (?c1, {(0, ''1'')}) (rpc_two, ?W)"
    using rpc_step.sends [of ?c1 False 1 "''2''" rpc_two "{(0, ''1'')}"] f(2,3) by (simp add: prod_eq_iff rpc_two_def)
  have r: "route_rpc False bad_exit rpc_two = Some (Some (the (fst broken)), snd broken)"
    using f(5,6) by (auto simp: broken_def Option.is_none_def)
  have s3: "rpc_step (rpc_two, ?W) (read_end (the (fst broken)) (snd broken), ?W)"
    using f(4) by (intro rpc_step.breaks [OF _ r]) (simp add: Option.is_none_def)
  have run: "rpc_step\<^sup>*\<^sup>* (dialRPC, {}) (read_end (the (fst broken)) (snd broken), ?W)"
    by (rule converse_rtranclp_into_rtranclp, rule s1, rule converse_rtranclp_into_rtranclp, rule s2, rule r_into_rtranclp, rule s3)
  have err: "rp_err (read_end e c) = Some e" for e c
  proof -
    have "rp_err (fold (\<lambda>(i, a). send_exit a x) ps c') = rp_err c'" for x c' and ps :: "(string \<times> nat) list"
      by (induction ps arbitrary: c') auto
    then show ?thesis by (simp add: read_end_def)
  qed
  have "(0, ''1'') \<in> ?W" by simp
  note ends = requests_end_once [OF run this, THEN conjunct1]
  show ?thesis
  proof
    assume "exit_of 0 (read_end (the (fst broken)) (snd broken)) = None"
    then have "rp_err (read_end (the (fst broken)) (snd broken)) = None" using ends by blast
    then show False unfolding err by simp
  qed
qed

end
