(* ===== verification/Spec2Isabelle.thy ===== *)
theory Spec2Isabelle
  imports TurnProps ThreadProps Classification TerminalProps Stranded Ids Events ClaudeProps HookProps WebhookProps LinearOutcome LinearDrain ArtifactProps T3Props T3RpcProps
begin

text \<open>
  A verification development of the server core of ATC (\<^verbatim>\<open>src/internal\<close>), the server that keeps a user's terminals,
  agent conversations (threads), projects and published documents, and mirrors what other programs say of them.

  \<^bold>\<open>How the program hangs together.\<close> A SQLite database holds the records; each domain service keeps a view of its own
  records in memory and changes both under a mutex. The Terminals service (\<^verbatim>\<open>internal/terminals\<close>) owns terminals and spaces
  and reconciles them with what the session backend reports. The Threads service (\<^verbatim>\<open>internal/threads\<close>) owns conversations:
  which provider conversation is which thread, which terminal shows it, and its status and latest turn, which Integrations
  only ever observe. Projects are directories threads are filed under. The coordinator (\<^verbatim>\<open>internal/application\<close>) orders
  calls that span domains. Integrations bring evidence in: Claude by hook deliveries authorised by a secret, T3 Code by a
  subscription over a socket, Linear by webhooks, and Linear is answered through an outbox. Artifacts are versioned documents with
  their content on disk. Every change is announced through an event hub with numbered events.

  \<^bold>\<open>Reading conventions.\<close> A Go struct is a record with the source's fields, a Go map an association list with distinct keys,
  an error a value of a sum type; an operation under a mutex is one function from the state to a result and the next state,
  and one that releases its mutex, or that a crash can cut, is split there, so that other steps can be put between its parts.
  The environment is arbitrary: the clock, driver failures and random suffixes are functions of a counter in the state, so a
  theorem covers every answer; what an external program answers is an argument or a function of a counter. A failed database
  statement writes nothing. The state records extend each other along the call graph (\<open>world\<close>, the database, terminals,
  threads, and above them the webhook inbox with Linear, the artifacts, and the T3 Code mirror), so an operation of a lower domain runs
  unchanged on the state of a higher one.

  \<^bold>\<open>The model.\<close>
  \<^item> Prelude: instants, errors, the outside world, association lists, and the locale \<open>machine\<close> of a step relation with an
    invariant. GoStrings: what is used of \<^verbatim>\<open>strings\<close> and \<^verbatim>\<open>filepath\<close>. Ids: \<^verbatim>\<open>ids/ids.go\<close>, rejection sampling over byte buffers and UUIDs.
  \<^item> Api, Records, Store: \<^verbatim>\<open>internal/api\<close>, the record types, and \<^verbatim>\<open>internal/store\<close> with its statements, keys and foreign keys.
  \<^item> Spaces, Terminals: \<^verbatim>\<open>terminals/spaces.go\<close> and \<^verbatim>\<open>terminals/service.go\<close>, reconciliation in its three phases and creation in its
    critical sections. Projects: \<^verbatim>\<open>projects/projects.go\<close>.
  \<^item> Turns: \<^verbatim>\<open>threads/turns.go\<close>, pure rules on one record. Threads and ThreadOps: \<^verbatim>\<open>threads/service.go\<close>, observation first, then the
    user's operations; \<^verbatim>\<open>Open\<close> is three steps around the launch. Application: \<^verbatim>\<open>application/application.go\<close>.
  \<^item> Events: \<^verbatim>\<open>events/events.go\<close>, with 64-bit sequence numbers and a heap of channels.
  \<^item> HookAuth, Claude: \<^verbatim>\<open>integrations/hookauth\<close> with registrations as a heap of objects, and \<^verbatim>\<open>integrations/claude\<close>.
  \<^item> Webhooks, LinearApi, LinearMessages, Linear: \<^verbatim>\<open>internal/webhooks\<close>, \<^verbatim>\<open>store/webhooks.go\<close>, \<^verbatim>\<open>store/linear.go\<close>, \<^verbatim>\<open>integrations/linear\<close>. A session's
    goroutine is cut into claim, start and outcome; its closure's variables are a table.
  \<^item> Archives, Artifacts: \<^verbatim>\<open>internal/artifacts\<close> and \<^verbatim>\<open>store/artifacts.go\<close>; \<^verbatim>\<open>Publish\<close> is cut at its lock, and where the content is placed
    and the row is not written, where a process may die.
  \<^item> T3Shell, T3Rpc, T3Code: \<^verbatim>\<open>integrations/t3code\<close>: the checks on what T3 sends, the requests in flight over one socket, and the mirror,
    whose loop is cut where it waits (\<open>run_begin\<close>, \<open>handle_item\<close>, \<open>run_end\<close>).

  \<^bold>\<open>The proofs.\<close>
  \<^item> ThreadsInv states the invariant of the Threads service and its database; ThreadsSafety and Restart prove it for every handler
    of every domain and for the load of a new process; Server is the resulting machine, whose \<open>reachable\<close> states the properties of
    Flight, ThreadProps, TurnProps, Classification and TerminalProps speak of. Stranded exhibits a run of the code that leaves
    a thread live with nothing holding it.
  \<^item> HookProps, ClaudeProps: a revoked secret delivers nothing, and what a delivery may touch. Ids, Events: minting, and a subscriber's view.
  \<^item> WebhookProps: accepted work stays until it is processed. LinearFrame to LinearDrain: one conversation for a session however
    deliveries, goroutines, sends and restarts interleave; its life cycle; the exact turn that answers it; that an owed call
    is given up only on an answer Linear gave to a post of it, and that the owed calls drain.
  \<^item> ThreadProps keeps a ledger of the opens under way beside the server, to say that no thread is resumed twice at once.
  \<^item> Archives, ArtifactProps: extraction stays below its directory; histories are dense, versions immutable, publications at most once
    across crashes.
  \<^item> T3Props, T3RpcProps: a snapshot is mirrored exactly, a resumed stream gives the copy of an uninterrupted one, T3
    has been asked to revoke the sessions that were replaced (while the session file can be read), and every request ends exactly once.

  \<^bold>\<open>Interfaces.\<close> \<open>machine\<close> (Prelude) is what every argument over runs rests on; its instances are \<open>feed\<close> (Events), \<open>server\<close>
  (Server), \<open>launches\<close> (HookProps), \<open>inbox\<close> (WebhookProps), \<open>sessions\<close> (LinearProps), \<open>documents\<close> (ArtifactProps), \<open>mirror\<close> (T3Props)
  and \<open>requests\<close> (T3RpcProps), each on the model's own steps.

  \<^bold>\<open>Bounds and fuel.\<close> The loop that re-rolls an identifier reads a tape of candidates and answers \<open>ErrStarved\<close> when the tape is used
  up: the loop has not returned; theorems say so where it matters. The verification window of a create is the source's loop with
  its deadline, shown to end within 800 polls. The reads of a T3 response are the source's three. The ticket loop of T3 terminates by a measure: it repeats only
  after it gave up the session it had. Counters of 64 bits (the event hub, the requests of a socket) are words; where a property needs that
  they have not wrapped, it says so.

  \<^bold>\<open>Not modelled.\<close> The command line and the terminal user interface, HTTP routing and JSON, the remote client, service units and
  upgrades are presentation and operating-system glue. zmx, Tailscale, SQLite, tar, gzip, JSON, HMAC, SHA-256, T3, Codex and Linear
  themselves are outside: their answers are parameters. The Codex observer and the Integration catalog enter as
  evidence and as parameters of the coordinator. Timer loops that only repeat a modelled operation are a step relation. Log lines,
  and in places the words of an error, are left out. \<^verbatim>\<open>src/experiments\<close> holds prototypes outside the product.
\<close>

end
